(* ===== verification/Prelude.thy ===== *)
theory Prelude
  imports Complex_Main "HOL-Library.Sublist"
begin

text \<open>
  The values every component shares: JavaScript values of type \<open>unknown\<close>, the errors of
  \<open>src/errors.ts\<close>, decimal numerals in strings, and the array and string operations of the
  language that the source calls, with the lemmas about them.

  Strings are lists of bytes (UTF-8), so a length is a byte length; the source counts UTF-16
  units in the few places where it measures a string by \<open>.length\<close>, which is the same for ASCII.
  Numbers are integers: the program's own numbers are counts, milliseconds and sequence numbers
  below \<open>2^53\<close>, where JavaScript's arithmetic is exact.
\<close>

section \<open>Collections of rules\<close>

named_theorems js_simps "evaluation rules of the JavaScript primitives"

section \<open>JavaScript values\<close>

text \<open>A value of type \<open>unknown\<close>. An object is the list of its own properties, in order.\<close>

datatype json =
    JUndefined
  | JNull
  | JBool bool
  | JNum int
  | JStr string
  | JArr "json list"
  | JObj "(string \<times> json) list"

fun jtruthy :: "json \<Rightarrow> bool" where
  "jtruthy JUndefined = False"
| "jtruthy JNull = False"
| "jtruthy (JBool b) = b"
| "jtruthy (JNum n) = (n \<noteq> 0)"
| "jtruthy (JStr s) = (s \<noteq> [])"
| "jtruthy (JArr _) = True"
| "jtruthy (JObj _) = True"

text \<open>Property access \<open>value.key\<close>; a missing property is \<open>undefined\<close>.\<close>

fun jget :: "json \<Rightarrow> string \<Rightarrow> json" where
  "jget (JObj kvs) k = (case map_of kvs k of None \<Rightarrow> JUndefined | Some v \<Rightarrow> v)"
| "jget _ _ = JUndefined"

fun is_jobj :: "json \<Rightarrow> bool" where
  "is_jobj (JObj _) = True"
| "is_jobj _ = False"

fun is_jstr :: "json \<Rightarrow> bool" where
  "is_jstr (JStr _) = True"
| "is_jstr _ = False"

text \<open>An optional string property of a typed object, as a value and back.\<close>

fun jopt :: "string option \<Rightarrow> json" where
  "jopt None = JUndefined"
| "jopt (Some s) = JStr s"

fun jstr_opt :: "json \<Rightarrow> string option" where
  "jstr_opt (JStr s) = Some s"
| "jstr_opt _ = None"

text \<open>JavaScript truthiness of an optional string: neither \<open>undefined\<close> nor empty.\<close>

fun truthy :: "string option \<Rightarrow> bool" where
  "truthy None = False"
| "truthy (Some s) = (s \<noteq> [])"

text \<open>The operator \<open>a ?? b\<close> on optional values.\<close>

fun orElse :: "'a option \<Rightarrow> 'a option \<Rightarrow> 'a option" where
  "orElse None b = b"
| "orElse (Some a) b = Some a"

section \<open>Decimal numerals\<close>

definition digit_char :: "nat \<Rightarrow> char" where
  "digit_char d = char_of (48 + d)"

definition digit_val :: "char \<Rightarrow> nat" where
  "digit_val c = of_char c - 48"

definition is_digit :: "char \<Rightarrow> bool" where
  "is_digit c \<longleftrightarrow> 48 \<le> (of_char c :: nat) \<and> (of_char c :: nat) \<le> 57"

fun dec :: "nat \<Rightarrow> string" where
  "dec n = (if n < 10 then [digit_char n] else dec (n div 10) @ [digit_char (n mod 10)])"

declare dec.simps [simp del]

definition undec :: "string \<Rightarrow> nat" where
  "undec s = foldl (\<lambda>a c. 10 * a + digit_val c) 0 s"

text \<open>\<open>String(value)\<close> for the values whose rendering the program relies on.\<close>

definition int_string :: "int \<Rightarrow> string" where
  "int_string n = (if n < 0 then CHR ''-'' # dec (nat (- n)) else dec (nat n))"

fun join :: "string \<Rightarrow> string list \<Rightarrow> string" where
  "join sep [] = []"
| "join sep [s] = s"
| "join sep (s # t # ts) = s @ sep @ join sep (t # ts)"

fun js_string :: "json \<Rightarrow> string" where
  "js_string JUndefined = ''undefined''"
| "js_string JNull = ''null''"
| "js_string (JBool b) = (if b then ''true'' else ''false'')"
| "js_string (JNum n) = int_string n"
| "js_string (JStr s) = s"
| "js_string (JArr vs) = join '','' (map (\<lambda>v. if v = JUndefined \<or> v = JNull then [] else js_string v) vs)"
| "js_string (JObj _) = ''[object Object]''"

section \<open>Strings and arrays\<close>

definition starts_with :: "string \<Rightarrow> string \<Rightarrow> bool" where
  "starts_with p s \<longleftrightarrow> take (length p) s = p"

definition is_space :: "char \<Rightarrow> bool" where
  "is_space c \<longleftrightarrow> c = CHR '' '' \<or> (9 \<le> (of_char c :: nat) \<and> (of_char c :: nat) \<le> 13)"

definition trim :: "string \<Rightarrow> string" where
  "trim s = rev (dropWhile is_space (rev (dropWhile is_space s)))"

text \<open>\<open>s.split(c)\<close> for a one-character separator: always at least one piece.\<close>

fun split_on :: "'a \<Rightarrow> 'a list \<Rightarrow> 'a list list" where
  "split_on c [] = [[]]"
| "split_on c (x # xs) =
     (if x = c then [] # split_on c xs
      else (case split_on c xs of [] \<Rightarrow> [[x]] | y # ys \<Rightarrow> (x # y) # ys))"

text \<open>\<open>xs.slice(-n)\<close> for a positive \<open>n\<close>: the last \<open>n\<close> elements.\<close>

definition last_n :: "nat \<Rightarrow> 'a list \<Rightarrow> 'a list" where
  "last_n n xs = drop (length xs - n) xs"

text \<open>The elements up to and including the first that satisfies \<open>P\<close>.\<close>

fun through :: "('a \<Rightarrow> bool) \<Rightarrow> 'a list \<Rightarrow> 'a list" where
  "through P [] = []"
| "through P (x # xs) = (if P x then [x] else x # through P xs)"

text \<open>\<open>{ ...object, key: value }\<close>.\<close>

fun jset :: "string \<Rightarrow> json \<Rightarrow> (string \<times> json) list \<Rightarrow> (string \<times> json) list" where
  "jset k v [] = [(k, v)]"
| "jset k v ((k', v') # kvs) = (if k' = k then (k, v) # kvs else (k', v') # jset k v kvs)"

definition to_lower_char :: "char \<Rightarrow> char" where
  "to_lower_char c = (if 65 \<le> (of_char c :: nat) \<and> (of_char c :: nat) \<le> 90 then char_of ((of_char c :: nat) + 32) else c)"

definition to_lower :: "string \<Rightarrow> string" where
  "to_lower s = map to_lower_char s"

text \<open>
  \<open>xs.slice(i, j)\<close> on arrays and strings, for integers \<open>i\<close> and \<open>j\<close>: a negative position counts
  from the end, positions are clamped to the array, and an empty range gives the empty array.
\<close>

definition slice_pos :: "nat \<Rightarrow> int \<Rightarrow> nat" where
  "slice_pos len i = (if i < 0 then nat (int len + i) else min len (nat i))"

definition slice :: "'a list \<Rightarrow> int \<Rightarrow> int \<Rightarrow> 'a list" where
  "slice xs i j =
     (let a = slice_pos (length xs) i; b = slice_pos (length xs) j in take (b - a) (drop a xs))"

definition slice_from :: "'a list \<Rightarrow> int \<Rightarrow> 'a list" where
  "slice_from xs i = drop (slice_pos (length xs) i) xs"

text \<open>\<open>xs.sort(compare)\<close>: stable, here by insertion.\<close>

fun sort_insert :: "('a \<Rightarrow> 'a \<Rightarrow> int) \<Rightarrow> 'a \<Rightarrow> 'a list \<Rightarrow> 'a list" where
  "sort_insert cmp x [] = [x]"
| "sort_insert cmp x (y # ys) = (if cmp x y \<le> 0 then x # y # ys else y # sort_insert cmp x ys)"

definition js_sort :: "('a \<Rightarrow> 'a \<Rightarrow> int) \<Rightarrow> 'a list \<Rightarrow> 'a list" where
  "js_sort cmp xs = foldr (sort_insert cmp) xs []"

text \<open>\<open>typeof v === "object" && v !== null\<close>, and the same without arrays.\<close>

definition record_like :: "json \<Rightarrow> bool" where
  "record_like v \<longleftrightarrow> (case v of JObj _ \<Rightarrow> True | JArr _ \<Rightarrow> True | _ \<Rightarrow> False)"

definition isRecord :: "json \<Rightarrow> bool" where
  "isRecord v = is_jobj v"

fun nullish :: "json \<Rightarrow> bool" where
  "nullish JUndefined = True"
| "nullish JNull = True"
| "nullish _ = False"

text \<open>\<open>String(value ?? fallback)\<close>.\<close>

definition string_or :: "json \<Rightarrow> string \<Rightarrow> string" where
  "string_or v fallback = (if nullish v then fallback else js_string v)"

section \<open>Errors: src/errors.ts\<close>

datatype error_code =
    InvalidParams | Unauthorized | Forbidden | NotFound | Busy | Capacity
  | ExternalWriterDetected | WorkerCrashed | PiRpcError | Timeout
  | EventHistoryLost | StreamInterrupted | StreamOverflow | Internal

fun error_code_name :: "error_code \<Rightarrow> string" where
  "error_code_name InvalidParams = ''invalidParams''"
| "error_code_name Unauthorized = ''unauthorized''"
| "error_code_name Forbidden = ''forbidden''"
| "error_code_name NotFound = ''notFound''"
| "error_code_name Busy = ''busy''"
| "error_code_name Capacity = ''capacity''"
| "error_code_name ExternalWriterDetected = ''externalWriterDetected''"
| "error_code_name WorkerCrashed = ''workerCrashed''"
| "error_code_name PiRpcError = ''piRpcError''"
| "error_code_name Timeout = ''timeout''"
| "error_code_name EventHistoryLost = ''eventHistoryLost''"
| "error_code_name StreamInterrupted = ''streamInterrupted''"
| "error_code_name StreamOverflow = ''streamOverflow''"
| "error_code_name Internal = ''internal''"

text \<open>
  What a \<open>throw\<close> or a rejected promise carries: a \<open>DaemonError\<close> with its code, message and
  optional data, another \<open>Error\<close> with its message, or any other value, given by its
  \<open>String(value)\<close>.
\<close>

datatype thrown =
    DaemonError error_code string "(string \<times> json) list option"
  | JsError string
  | ThrownValue string

type_synonym 'a result = "thrown + 'a"

fun toDaemonError :: "thrown \<Rightarrow> thrown" where
  "toDaemonError (DaemonError c m d) = DaemonError c m d"
| "toDaemonError (JsError m) = DaemonError Internal m None"
| "toDaemonError (ThrownValue s) = DaemonError Internal s None"

fun thrown_code :: "thrown \<Rightarrow> error_code" where
  "thrown_code (DaemonError c m d) = c"
| "thrown_code (JsError m) = Internal"
| "thrown_code (ThrownValue s) = Internal"

text \<open>\<open>error instanceof Error ? error.message : String(error)\<close>.\<close>

fun thrown_message :: "thrown \<Rightarrow> string" where
  "thrown_message (DaemonError c m d) = m"
| "thrown_message (JsError m) = m"
| "thrown_message (ThrownValue s) = s"

section \<open>Lemmas\<close>

lemma truthy_iff: "truthy t \<longleftrightarrow> (\<exists>s. t = Some s \<and> s \<noteq> [])"
  by (cases t) auto

lemma jopt_eq_iff [simp]: "jopt a = jopt b \<longleftrightarrow> a = b"
  by (cases a; cases b) auto

lemma jopt_JStr [simp]: "jopt a = JStr s \<longleftrightarrow> a = Some s"
  by (cases a) auto

lemma toDaemonError_code [simp]: "thrown_code (toDaemonError e) = thrown_code e"
  by (cases e) auto

lemma error_code_name_inj: "error_code_name a = error_code_name b \<Longrightarrow> a = b"
  by (cases a; cases b) simp_all

lemma of_char_digit: "d < 10 \<Longrightarrow> of_char (digit_char d) = 48 + d"
  by (simp add: digit_char_def)

lemma digit_val_char [simp]: "d < 10 \<Longrightarrow> digit_val (digit_char d) = d"
  by (simp add: digit_val_def of_char_digit)

lemma is_digit_char [simp]: "d < 10 \<Longrightarrow> is_digit (digit_char d)"
  by (simp add: is_digit_def of_char_digit)

lemma dec_small [js_simps]: "n < 10 \<Longrightarrow> dec n = [digit_char n]"
  by (subst dec.simps) simp

lemma dec_big [js_simps]: "\<not> n < 10 \<Longrightarrow> dec n = dec (n div 10) @ [digit_char (n mod 10)]"
  by (subst dec.simps) simp

lemma undec_snoc: "undec (s @ [c]) = 10 * undec s + digit_val c"
  by (simp add: undec_def)

lemma undec_dec [simp]: "undec (dec n) = n"
proof (induction n rule: dec.induct)
  case (1 n)
  show ?case
  proof (cases "n < 10")
    case True
    then show ?thesis by (simp add: dec_small undec_def)
  next
    case False
    with "1.IH" show ?thesis by (simp add: dec_big undec_snoc)
  qed
qed

lemma dec_inj [simp]: "dec m = dec n \<longleftrightarrow> m = n"
  by (metis undec_dec)

lemma dec_digits: "list_all is_digit (dec n)"
proof (induction n rule: dec.induct)
  case (1 n)
  then show ?case by (cases "n < 10") (simp_all add: dec_small dec_big)
qed

lemma dec_nonempty [simp]: "dec n \<noteq> []"
  by (subst dec.simps) simp

lemma dec_canonical: "dec n = ''0'' \<or> hd (dec n) \<noteq> CHR ''0''"
proof (induction n rule: dec.induct)
  case (1 n)
  show ?case
  proof (cases "n < 10")
    case True
    then have "n \<in> set [0..<10]" by simp
    then show ?thesis by (auto simp: dec_small digit_char_def upt_rec)
  next
    case False
    then have "dec (n div 10) \<noteq> ''0''"
    proof -
      have "undec ''0'' = 0" by (simp add: undec_def digit_val_def)
      with False show ?thesis by (metis div_greater_zero_iff not_less undec_dec zero_less_numeral less_numeral_extra(3))
    qed
    with "1.IH" False show ?thesis by (simp add: dec_big)
  qed
qed

lemma split_on_not_Nil [simp]: "split_on c xs \<noteq> []"
  by (induction xs) (auto split: list.splits)

lemma split_on_absent: "c \<notin> set xs \<Longrightarrow> split_on c xs = [xs]"
  by (induction xs) auto

lemma split_on_append: "c \<notin> set xs \<Longrightarrow> split_on c (xs @ c # ys) = xs # split_on c ys"
  by (induction xs) auto

lemma last_n_length [simp]: "length (last_n n xs) = min n (length xs)"
  by (simp add: last_n_def)

lemma last_n_suffix: "\<exists>ys. xs = ys @ last_n n xs"
  by (metis append_take_drop_id last_n_def)

lemma rev_take_rev: "rev (take n (rev xs)) = last_n n xs"
  by (simp add: last_n_def take_rev)

lemma find_Some_iff_in: "List.find P xs = Some x \<Longrightarrow> x \<in> set xs \<and> P x"
  by (auto simp: find_Some_iff)

lemma through_append: "through P (xs @ ys) = (if \<exists>x \<in> set xs. P x then through P xs else xs @ through P ys)"
  by (induction xs) auto

lemma through_id: "\<forall>x \<in> set xs. \<not> P x \<Longrightarrow> through P xs = xs"
  by (induction xs) auto

lemma through_prefix: "prefix (through P xs) xs"
  by (induction xs) auto

lemma through_mono: "prefix (through P xs) (through P (xs @ ys))"
  by (simp add: through_append prefix_def) (metis through_id)

lemma slice_from_last: "0 < n \<Longrightarrow> slice_from xs (- int n) = last_n n xs"
  by (cases "n \<le> length xs") (simp_all add: slice_from_def slice_pos_def last_n_def of_nat_diff [symmetric] del: of_nat_diff)

lemma slice_page: "slice xs (int a) (int a + int n) = take n (drop a xs)"
  by (cases "a \<le> length xs") (auto simp: slice_def slice_pos_def Let_def nat_add_distrib min_def)

lemma slice_first: "slice xs 0 (int n) = take n xs"
  using slice_page [of xs 0 n] by simp

lemma js_sort_set [simp]: "set (js_sort cmp xs) = set xs"
proof -
  have "set (sort_insert cmp x ys) = insert x (set ys)" for x ys
    by (induction ys) auto
  then show ?thesis by (induction xs) (auto simp: js_sort_def)
qed

lemma js_sort_key: "js_sort (\<lambda>x y. f x - f y) xs = sort_key f xs"
proof -
  have "sort_insert (\<lambda>x y. f x - f y) x ys = insort_key f x ys" for x ys
    by (induction ys) auto
  then show ?thesis by (induction xs) (simp_all add: js_sort_def)
qed

lemma jget_jset [simp]: "jget (JObj (jset k v kvs)) k' = (if k' = k then v else jget (JObj kvs) k')"
  by (induction kvs) auto

end
