(* ===== verification/Protocol.thy ===== *)
theory Protocol
  imports Prelude
begin

text \<open>
  The wire vocabulary: daemon events (\<open>src/protocol/events.ts\<close>), JSON-RPC framing
  (\<open>src/protocol/json-rpc.ts\<close>) and \<open>JSON.stringify\<close> as the program uses it.
\<close>

section \<open>JSON text\<close>

definition hex_char :: "nat \<Rightarrow> char" where
  "hex_char d = (if d < 10 then char_of (48 + d) else char_of (87 + d))"

definition escape_char :: "char \<Rightarrow> string" where
  "escape_char c =
     (let n = (of_char c :: nat) in
      if n = 34 then [char_of (92 :: nat), c]
      else if n = 92 then [c, c]
      else if n = 8 then [char_of (92 :: nat), CHR ''b'']
      else if n = 9 then [char_of (92 :: nat), CHR ''t'']
      else if n = 10 then [char_of (92 :: nat), CHR ''n'']
      else if n = 12 then [char_of (92 :: nat), CHR ''f'']
      else if n = 13 then [char_of (92 :: nat), CHR ''r'']
      else if n < 32 then [char_of (92 :: nat), CHR ''u'', CHR ''0'', CHR ''0'', hex_char (n div 16), hex_char (n mod 16)]
      else [c])"

definition quote :: "string \<Rightarrow> string" where
  "quote s = CHR 0x22 # concat (map escape_char s) @ [CHR 0x22]"

text \<open>
  \<open>JSON.stringify(value)\<close>: a property whose value is \<open>undefined\<close> is left out, an array element
  that is \<open>undefined\<close> becomes \<open>null\<close>. (No caller passes \<open>undefined\<close> itself.)
\<close>

fun stringify :: "json \<Rightarrow> string"
  and stringify_elems :: "json list \<Rightarrow> string list"
  and stringify_props :: "(string \<times> json) list \<Rightarrow> string list" where
  "stringify JUndefined = ''null''"
| "stringify JNull = ''null''"
| "stringify (JBool b) = (if b then ''true'' else ''false'')"
| "stringify (JNum n) = int_string n"
| "stringify (JStr s) = quote s"
| "stringify (JArr vs) = ''['' @ join '','' (stringify_elems vs) @ '']''"
| "stringify (JObj kvs) = ''{'' @ join '','' (stringify_props kvs) @ ''}''"
| "stringify_elems [] = []"
| "stringify_elems (v # vs) = stringify v # stringify_elems vs"
| "stringify_props [] = []"
| "stringify_props ((k, v) # kvs) =
     (if v = JUndefined then stringify_props kvs
      else (quote k @ '':'' @ stringify v) # stringify_props kvs)"

section \<open>Daemon events: src/protocol/events.ts\<close>

datatype event_type =
    TurnAccepted | TurnStarted | RunStepStarted | RunStepCompleted
  | MessageDelta | MessageCompleted | ToolStarted | ToolUpdated | ToolCompleted
  | RetryScheduled | RetryCompleted | QueueUpdated | CompactionStarted | CompactionCompleted
  | ExtensionUiRequested | ExtensionUiCompleted | ExtensionError
  | TurnCompleted | TurnAborted | TurnFailed
  | WorkerStarted | WorkerIdle | WorkerCrashedEvent | ThreadUpdated

fun event_type_name :: "event_type \<Rightarrow> string" where
  "event_type_name TurnAccepted = ''turn.accepted''"
| "event_type_name TurnStarted = ''turn.started''"
| "event_type_name RunStepStarted = ''run.step.started''"
| "event_type_name RunStepCompleted = ''run.step.completed''"
| "event_type_name MessageDelta = ''message.delta''"
| "event_type_name MessageCompleted = ''message.completed''"
| "event_type_name ToolStarted = ''tool.started''"
| "event_type_name ToolUpdated = ''tool.updated''"
| "event_type_name ToolCompleted = ''tool.completed''"
| "event_type_name RetryScheduled = ''retry.scheduled''"
| "event_type_name RetryCompleted = ''retry.completed''"
| "event_type_name QueueUpdated = ''queue.updated''"
| "event_type_name CompactionStarted = ''compaction.started''"
| "event_type_name CompactionCompleted = ''compaction.completed''"
| "event_type_name ExtensionUiRequested = ''extension_ui.requested''"
| "event_type_name ExtensionUiCompleted = ''extension_ui.completed''"
| "event_type_name ExtensionError = ''extension.error''"
| "event_type_name TurnCompleted = ''turn.completed''"
| "event_type_name TurnAborted = ''turn.aborted''"
| "event_type_name TurnFailed = ''turn.failed''"
| "event_type_name WorkerStarted = ''worker.started''"
| "event_type_name WorkerIdle = ''worker.idle''"
| "event_type_name WorkerCrashedEvent = ''worker.crashed''"
| "event_type_name ThreadUpdated = ''thread.updated''"

definition DAEMON_EVENT_TYPES :: "string list" where
  "DAEMON_EVENT_TYPES = map event_type_name
     [TurnAccepted, TurnStarted, RunStepStarted, RunStepCompleted, MessageDelta, MessageCompleted,
      ToolStarted, ToolUpdated, ToolCompleted, RetryScheduled, RetryCompleted, QueueUpdated,
      CompactionStarted, CompactionCompleted, ExtensionUiRequested, ExtensionUiCompleted,
      ExtensionError, TurnCompleted, TurnAborted, TurnFailed, WorkerStarted, WorkerIdle,
      WorkerCrashedEvent, ThreadUpdated]"

text \<open>An event as a component hands it to \<open>EventBus.emit\<close>, before it has an id.\<close>

record draft =
  dr_type :: event_type
  dr_threadId :: "string option"
  dr_turnId :: "string option"
  dr_workerId :: "string option"
  dr_payload :: json
  dr_timestamp :: "string option"

record daemon_event =
  ev_eventId :: string
  ev_type :: event_type
  ev_timestamp :: string
  ev_threadId :: "string option"
  ev_turnId :: "string option"
  ev_workerId :: "string option"
  ev_payload :: json

definition event_json :: "daemon_event \<Rightarrow> json" where
  "event_json e = JObj
     [(''type'', JStr (event_type_name (ev_type e))), (''threadId'', jopt (ev_threadId e)),
      (''turnId'', jopt (ev_turnId e)), (''workerId'', jopt (ev_workerId e)),
      (''payload'', ev_payload e), (''eventId'', JStr (ev_eventId e)),
      (''timestamp'', JStr (ev_timestamp e))]"

definition isTerminalEventType :: "string \<Rightarrow> bool" where
  "isTerminalEventType type \<longleftrightarrow>
     type = ''turn.completed'' \<or> type = ''turn.failed'' \<or> type = ''turn.aborted''"

section \<open>Accepted turns: src/protocol/types.ts\<close>

record accepted_turn =
  ac_threadId :: string
  ac_turnId :: string
  ac_workerId :: string
  ac_status :: string
  ac_disposition :: "string option"

definition accepted_json :: "accepted_turn \<Rightarrow> json" where
  "accepted_json a = JObj
     [(''threadId'', JStr (ac_threadId a)), (''turnId'', JStr (ac_turnId a)), (''workerId'', JStr (ac_workerId a)),
      (''status'', JStr (ac_status a)), (''disposition'', jopt (ac_disposition a))]"

section \<open>Threads and workers on the wire: src/protocol/types.ts\<close>

record thread_summary =
  th_threadId :: string
  th_path :: "string option"
  th_cwd :: string
  th_name :: "string option"
  th_parent :: "string option"
  th_created :: "string option"
  th_modified :: "string option"
  th_messageCount :: nat
  th_firstMessage :: "string option"
  th_status :: string

record worker_status =
  ws_workerId :: string
  ws_pid :: "nat option"
  ws_cwd :: string
  ws_state :: string
  ws_threadId :: "string option"
  ws_version :: "string option"
  ws_startedAt :: string
  ws_lastUsedAt :: string

section \<open>JSON-RPC: src/protocol/json-rpc.ts\<close>

definition isJsonRpcRequest :: "json \<Rightarrow> bool" where
  "isJsonRpcRequest v \<longleftrightarrow>
     jtruthy v \<and> record_like v \<and>
     jget v ''jsonrpc'' = JStr ''2.0'' \<and> is_jstr (jget v ''method'')"

text \<open>\<open>id ?? null\<close> for a request id.\<close>

fun request_id :: "json \<Rightarrow> json" where
  "request_id JUndefined = JNull"
| "request_id i = i"

definition success :: "json \<Rightarrow> json \<Rightarrow> json" where
  "success i result = JObj [(''jsonrpc'', JStr ''2.0''), (''id'', request_id i), (''result'', result)]"

fun error_object :: "thrown \<Rightarrow> json" where
  "error_object (DaemonError c m d) =
     JObj ([(''code'', JStr (error_code_name c)), (''message'', JStr m)] @
           (case d of None \<Rightarrow> [] | Some kvs \<Rightarrow> [(''data'', JObj kvs)]))"
| "error_object (JsError m) = JObj [(''code'', JStr ''internal''), (''message'', JStr m)]"
| "error_object (ThrownValue s) = JObj [(''code'', JStr ''internal''), (''message'', JStr s)]"

definition failure :: "json \<Rightarrow> thrown \<Rightarrow> json" where
  "failure i e = JObj [(''jsonrpc'', JStr ''2.0''), (''id'', request_id i),
                       (''error'', error_object (toDaemonError e))]"

text \<open>\<open>json_parse\<close> is \<open>JSON.parse\<close>: \<open>Inl\<close> the message of the \<open>SyntaxError\<close>, or the value.\<close>

definition parseJsonRpcLine :: "(string \<Rightarrow> string + json) \<Rightarrow> string \<Rightarrow> json result" where
  "parseJsonRpcLine json_parse line =
     (case json_parse line of
        Inl message \<Rightarrow> Inl (DaemonError InvalidParams ''Invalid JSON-RPC JSON'' (Some [(''cause'', JStr message)]))
      | Inr parsed \<Rightarrow>
          if isJsonRpcRequest parsed then Inr parsed
          else Inl (DaemonError InvalidParams ''Expected JSON-RPC 2.0 request'' None))"

definition encodeJsonLine :: "json \<Rightarrow> string" where
  "encodeJsonLine v = stringify v @ [CHR 0x0A]"

fun normalizeParams :: "json \<Rightarrow> json result" where
  "normalizeParams JUndefined = Inr (JObj [])"
| "normalizeParams JNull = Inr (JObj [])"
| "normalizeParams (JObj kvs) = Inr (JObj kvs)"
| "normalizeParams _ = Inl (DaemonError InvalidParams ''JSON-RPC params must be an object'' None)"

section \<open>Lemmas\<close>

lemma isJsonRpcRequest_iff:
  "isJsonRpcRequest v \<longleftrightarrow> jtruthy v \<and> (is_jobj v \<or> (\<exists>vs. v = JArr vs)) \<and>
     jget v ''jsonrpc'' = JStr ''2.0'' \<and> is_jstr (jget v ''method'')"
  by (cases v) (simp_all add: isJsonRpcRequest_def record_like_def)

lemma event_type_in_list [simp]: "event_type_name t \<in> set DAEMON_EVENT_TYPES"
  by (cases t) (simp_all add: DAEMON_EVENT_TYPES_def)

lemma isTerminal_name [simp]:
  "isTerminalEventType (event_type_name t) \<longleftrightarrow> t = TurnCompleted \<or> t = TurnFailed \<or> t = TurnAborted"
  by (cases t) (simp_all add: isTerminalEventType_def)

text \<open>The text of a value never contains a line feed, so a line is exactly one message.\<close>

definition one_line :: "string \<Rightarrow> bool" where
  "one_line s \<longleftrightarrow> CHR 0x0A \<notin> set s"

lemma one_line_simps [simp]:
  "one_line []" "one_line (c # s) \<longleftrightarrow> c \<noteq> CHR 0x0A \<and> one_line s"
  "one_line (s @ t) \<longleftrightarrow> one_line s \<and> one_line t"
  by (auto simp: one_line_def)

lemma char_of_not_newline: "n < 256 \<Longrightarrow> n \<noteq> 10 \<Longrightarrow> char_of (n :: nat) \<noteq> CHR 0x0A"
proof
  assume n: "n < 256" "n \<noteq> 10" and "char_of n = CHR 0x0A"
  then have "of_char (char_of n :: char) = (10 :: nat)" by simp
  with n show False by simp
qed

lemma digit_char_not_newline: "d < 10 \<Longrightarrow> digit_char d \<noteq> CHR 0x0A"
  by (simp add: digit_char_def char_of_not_newline)

lemma hex_char_not_newline: "d < 16 \<Longrightarrow> hex_char d \<noteq> CHR 0x0A"
  by (simp add: hex_char_def char_of_not_newline)

lemma dec_one_line: "one_line (dec n)"
proof (induction n rule: dec.induct)
  case (1 n)
  then show ?case by (cases "n < 10") (simp_all add: dec_small dec_big digit_char_not_newline)
qed

lemma escape_char_one_line: "one_line (escape_char c)"
proof -
  have "c \<noteq> CHR 0x0A" if "of_char c \<noteq> (10 :: nat)"
    using that by auto
  then show ?thesis
    by (auto simp: escape_char_def Let_def char_of_not_newline hex_char_not_newline)
qed

lemma quote_one_line: "one_line (quote s)"
  by (induction s) (simp_all add: quote_def escape_char_one_line)

lemma join_one_line: "one_line sep \<Longrightarrow> \<forall>s \<in> set ss. one_line s \<Longrightarrow> one_line (join sep ss)"
  by (induction sep ss rule: join.induct) auto

lemma stringify_one_line_all:
  "one_line (stringify v)" "\<forall>s \<in> set (stringify_elems vs). one_line s"
  "\<forall>s \<in> set (stringify_props kvs). one_line s"
  by (induction v and vs and kvs rule: stringify_stringify_elems_stringify_props.induct)
    (auto simp: int_string_def dec_one_line quote_one_line join_one_line)

end
