(* ===== verification/Event_Bus.thy ===== *)
theory Event_Bus
  imports Protocol
begin

text \<open>
  The event bus of \<open>src/service/event-bus.ts\<close>: a bounded replay buffer, cursors that name a
  position in it, and the delivery of events to subscribers. A listener may call back into the
  bus while it is being called (\<open>emit\<close>, \<open>unsubscribe\<close>, \<open>subscribe\<close>) and may throw; the two
  \<open>delivering\<close> flags of the source order what happens then, and the model keeps them.

  A filter is the \<open>unknown\<close> value the caller passes. Subscription ids are \<open>sub_\<close> and a fresh
  number, standing for \<open>crypto.randomUUID()\<close>, whose results are distinct; the epoch of the bus is
  the one \<open>randomUUID()\<close> drawn when it was created. \<open>clock n\<close> is \<open>new Date().toISOString()\<close> at the
  moment event \<open>n\<close> is emitted.
\<close>

section \<open>Filters\<close>

definition filter_keys :: "string list" where
  "filter_keys = [''threadId'', ''turnId'', ''sinceEventId'', ''eventTypes'']"

fun optional_nonempty_string :: "json \<Rightarrow> bool" where
  "optional_nonempty_string JUndefined = True"
| "optional_nonempty_string (JStr s) = (s \<noteq> [])"
| "optional_nonempty_string _ = False"

fun valid_event_types :: "json \<Rightarrow> bool" where
  "valid_event_types JUndefined = True"
| "valid_event_types (JArr ts) = list_all (\<lambda>t. t \<in> JStr ` set DAEMON_EVENT_TYPES) ts"
| "valid_event_types _ = False"

fun validateEventFilter :: "json \<Rightarrow> json result" where
  "validateEventFilter (JObj kvs) =
     (case List.find (\<lambda>k. k \<notin> set filter_keys) (map fst kvs) of
        Some key \<Rightarrow> Inl (DaemonError InvalidParams (''Unknown event filter: '' @ key) None)
      | None \<Rightarrow>
          (case List.find (\<lambda>field. \<not> optional_nonempty_string (jget (JObj kvs) field))
                  [''threadId'', ''turnId'', ''sinceEventId''] of
             Some field \<Rightarrow> Inl (DaemonError InvalidParams (field @ '' must be a non-empty string'') None)
           | None \<Rightarrow>
               if \<not> valid_event_types (jget (JObj kvs) ''eventTypes'')
               then Inl (DaemonError InvalidParams ''Invalid eventTypes filter'' None)
               else Inr (JObj kvs)))"
| "validateEventFilter _ = Inl (DaemonError InvalidParams ''Event filter must be an object'' None)"

definition matchesFilter :: "daemon_event \<Rightarrow> json \<Rightarrow> bool" where
  "matchesFilter event flt \<longleftrightarrow>
     (\<not> jtruthy (jget flt ''threadId'') \<or> jopt (ev_threadId event) = jget flt ''threadId'') \<and>
     (\<not> jtruthy (jget flt ''turnId'') \<or> jopt (ev_turnId event) = jget flt ''turnId'') \<and>
     (case jget flt ''eventTypes'' of
        JArr ts \<Rightarrow> ts = [] \<or> JStr (event_type_name (ev_type event)) \<in> set ts
      | _ \<Rightarrow> True)"

section \<open>The state of the bus\<close>

text \<open>
  What a listener does when it is called, given the events it has been called with so far
  (the latest one last): its synchronous calls to the bus, and whether it throws after them.
\<close>

datatype bus_call =
    Emit draft
  | Unsubscribe string
  | Subscribe json "daemon_event list \<Rightarrow> bus_call list \<times> bool"

type_synonym listener = "daemon_event list \<Rightarrow> bus_call list \<times> bool"

text \<open>\<open>su_seen\<close> records the calls of the listener; the source has no such field.\<close>

record subscriber =
  su_filter :: json
  su_listener :: listener
  su_liveAfter :: nat
  su_queue :: "daemon_event list"
  su_delivering :: bool
  su_seen :: "daemon_event list"

record bus =
  bu_epoch :: string
  bu_clock :: "nat \<Rightarrow> string"
  bu_replayLimit :: nat
  bu_nextId :: nat
  bu_replay :: "daemon_event list"
  bu_pending :: "(nat \<times> daemon_event) list"
  bu_delivering :: bool
  bu_subscribers :: "string list"
  bu_objects :: "string \<Rightarrow> subscriber"
  bu_fresh :: nat

definition no_subscriber :: subscriber where
  "no_subscriber = \<lparr>su_filter = JObj [], su_listener = (\<lambda>_. ([], False)), su_liveAfter = 0,
     su_queue = [], su_delivering = False, su_seen = []\<rparr>"

definition MAX_SAFE_INTEGER :: nat where
  "MAX_SAFE_INTEGER = 9007199254740991"

definition new_bus :: "string \<Rightarrow> (nat \<Rightarrow> string) \<Rightarrow> int \<Rightarrow> bus result" where
  "new_bus epoch clock replayLimit =
     (if replayLimit > int MAX_SAFE_INTEGER \<or> replayLimit < 1
      then Inl (DaemonError InvalidParams ''Replay limit must be a positive integer'' None)
      else Inr \<lparr>bu_epoch = epoch, bu_clock = clock, bu_replayLimit = nat replayLimit, bu_nextId = 1,
                bu_replay = [], bu_pending = [], bu_delivering = False, bu_subscribers = [],
                bu_objects = (\<lambda>_. no_subscriber), bu_fresh = 0\<rparr>)"

section \<open>Cursors and replay\<close>

definition event_id :: "string \<Rightarrow> nat \<Rightarrow> string" where
  "event_id epoch n = epoch @ '':'' @ dec n"

definition currentCursor :: "bus \<Rightarrow> string" where
  "currentCursor b = event_id (bu_epoch b) (bu_nextId b - 1)"

definition event_seq :: "daemon_event \<Rightarrow> nat" where
  "event_seq e = undec (rev (takeWhile (\<lambda>c. c \<noteq> CHR '':'') (rev (ev_eventId e))))"

definition is_hex :: "char \<Rightarrow> bool" where
  "is_hex c \<longleftrightarrow> is_digit c \<or> (97 \<le> (of_char c :: nat) \<and> (of_char c :: nat) \<le> 102)"

text \<open>The shape of \<open>[0-9a-f]{8}-[0-9a-f]{4}-[0-9a-f]{4}-[0-9a-f]{4}-[0-9a-f]{12}\<close>.\<close>

definition is_uuid :: "string \<Rightarrow> bool" where
  "is_uuid s \<longleftrightarrow>
     list_all2 (\<lambda>p c. p c)
       (replicate 8 is_hex @ (\<lambda>c. c = CHR ''-'') # replicate 4 is_hex @ (\<lambda>c. c = CHR ''-'') #
        replicate 4 is_hex @ (\<lambda>c. c = CHR ''-'') # replicate 4 is_hex @ (\<lambda>c. c = CHR ''-'') #
        replicate 12 is_hex) s"

definition is_canonical_number :: "string \<Rightarrow> bool" where
  "is_canonical_number s \<longleftrightarrow> s \<noteq> [] \<and> list_all is_digit s \<and> (s = ''0'' \<or> hd s \<noteq> CHR ''0'')"

definition match_cursor :: "string \<Rightarrow> (string \<times> nat) option" where
  "match_cursor cursor =
     (let uuid = take 36 cursor; rest = drop 36 cursor in
      if is_uuid uuid \<and> rest \<noteq> [] \<and> hd rest = CHR '':'' \<and> is_canonical_number (tl rest)
      then Some (uuid, undec (tl rest)) else None)"

definition sequence :: "bus \<Rightarrow> string \<Rightarrow> nat result" where
  "sequence b cursor =
     (case match_cursor cursor of
        None \<Rightarrow> Inl (DaemonError InvalidParams ''Invalid event cursor'' None)
      | Some (epoch, n) \<Rightarrow>
          if n > MAX_SAFE_INTEGER then Inl (DaemonError InvalidParams ''Invalid event cursor'' None)
          else if epoch \<noteq> bu_epoch b
          then Inl (DaemonError EventHistoryLost ''Event cursor belongs to another daemon instance'' None)
          else if n \<ge> bu_nextId b then Inl (DaemonError InvalidParams ''Event cursor is in the future'' None)
          else if int n < int (bu_nextId b) - int (length (bu_replay b)) - 1
          then Inl (DaemonError EventHistoryLost ''Event cursor has expired from the replay buffer'' None)
          else Inr n)"

definition eventsSince :: "bus \<Rightarrow> json \<Rightarrow> daemon_event list result" where
  "eventsSince b flt =
     (case validateEventFilter flt of
        Inl e \<Rightarrow> Inl e
      | Inr checked \<Rightarrow>
          (case (case jget checked ''sinceEventId'' of JStr cursor \<Rightarrow> sequence b cursor | _ \<Rightarrow> Inr 0) of
             Inl e \<Rightarrow> Inl e
           | Inr since \<Rightarrow> Inr [e \<leftarrow> bu_replay b. event_seq e > since \<and> matchesFilter e checked]))"

section \<open>Emission and delivery\<close>

text \<open>The part of \<open>emit\<close> before the delivery loop: number, retain and queue the event.\<close>

definition full_event :: "draft \<Rightarrow> bus \<Rightarrow> daemon_event" where
  "full_event d b =
     \<lparr>ev_eventId = event_id (bu_epoch b) (bu_nextId b), ev_type = dr_type d,
      ev_timestamp = (case dr_timestamp d of Some t \<Rightarrow> t | None \<Rightarrow> bu_clock b (bu_nextId b)),
      ev_threadId = dr_threadId d, ev_turnId = dr_turnId d, ev_workerId = dr_workerId d,
      ev_payload = dr_payload d\<rparr>"

definition publish :: "draft \<Rightarrow> bus \<Rightarrow> bus" where
  "publish d b =
     (let fullEvent = full_event d b; replay = bu_replay b @ [fullEvent] in
      b\<lparr>bu_nextId := bu_nextId b + 1,
        bu_replay := (if length replay > bu_replayLimit b then tl replay else replay),
        bu_pending := bu_pending b @ [(bu_nextId b, fullEvent)]\<rparr>)"

definition sub_update :: "string \<Rightarrow> (subscriber \<Rightarrow> subscriber) \<Rightarrow> bus \<Rightarrow> bus" where
  "sub_update sid f b = b\<lparr>bu_objects := (bu_objects b)(sid := f (bu_objects b sid))\<rparr>"

definition unsubscribe :: "string \<Rightarrow> bus \<Rightarrow> bool \<times> bus" where
  "unsubscribe sid b = (sid \<in> set (bu_subscribers b), b\<lparr>bu_subscribers := removeAll sid (bu_subscribers b)\<rparr>)"

text \<open>The registration part of \<open>subscribe\<close>: check the filter, snapshot the replay, add the subscriber.\<close>

definition register :: "json \<Rightarrow> listener \<Rightarrow> bus \<Rightarrow> (string \<times> bus) result" where
  "register flt listener b =
     (case validateEventFilter flt of
        Inl e \<Rightarrow> Inl e
      | Inr checked \<Rightarrow>
          (case (if jget checked ''sinceEventId'' = JUndefined then Inr [] else eventsSince b checked) of
             Inl e \<Rightarrow> Inl e
           | Inr queue \<Rightarrow>
               let sid = ''sub_'' @ dec (bu_fresh b);
                   subscriber = \<lparr>su_filter = checked, su_listener = listener,
                     su_liveAfter = bu_nextId b - 1, su_queue = queue, su_delivering = False, su_seen = []\<rparr>
               in Inr (sid, b\<lparr>bu_objects := (bu_objects b)(sid := subscriber),
                            bu_subscribers := bu_subscribers b @ [sid], bu_fresh := bu_fresh b + 1\<rparr>)))"

text \<open>
  The re-entrant part: the methods call each other through the listeners. Each is written over
  \<open>self\<close>, the way to run a further task, and \<open>exec\<close> ties them together, spending one unit of
  fuel per task; \<open>None\<close> means the fuel ran out, as it does when listeners keep emitting for ever.
\<close>

datatype task =
    TEmit draft                          \<comment> \<open>\<open>emit\<close>\<close>
  | TDrain                               \<comment> \<open>its loop over the pending events\<close>
  | TFan "string list" nat daemon_event  \<comment> \<open>its loop over the snapshot of the subscribers\<close>
  | TDeliver string                      \<comment> \<open>\<open>deliver\<close>\<close>
  | TLoop string                         \<comment> \<open>its loop over one subscriber's queue\<close>
  | TCalls "bus_call list" bool          \<comment> \<open>the bus calls of a listener, then its throw\<close>
  | TSubscribe json listener             \<comment> \<open>\<open>subscribe\<close>\<close>

type_synonym outcome = "(string result \<times> bus) option"

definition after :: "outcome \<Rightarrow> (bus \<Rightarrow> outcome) \<Rightarrow> outcome" where
  "after r f = (case r of None \<Rightarrow> None | Some (_, b) \<Rightarrow> f b)"

definition void :: "bus \<Rightarrow> outcome" where
  "void b = Some (Inr [], b)"

definition emit_with :: "(task \<Rightarrow> bus \<Rightarrow> outcome) \<Rightarrow> draft \<Rightarrow> bus \<Rightarrow> outcome" where
  "emit_with self d b =
     (let b1 = publish d b in
      if bu_delivering b1 then void b1
      else after (self TDrain (b1\<lparr>bu_delivering := True\<rparr>)) (\<lambda>b2. void (b2\<lparr>bu_delivering := False\<rparr>)))"

definition drain_with :: "(task \<Rightarrow> bus \<Rightarrow> outcome) \<Rightarrow> bus \<Rightarrow> outcome" where
  "drain_with self b =
     (case bu_pending b of
        [] \<Rightarrow> void b
      | (n, event) # rest \<Rightarrow>
          after (self (TFan (bu_subscribers b) n event) (b\<lparr>bu_pending := rest\<rparr>)) (self TDrain))"

definition wanted :: "bus \<Rightarrow> string \<Rightarrow> nat \<Rightarrow> daemon_event \<Rightarrow> bool" where
  "wanted b sid n event \<longleftrightarrow>
     sid \<in> set (bu_subscribers b) \<and> n > su_liveAfter (bu_objects b sid) \<and>
     matchesFilter event (su_filter (bu_objects b sid))"

definition enqueue :: "string \<Rightarrow> daemon_event \<Rightarrow> bus \<Rightarrow> bus" where
  "enqueue sid event = sub_update sid (\<lambda>u. u\<lparr>su_queue := su_queue u @ [event]\<rparr>)"

definition fan_with :: "(task \<Rightarrow> bus \<Rightarrow> outcome) \<Rightarrow> string list \<Rightarrow> nat \<Rightarrow> daemon_event \<Rightarrow> bus \<Rightarrow> outcome" where
  "fan_with self ids n event b =
     (case ids of
        [] \<Rightarrow> void b
      | sid # rest \<Rightarrow>
          if wanted b sid n event
          then after (self (TDeliver sid) (enqueue sid event b)) (self (TFan rest n event))
          else self (TFan rest n event) b)"

definition set_delivering :: "string \<Rightarrow> bool \<Rightarrow> bus \<Rightarrow> bus" where
  "set_delivering sid v = sub_update sid (\<lambda>u. u\<lparr>su_delivering := v\<rparr>)"

definition deliver_with :: "(task \<Rightarrow> bus \<Rightarrow> outcome) \<Rightarrow> string \<Rightarrow> bus \<Rightarrow> outcome" where
  "deliver_with self sid b =
     (if su_delivering (bu_objects b sid) then void b
      else after (self (TLoop sid) (set_delivering sid True b)) (\<lambda>b'. void (set_delivering sid False b')))"

text \<open>Taking the first event of a queue, and the \<open>catch\<close> clause of \<open>deliver\<close>.\<close>

definition dequeue :: "string \<Rightarrow> bus \<Rightarrow> bus" where
  "dequeue sid = sub_update sid (\<lambda>u. u\<lparr>su_queue := tl (su_queue u), su_seen := su_seen u @ [hd (su_queue u)]\<rparr>)"

definition detach :: "string \<Rightarrow> bus \<Rightarrow> bus" where
  "detach sid b = sub_update sid (\<lambda>u. u\<lparr>su_queue := []\<rparr>) (snd (unsubscribe sid b))"

definition loop_with :: "(task \<Rightarrow> bus \<Rightarrow> outcome) \<Rightarrow> string \<Rightarrow> bus \<Rightarrow> outcome" where
  "loop_with self sid b =
     (if sid \<in> set (bu_subscribers b) \<and> su_queue (bu_objects b sid) \<noteq> []
      then
        (let b1 = dequeue sid b;
             (cs, throws) = su_listener (bu_objects b1 sid) (su_seen (bu_objects b1 sid))
         in (case self (TCalls cs throws) b1 of
               None \<Rightarrow> None
             | Some (Inl _, b2) \<Rightarrow> void (detach sid b2)
             | Some (Inr _, b2) \<Rightarrow> self (TLoop sid) b2))
      else void b)"

definition calls_with :: "(task \<Rightarrow> bus \<Rightarrow> outcome) \<Rightarrow> bus_call list \<Rightarrow> bool \<Rightarrow> bus \<Rightarrow> outcome" where
  "calls_with self cs throws b =
     (case cs of
        [] \<Rightarrow> Some (if throws then Inl (ThrownValue ''listener'') else Inr [], b)
      | Emit d # rest \<Rightarrow> after (self (TEmit d) b) (self (TCalls rest throws))
      | Unsubscribe sid # rest \<Rightarrow> self (TCalls rest throws) (snd (unsubscribe sid b))
      | Subscribe flt l # rest \<Rightarrow>
          (case self (TSubscribe flt l) b of
             None \<Rightarrow> None
           | Some (Inl e, b') \<Rightarrow> Some (Inl e, b')
           | Some (Inr _, b') \<Rightarrow> self (TCalls rest throws) b'))"

definition subscribe_with :: "(task \<Rightarrow> bus \<Rightarrow> outcome) \<Rightarrow> json \<Rightarrow> listener \<Rightarrow> bus \<Rightarrow> outcome" where
  "subscribe_with self flt l b =
     (case register flt l b of
        Inl e \<Rightarrow> Some (Inl e, b)
      | Inr (sid, b1) \<Rightarrow> after (self (TDeliver sid) b1) (\<lambda>b2. Some (Inr sid, b2)))"

primrec exec :: "nat \<Rightarrow> task \<Rightarrow> bus \<Rightarrow> outcome" where
  "exec 0 t b = None"
| "exec (Suc k) t b =
     (case t of
        TEmit d \<Rightarrow> emit_with (exec k) d b
      | TDrain \<Rightarrow> drain_with (exec k) b
      | TFan ids n event \<Rightarrow> fan_with (exec k) ids n event b
      | TDeliver sid \<Rightarrow> deliver_with (exec k) sid b
      | TLoop sid \<Rightarrow> loop_with (exec k) sid b
      | TCalls cs throws \<Rightarrow> calls_with (exec k) cs throws b
      | TSubscribe flt l \<Rightarrow> subscribe_with (exec k) flt l b)"

text \<open>The public methods.\<close>

definition emit :: "nat \<Rightarrow> draft \<Rightarrow> bus \<Rightarrow> (daemon_event \<times> bus) option" where
  "emit fuel d b = map_option (\<lambda>(_, b'). (full_event d b, b')) (exec fuel (TEmit d) b)"

definition subscribe :: "nat \<Rightarrow> json \<Rightarrow> listener \<Rightarrow> bus \<Rightarrow> (string result \<times> bus) option" where
  "subscribe fuel flt l b = exec fuel (TSubscribe flt l) b"

end
