(* ===== verification/Event_Delivery.thy ===== *)
theory Event_Delivery
  imports Event_Bus
begin

text \<open>
  What the event bus guarantees, in every state reached by any sequence of calls, with listeners
  that call back into the bus and throw: the replay buffer holds the latest events without a gap,
  every subscription sees matching events in sequence order and none twice, and at rest no
  retained event it should have seen is missing.
\<close>

section \<open>Event ids\<close>

lemma dec_no_colon: "CHR '':'' \<notin> set (dec n)"
proof -
  have "\<not> is_digit (CHR '':'')" by (simp add: is_digit_def)
  with dec_digits [of n] show ?thesis by (auto simp: list_all_iff)
qed

lemma takeWhile_rev_colon: "CHR '':'' \<notin> set s \<Longrightarrow> takeWhile (\<lambda>c. c \<noteq> CHR '':'') (rev s @ CHR '':'' # t) = rev s"
  by (subst takeWhile_append2) auto

lemma event_seq_id: "ev_eventId e = event_id ep n \<Longrightarrow> event_seq e = n"
  by (simp add: event_seq_def event_id_def takeWhile_rev_colon dec_no_colon)

lemma full_event_simps [simp]:
  "ev_eventId (full_event d b) = event_id (bu_epoch b) (bu_nextId b)"
  "event_seq (full_event d b) = bu_nextId b"
  by (simp_all add: full_event_def event_seq_id [of _ "bu_epoch b" "bu_nextId b"])

section \<open>The invariant\<close>

text \<open>The number of the last event taken out of the pending list.\<close>

definition fanned :: "bus \<Rightarrow> nat" where
  "fanned b = bu_nextId b - 1 - length (bu_pending b)"

definition known :: "bus \<Rightarrow> string \<Rightarrow> bool" where
  "known b sid \<longleftrightarrow> (\<exists>k < bu_fresh b. sid = ''sub_'' @ dec k)"

definition replay_ok :: "bus \<Rightarrow> bool" where
  "replay_ok b \<longleftrightarrow>
     1 \<le> bu_replayLimit b \<and> 1 \<le> bu_nextId b \<and>
     length (bu_replay b) = min (bu_replayLimit b) (bu_nextId b - 1) \<and>
     map event_seq (bu_replay b) = [bu_nextId b - length (bu_replay b) ..< bu_nextId b] \<and>
     (\<forall>e \<in> set (bu_replay b). ev_eventId e = event_id (bu_epoch b) (event_seq e))"

definition pending_ok :: "bus \<Rightarrow> bool" where
  "pending_ok b \<longleftrightarrow>
     map fst (bu_pending b) = [fanned b + 1 ..< bu_nextId b] \<and>
     (\<forall>(n, e) \<in> set (bu_pending b). event_seq e = n \<and>
        (\<forall>e' \<in> set (bu_replay b). event_seq e' = n \<longrightarrow> e' = e)) \<and>
     (\<not> bu_delivering b \<longrightarrow> bu_pending b = [])"

definition log_of :: "bus \<Rightarrow> string \<Rightarrow> daemon_event list" where
  "log_of b sid = su_seen (bu_objects b sid) @ su_queue (bu_objects b sid)"

definition sub_ok :: "bus \<Rightarrow> string \<Rightarrow> bool" where
  "sub_ok b sid \<longleftrightarrow>
     sorted_wrt (<) (map event_seq (log_of b sid)) \<and>
     (\<forall>x \<in> set (log_of b sid). matchesFilter x (su_filter (bu_objects b sid)) \<and>
        event_seq x \<le> max (su_liveAfter (bu_objects b sid)) (fanned b)) \<and>
     su_liveAfter (bu_objects b sid) < bu_nextId b"

text \<open>
  The retained events a live subscription must have been given: those after it began, up to the
  one being fanned out; for the subscriptions \<open>X\<close> that still wait for that one, up to the one
  before it.
\<close>

definition due :: "string set \<Rightarrow> bus \<Rightarrow> string \<Rightarrow> daemon_event \<Rightarrow> bool" where
  "due X b sid e \<longleftrightarrow>
     sid \<in> set (bu_subscribers b) \<and> e \<in> set (bu_replay b) \<and>
     su_liveAfter (bu_objects b sid) < event_seq e \<and>
     (if sid \<in> X then event_seq e < fanned b else event_seq e \<le> fanned b) \<and>
     matchesFilter e (su_filter (bu_objects b sid))"

text \<open>
  The invariant, with the subscriptions \<open>X\<close> still waiting for the current event and \<open>Y\<close> those
  whose queue is about to be delivered.
\<close>

definition bus_inv :: "string set \<Rightarrow> string set \<Rightarrow> bus \<Rightarrow> bool" where
  "bus_inv X Y b \<longleftrightarrow>
     replay_ok b \<and> pending_ok b \<and>
     distinct (bu_subscribers b) \<and> (\<forall>sid \<in> set (bu_subscribers b). known b sid) \<and>
     (\<forall>sid. sub_ok b sid) \<and>
     (\<forall>sid e. due X b sid e \<longrightarrow> e \<in> set (log_of b sid)) \<and>
     (\<forall>sid \<in> set (bu_subscribers b). sid \<notin> Y \<longrightarrow> \<not> su_delivering (bu_objects b sid) \<longrightarrow>
        su_queue (bu_objects b sid) = [])"

text \<open>How a task may change the bus, for the subscriptions that existed before it.\<close>

definition grows :: "bus \<Rightarrow> bus \<Rightarrow> bool" where
  "grows b b' \<longleftrightarrow>
     bu_epoch b' = bu_epoch b \<and> bu_replayLimit b' = bu_replayLimit b \<and>
     bu_delivering b' = bu_delivering b \<and>
     bu_nextId b \<le> bu_nextId b' \<and> bu_fresh b \<le> bu_fresh b' \<and>
     (\<forall>sid. known b sid \<longrightarrow>
        (sid \<in> set (bu_subscribers b') \<longrightarrow> sid \<in> set (bu_subscribers b)) \<and>
        su_filter (bu_objects b' sid) = su_filter (bu_objects b sid) \<and>
        su_listener (bu_objects b' sid) = su_listener (bu_objects b sid) \<and>
        su_liveAfter (bu_objects b' sid) = su_liveAfter (bu_objects b sid) \<and>
        su_delivering (bu_objects b' sid) = su_delivering (bu_objects b sid) \<and>
        (sid \<notin> set (bu_subscribers b) \<longrightarrow> su_seen (bu_objects b' sid) = su_seen (bu_objects b sid))) \<and>
     (\<forall>sid. known b' sid \<longrightarrow> \<not> known b sid \<longrightarrow> \<not> su_delivering (bu_objects b' sid))"

text \<open>While a drain is running, nothing but the fan-out itself adds to a known subscription.\<close>

definition steady :: "bus \<Rightarrow> bus \<Rightarrow> bool" where
  "steady b b' \<longleftrightarrow>
     (bu_delivering b \<longrightarrow>
        fanned b' = fanned b \<and>
        (\<forall>e \<in> set (bu_replay b'). e \<in> set (bu_replay b) \<or> bu_nextId b \<le> event_seq e) \<and>
        (\<forall>sid. known b sid \<longrightarrow> set (log_of b' sid) \<subseteq> set (log_of b sid)))"

lemma known_mono: "bu_fresh b \<le> bu_fresh b' \<Longrightarrow> known b sid \<Longrightarrow> known b' sid"
  by (auto simp: known_def)

lemma grows_refl [simp]: "grows b b"
  by (simp add: grows_def)

lemma steady_refl [simp]: "steady b b"
  by (simp add: steady_def)

lemma grows_known: "grows b b' \<Longrightarrow> known b sid \<Longrightarrow> known b' sid"
  by (auto simp: grows_def known_def)

lemma grows_trans: "grows a b \<Longrightarrow> grows b c \<Longrightarrow> grows a c"
  using grows_known [of a b] by (auto simp: grows_def)

lemma steady_trans: "grows a b \<Longrightarrow> steady a b \<Longrightarrow> steady b c \<Longrightarrow> steady a c"
proof -
  assume g: "grows a b" and s: "steady a b" "steady b c"
  show "steady a c"
    unfolding steady_def
  proof (rule impI)
    assume "bu_delivering a"
    moreover from this g have "bu_delivering b" by (simp add: grows_def)
    ultimately have ab: "fanned b = fanned a" "\<And>sid. known a sid \<Longrightarrow> set (log_of b sid) \<subseteq> set (log_of a sid)"
        "\<And>e. e \<in> set (bu_replay b) \<Longrightarrow> e \<in> set (bu_replay a) \<or> bu_nextId a \<le> event_seq e"
      and bc: "fanned c = fanned b" "\<And>sid. known b sid \<Longrightarrow> set (log_of c sid) \<subseteq> set (log_of b sid)"
        "\<And>e. e \<in> set (bu_replay c) \<Longrightarrow> e \<in> set (bu_replay b) \<or> bu_nextId b \<le> event_seq e"
      using s by (simp_all add: steady_def)
    have n: "bu_nextId a \<le> bu_nextId b" using g by (simp add: grows_def)
    show "fanned c = fanned a \<and>
      (\<forall>e \<in> set (bu_replay c). e \<in> set (bu_replay a) \<or> bu_nextId a \<le> event_seq e) \<and>
      (\<forall>sid. known a sid \<longrightarrow> set (log_of c sid) \<subseteq> set (log_of a sid))"
    proof (intro conjI allI ballI impI)
      show "fanned c = fanned a" using ab(1) bc(1) by simp
      show "e \<in> set (bu_replay a) \<or> bu_nextId a \<le> event_seq e" if "e \<in> set (bu_replay c)" for e
        using bc(3) [OF that] ab(3) [of e] n by linarith
      fix sid assume k: "known a sid"
      show "set (log_of c sid) \<subseteq> set (log_of a sid)"
        by (rule subset_trans [OF bc(2) ab(2)]) (rule grows_known [OF g k], rule k)
    qed
  qed
qed

section \<open>The synchronous updates\<close>

lemma replay_ok_cong:
  "bu_replayLimit b' = bu_replayLimit b \<Longrightarrow> bu_nextId b' = bu_nextId b \<Longrightarrow> bu_replay b' = bu_replay b \<Longrightarrow>
   bu_epoch b' = bu_epoch b \<Longrightarrow> replay_ok b' = replay_ok b"
  by (simp add: replay_ok_def)

lemma replay_ok_publish:
  assumes "replay_ok b"
  shows "replay_ok (publish d b)"
proof -
  let ?r = "bu_replay b @ [full_event d b]" and ?n = "bu_nextId b"
  have len: "length (bu_replay b) = min (bu_replayLimit b) (?n - 1)" and n: "1 \<le> ?n" "1 \<le> bu_replayLimit b"
    using assms by (auto simp: replay_ok_def)
  have seqs: "map event_seq ?r = [?n - length (bu_replay b) ..< Suc ?n]"
    using assms n by (auto simp: replay_ok_def)
  have ids: "\<forall>e \<in> set ?r. ev_eventId e = event_id (bu_epoch b) (event_seq e)"
    using assms by (auto simp: replay_ok_def)
  have tl_ids: "\<forall>e \<in> set (tl ?r). ev_eventId e = event_id (bu_epoch b) (event_seq e)"
    using ids by (metis list.set_sel(2) snoc_eq_iff_butlast)
  show ?thesis
  proof (cases "length ?r > bu_replayLimit b")
    case True
    then have "length (bu_replay b) = bu_replayLimit b" using len by simp
    moreover have "map event_seq (tl ?r) = [Suc (?n - length (bu_replay b)) ..< Suc ?n]"
      using seqs by (simp add: map_tl tl_upt)
    ultimately show ?thesis
      using True n len tl_ids by (auto simp: replay_ok_def publish_def Let_def Suc_diff_le)
  next
    case False
    then show ?thesis
      using seqs n len ids by (auto simp: replay_ok_def publish_def Let_def)
  qed
qed

lemma fanned_publish [simp]: "1 \<le> bu_nextId b \<Longrightarrow> fanned (publish d b) = fanned b"
  by (simp add: fanned_def publish_def Let_def)

lemma publish_simps [simp]:
  "bu_epoch (publish d b) = bu_epoch b" "bu_replayLimit (publish d b) = bu_replayLimit b"
  "bu_nextId (publish d b) = Suc (bu_nextId b)" "bu_delivering (publish d b) = bu_delivering b"
  "bu_subscribers (publish d b) = bu_subscribers b" "bu_objects (publish d b) = bu_objects b"
  "bu_fresh (publish d b) = bu_fresh b"
  "bu_pending (publish d b) = bu_pending b @ [(bu_nextId b, full_event d b)]"
  by (simp_all add: publish_def Let_def)

lemma publish_replay: "e \<in> set (bu_replay (publish d b)) \<Longrightarrow> e \<in> set (bu_replay b) \<or> e = full_event d b"
  by (auto simp: publish_def Let_def split: if_splits dest: list.set_sel(2) [rotated])

lemma log_of_publish [simp]: "log_of (publish d b) sid = log_of b sid"
  by (simp add: log_of_def)

lemma known_publish [simp]: "known (publish d b) sid = known b sid"
  by (simp add: known_def)

lemma fanned_less: "replay_ok b \<Longrightarrow> fanned b < bu_nextId b"
  by (auto simp: fanned_def replay_ok_def)

lemma replay_seq_less: "replay_ok b \<Longrightarrow> e \<in> set (bu_replay b) \<Longrightarrow> event_seq e < bu_nextId b"
proof -
  assume r: "replay_ok b" and "e \<in> set (bu_replay b)"
  then have "event_seq e \<in> set (map event_seq (bu_replay b))" by simp
  with r show ?thesis by (simp add: replay_ok_def)
qed

lemma pending_ok_publish:
  assumes "replay_ok b" "pending_ok b" "bu_delivering b"
  shows "pending_ok (publish d b)"
proof -
  have m0: "map fst (bu_pending b) = [fanned b + 1 ..< bu_nextId b]"
    using assms(2) by (simp add: pending_ok_def)
  moreover have "fanned b + 1 \<le> bu_nextId b" using fanned_less [OF assms(1)] by simp
  ultimately have m: "map fst (bu_pending (publish d b)) = [fanned b + 1 ..< Suc (bu_nextId b)]" by simp
  have less: "n < bu_nextId b" if "(n, e) \<in> set (bu_pending b)" for n e
  proof -
    have "n \<in> set (map fst (bu_pending b))" using that by force
    then show ?thesis unfolding m0 by simp
  qed
  have "event_seq e = n \<and> (\<forall>e' \<in> set (bu_replay (publish d b)). event_seq e' = n \<longrightarrow> e' = e)"
    if "(n, e) \<in> set (bu_pending (publish d b))" for n e
  proof (cases "(n, e) \<in> set (bu_pending b)")
    case True
    then have "event_seq e = n" "\<forall>e' \<in> set (bu_replay b). event_seq e' = n \<longrightarrow> e' = e"
      using assms(2) by (auto simp: pending_ok_def)
    then show ?thesis using less [OF True] by (auto dest: publish_replay)
  next
    case False
    with that have "n = bu_nextId b" "e = full_event d b" by simp_all
    then show ?thesis using replay_seq_less [OF assms(1)] by (force dest: publish_replay)
  qed
  then show ?thesis
    using m assms(1,3) by (auto simp: pending_ok_def replay_ok_def)
qed

lemma bus_invI:
  assumes "replay_ok b" "pending_ok b" "distinct (bu_subscribers b)"
    and "\<And>sid. sid \<in> set (bu_subscribers b) \<Longrightarrow> known b sid" and "\<And>sid. sub_ok b sid"
    and "\<And>sid e. due X b sid e \<Longrightarrow> e \<in> set (log_of b sid)"
    and "\<And>sid. sid \<in> set (bu_subscribers b) \<Longrightarrow> sid \<notin> Y \<Longrightarrow> \<not> su_delivering (bu_objects b sid) \<Longrightarrow>
           su_queue (bu_objects b sid) = []"
  shows "bus_inv X Y b"
  using assms by (auto simp: bus_inv_def)

lemma bus_invD:
  assumes "bus_inv X Y b"
  shows "replay_ok b" "pending_ok b" "distinct (bu_subscribers b)"
    and "\<And>sid. sid \<in> set (bu_subscribers b) \<Longrightarrow> known b sid" and "\<And>sid. sub_ok b sid"
    and "\<And>sid e. due X b sid e \<Longrightarrow> e \<in> set (log_of b sid)"
    and "\<And>sid. sid \<in> set (bu_subscribers b) \<Longrightarrow> sid \<notin> Y \<Longrightarrow> \<not> su_delivering (bu_objects b sid) \<Longrightarrow>
           su_queue (bu_objects b sid) = []"
  using assms by (auto simp: bus_inv_def)

text \<open>Updates of one subscription leave the replay and the pending events alone.\<close>

lemma sub_update_simps [simp]:
  "bu_epoch (sub_update i f b) = bu_epoch b" "bu_replayLimit (sub_update i f b) = bu_replayLimit b"
  "bu_nextId (sub_update i f b) = bu_nextId b" "bu_delivering (sub_update i f b) = bu_delivering b"
  "bu_replay (sub_update i f b) = bu_replay b" "bu_pending (sub_update i f b) = bu_pending b"
  "bu_subscribers (sub_update i f b) = bu_subscribers b" "bu_fresh (sub_update i f b) = bu_fresh b"
  "fanned (sub_update i f b) = fanned b" "known (sub_update i f b) sid = known b sid"
  "replay_ok (sub_update i f b) = replay_ok b" "pending_ok (sub_update i f b) = pending_ok b"
  "bu_objects (sub_update i f b) sid = (if sid = i then f (bu_objects b sid) else bu_objects b sid)"
  by (auto simp: sub_update_def fanned_def known_def replay_ok_def pending_ok_def)

lemma unsubscribe_simps [simp]:
  "bu_epoch (snd (unsubscribe i b)) = bu_epoch b" "bu_replayLimit (snd (unsubscribe i b)) = bu_replayLimit b"
  "bu_nextId (snd (unsubscribe i b)) = bu_nextId b" "bu_delivering (snd (unsubscribe i b)) = bu_delivering b"
  "bu_replay (snd (unsubscribe i b)) = bu_replay b" "bu_pending (snd (unsubscribe i b)) = bu_pending b"
  "bu_subscribers (snd (unsubscribe i b)) = removeAll i (bu_subscribers b)"
  "bu_fresh (snd (unsubscribe i b)) = bu_fresh b" "bu_objects (snd (unsubscribe i b)) = bu_objects b"
  "fanned (snd (unsubscribe i b)) = fanned b" "known (snd (unsubscribe i b)) sid = known b sid"
  "replay_ok (snd (unsubscribe i b)) = replay_ok b" "pending_ok (snd (unsubscribe i b)) = pending_ok b"
  by (auto simp: unsubscribe_def fanned_def known_def replay_ok_def pending_ok_def)

lemma log_of_unsubscribe [simp]: "log_of (snd (unsubscribe i b)) sid = log_of b sid"
  by (simp add: log_of_def)

lemma sub_ok_unsubscribe [simp]: "sub_ok (snd (unsubscribe i b)) sid = sub_ok b sid"
  by (simp add: sub_ok_def)

lemma due_unsubscribe: "due X (snd (unsubscribe i b)) sid e \<Longrightarrow> due X b sid e"
  by (auto simp: due_def split: if_splits)

lemma bus_inv_unsubscribe:
  assumes "bus_inv X Y b"
  shows "bus_inv X Y (snd (unsubscribe i b))"
  by (rule bus_invI)
    (use bus_invD [OF assms] in \<open>auto simp: distinct_removeAll dest: due_unsubscribe\<close>)

lemma bus_inv_publish:
  assumes "bus_inv X Y b" "bu_delivering b"
  shows "bus_inv X Y (publish d b)"
proof (rule bus_invI)
  note inv = bus_invD [OF assms(1)]
  have n: "1 \<le> bu_nextId b" using inv(1) by (simp add: replay_ok_def)
  show "replay_ok (publish d b)" by (rule replay_ok_publish [OF inv(1)])
  show "pending_ok (publish d b)" by (rule pending_ok_publish [OF inv(1,2) assms(2)])
  show "sub_ok (publish d b) sid" for sid
    using inv(5) [of sid] n by (simp add: sub_ok_def less_SucI)
  show "e \<in> set (log_of (publish d b) sid)" if "due X (publish d b) sid e" for sid e
  proof -
    have "e \<noteq> full_event d b" "e \<in> set (bu_replay b)"
      using that n fanned_less [OF inv(1)] by (auto simp: due_def split: if_splits dest: publish_replay)
    then have "due X b sid e" using that n by (auto simp: due_def)
    then show ?thesis using inv(6) by simp
  qed
qed (use bus_invD [OF assms(1)] in auto)

lemma bus_inv_flag: "bus_inv X Y b \<Longrightarrow> bus_inv X Y (b\<lparr>bu_delivering := True\<rparr>)"
  by (auto simp: bus_inv_def replay_ok_def pending_ok_def sub_ok_def due_def log_of_def fanned_def known_def)

lemma bus_inv_unflag: "bus_inv X Y b \<Longrightarrow> bu_pending b = [] \<Longrightarrow> bus_inv X Y (b\<lparr>bu_delivering := False\<rparr>)"
  by (auto simp: bus_inv_def replay_ok_def pending_ok_def sub_ok_def due_def log_of_def fanned_def known_def)

lemma pending_next:
  assumes "pending_ok b" "replay_ok b" "bu_pending b = (n, e) # rest"
  shows "n = fanned b + 1" "event_seq e = n" "\<forall>e' \<in> set (bu_replay b). event_seq e' = n \<longrightarrow> e' = e"
    and "map fst rest = [n + 1 ..< bu_nextId b]" "n < bu_nextId b" "fanned (b\<lparr>bu_pending := rest\<rparr>) = n"
proof -
  have m: "n # map fst rest = [fanned b + 1 ..< bu_nextId b]" and r: "1 \<le> bu_nextId b"
    using assms by (auto simp: pending_ok_def replay_ok_def)
  then have lt: "fanned b + 1 < bu_nextId b"
    by (cases "fanned b + 1 < bu_nextId b") simp_all
  then have "[fanned b + 1 ..< bu_nextId b] = (fanned b + 1) # [Suc (fanned b + 1) ..< bu_nextId b]"
    by (rule upt_conv_Cons)
  with m have n: "n = fanned b + 1" and rest: "map fst rest = [Suc (fanned b + 1) ..< bu_nextId b]"
    by (metis list.inject)+
  have len: "length (bu_pending b) = Suc (length rest)" using assms(3) by simp
  show "n = fanned b + 1" by (rule n)
  show "map fst rest = [n + 1 ..< bu_nextId b]" using rest n by simp
  show "n < bu_nextId b" using lt n by simp
  show "event_seq e = n" "\<forall>e' \<in> set (bu_replay b). event_seq e' = n \<longrightarrow> e' = e"
    using assms(1,3) by (auto simp: pending_ok_def)
  show "fanned (b\<lparr>bu_pending := rest\<rparr>) = n"
    using lt n len arg_cong [OF rest, of length] unfolding fanned_def by simp
qed

lemma bus_inv_pop:
  assumes "bus_inv {} {} b" "bu_delivering b" "bu_pending b = (n, e) # rest"
  shows "bus_inv (set (bu_subscribers b)) {} (b\<lparr>bu_pending := rest\<rparr>)"
proof (rule bus_invI)
  let ?b = "b\<lparr>bu_pending := rest\<rparr>"
  note inv = bus_invD [OF assms(1)]
  note nx = pending_next [OF inv(2,1) assms(3)]
  show "replay_ok ?b" using inv(1) by (simp add: replay_ok_def)
  show "pending_ok ?b"
    using inv(2) nx assms(2,3) by (auto simp: pending_ok_def)
  show "sub_ok ?b sid" for sid
    using inv(5) [of sid] nx(1) unfolding sub_ok_def nx(6) log_of_def
    by (simp add: le_max_iff_disj) (meson le_SucI)
  show "e' \<in> set (log_of ?b sid)" if "due (set (bu_subscribers b)) ?b sid e'" for sid e'
    using that inv(6) [of sid e'] nx(1,6) by (auto simp: due_def log_of_def)
qed (use bus_invD [OF assms(1)] in \<open>auto simp: known_def\<close>)

section \<open>The subscription updates\<close>

lemma bus_inv_enqueue:
  assumes inv: "bus_inv (insert sid X) {} b" and w: "wanted b sid n e"
    and n: "fanned b = n" "event_seq e = n" and fresh: "\<forall>x \<in> set (log_of b sid). event_seq x < n"
    and uniq: "\<forall>e' \<in> set (bu_replay b). event_seq e' = n \<longrightarrow> e' = e"
  shows "bus_inv X {sid} (enqueue sid e b)"
proof (rule bus_invI)
  note inv = bus_invD [OF inv]
  have log: "log_of (enqueue sid e b) s = (if s = sid then log_of b sid @ [e] else log_of b s)" for s
    by (simp add: log_of_def enqueue_def)
  show "sub_ok (enqueue sid e b) s" for s
    using inv(5) [of s] w n fresh unfolding sub_ok_def log
    by (auto simp: enqueue_def wanted_def sorted_wrt_append)
  show "e' \<in> set (log_of (enqueue sid e b) s)" if d: "due X (enqueue sid e b) s e'" for s e'
  proof (cases "s = sid \<and> event_seq e' = n")
    case True
    with d uniq have "e' = e" by (simp add: due_def enqueue_def)
    with True show ?thesis by (simp add: log)
  next
    case False
    with d n(1) have "due (insert sid X) b s e'"
      by (auto simp: due_def enqueue_def split: if_splits)
    with inv(6) have "e' \<in> set (log_of b s)" .
    then show ?thesis by (auto simp: log)
  qed
qed (use bus_invD [OF inv] in \<open>auto simp: enqueue_def\<close>)

lemma bus_inv_skip:
  assumes inv: "bus_inv (insert sid X) {} b" and w: "\<not> wanted b sid n e" and n: "fanned b = n"
    and uniq: "\<forall>e' \<in> set (bu_replay b). event_seq e' = n \<longrightarrow> e' = e"
  shows "bus_inv X {} b"
proof (rule bus_invI)
  show "e' \<in> set (log_of b s)" if d: "due X b s e'" for s e'
  proof -
    have "\<not> (s = sid \<and> event_seq e' = n)"
      using d w uniq n by (auto simp: due_def wanted_def)
    with d n have "due (insert sid X) b s e'"
      by (auto simp: due_def split: if_splits)
    then show ?thesis by (rule bus_invD(6) [OF inv])
  qed
qed (use bus_invD [OF inv] in auto)

lemma due_sub_update:
  assumes "\<And>u. su_filter (f u) = su_filter u \<and> su_liveAfter (f u) = su_liveAfter u"
  shows "due X (sub_update i f b) sid e = due X b sid e"
  using assms by (auto simp: due_def)

lemma bus_inv_dequeue:
  assumes inv: "bus_inv X {} b" and d: "su_delivering (bu_objects b sid)" and q: "su_queue (bu_objects b sid) \<noteq> []"
  shows "bus_inv X {} (dequeue sid b)"
proof (rule bus_invI)
  have log: "log_of (dequeue sid b) s = log_of b s" for s
    using q by (simp add: log_of_def dequeue_def)
  show "sub_ok (dequeue sid b) s" for s
    using bus_invD(5) [OF inv, of s] unfolding sub_ok_def log by (cases "s = sid") (simp_all add: dequeue_def)
  show "e \<in> set (log_of (dequeue sid b) s)" if "due X (dequeue sid b) s e" for s e
  proof -
    have "due X b s e" using that by (simp add: dequeue_def due_sub_update)
    then show ?thesis unfolding log by (rule bus_invD(6) [OF inv])
  qed
qed (use bus_invD [OF inv] d in \<open>auto simp: dequeue_def split: if_splits\<close>)

lemma bus_inv_detach:
  assumes inv: "bus_inv X {} b"
  shows "bus_inv X {} (detach sid b)"
proof (rule bus_invI)
  have log: "log_of (detach sid b) s = (if s = sid then su_seen (bu_objects b sid) else log_of b s)" for s
    by (simp add: log_of_def detach_def)
  show "sub_ok (detach sid b) s" for s
    using bus_invD(5) [OF inv, of s] unfolding sub_ok_def log
    by (auto simp: detach_def log_of_def sorted_wrt_append)
  show "e \<in> set (log_of (detach sid b) s)" if "due X (detach sid b) s e" for s e
  proof -
    have "s \<noteq> sid" "due X b s e"
      using that unfolding detach_def by (auto simp: due_def split: if_splits)
    then show ?thesis using bus_invD(6) [OF inv, of s e] unfolding log by simp
  qed
qed (use bus_invD [OF inv] in \<open>auto simp: detach_def distinct_removeAll\<close>)

lemma log_of_set_delivering [simp]: "log_of (set_delivering i v b) s = log_of b s"
  by (simp add: log_of_def set_delivering_def)

lemma bus_inv_set_delivering:
  assumes inv: "bus_inv X Y b" and "Y = (if v then {sid} else {})"
    and "\<not> v \<Longrightarrow> sid \<in> set (bu_subscribers b) \<Longrightarrow> su_queue (bu_objects b sid) = []"
  shows "bus_inv X {} (set_delivering sid v b)"
proof (rule bus_invI)
  show "sub_ok (set_delivering sid v b) s" for s
    using bus_invD(5) [OF inv, of s] unfolding sub_ok_def log_of_set_delivering
    by (cases "s = sid") (simp_all add: set_delivering_def)
  show "e \<in> set (log_of (set_delivering sid v b) s)" if "due X (set_delivering sid v b) s e" for s e
    using bus_invD(6) [OF inv, of s e] that unfolding log_of_set_delivering
    by (simp add: set_delivering_def due_sub_update)
qed (use bus_invD [OF inv] assms(2,3) in \<open>auto simp: set_delivering_def split: if_splits\<close>)

section \<open>Registration\<close>

lemma eventsSince_sorted:
  assumes "replay_ok b" "eventsSince b flt = Inr es"
  shows "sorted_wrt (<) (map event_seq es)" "\<forall>e \<in> set es. matchesFilter e flt \<and> event_seq e < bu_nextId b"
    "validateEventFilter flt = Inr flt"
proof -
  have same: "validateEventFilter f = Inr g \<Longrightarrow> g = f" for f g
    by (cases f) (auto split: option.splits if_splits)
  obtain since where es: "es = [e \<leftarrow> bu_replay b. event_seq e > since \<and> matchesFilter e flt]"
    and v: "validateEventFilter flt = Inr flt"
    using assms(2) same by (auto simp: eventsSince_def split: sum.splits)
  show "validateEventFilter flt = Inr flt" by (rule v)
  have "map event_seq (bu_replay b) = [bu_nextId b - length (bu_replay b) ..< bu_nextId b]"
    using assms(1) by (simp add: replay_ok_def)
  then have "sorted_wrt (<) (map event_seq (bu_replay b))" by simp
  then show "sorted_wrt (<) (map event_seq es)"
    unfolding es sorted_wrt_map by (rule sorted_wrt_filter)
  show "\<forall>e \<in> set es. matchesFilter e flt \<and> event_seq e < bu_nextId b"
    using replay_seq_less [OF assms(1)] by (auto simp: es)
qed

lemma bus_inv_register:
  assumes inv: "bus_inv X {} b" and reg: "register flt l b = Inr (sid, b1)"
  shows "bus_inv X {sid} b1" "known b1 sid" "grows b b1" "steady b b1" "bu_delivering b1 = bu_delivering b"
proof -
  obtain checked queue where v: "validateEventFilter flt = Inr checked"
    and q: "queue = [] \<or> eventsSince b checked = Inr queue"
    and sid: "sid = ''sub_'' @ dec (bu_fresh b)"
    and b1: "b1 = b\<lparr>bu_objects := (bu_objects b)(sid := \<lparr>su_filter = checked, su_listener = l,
               su_liveAfter = bu_nextId b - 1, su_queue = queue, su_delivering = False, su_seen = []\<rparr>),
             bu_subscribers := bu_subscribers b @ [sid], bu_fresh := bu_fresh b + 1\<rparr>"
    using reg by (auto simp: register_def Let_def split: sum.splits if_splits)
  note inv = bus_invD [OF inv]
  have n: "1 \<le> bu_nextId b" using inv(1) by (simp add: replay_ok_def)
  have new: "\<not> known b sid" by (auto simp: known_def sid)
  show "known b1 sid" by (auto simp: known_def sid b1)
  show "bu_delivering b1 = bu_delivering b" by (simp add: b1)
  have "bu_fresh b1 = Suc (bu_fresh b)" by (simp add: b1)
  then have "s = sid" if "known b1 s" "\<not> known b s" for s
    using that by (auto simp: known_def sid less_Suc_eq)
  then show "grows b b1" using new by (fastforce simp: grows_def b1)
  have f: "fanned b1 = fanned b" by (simp add: fanned_def b1)
  have log: "log_of b1 s = (if s = sid then queue else log_of b s)" for s
    by (simp add: log_of_def b1)
  have "bu_replay b1 = bu_replay b" by (simp add: b1)
  then show "steady b b1" using new f log by (auto simp: steady_def)
  have qs: "sorted_wrt (<) (map event_seq queue)" "\<forall>e \<in> set queue. matchesFilter e checked \<and> event_seq e < bu_nextId b"
    using q eventsSince_sorted(1,2) [OF inv(1)] by auto
  show "bus_inv X {sid} b1"
  proof (rule bus_invI)
    show "replay_ok b1" using inv(1) by (simp add: replay_ok_def b1)
    show "pending_ok b1" using inv(2) by (simp add: pending_ok_def f) (simp add: b1)
    show "distinct (bu_subscribers b1)" using inv(3,4) new by (auto simp: b1)
    show "known b1 s" if "s \<in> set (bu_subscribers b1)" for s
    proof (cases "s = sid")
      case False
      with that have "known b s" using inv(4) by (simp add: b1)
      with \<open>grows b b1\<close> show ?thesis by (rule grows_known)
    qed (simp add: \<open>known b1 sid\<close>)
    show "sub_ok b1 s" for s
      using inv(5) [of s] qs n unfolding sub_ok_def log f by (cases "s = sid") (fastforce simp: b1)+
    show "e \<in> set (log_of b1 s)" if "due X b1 s e" for s e
    proof -
      have e: "event_seq e < bu_nextId b" "s \<noteq> sid"
        using that replay_seq_less [OF inv(1)] by (fastforce simp: due_def b1)+
      with that f have "due X b s e" by (auto simp: due_def b1 split: if_splits)
      with e show ?thesis using inv(6) unfolding log by simp
    qed
    show "su_queue (bu_objects b1 s) = []"
      if "s \<in> set (bu_subscribers b1)" "s \<notin> {sid}" "\<not> su_delivering (bu_objects b1 s)" for s
      using that inv(7) [of s] by (simp add: b1)
  qed
qed

section \<open>Frames of the updates\<close>

lemma grows_sub_update:
  assumes "\<And>u. su_filter (f u) = su_filter u \<and> su_listener (f u) = su_listener u \<and>
             su_liveAfter (f u) = su_liveAfter u \<and> su_delivering (f u) = su_delivering u \<and> su_seen (f u) = su_seen u"
  shows "grows b (sub_update i f b)"
  using assms by (simp add: grows_def)

lemma grows_enqueue: "grows b (enqueue i e b)"
  unfolding enqueue_def by (rule grows_sub_update) simp

lemma grows_dequeue: "i \<in> set (bu_subscribers b) \<Longrightarrow> grows b (dequeue i b)"
  by (auto simp: grows_def dequeue_def)

lemma grows_detach: "grows b (detach i b)"
  by (simp add: grows_def detach_def)

lemma grows_unsubscribe: "grows b (snd (unsubscribe i b))"
  by (simp add: grows_def)

lemma steady_unsubscribe: "steady b (snd (unsubscribe i b))"
  by (simp add: steady_def)

lemma log_of_detach: "set (log_of (detach i b) s) \<subseteq> set (log_of b s)"
  by (auto simp: log_of_def detach_def)

lemma steady_detach: "steady b (detach i b)"
  using log_of_detach by (simp add: steady_def) (simp add: detach_def)

lemma steady_dequeue: "su_queue (bu_objects b i) \<noteq> [] \<Longrightarrow> steady b (dequeue i b)"
  by (auto simp: steady_def dequeue_def log_of_def dest: list.set_sel(2) [rotated])

lemma steady_set_delivering: "steady b (set_delivering i v b)"
  unfolding steady_def log_of_set_delivering by (simp add: set_delivering_def)

lemma grows_set_delivering:
  assumes "grows (set_delivering i True b) b'" "\<not> su_delivering (bu_objects b i)"
  shows "grows b (set_delivering i False b')"
proof -
  have k: "known (set_delivering i True b) s = known b s" for s by (simp add: set_delivering_def)
  show ?thesis using assms unfolding grows_def k by (auto simp: set_delivering_def)
qed

lemma grows_publish: "grows b (publish d b)"
  by (simp add: grows_def)

lemma steady_publish: "1 \<le> bu_nextId b \<Longrightarrow> steady b (publish d b)"
  by (auto simp: steady_def dest: publish_replay)

section \<open>Every task keeps the invariant\<close>

text \<open>
  What each task relies on and what it establishes. \<open>X\<close> are the subscriptions that an
  enclosing fan-out has still to serve.
\<close>

definition fan_ready :: "string list \<Rightarrow> nat \<Rightarrow> daemon_event \<Rightarrow> bus \<Rightarrow> bool" where
  "fan_ready ids n e b \<longleftrightarrow>
     bus_inv (set ids) {} b \<and> bu_delivering b \<and> fanned b = n \<and> event_seq e = n \<and> distinct ids \<and>
     (\<forall>e' \<in> set (bu_replay b). event_seq e' = n \<longrightarrow> e' = e) \<and>
     (\<forall>sid \<in> set ids. known b sid \<and>
        (su_liveAfter (bu_objects b sid) < n \<longrightarrow> (\<forall>x \<in> set (log_of b sid). event_seq x < n)))"

fun task_pre :: "string set \<Rightarrow> task \<Rightarrow> bus \<Rightarrow> bool" where
  "task_pre X TDrain b \<longleftrightarrow> bus_inv {} {} b \<and> bu_delivering b"
| "task_pre X (TFan ids n e) b \<longleftrightarrow> fan_ready ids n e b"
| "task_pre X (TDeliver sid) b \<longleftrightarrow> bus_inv X {sid} b \<and> known b sid \<and> (bu_delivering b \<or> X = {})"
| "task_pre X (TLoop sid) b \<longleftrightarrow>
     bus_inv X {} b \<and> known b sid \<and> su_delivering (bu_objects b sid) \<and> (bu_delivering b \<or> X = {})"
| "task_pre X (TEmit d) b \<longleftrightarrow> bus_inv X {} b \<and> (bu_delivering b \<or> X = {})"
| "task_pre X (TCalls cs v) b \<longleftrightarrow> bus_inv X {} b \<and> (bu_delivering b \<or> X = {})"
| "task_pre X (TSubscribe f l) b \<longleftrightarrow> bus_inv X {} b \<and> (bu_delivering b \<or> X = {})"

fun task_post :: "string set \<Rightarrow> task \<Rightarrow> bus \<Rightarrow> bus \<Rightarrow> bool" where
  "task_post X TDrain b b' \<longleftrightarrow> bus_inv {} {} b' \<and> grows b b' \<and> bu_pending b' = []"
| "task_post X (TFan ids n e) b b' \<longleftrightarrow> bus_inv {} {} b' \<and> grows b b'"
| "task_post X (TLoop sid) b b' \<longleftrightarrow> bus_inv X {} b' \<and> grows b b' \<and> steady b b' \<and>
     (sid \<in> set (bu_subscribers b') \<longrightarrow> su_queue (bu_objects b' sid) = [])"
| "task_post X t b b' \<longleftrightarrow> bus_inv X {} b' \<and> grows b b' \<and> steady b b'"

definition sound :: "(task \<Rightarrow> bus \<Rightarrow> outcome) \<Rightarrow> bool" where
  "sound self \<longleftrightarrow> (\<forall>X t b r b'. self t b = Some (r, b') \<longrightarrow> task_pre X t b \<longrightarrow> task_post X t b b')"

lemma soundD: "sound self \<Longrightarrow> self t b = Some (r, b') \<Longrightarrow> task_pre X t b \<Longrightarrow> task_post X t b b'"
  by (auto simp: sound_def)

lemma after_Some: "after r f = Some x \<Longrightarrow> \<exists>y b. r = Some (y, b) \<and> f b = Some x"
  by (auto simp: after_def split: option.splits)

lemma emit_with_sound:
  assumes self: "sound self" and run: "emit_with self d b = Some (r, b')" and pre: "task_pre X (TEmit d) b"
  shows "task_post X (TEmit d) b b'"
proof (cases "bu_delivering b")
  case True
  then have "b' = publish d b" using run by (simp add: emit_with_def Let_def void_def)
  moreover have "1 \<le> bu_nextId b" using pre bus_invD(1) by (fastforce simp: replay_ok_def)
  ultimately show ?thesis
    using True pre by (simp add: bus_inv_publish grows_publish steady_publish)
next
  case False
  let ?b = "publish d (b\<lparr>bu_delivering := True\<rparr>)"
  have eq: "(publish d b)\<lparr>bu_delivering := True\<rparr> = ?b"
    by (cases "dr_timestamp d") (simp_all add: publish_def full_event_def Let_def)
  obtain y b2 where r2: "self TDrain ?b = Some (y, b2)" and b': "b' = b2\<lparr>bu_delivering := False\<rparr>"
    using run False by (auto simp: emit_with_def Let_def eq void_def dest!: after_Some)
  have "bus_inv {} {} b" using pre False by auto
  then have "bus_inv {} {} ?b" by (simp add: bus_inv_flag bus_inv_publish)
  with soundD [OF self r2, of "{}"] have post: "bus_inv {} {} b2" "grows ?b b2" "bu_pending b2 = []"
    by simp_all
  have "bus_inv {} {} b'" unfolding b' by (rule bus_inv_unflag [OF post(1,3)])
  moreover have "known ?b s = known b s" "known b' s = known b2 s" for s by (simp_all add: known_def b')
  then have "grows b b'" using post(2) False by (simp add: grows_def b')
  ultimately show ?thesis using False pre by (simp add: steady_def)
qed

lemma drain_with_sound:
  assumes self: "sound self" and run: "drain_with self b = Some (r, b')" and pre: "task_pre X TDrain b"
  shows "task_post X TDrain b b'"
proof (cases "bu_pending b")
  case Nil
  then show ?thesis using run pre by (simp add: drain_with_def void_def)
next
  case (Cons p rest)
  obtain n e where p: "bu_pending b = (n, e) # rest" using Cons by (cases p) simp
  let ?b = "b\<lparr>bu_pending := rest\<rparr>"
  have inv: "bus_inv {} {} b" and d: "bu_delivering b" using pre by simp_all
  note nx = pending_next [OF bus_invD(2,1) [OF inv] p]
  obtain y b1 where r1: "self (TFan (bu_subscribers b) n e) ?b = Some (y, b1)"
    and r2: "self TDrain b1 = Some (r, b')"
    using run p by (auto simp: drain_with_def dest!: after_Some)
  have "event_seq x < n" if "su_liveAfter (bu_objects b sid) < n" "x \<in> set (log_of b sid)" for sid x
    using bus_invD(5) [OF inv, of sid] that nx(1) by (fastforce simp: sub_ok_def)
  then have "fan_ready (bu_subscribers b) n e ?b"
    using bus_inv_pop [OF inv d p] nx d bus_invD(3,4) [OF inv] by (simp add: fan_ready_def log_of_def known_def)
  with soundD [OF self r1] have p1: "bus_inv {} {} b1" "grows ?b b1" by simp_all
  with d have d1: "bu_delivering b1" by (simp add: grows_def)
  with soundD [OF self r2] p1 have p2: "bus_inv {} {} b'" "grows b1 b'" "bu_pending b' = []" by simp_all
  have "grows b b1" using p1(2) by (simp add: grows_def known_def)
  with p2 show ?thesis by (auto intro: grows_trans)
qed

lemma fan_ready_rest:
  assumes "fan_ready (sid # ids) n e b" "bus_inv (set ids) {} b1"
    and g: "grows b b1" and f: "fanned b1 = fanned b"
    and replay: "\<forall>e \<in> set (bu_replay b1). e \<in> set (bu_replay b) \<or> bu_nextId b \<le> event_seq e"
    and logs: "\<forall>s. known b s \<longrightarrow> s \<noteq> sid \<longrightarrow> set (log_of b1 s) \<subseteq> set (log_of b s)"
  shows "fan_ready ids n e b1"
proof -
  have b: "bu_delivering b" "fanned b = n" "event_seq e = n" "sid \<notin> set ids" "distinct ids"
      "\<forall>e' \<in> set (bu_replay b). event_seq e' = n \<longrightarrow> e' = e"
    and ids: "\<And>s. s \<in> set ids \<Longrightarrow> known b s"
      "\<And>s x. s \<in> set ids \<Longrightarrow> su_liveAfter (bu_objects b s) < n \<Longrightarrow> x \<in> set (log_of b s) \<Longrightarrow> event_seq x < n"
    using assms(1) by (auto simp: fan_ready_def)
  have "n < bu_nextId b" using assms(1) fanned_less [OF bus_invD(1)] b(2) by (fastforce simp: fan_ready_def)
  then have "\<forall>e' \<in> set (bu_replay b1). event_seq e' = n \<longrightarrow> e' = e" using replay b(6) by force
  moreover have "known b1 s \<and> (su_liveAfter (bu_objects b1 s) < n \<longrightarrow> (\<forall>x \<in> set (log_of b1 s). event_seq x < n))"
    if "s \<in> set ids" for s
  proof -
    have "s \<noteq> sid" using that b(4) by auto
    moreover have "su_liveAfter (bu_objects b1 s) = su_liveAfter (bu_objects b s)"
      using g ids(1) [OF that] by (simp add: grows_def)
    ultimately show ?thesis using ids [OF that] logs grows_known [OF g] by (auto dest: subsetD)
  qed
  moreover have "bu_delivering b1" using g b(1) by (simp add: grows_def)
  ultimately show ?thesis using assms(2) b f by (simp add: fan_ready_def)
qed

lemma fan_with_sound:
  assumes self: "sound self" and run: "fan_with self ids n e b = Some (r, b')" and pre: "task_pre X (TFan ids n e) b"
  shows "task_post X (TFan ids n e) b b'"
proof (cases ids)
  case Nil
  then show ?thesis using run pre by (simp add: fan_with_def void_def fan_ready_def)
next
  case (Cons sid rest)
  have ready: "fan_ready (sid # rest) n e b" using pre Cons by simp
  then have inv: "bus_inv (insert sid (set rest)) {} b" and b: "bu_delivering b" "fanned b = n" "event_seq e = n"
      "\<forall>e' \<in> set (bu_replay b). event_seq e' = n \<longrightarrow> e' = e" "known b sid"
    by (simp_all add: fan_ready_def)
  show ?thesis
  proof (cases "wanted b sid n e")
    case False
    have "bus_inv (set rest) {} b" by (rule bus_inv_skip [OF inv False b(2,4)])
    then have "fan_ready rest n e b" by (rule fan_ready_rest [OF ready]) simp_all
    then show ?thesis using soundD [OF self, of "TFan rest n e"] run Cons False by (simp add: fan_with_def)
  next
    case True
    let ?b = "enqueue sid e b"
    have "\<forall>x \<in> set (log_of b sid). event_seq x < n" using ready True by (simp add: fan_ready_def wanted_def)
    then have inv': "bus_inv (set rest) {sid} ?b" by (rule bus_inv_enqueue [OF inv True b(2,3) _ b(4)])
    obtain y b1 where r1: "self (TDeliver sid) ?b = Some (y, b1)" and r2: "self (TFan rest n e) b1 = Some (r, b')"
      using run Cons True by (auto simp: fan_with_def dest!: after_Some)
    have k: "known ?b s = known b s" and d: "bu_delivering ?b" for s
      using b(1) by (simp_all add: enqueue_def)
    have p1: "bus_inv (set rest) {} b1" "grows ?b b1" "steady ?b b1"
      using soundD [OF self r1, of "set rest"] inv' d b(5) k by simp_all
    have g: "grows b b1" using grows_enqueue p1(2) by (rule grows_trans)
    have "fan_ready rest n e b1"
    proof (rule fan_ready_rest [OF ready p1(1) g])
      show "fanned b1 = fanned b" using p1(3) d by (simp add: steady_def) (simp add: enqueue_def)
      show "\<forall>e \<in> set (bu_replay b1). e \<in> set (bu_replay b) \<or> bu_nextId b \<le> event_seq e"
        using p1(3) d by (simp add: steady_def) (simp add: enqueue_def)
      show "\<forall>s. known b s \<longrightarrow> s \<noteq> sid \<longrightarrow> set (log_of b1 s) \<subseteq> set (log_of b s)"
      proof (intro allI impI)
        fix s assume "known b s" "s \<noteq> sid"
        then have "set (log_of b1 s) \<subseteq> set (log_of ?b s)" "log_of ?b s = log_of b s"
          using p1(3) d k by (simp_all add: steady_def) (simp add: log_of_def enqueue_def)
        then show "set (log_of b1 s) \<subseteq> set (log_of b s)" by simp
      qed
    qed
    with soundD [OF self r2] have "bus_inv {} {} b'" "grows b1 b'" by simp_all
    with g show ?thesis by (auto intro: grows_trans)
  qed
qed

lemma deliver_with_sound:
  assumes self: "sound self" and run: "deliver_with self sid b = Some (r, b')" and pre: "task_pre X (TDeliver sid) b"
  shows "task_post X (TDeliver sid) b b'"
proof (cases "su_delivering (bu_objects b sid)")
  case True
  then have "b' = b" using run by (simp add: deliver_with_def void_def)
  moreover have "bus_inv X {} b"
    using pre True by (simp add: bus_inv_def) metis
  ultimately show ?thesis by simp
next
  case False
  let ?b = "set_delivering sid True b"
  obtain y b1 where r1: "self (TLoop sid) ?b = Some (y, b1)" and b': "b' = set_delivering sid False b1"
    using run False by (auto simp: deliver_with_def void_def dest!: after_Some)
  have "bus_inv X {} ?b" using pre by (auto intro: bus_inv_set_delivering)
  moreover have "known ?b sid" "su_delivering (bu_objects ?b sid)" "bu_delivering ?b = bu_delivering b"
    using pre by (simp_all add: set_delivering_def)
  ultimately have p1: "bus_inv X {} b1" "grows ?b b1" "steady ?b b1"
      "sid \<in> set (bu_subscribers b1) \<longrightarrow> su_queue (bu_objects b1 sid) = []"
    using soundD [OF self r1, of X] pre by simp_all
  have "bus_inv X {} b'" unfolding b' using p1(1,4) by (auto intro: bus_inv_set_delivering)
  moreover have "grows b b'" unfolding b' by (rule grows_set_delivering [OF p1(2) False])
  moreover have "steady b b'"
    using p1(3) unfolding steady_def b' log_of_set_delivering by (simp add: set_delivering_def)
  ultimately show ?thesis by simp
qed

lemma loop_with_sound:
  assumes self: "sound self" and run: "loop_with self sid b = Some (r, b')" and pre: "task_pre X (TLoop sid) b"
  shows "task_post X (TLoop sid) b b'"
proof (cases "sid \<in> set (bu_subscribers b) \<and> su_queue (bu_objects b sid) \<noteq> []")
  case False
  then have "b' = b" using run by (simp only: loop_with_def void_def if_False) simp
  then show ?thesis using pre False by auto
next
  case True
  let ?b = "dequeue sid b"
  obtain cs v where l: "su_listener (bu_objects ?b sid) (su_seen (bu_objects ?b sid)) = (cs, v)"
    by (cases "su_listener (bu_objects ?b sid) (su_seen (bu_objects ?b sid))")
  obtain x b2 where r1: "self (TCalls cs v) ?b = Some (x, b2)"
    and b2: "case x of Inl _ \<Rightarrow> b' = detach sid b2 | Inr _ \<Rightarrow> self (TLoop sid) b2 = Some (r, b')"
    using run True by (auto simp: loop_with_def Let_def l void_def split: option.splits sum.splits)
  have "bus_inv X {} ?b" using pre True by (simp add: bus_inv_dequeue)
  then have p1: "bus_inv X {} b2" "grows ?b b2" "steady ?b b2"
    using soundD [OF self r1, of X] pre by (simp_all add: dequeue_def)
  have g0: "grows b ?b" using True by (simp add: grows_dequeue)
  have g: "grows b b2" using g0 p1(2) by (rule grows_trans)
  have s: "steady b b2" by (rule steady_trans [OF g0 steady_dequeue p1(3)]) (use True in simp)
  show ?thesis
  proof (cases x)
    case (Inl e)
    then have b': "b' = detach sid b2" using b2 by simp
    have "steady b b'" unfolding b' by (rule steady_trans [OF g s steady_detach])
    moreover have "grows b b'" unfolding b' by (rule grows_trans [OF g grows_detach])
    moreover have "sid \<notin> set (bu_subscribers b')" by (simp add: b' detach_def)
    ultimately show ?thesis using p1(1) by (simp add: b' bus_inv_detach)
  next
    case (Inr z)
    then have r2: "self (TLoop sid) b2 = Some (r, b')" using b2 by simp
    have "task_pre X (TLoop sid) b2"
      using pre p1(1) g grows_known [OF g] by (auto simp: grows_def)
    from soundD [OF self r2 this] show ?thesis
      using grows_trans [OF g] steady_trans [OF g s] by auto
  qed
qed

lemma calls_with_sound:
  assumes self: "sound self" and run: "calls_with self cs v b = Some (r, b')" and pre: "task_pre X (TCalls cs v) b"
  shows "task_post X (TCalls cs v) b b'"
proof -
  have chain: "task_post X (TCalls cs v) b b'"
    if "bus_inv X {} b1" "grows b b1" "steady b b1" "self (TCalls rest v) b1 = Some (r, b')" for b1 rest
  proof -
    have "task_pre X (TCalls rest v) b1" using that(1,2) pre by (auto simp: grows_def)
    from soundD [OF self that(4) this] show ?thesis
      using grows_trans [OF that(2)] steady_trans [OF that(2,3)] by simp
  qed
  show ?thesis
  proof (cases cs)
    case Nil
    then show ?thesis using run pre by (simp add: calls_with_def)
  next
    case (Cons c rest)
    show ?thesis
    proof (cases c)
      case (Emit d)
      then obtain y b1 where r1: "self (TEmit d) b = Some (y, b1)" and r2: "self (TCalls rest v) b1 = Some (r, b')"
        using run Cons by (auto simp: calls_with_def dest!: after_Some)
      from soundD [OF self r1, of X] pre show ?thesis by (intro chain [OF _ _ _ r2]) simp_all
    next
      case (Unsubscribe i)
      then have r2: "self (TCalls rest v) (snd (unsubscribe i b)) = Some (r, b')"
        using run Cons by (simp add: calls_with_def)
      show ?thesis
        using pre by (intro chain [OF _ grows_unsubscribe steady_unsubscribe r2]) (simp add: bus_inv_unsubscribe)
    next
      case (Subscribe f l)
      then obtain y b1 where r1: "self (TSubscribe f l) b = Some (y, b1)"
        and r2: "(\<exists>e. y = Inl e \<and> b' = b1) \<or> self (TCalls rest v) b1 = Some (r, b')"
        using run Cons by (auto simp: calls_with_def split: option.splits sum.splits)
      from soundD [OF self r1, of X] pre have p: "bus_inv X {} b1" "grows b b1" "steady b b1" by simp_all
      with r2 show ?thesis using chain [OF p] by auto
    qed
  qed
qed

lemma subscribe_with_sound:
  assumes self: "sound self" and run: "subscribe_with self f l b = Some (r, b')" and pre: "task_pre X (TSubscribe f l) b"
  shows "task_post X (TSubscribe f l) b b'"
proof (cases "register f l b")
  case (Inl e)
  then show ?thesis using run pre by (simp add: subscribe_with_def)
next
  case (Inr p)
  then obtain sid b1 where reg: "register f l b = Inr (sid, b1)" by (cases p) simp
  then obtain y where r1: "self (TDeliver sid) b1 = Some (y, b')"
    using run by (auto simp: subscribe_with_def dest!: after_Some)
  have inv: "bus_inv X {} b" using pre by simp
  note new = bus_inv_register [OF inv reg]
  from soundD [OF self r1, of X] new pre have "bus_inv X {} b'" "grows b1 b'" "steady b1 b'" by simp_all
  then show ?thesis using grows_trans [OF new(3)] steady_trans [OF new(3,4)] by simp
qed

theorem exec_sound: "sound (exec k)"
proof (induction k)
  case 0
  show ?case by (simp add: sound_def)
next
  case (Suc k)
  show ?case
    unfolding sound_def
  proof (intro allI impI)
    fix X t b r b'
    assume "exec (Suc k) t b = Some (r, b')" "task_pre X t b"
    then show "task_post X t b b'"
      using emit_with_sound [OF Suc] drain_with_sound [OF Suc] fan_with_sound [OF Suc]
        deliver_with_sound [OF Suc] loop_with_sound [OF Suc] calls_with_sound [OF Suc] subscribe_with_sound [OF Suc]
      by (cases t) (simp_all only: exec.simps task.case)
  qed
qed

end
