(* ===== verification/Event_Bus_Props.thy ===== *)
theory Event_Bus_Props
  imports Event_Delivery
begin

text \<open>
  The properties of the event bus, for every bus reached from a new one by its public methods,
  with whatever listeners, each call given whatever fuel it returns with.
\<close>

inductive bus_reach :: "bus \<Rightarrow> bool" where
  start: "new_bus epoch clock limit = Inr b \<Longrightarrow> bus_reach b"
| emitted: "bus_reach b \<Longrightarrow> emit fuel d b = Some (e, b') \<Longrightarrow> bus_reach b'"
| subscribed: "bus_reach b \<Longrightarrow> subscribe fuel flt l b = Some (r, b') \<Longrightarrow> bus_reach b'"
| unsubscribed: "bus_reach b \<Longrightarrow> unsubscribe sid b = (r, b') \<Longrightarrow> bus_reach b'"

text \<open>Between calls the bus is at rest: no delivery is under way.\<close>

definition at_rest :: "bus \<Rightarrow> bool" where
  "at_rest b \<longleftrightarrow> bus_inv {} {} b \<and> \<not> bu_delivering b \<and> (\<forall>sid. known b sid \<longrightarrow> \<not> su_delivering (bu_objects b sid))"

lemma at_rest_new: "new_bus epoch clock limit = Inr b \<Longrightarrow> at_rest b"
  by (auto simp: new_bus_def at_rest_def bus_inv_def replay_ok_def pending_ok_def sub_ok_def log_of_def
      fanned_def known_def due_def no_subscriber_def split: if_splits)

lemma at_rest_task:
  assumes rest: "at_rest b" and run: "exec k t b = Some (r, b')"
    and t: "(\<exists>d. t = TEmit d) \<or> (\<exists>f l. t = TSubscribe f l)"
  shows "at_rest b'" "grows b b'"
proof -
  have "task_pre {} t b" using t rest by (auto simp: at_rest_def)
  with exec_sound run have "task_post {} t b b'" by (rule soundD)
  with t have post: "bus_inv {} {} b'" "grows b b'" by auto
  then show "grows b b'" by simp
  show "at_rest b'" using rest post by (auto simp: at_rest_def grows_def)
qed

lemma bus_reach_at_rest: "bus_reach b \<Longrightarrow> at_rest b"
proof (induction rule: bus_reach.induct)
  case (start epoch clock limit b)
  then show ?case by (rule at_rest_new)
next
  case (emitted b fuel d e b')
  then show ?case by (auto simp: emit_def intro: at_rest_task(1))
next
  case (subscribed b fuel flt l r b')
  then show ?case by (auto simp: subscribe_def intro: at_rest_task(1))
next
  case (unsubscribed b sid r b')
  then have "b' = snd (unsubscribe sid b)" by simp
  with unsubscribed show ?case by (simp add: at_rest_def bus_inv_unsubscribe)
qed

lemma bus_reach_inv: "bus_reach b \<Longrightarrow> bus_inv {} {} b"
  by (drule bus_reach_at_rest) (simp add: at_rest_def)

lemma bus_reach_fanned: "bus_reach b \<Longrightarrow> fanned b = bu_nextId b - 1"
proof -
  assume "bus_reach b"
  then have "at_rest b" by (rule bus_reach_at_rest)
  then have "bu_pending b = []" by (auto simp: at_rest_def bus_inv_def pending_ok_def)
  then show ?thesis by (simp add: fanned_def)
qed

section \<open>Parsing a cursor back\<close>

lemma dec_is_canonical: "is_canonical_number (dec n)"
  using dec_canonical [of n] by (simp add: is_canonical_number_def dec_digits)

lemma is_uuid_length: "is_uuid u \<Longrightarrow> length u = 36"
  unfolding is_uuid_def by (drule list_all2_lengthD) simp

lemma match_cursor_event_id: "is_uuid u \<Longrightarrow> match_cursor (event_id u n) = Some (u, n)"
  by (simp add: match_cursor_def event_id_def Let_def is_uuid_length dec_is_canonical)

lemma sequence_event_id:
  "is_uuid u \<Longrightarrow> sequence b (event_id u n) =
     (if n > MAX_SAFE_INTEGER then Inl (DaemonError InvalidParams ''Invalid event cursor'' None)
      else if u \<noteq> bu_epoch b
      then Inl (DaemonError EventHistoryLost ''Event cursor belongs to another daemon instance'' None)
      else if n \<ge> bu_nextId b then Inl (DaemonError InvalidParams ''Event cursor is in the future'' None)
      else if int n < int (bu_nextId b) - int (length (bu_replay b)) - 1
      then Inl (DaemonError EventHistoryLost ''Event cursor has expired from the replay buffer'' None)
      else Inr n)"
  by (simp add: sequence_def match_cursor_event_id)

lemma event_id_not_empty [simp]: "event_id u n \<noteq> []"
  by (simp add: event_id_def)

lemma matches_cursor_only [simp]: "matchesFilter e (JObj [(''sinceEventId'', v)])"
  by (simp add: matchesFilter_def)

lemma eventsSince_cursor:
  "eventsSince b (JObj [(''sinceEventId'', JStr (event_id u n))]) =
     (case sequence b (event_id u n) of
        Inl e \<Rightarrow> Inl e
      | Inr since \<Rightarrow> Inr [e \<leftarrow> bu_replay b. event_seq e > since])"
  by (simp add: eventsSince_def filter_keys_def split: sum.split)

section \<open>Observers\<close>

text \<open>A listener that makes no calls back into the bus.\<close>

definition observer :: "subscriber \<Rightarrow> bool" where
  "observer u \<longleftrightarrow> (\<forall>es. fst (su_listener u es) = [])"

text \<open>What serving one observer leaves alone.\<close>

definition others_same :: "string \<Rightarrow> bus \<Rightarrow> bus \<Rightarrow> bool" where
  "others_same sid b b' \<longleftrightarrow>
     bu_pending b' = bu_pending b \<and> (\<forall>s. s \<noteq> sid \<longrightarrow> bu_objects b' s = bu_objects b s) \<and>
     set (bu_subscribers b') \<subseteq> set (bu_subscribers b)"

lemma observer_deliver:
  assumes "observer (bu_objects b sid)" "\<not> su_delivering (bu_objects b sid)" "length (su_queue (bu_objects b sid)) = 1"
  shows "\<exists>r b'. exec (Suc (Suc (Suc (Suc k)))) (TDeliver sid) b = Some (r, b') \<and> others_same sid b b'"
proof -
  obtain e where q: "su_queue (bu_objects b sid) = [e]" using assms(3) by (cases "su_queue (bu_objects b sid)") auto
  let ?b = "set_delivering sid True b"
  let ?d = "dequeue sid ?b"
  have "su_listener (bu_objects ?d sid) = su_listener (bu_objects b sid)"
    by (simp add: dequeue_def set_delivering_def)
  then obtain v where l: "su_listener (bu_objects ?d sid) (su_seen (bu_objects ?d sid)) = ([], v)"
    using assms(1) by (metis observer_def prod.collapse)
  have q1: "su_queue (bu_objects ?b sid) = [e]" "su_queue (bu_objects ?d sid) = []"
    using q by (simp_all add: set_delivering_def dequeue_def)
  have same: "others_same sid b ?b" "others_same sid b ?d" "others_same sid b (detach sid ?d)"
    by (auto simp: others_same_def set_delivering_def dequeue_def detach_def)
  have off: "others_same sid b b1 \<Longrightarrow> others_same sid b (set_delivering sid False b1)" for b1
    by (simp add: others_same_def set_delivering_def)
  have "\<exists>r b1. exec (Suc (Suc (Suc k))) (TLoop sid) ?b = Some (r, b1) \<and> others_same sid b b1"
  proof (cases "sid \<in> set (bu_subscribers ?b)")
    case False
    then show ?thesis using same by (simp add: loop_with_def void_def)
  next
    case True
    then show ?thesis
      using l q1 same by (cases v) (simp_all add: loop_with_def calls_with_def void_def Let_def)
  qed
  then obtain r b1 where "exec (Suc (Suc (Suc k))) (TLoop sid) ?b = Some (r, b1)" "others_same sid b b1" by blast
  then show ?thesis
    using assms(2) off [of b1] by (simp add: deliver_with_def after_def void_def del: exec.simps(2) add: exec.simps(2) [of "Suc (Suc (Suc k))"])
qed

lemma observer_fan:
  assumes "distinct ids" "length ids + 5 \<le> k"
    and "\<forall>sid \<in> set ids. observer (bu_objects b sid) \<and> \<not> su_delivering (bu_objects b sid) \<and> su_queue (bu_objects b sid) = []"
  shows "\<exists>r b'. exec k (TFan ids n e) b = Some (r, b') \<and> bu_pending b' = bu_pending b"
  using assms
proof (induction ids arbitrary: k b)
  case Nil
  then obtain k' where "k = Suc k'" by (cases k) auto
  then show ?case by (simp add: fan_with_def void_def)
next
  case (Cons sid ids)
  then obtain m where k: "k = Suc m" and m: "length ids + 5 \<le> m" by (cases k) auto
  then obtain j where j: "m = Suc (Suc (Suc (Suc j)))"
    by (metis add.commute add_Suc_right le_Suc_ex eval_nat_numeral(2,3) semiring_norm(26,27) numeral_One One_nat_def plus_1_eq_Suc)
  show ?case
  proof (cases "wanted b sid n e")
    case False
    have "\<exists>r b'. exec m (TFan ids n e) b = Some (r, b') \<and> bu_pending b' = bu_pending b"
      using Cons.prems by (intro Cons.IH m) auto
    with False show ?thesis by (simp add: k fan_with_def)
  next
    case True
    let ?b = "enqueue sid e b"
    have "observer (bu_objects ?b sid)" "\<not> su_delivering (bu_objects ?b sid)" "length (su_queue (bu_objects ?b sid)) = 1"
      using Cons.prems(3) by (simp_all add: enqueue_def observer_def)
    from observer_deliver [OF this, of j] obtain r b1
      where r1: "exec m (TDeliver sid) ?b = Some (r, b1)" and same: "others_same sid ?b b1"
      unfolding j by blast
    have "bu_objects b1 s = bu_objects b s" if "s \<in> set ids" for s
      using same that Cons.prems(1) by (auto simp: others_same_def enqueue_def)
    then have "\<exists>r b'. exec m (TFan ids n e) b1 = Some (r, b') \<and> bu_pending b' = bu_pending b1"
      using Cons.prems by (intro Cons.IH m) auto
    moreover have "bu_pending b1 = bu_pending b" using same by (simp add: others_same_def enqueue_def)
    ultimately show ?thesis using True r1 by (simp add: k fan_with_def after_def)
  qed
qed

section \<open>Properties\<close>

text \<open>The replay buffer holds exactly the latest events, up to its limit, with consecutive ids.\<close>

theorem replay_is_latest:
  assumes "bus_reach b"
  shows "length (bu_replay b) = min (bu_replayLimit b) (bu_nextId b - 1) \<and>
     map ev_eventId (bu_replay b) =
       map (event_id (bu_epoch b)) [bu_nextId b - length (bu_replay b) ..< bu_nextId b]"
proof -
  have r: "replay_ok b" by (rule bus_invD(1) [OF bus_reach_inv [OF assms]])
  then have "\<forall>e \<in> set (bu_replay b). ev_eventId e = event_id (bu_epoch b) (event_seq e)"
    by (simp add: replay_ok_def)
  then have "map ev_eventId (bu_replay b) = map (event_id (bu_epoch b)) (map event_seq (bu_replay b))"
    by simp
  also have "map event_seq (bu_replay b) = [bu_nextId b - length (bu_replay b) ..< bu_nextId b]"
    using r by (simp add: replay_ok_def)
  finally show ?thesis using r unfolding replay_ok_def by blast
qed

text \<open>
  C24. Every subscription, live or detached, has been called with events that match its filter,
  in strictly increasing order of their numbers: no event is reordered or delivered twice, however
  listeners emit, subscribe, unsubscribe and throw while being called.
\<close>

theorem delivery_in_order:
  assumes "bus_reach b"
  shows "sorted_wrt (<) (map event_seq (su_seen (bu_objects b sid))) \<and>
     (\<forall>e \<in> set (su_seen (bu_objects b sid)). matchesFilter e (su_filter (bu_objects b sid)))"
  using bus_invD(5) [OF bus_reach_inv [OF assms], of sid]
  by (auto simp: sub_ok_def log_of_def sorted_wrt_append)

text \<open>
  C29. A live subscription has been called with every retained event that was emitted after it
  began and that matches its filter: no delivery is lost.
\<close>

theorem delivery_complete:
  assumes "bus_reach b" "sid \<in> set (bu_subscribers b)" "e \<in> set (bu_replay b)"
    and "su_liveAfter (bu_objects b sid) < event_seq e" "matchesFilter e (su_filter (bu_objects b sid))"
  shows "e \<in> set (su_seen (bu_objects b sid))"
proof -
  have inv: "bus_inv {} {} b" and rest: "at_rest b"
    using assms(1) by (simp_all add: bus_reach_inv bus_reach_at_rest)
  have "event_seq e < bu_nextId b" by (rule replay_seq_less [OF bus_invD(1) [OF inv] assms(3)])
  then have "due {} b sid e" using assms bus_reach_fanned [OF assms(1)] by (simp add: due_def)
  then have "e \<in> set (log_of b sid)" by (rule bus_invD(6) [OF inv])
  moreover have "su_queue (bu_objects b sid) = []"
    using bus_invD(4,7) [OF inv assms(2)] rest by (simp add: at_rest_def)
  ultimately show ?thesis by (simp add: log_of_def)
qed

text \<open>
  A subscription that is gone, by \<open>unsubscribe\<close> or because its listener threw, is never
  called again.
\<close>

theorem detached_stays_silent:
  assumes "bus_reach b" "known b sid" "sid \<notin> set (bu_subscribers b)" "emit fuel d b = Some (e, b')"
  shows "sid \<notin> set (bu_subscribers b') \<and> su_seen (bu_objects b' sid) = su_seen (bu_objects b sid)"
proof -
  obtain r where "exec fuel (TEmit d) b = Some (r, b')" using assms(4) by (auto simp: emit_def)
  with at_rest_task(2) [OF bus_reach_at_rest [OF assms(1)]] have "grows b b'" by blast
  with assms(2,3) show ?thesis by (auto simp: grows_def)
qed

text \<open>
  A cursor in the text form the bus hands out is accepted exactly when it names this bus and
  a position from which no event has been dropped; otherwise the error says why.
\<close>

theorem cursor_classified:
  assumes "bus_reach b" "is_uuid u" "n \<le> MAX_SAFE_INTEGER"
  shows "sequence b (event_id u n) =
     (if u \<noteq> bu_epoch b
      then Inl (DaemonError EventHistoryLost ''Event cursor belongs to another daemon instance'' None)
      else if bu_nextId b \<le> n
      then Inl (DaemonError InvalidParams ''Event cursor is in the future'' None)
      else if {n + 1 ..< bu_nextId b} \<subseteq> event_seq ` set (bu_replay b) then Inr n
      else Inl (DaemonError EventHistoryLost ''Event cursor has expired from the replay buffer'' None))"
proof -
  have r: "replay_ok b" by (rule bus_invD(1) [OF bus_reach_inv [OF assms(1)]])
  have "event_seq ` set (bu_replay b) = set (map event_seq (bu_replay b))" by simp
  also have "\<dots> = {bu_nextId b - length (bu_replay b) ..< bu_nextId b}"
    using r by (simp add: replay_ok_def)
  finally have img: "event_seq ` set (bu_replay b) = {bu_nextId b - length (bu_replay b) ..< bu_nextId b}" .
  have "length (bu_replay b) \<le> bu_nextId b - 1" "1 \<le> bu_nextId b" using r by (simp_all add: replay_ok_def)
  then have "n < bu_nextId b \<Longrightarrow>
      {n + 1 ..< bu_nextId b} \<subseteq> event_seq ` set (bu_replay b) \<longleftrightarrow>
      \<not> int n < int (bu_nextId b) - int (length (bu_replay b)) - 1"
    unfolding img ivl_subset by linarith
  then show ?thesis using assms(2,3) by (simp add: sequence_event_id)
qed

text \<open>
  C32. Resuming from a retained event returns exactly the events emitted after it, in order: a
  client that reconnects with the id of the last event it saw misses nothing and sees nothing twice.
\<close>

theorem resume_is_exact:
  assumes "bus_reach b" "is_uuid (bu_epoch b)" "bu_nextId b \<le> MAX_SAFE_INTEGER"
    and split: "bu_replay b = xs @ e # ys"
  shows "eventsSince b (JObj [(''sinceEventId'', JStr (ev_eventId e))]) = Inr ys"
proof -
  have r: "replay_ok b" by (rule bus_invD(1) [OF bus_reach_inv [OF assms(1)]])
  have e: "ev_eventId e = event_id (bu_epoch b) (event_seq e)" "event_seq e < bu_nextId b"
    using r split replay_seq_less [OF r, of e] by (auto simp: replay_ok_def)
  have m: "map event_seq (bu_replay b) = [bu_nextId b - length (bu_replay b) ..< bu_nextId b]"
    using r by (simp add: replay_ok_def)
  then have "sorted_wrt (<) (map event_seq (bu_replay b))" by simp
  then have before: "\<forall>x \<in> set xs. event_seq x < event_seq e" and later: "\<forall>y \<in> set ys. event_seq e < event_seq y"
    by (auto simp: split sorted_wrt_append)
  have "event_seq e \<in> set (map event_seq (bu_replay b))" using split by simp
  then have "bu_nextId b - length (bu_replay b) \<le> event_seq e" unfolding m by simp
  then have "sequence b (event_id (bu_epoch b) (event_seq e)) = Inr (event_seq e)"
    using assms(2,3) e(2) by (simp add: sequence_event_id)
  moreover have "[x \<leftarrow> bu_replay b. event_seq x > event_seq e] = ys"
    using before later by (auto simp: split filter_empty_conv filter_id_conv)
  ultimately show ?thesis by (simp add: e(1) eventsSince_cursor)
qed

text \<open>
  Emitting never throws into the emitting component: whatever the listeners do, the outcome
  of \<open>emit\<close> is a normal return.
\<close>

theorem emit_never_throws:
  assumes "exec fuel (TEmit d) b = Some (r, b')"
  shows "r = Inr []"
  using assms by (cases fuel) (auto simp: emit_with_def Let_def void_def split: if_splits dest!: after_Some)

text \<open>
  When the subscribers only observe (make no calls into the bus), \<open>emit\<close> returns, with a
  number of calls linear in the number of subscribers.
\<close>

theorem emit_returns:
  assumes "bus_reach b" "\<forall>sid \<in> set (bu_subscribers b). observer (bu_objects b sid)"
    and "length (bu_subscribers b) + 8 \<le> fuel"
  shows "\<exists>b'. emit fuel d b = Some (full_event d b, b')"
proof -
  have rest: "at_rest b" and inv: "bus_inv {} {} b"
    using assms(1) by (simp_all add: bus_reach_at_rest bus_reach_inv)
  then have quiet: "\<not> bu_delivering b" "bu_pending b = []"
    by (auto simp: at_rest_def bus_inv_def pending_ok_def)
  obtain k where k: "fuel = Suc (Suc (Suc k))" "length (bu_subscribers b) + 5 \<le> k"
  proof
    show "fuel = Suc (Suc (Suc (fuel - 3)))" "length (bu_subscribers b) + 5 \<le> fuel - 3"
      using assms(3) by simp_all
  qed
  let ?b = "(publish d b)\<lparr>bu_delivering := True, bu_pending := []\<rparr>"
  have "\<exists>r b'. exec (Suc k) (TFan (bu_subscribers b) (bu_nextId b) (full_event d b)) ?b = Some (r, b') \<and>
      bu_pending b' = bu_pending ?b"
    using assms(2) bus_invD(3,4,7) [OF inv] rest k(2)
    by (intro observer_fan) (auto simp: at_rest_def)
  then obtain r b' where fan: "exec (Suc k) (TFan (bu_subscribers b) (bu_nextId b) (full_event d b)) ?b = Some (r, b')"
      and p: "bu_pending b' = []" by auto
  have "exec (Suc k) TDrain b' = Some (Inr [], b')"
    using p by (simp add: drain_with_def void_def)
  with fan have "exec (Suc (Suc k)) TDrain ((publish d b)\<lparr>bu_delivering := True\<rparr>) = Some (Inr [], b')"
    using quiet by (simp only: exec.simps task.case) (simp add: drain_with_def after_def)
  then show ?thesis
    unfolding emit_def k(1) using quiet
    by (simp only: exec.simps(2) [of "Suc (Suc k)"] task.case) (simp add: emit_with_def Let_def after_def void_def)
qed

section \<open>A concrete run\<close>

text \<open>
  A bus that keeps two events, with an observer and a subscriber that throws on its first event,
  after two emissions; the witnesses apply the properties to it.
\<close>

definition sample_epoch :: string where
  "sample_epoch = ''01234567-89ab-cdef-0123-456789abcdef''"

definition sample_draft :: "event_type \<Rightarrow> draft" where
  "sample_draft t = \<lparr>dr_type = t, dr_threadId = Some ''t1'', dr_turnId = None, dr_workerId = None,
     dr_payload = JObj [], dr_timestamp = None\<rparr>"

definition sample_event :: "nat \<Rightarrow> event_type \<Rightarrow> daemon_event" where
  "sample_event n t = \<lparr>ev_eventId = event_id sample_epoch n, ev_type = t, ev_timestamp = ''now'',
     ev_threadId = Some ''t1'', ev_turnId = None, ev_workerId = None, ev_payload = JObj []\<rparr>"

definition sample_bus :: "nat \<Rightarrow> daemon_event list \<Rightarrow> string list \<Rightarrow> (string \<Rightarrow> subscriber) \<Rightarrow> nat \<Rightarrow> bus" where
  "sample_bus n replay subs objs k = \<lparr>bu_epoch = sample_epoch, bu_clock = (\<lambda>_. ''now''), bu_replayLimit = 2,
     bu_nextId = n, bu_replay = replay, bu_pending = [], bu_delivering = False, bu_subscribers = subs,
     bu_objects = objs, bu_fresh = k\<rparr>"

definition sample_sub :: "bool \<Rightarrow> daemon_event list \<Rightarrow> subscriber" where
  "sample_sub throws seen = \<lparr>su_filter = JObj [], su_listener = (\<lambda>_. ([], throws)), su_liveAfter = 0,
     su_queue = [], su_delivering = False, su_seen = seen\<rparr>"

definition sample_subs :: "daemon_event list \<Rightarrow> daemon_event list \<Rightarrow> string \<Rightarrow> subscriber" where
  "sample_subs seen0 seen1 = (\<lambda>_. no_subscriber)
     (''sub_0'' := sample_sub False seen0, ''sub_1'' := sample_sub True seen1)"

lemmas exec_numeral = exec.simps(2) [of "pred_numeral k" for k, folded numeral_eq_Suc]

lemma dec_01: "dec 0 = ''0''" "dec (Suc 0) = ''1''"
  by (simp add: js_simps digit_char_def, code_simp)+

lemmas bus_eval = emit_def subscribe_def emit_with_def drain_with_def fan_with_def deliver_with_def
  loop_with_def calls_with_def subscribe_with_def register_def publish_def full_event_def wanted_def
  enqueue_def set_delivering_def dequeue_def detach_def unsubscribe_def sub_update_def after_def void_def
  matchesFilter_def filter_keys_def Let_def exec_numeral dec_01

lemma sample_subscribe:
  "subscribe 9 (JObj []) (\<lambda>_. ([], False)) (sample_bus 1 [] [] (\<lambda>_. no_subscriber) 0) =
     Some (Inr ''sub_0'', sample_bus 1 [] [''sub_0''] ((\<lambda>_. no_subscriber)(''sub_0'' := sample_sub False [])) 1)"
  by (simp add: bus_eval sample_bus_def sample_sub_def Let_def)

lemma sample_subscribe1:
  "subscribe 9 (JObj []) (\<lambda>_. ([], True)) (sample_bus 1 [] [''sub_0''] ((\<lambda>_. no_subscriber)(''sub_0'' := sample_sub False [])) 1) =
     Some (Inr ''sub_1'', sample_bus 1 [] [''sub_0'', ''sub_1''] (sample_subs [] []) 2)"
  by (simp add: bus_eval sample_bus_def sample_sub_def sample_subs_def Let_def)

lemma sample_emit:
  "emit 15 (sample_draft TurnStarted) (sample_bus 1 [] [''sub_0'', ''sub_1''] (sample_subs [] []) 2) =
     Some (sample_event 1 TurnStarted, sample_bus 2 [sample_event 1 TurnStarted] [''sub_0'']
       (sample_subs [sample_event 1 TurnStarted] [sample_event 1 TurnStarted]) 2)"
  by (simp add: bus_eval sample_bus_def sample_sub_def sample_subs_def sample_draft_def sample_event_def Let_def)

lemma sample_emit1:
  "emit 15 (sample_draft TurnCompleted) (sample_bus 2 [sample_event 1 TurnStarted] [''sub_0'']
       (sample_subs [sample_event 1 TurnStarted] [sample_event 1 TurnStarted]) 2) =
     Some (sample_event 2 TurnCompleted, sample_bus 3 [sample_event 1 TurnStarted, sample_event 2 TurnCompleted] [''sub_0'']
       (sample_subs [sample_event 1 TurnStarted, sample_event 2 TurnCompleted] [sample_event 1 TurnStarted]) 2)"
  by (simp add: bus_eval sample_bus_def sample_sub_def sample_subs_def sample_draft_def sample_event_def fun_upd_twist)

definition sample_one :: bus where
  "sample_one = sample_bus 2 [sample_event 1 TurnStarted] [''sub_0'']
     (sample_subs [sample_event 1 TurnStarted] [sample_event 1 TurnStarted]) 2"

definition sample_two :: bus where
  "sample_two = sample_bus 3 [sample_event 1 TurnStarted, sample_event 2 TurnCompleted] [''sub_0'']
     (sample_subs [sample_event 1 TurnStarted, sample_event 2 TurnCompleted] [sample_event 1 TurnStarted]) 2"

lemma sample_one_reach: "bus_reach sample_one"
proof -
  have "new_bus sample_epoch (\<lambda>_. ''now'') 2 = Inr (sample_bus 1 [] [] (\<lambda>_. no_subscriber) 0)"
    by (simp add: new_bus_def sample_bus_def MAX_SAFE_INTEGER_def)
  then have "bus_reach (sample_bus 1 [] [] (\<lambda>_. no_subscriber) 0)" by (rule bus_reach.start)
  then show ?thesis
    unfolding sample_one_def
    by (rule bus_reach.emitted [OF bus_reach.subscribed [OF bus_reach.subscribed [OF _ sample_subscribe] sample_subscribe1] sample_emit])
qed

lemma sample_two_reach: "bus_reach sample_two"
  using bus_reach.emitted [OF sample_one_reach, of 15 "sample_draft TurnCompleted"] sample_emit1
  by (simp add: sample_one_def sample_two_def)

lemma sample_uuid: "is_uuid sample_epoch"
  by code_simp

lemma sample_simps:
  "bu_epoch sample_two = sample_epoch" "bu_nextId sample_two = 3" "bu_subscribers sample_two = [''sub_0'']"
  "bu_replay sample_two = [sample_event 1 TurnStarted, sample_event 2 TurnCompleted]"
  "bu_subscribers sample_one = [''sub_0'']"
  "event_seq (sample_event n t) = n" "su_liveAfter (bu_objects sample_two ''sub_0'') = 0"
  "matchesFilter e (su_filter (bu_objects sample_two ''sub_0''))"
  "observer (bu_objects sample_two ''sub_0'')"
  by (simp_all add: sample_two_def sample_one_def sample_bus_def sample_subs_def sample_sub_def matchesFilter_def
      observer_def event_seq_id [of _ sample_epoch] sample_event_def)

section \<open>Witnesses\<close>

theorem replay_is_latest_witness:
  "length (bu_replay sample_two) = min (bu_replayLimit sample_two) (bu_nextId sample_two - 1) \<and>
   map ev_eventId (bu_replay sample_two) =
     map (event_id (bu_epoch sample_two)) [bu_nextId sample_two - length (bu_replay sample_two) ..< bu_nextId sample_two]"
  using replay_is_latest [OF sample_two_reach] .

theorem delivery_in_order_witness:
  "sorted_wrt (<) (map event_seq (su_seen (bu_objects sample_two ''sub_0'')))"
  using delivery_in_order [OF sample_two_reach, of "''sub_0''"] by blast

theorem delivery_complete_witness: "sample_event 2 TurnCompleted \<in> set (su_seen (bu_objects sample_two ''sub_0''))"
  by (rule delivery_complete [OF sample_two_reach]) (simp_all add: sample_simps)

theorem detached_stays_silent_witness:
  "''sub_1'' \<notin> set (bu_subscribers sample_two) \<and>
   su_seen (bu_objects sample_two ''sub_1'') = su_seen (bu_objects sample_one ''sub_1'')"
proof -
  have "emit 15 (sample_draft TurnCompleted) sample_one = Some (sample_event 2 TurnCompleted, sample_two)"
    using sample_emit1 by (simp add: sample_one_def sample_two_def)
  moreover have "known sample_one ''sub_1''"
    using dec_01(2) by (auto simp: known_def sample_one_def sample_bus_def intro!: exI [of _ 1])
  ultimately show ?thesis using detached_stays_silent [OF sample_one_reach] by (simp add: sample_simps)
qed

theorem cursor_classified_witness: "sequence sample_two (event_id sample_epoch 1) = Inr 1"
proof -
  have "{1 + 1 ..< bu_nextId sample_two} \<subseteq> event_seq ` set (bu_replay sample_two)"
    by (auto simp: sample_simps)
  then show ?thesis
    using cursor_classified [OF sample_two_reach sample_uuid, of 1]
    by (simp add: sample_simps(1,2) MAX_SAFE_INTEGER_def)
qed

theorem resume_is_exact_witness:
  "eventsSince sample_two (JObj [(''sinceEventId'', JStr (ev_eventId (sample_event 1 TurnStarted)))]) =
     Inr [sample_event 2 TurnCompleted]"
  by (rule resume_is_exact [OF sample_two_reach, of "[]"]) (simp_all add: sample_simps sample_uuid MAX_SAFE_INTEGER_def)

theorem emit_never_throws_witness:
  "\<exists>r b'. exec 15 (TEmit (sample_draft TurnCompleted)) sample_one = Some (r, b') \<and> r = Inr []"
proof -
  obtain r b' where run: "exec 15 (TEmit (sample_draft TurnCompleted)) sample_one = Some (r, b')"
    using sample_emit1 by (auto simp: sample_one_def emit_def)
  from emit_never_throws [OF this] run show ?thesis by blast
qed

theorem emit_returns_witness:
  "\<exists>b'. emit 9 (sample_draft TurnStarted) sample_two = Some (full_event (sample_draft TurnStarted) sample_two, b')"
  by (rule emit_returns [OF sample_two_reach]) (simp_all add: sample_simps)

end
