(* ===== verification/Buffered_Stream.thy ===== *)
theory Buffered_Stream
  imports Prelude
begin

text \<open>
  The bounded single-consumer stream of \<open>src/protocol/stream.ts\<close>, and the contract its producers
  rely on, the locale \<open>sink\<close>.

  \<open>size_of v\<close> is \<open>Buffer.byteLength(JSON.stringify(v))\<close>. The \<open>onClose\<close> callback acts on the
  state \<open>'e\<close> of the component that created the stream and may throw; it does not call the stream
  back. Each call of \<open>next\<close> has a number, and \<open>bs_settled\<close> records how its promise settled, in the
  order of settling; \<open>bs_pushed\<close> records the values the stream took over and \<open>bs_closes\<close> the calls
  of \<open>onClose\<close>. The source has no such fields.
\<close>

section \<open>State\<close>

datatype 'a reply = Item 'a | Done | Rejected thrown

record ('a, 'e) stream =
  bs_queue :: "('a \<times> nat) list"
  bs_bytes :: nat
  bs_ended :: bool
  bs_failed :: bool
  bs_error :: "thrown option"
  bs_waiter :: "nat option"
  bs_onClose :: "'e \<Rightarrow> unit result \<times> 'e"
  bs_limit :: nat
  bs_env :: 'e
  bs_calls :: nat
  bs_settled :: "(nat \<times> 'a reply) list"
  bs_pushed :: "'a list"
  bs_closes :: nat

definition MAX_STREAM_BYTES :: nat where
  "MAX_STREAM_BYTES = 4 * 1024 * 1024"

definition new_stream :: "('e \<Rightarrow> unit result \<times> 'e) \<Rightarrow> nat \<Rightarrow> 'e \<Rightarrow> ('a, 'e) stream" where
  "new_stream onClose limit env =
     \<lparr>bs_queue = [], bs_bytes = 0, bs_ended = False, bs_failed = False, bs_error = None, bs_waiter = None,
      bs_onClose = onClose, bs_limit = limit, bs_env = env, bs_calls = 0, bs_settled = [], bs_pushed = [],
      bs_closes = 0\<rparr>"

section \<open>Operations\<close>

definition closed :: "('a, 'e) stream \<Rightarrow> bool" where
  "closed s = bs_ended s"

text \<open>\<open>this.waiter?.resolve(...)\<close> or \<open>this.waiter?.reject(...)\<close>, then \<open>this.waiter = undefined\<close>.\<close>

definition answer :: "'a reply \<Rightarrow> ('a, 'e) stream \<Rightarrow> ('a, 'e) stream" where
  "answer r s =
     (case bs_waiter s of
        None \<Rightarrow> s
      | Some k \<Rightarrow> s\<lparr>bs_settled := bs_settled s @ [(k, r)], bs_waiter := None\<rparr>)"

text \<open>The reply that \<open>reject(this.error)\<close> carries.\<close>

definition rejection :: "('a, 'e) stream \<Rightarrow> 'a reply" where
  "rejection s = Rejected (case bs_error s of Some e \<Rightarrow> e | None \<Rightarrow> ThrownValue ''undefined'')"

definition settle :: "('a, 'e) stream \<Rightarrow> ('a, 'e) stream" where
  "settle s =
     (let (outcome, env) = bs_onClose s (bs_env s);
          s1 = s\<lparr>bs_env := env, bs_closes := bs_closes s + 1\<rparr>;
          s2 = (case outcome of
                  Inr _ \<Rightarrow> s1
                | Inl error \<Rightarrow>
                    (if bs_failed s1 then s1 else s1\<lparr>bs_failed := True, bs_error := Some error\<rparr>)
                      \<lparr>bs_queue := [], bs_bytes := 0\<rparr>)
      in answer (if bs_failed s2 then rejection s2 else Done) s2)"

definition finish :: "('a, 'e) stream \<Rightarrow> ('a, 'e) stream" where
  "finish s = (if bs_ended s then s else settle (s\<lparr>bs_ended := True\<rparr>))"

definition fail :: "thrown \<Rightarrow> ('a, 'e) stream \<Rightarrow> ('a, 'e) stream" where
  "fail error s =
     (if bs_ended s then s
      else settle (s\<lparr>bs_error := Some error, bs_failed := True, bs_queue := [], bs_bytes := 0, bs_ended := True\<rparr>))"

definition overflow :: thrown where
  "overflow = DaemonError StreamOverflow ''Event stream buffer exceeded its byte limit'' None"

definition push :: "('a \<Rightarrow> nat) \<Rightarrow> 'a \<Rightarrow> ('a, 'e) stream \<Rightarrow> ('a, 'e) stream" where
  "push size_of v s =
     (if bs_ended s then s
      else if bs_bytes s + size_of v > bs_limit s then fail overflow s
      else if bs_waiter s \<noteq> None then answer (Item v) (s\<lparr>bs_pushed := bs_pushed s @ [v]\<rparr>)
      else s\<lparr>bs_pushed := bs_pushed s @ [v], bs_queue := bs_queue s @ [(v, size_of v)],
             bs_bytes := bs_bytes s + size_of v\<rparr>)"

definition settled_now :: "'a reply \<Rightarrow> ('a, 'e) stream \<Rightarrow> ('a, 'e) stream" where
  "settled_now r s = s\<lparr>bs_settled := bs_settled s @ [(bs_calls s, r)], bs_calls := bs_calls s + 1\<rparr>"

definition next_item :: "('a, 'e) stream \<Rightarrow> ('a, 'e) stream" where
  "next_item s =
     (if bs_failed s then settled_now (rejection s) s
      else
        (case bs_queue s of
           (v, n) # rest \<Rightarrow> settled_now (Item v) (s\<lparr>bs_queue := rest, bs_bytes := bs_bytes s - n\<rparr>)
         | [] \<Rightarrow>
             if bs_ended s then settled_now Done s
             else if bs_waiter s \<noteq> None
             then settled_now (Rejected (JsError ''Event streams support one consumer'')) s
             else s\<lparr>bs_waiter := Some (bs_calls s), bs_calls := bs_calls s + 1\<rparr>))"

definition close :: "('a, 'e) stream \<Rightarrow> ('a, 'e) stream" where
  "close s = finish (s\<lparr>bs_queue := [], bs_bytes := 0\<rparr>)"

text \<open>The public operations, as a consumer and a producer interleave them.\<close>

datatype 'a stream_op = Push 'a | Finish | Fail thrown | Next | Close

fun stream_step :: "('a \<Rightarrow> nat) \<Rightarrow> 'a stream_op \<Rightarrow> ('a, 'e) stream \<Rightarrow> ('a, 'e) stream" where
  "stream_step size_of (Push v) s = push size_of v s"
| "stream_step size_of Finish s = finish s"
| "stream_step size_of (Fail e) s = fail e s"
| "stream_step size_of Next s = next_item s"
| "stream_step size_of Close s = close s"

definition stream_run :: "('a \<Rightarrow> nat) \<Rightarrow> 'a stream_op list \<Rightarrow> ('a, 'e) stream \<Rightarrow> ('a, 'e) stream" where
  "stream_run size_of ops s = fold (stream_step size_of) ops s"

section \<open>Invariant\<close>

definition items_of :: "(nat \<times> 'a reply) list \<Rightarrow> (nat \<times> 'a) list" where
  "items_of xs = concat (map (\<lambda>(k, r). case r of Item v \<Rightarrow> [(k, v)] | _ \<Rightarrow> []) xs)"

lemma items_of_simps [simp]:
  "items_of [] = []" "items_of (xs @ ys) = items_of xs @ items_of ys"
  "items_of [(k, Item v)] = [(k, v)]" "items_of [(k, Done)] = []" "items_of [(k, Rejected e)] = []"
  by (simp_all add: items_of_def)

lemma items_of_rejection [simp]: "items_of [(k, rejection s)] = []"
  by (simp add: rejection_def)

lemma items_of_subset: "fst ` set (items_of xs) \<subseteq> set (map fst xs)"
  by (force simp: items_of_def split: reply.splits)

abbreviation items :: "('a, 'e) stream \<Rightarrow> (nat \<times> 'a) list" where
  "items s \<equiv> items_of (bs_settled s)"

definition buffer_ok :: "('a, 'e) stream \<Rightarrow> bool" where
  "buffer_ok s \<longleftrightarrow>
     bs_bytes s = sum_list (map snd (bs_queue s)) \<and> bs_bytes s \<le> bs_limit s \<and>
     (bs_waiter s \<noteq> None \<longrightarrow> bs_queue s = [] \<and> \<not> bs_ended s) \<and>
     (bs_failed s \<longrightarrow> bs_ended s \<and> bs_queue s = [] \<and> bs_error s \<noteq> None) \<and>
     bs_closes s = (if bs_ended s then 1 else 0)"

text \<open>What was pushed has been delivered or is queued, in order; only ending drops a rest.\<close>

definition order_ok :: "('a, 'e) stream \<Rightarrow> bool" where
  "order_ok s \<longleftrightarrow>
     (\<exists>dropped. bs_pushed s = map snd (items s) @ map fst (bs_queue s) @ dropped \<and>
        (dropped \<noteq> [] \<longrightarrow> bs_ended s \<and> bs_queue s = []))"

text \<open>Every call of \<open>next\<close> is the waiter or has settled, exactly once.\<close>

definition calls_ok :: "('a, 'e) stream \<Rightarrow> bool" where
  "calls_ok s \<longleftrightarrow>
     distinct (map fst (bs_settled s)) \<and>
     set (map fst (bs_settled s)) = {..< bs_calls s} - set_option (bs_waiter s) \<and>
     (\<forall>k \<in> set_option (bs_waiter s). k < bs_calls s \<and> (\<forall>i \<in> fst ` set (items s). i < k)) \<and>
     sorted_wrt (<) (map fst (items s))"

definition stream_inv :: "('a, 'e) stream \<Rightarrow> bool" where
  "stream_inv s \<longleftrightarrow> buffer_ok s \<and> order_ok s \<and> calls_ok s"

lemma calls_ok_answer:
  assumes "calls_ok s"
  shows "calls_ok (answer r s)"
proof (cases "bs_waiter s")
  case None
  then show ?thesis using assms by (simp add: answer_def)
next
  case (Some k)
  with assms show ?thesis
    by (cases r) (auto simp: answer_def calls_ok_def sorted_wrt_append)
qed

lemma calls_ok_settled_now:
  assumes "calls_ok s" and "\<And>v. r = Item v \<Longrightarrow> bs_waiter s = None"
  shows "calls_ok (settled_now r s)"
proof -
  have "\<forall>i \<in> fst ` set (items s). i < bs_calls s"
    using assms(1) items_of_subset [of "bs_settled s"] by (auto simp: calls_ok_def)
  with assms show ?thesis
    by (cases r) (auto simp: settled_now_def calls_ok_def sorted_wrt_append)
qed

text \<open>Settling: the queue survives only a normal end whose \<open>onClose\<close> returned.\<close>

lemma answer_simps [simp]:
  "bs_queue (answer r s) = bs_queue s" "bs_bytes (answer r s) = bs_bytes s" "bs_ended (answer r s) = bs_ended s"
  "bs_failed (answer r s) = bs_failed s" "bs_error (answer r s) = bs_error s" "bs_waiter (answer r s) = None"
  "bs_limit (answer r s) = bs_limit s" "bs_closes (answer r s) = bs_closes s" "bs_pushed (answer r s) = bs_pushed s"
  "bs_calls (answer r s) = bs_calls s" "bs_env (answer r s) = bs_env s" "bs_onClose (answer r s) = bs_onClose s"
  by (simp_all add: answer_def split: option.splits)

lemma items_answer: "items (answer r s) = items s @ (case (bs_waiter s, r) of (Some k, Item v) \<Rightarrow> [(k, v)] | _ \<Rightarrow> [])"
  by (auto simp: answer_def split: option.splits reply.splits)

lemma rejection_not_item [simp]: "rejection s \<noteq> Item v"
  by (simp add: rejection_def)

lemma settle_simps [simp]:
  "bs_ended (settle s) = bs_ended s" "bs_waiter (settle s) = None" "bs_limit (settle s) = bs_limit s"
  "bs_closes (settle s) = Suc (bs_closes s)" "bs_pushed (settle s) = bs_pushed s" "items (settle s) = items s"
  "bs_env (settle s) = snd (bs_onClose s (bs_env s))" "bs_onClose (settle s) = bs_onClose s"
  by (auto simp: settle_def Let_def items_answer rejection_def split: sum.splits prod.splits option.splits)

lemma settle_cases:
  obtains (kept) "bs_queue (settle s) = bs_queue s" "bs_bytes (settle s) = bs_bytes s"
      "bs_failed (settle s) = bs_failed s" "bs_error (settle s) = bs_error s" "\<exists>u. fst (bs_onClose s (bs_env s)) = Inr u"
    | (cleared) e where "bs_queue (settle s) = []" "bs_bytes (settle s) = 0" "bs_failed (settle s)"
      "bs_error (settle s) = (if bs_failed s then bs_error s else Some e)" "fst (bs_onClose s (bs_env s)) = Inl e"
proof -
  obtain x env where c: "bs_onClose s (bs_env s) = (x, env)" by (cases "bs_onClose s (bs_env s)")
  show ?thesis
  proof (cases x)
    case (Inl e)
    show ?thesis by (rule cleared [of e]) (simp_all add: settle_def c Inl Let_def)
  next
    case (Inr u)
    show ?thesis by (rule kept) (simp_all add: settle_def c Inr Let_def)
  qed
qed

lemma calls_ok_cong:
  "calls_ok s \<Longrightarrow> bs_settled t = bs_settled s \<Longrightarrow> bs_calls t = bs_calls s \<Longrightarrow> bs_waiter t = bs_waiter s \<Longrightarrow>
   calls_ok t"
  by (simp add: calls_ok_def)

lemma calls_ok_settle: "calls_ok s \<Longrightarrow> calls_ok (settle s)"
  unfolding settle_def Let_def
  by (cases "bs_onClose s (bs_env s)")
    (auto intro!: calls_ok_answer elim!: calls_ok_cong split: sum.splits)

lemma buffer_ok_settle:
  assumes "buffer_ok (s\<lparr>bs_ended := False, bs_failed := False, bs_waiter := None\<rparr>)" "bs_ended s"
    and "bs_failed s \<longrightarrow> bs_queue s = [] \<and> bs_error s \<noteq> None"
  shows "buffer_ok (settle s)"
  using assms by (cases s rule: settle_cases) (auto simp: buffer_ok_def)

lemma order_ok_settle:
  assumes "order_ok s" "bs_ended s"
  shows "order_ok (settle s)"
  using assms by (cases s rule: settle_cases) (auto simp: order_ok_def)

lemma stream_inv_finish:
  assumes "stream_inv s"
  shows "stream_inv (finish s)"
proof (cases "bs_ended s")
  case False
  have "calls_ok (s\<lparr>bs_ended := True\<rparr>)" "order_ok (s\<lparr>bs_ended := True\<rparr>)"
    using assms by (auto simp: stream_inv_def calls_ok_def order_ok_def)
  moreover have "buffer_ok (settle (s\<lparr>bs_ended := True\<rparr>))"
    by (rule buffer_ok_settle) (use assms False in \<open>auto simp: stream_inv_def buffer_ok_def\<close>)
  ultimately show ?thesis
    using False by (simp add: stream_inv_def finish_def calls_ok_settle order_ok_settle)
qed (use assms in \<open>simp add: finish_def\<close>)

lemma stream_inv_fail:
  assumes "stream_inv s"
  shows "stream_inv (fail e s)"
proof (cases "bs_ended s")
  case False
  let ?s = "s\<lparr>bs_error := Some e, bs_failed := True, bs_queue := [], bs_bytes := 0, bs_ended := True\<rparr>"
  have "calls_ok ?s" "order_ok ?s"
    using assms by (auto simp: stream_inv_def calls_ok_def order_ok_def)
  moreover have "buffer_ok (settle ?s)"
    by (rule buffer_ok_settle) (use assms False in \<open>auto simp: stream_inv_def buffer_ok_def\<close>)
  ultimately show ?thesis
    using False by (simp add: stream_inv_def fail_def calls_ok_settle order_ok_settle)
qed (use assms in \<open>simp add: fail_def\<close>)

lemma stream_inv_push:
  assumes "stream_inv s"
  shows "stream_inv (push size_of v s)"
proof -
  consider "bs_ended s" | "\<not> bs_ended s" "bs_bytes s + size_of v > bs_limit s"
    | k where "\<not> bs_ended s" "bs_bytes s + size_of v \<le> bs_limit s" "bs_waiter s = Some k"
    | "\<not> bs_ended s" "bs_bytes s + size_of v \<le> bs_limit s" "bs_waiter s = None"
    by fastforce
  then show ?thesis
  proof cases
    case 3
    have "calls_ok (answer (Item v) (s\<lparr>bs_pushed := bs_pushed s @ [v]\<rparr>))"
      by (rule calls_ok_answer) (use assms in \<open>simp add: stream_inv_def calls_ok_def\<close>)
    with 3 assms show ?thesis
      by (auto simp: push_def stream_inv_def buffer_ok_def order_ok_def items_answer)
  next
    case 4
    with assms show ?thesis
      by (auto simp: push_def stream_inv_def buffer_ok_def order_ok_def calls_ok_def)
  qed (use assms stream_inv_fail in \<open>simp_all add: push_def\<close>)
qed

lemma stream_inv_next:
  assumes "stream_inv s"
  shows "stream_inv (next_item s)"
proof -
  have c: "calls_ok s" using assms by (simp add: stream_inv_def)
  have now: "stream_inv (settled_now r s)" if "\<And>v. r \<noteq> Item v" for r
    using assms calls_ok_settled_now [OF c, of r] that
    by (cases r) (auto simp: stream_inv_def settled_now_def buffer_ok_def order_ok_def)
  show ?thesis
  proof (cases "bs_failed s \<or> bs_queue s = [] \<and> (bs_ended s \<or> bs_waiter s \<noteq> None)")
    case True
    then show ?thesis using now by (auto simp: next_item_def split: list.splits)
  next
    case False
    show ?thesis
    proof (cases "bs_queue s")
      case Nil
      have "\<forall>i \<in> fst ` set (items s). i < bs_calls s"
        using c items_of_subset [of "bs_settled s"] by (auto simp: calls_ok_def)
      with Nil False assms show ?thesis
        by (auto simp: next_item_def stream_inv_def buffer_ok_def order_ok_def calls_ok_def)
    next
      case (Cons p rest)
      obtain v n where p: "p = (v, n)" by (cases p)
      let ?s = "s\<lparr>bs_queue := rest, bs_bytes := bs_bytes s - n\<rparr>"
      have w: "bs_waiter s = None" using assms Cons by (auto simp: stream_inv_def buffer_ok_def)
      have "calls_ok ?s" using c by (simp add: calls_ok_def)
      then have "calls_ok (settled_now (Item v) ?s)" using w by (intro calls_ok_settled_now) auto
      then show ?thesis
        using Cons p False assms
        by (auto simp: next_item_def stream_inv_def buffer_ok_def order_ok_def settled_now_def)
    qed
  qed
qed

lemma stream_inv_close:
  assumes "stream_inv s"
  shows "stream_inv (close s)"
proof (cases "bs_ended s")
  case True
  then show ?thesis
    using assms by (auto simp: close_def finish_def stream_inv_def buffer_ok_def order_ok_def calls_ok_def)
next
  case False
  let ?s = "s\<lparr>bs_queue := [], bs_bytes := 0, bs_ended := True\<rparr>"
  have "calls_ok ?s" "order_ok ?s"
    using assms by (auto simp: stream_inv_def calls_ok_def order_ok_def)
  moreover have "buffer_ok (settle ?s)"
    by (rule buffer_ok_settle) (use assms False in \<open>auto simp: stream_inv_def buffer_ok_def\<close>)
  ultimately show ?thesis
    using False by (simp add: stream_inv_def close_def finish_def calls_ok_settle order_ok_settle)
qed

lemma stream_inv_step: "stream_inv s \<Longrightarrow> stream_inv (stream_step size_of op s)"
  by (cases op) (simp_all add: stream_inv_push stream_inv_finish stream_inv_fail stream_inv_next stream_inv_close)

lemma stream_inv_run: "stream_inv s \<Longrightarrow> stream_inv (stream_run size_of ops s)"
  unfolding stream_run_def by (induction ops arbitrary: s) (simp_all add: stream_inv_step)

lemma stream_inv_new: "stream_inv (new_stream onClose limit env)"
  by (simp add: new_stream_def stream_inv_def buffer_ok_def order_ok_def calls_ok_def)

section \<open>What a producer relies on\<close>

text \<open>
  The contract of the producers' side: a push is taken over unless it closes the stream, and
  nothing is taken over once it is closed. \<open>out\<close> is what the stream has taken over.
\<close>

locale sink =
  fixes push :: "'a \<Rightarrow> 's \<Rightarrow> 's" and finish :: "'s \<Rightarrow> 's" and fail :: "thrown \<Rightarrow> 's \<Rightarrow> 's"
    and closed :: "'s \<Rightarrow> bool" and out :: "'s \<Rightarrow> 'a list"
  assumes closed_push: "closed s \<Longrightarrow> push v s = s"
    and closed_finish: "closed s \<Longrightarrow> finish s = s"
    and closed_fail: "closed s \<Longrightarrow> fail e s = s"
    and push_out: "\<not> closed s \<Longrightarrow> out (push v s) = (if closed (push v s) then out s else out s @ [v])"
    and finish_out: "out (finish s) = out s" "closed (finish s)"
    and fail_out: "out (fail e s) = out s" "closed (fail e s)"
begin

lemma push_grows: "\<exists>vs. out (push v s) = out s @ vs"
  by (cases "closed s") (auto simp: closed_push push_out)

lemma push_all_closed: "closed s \<Longrightarrow> fold push vs s = s"
  by (induction vs) (simp_all add: closed_push)

text \<open>A batch of pushes is taken over up to the one that closes the stream.\<close>

lemma push_all_out:
  "\<not> closed s \<Longrightarrow>
   \<exists>taken rest. vs = taken @ rest \<and> out (fold push vs s) = out s @ taken \<and> (rest \<noteq> [] \<longrightarrow> closed (fold push vs s))"
proof (induction vs arbitrary: s)
  case (Cons v vs)
  show ?case
  proof (cases "closed (push v s)")
    case True
    then show ?thesis
      using Cons.prems by (intro exI [of _ "[]"] exI [of _ "v # vs"]) (simp add: push_out push_all_closed)
  next
    case False
    then obtain taken rest where "vs = taken @ rest" "out (fold push vs (push v s)) = out (push v s) @ taken"
        "rest \<noteq> [] \<longrightarrow> closed (fold push vs (push v s))"
      using Cons.IH by blast
    with False show ?thesis
      using Cons.prems by (intro exI [of _ "v # taken"] exI [of _ rest]) (simp add: push_out)
  qed
qed simp

end

lemma push_closed_iff: "\<not> bs_ended s \<Longrightarrow> bs_ended (push size_of v s) \<longleftrightarrow> bs_bytes s + size_of v > bs_limit s"
  by (auto simp: push_def fail_def)

lemma push_taken: "\<not> bs_ended s \<Longrightarrow> \<not> bs_ended (push size_of v s) \<Longrightarrow> bs_pushed (push size_of v s) = bs_pushed s @ [v]"
  by (auto simp: push_def fail_def split: if_splits)

lemma push_refused: "bs_ended (push size_of v s) \<Longrightarrow> bs_pushed (push size_of v s) = bs_pushed s"
  by (auto simp: push_def fail_def split: if_splits)

interpretation buffered: sink "push size_of" finish fail closed bs_pushed
  for size_of :: "'a \<Rightarrow> nat"
  by unfold_locales
    (auto simp: closed_def push_taken push_refused, auto simp: push_def finish_def fail_def)

section \<open>Properties\<close>

fun pushes :: "'a stream_op list \<Rightarrow> 'a list" where
  "pushes [] = []"
| "pushes (Push v # ops) = v # pushes ops"
| "pushes (_ # ops) = pushes ops"

lemma pushes_append: "pushes (a @ b) = pushes a @ pushes b"
  by (induction a rule: pushes.induct) simp_all

lemma next_simps [simp]:
  "bs_pushed (next_item s) = bs_pushed s" "bs_ended (next_item s) = bs_ended s"
  by (auto simp: next_item_def settled_now_def split: list.splits)

lemma pushed_run:
  assumes "\<not> bs_ended s"
  shows "\<exists>ys. bs_pushed s @ pushes ops = bs_pushed (stream_run size_of ops s) @ ys \<and>
     (\<not> bs_ended (stream_run size_of ops s) \<longrightarrow> ys = [])"
proof (induction ops rule: rev_induct)
  case Nil
  show ?case by (simp add: stream_run_def)
next
  case (snoc op ops)
  let ?s = "stream_run size_of ops s"
  obtain ys where ys: "bs_pushed s @ pushes ops = bs_pushed ?s @ ys" "\<not> bs_ended ?s \<longrightarrow> ys = []"
    using snoc by blast
  have last: "stream_run size_of (ops @ [op]) s = stream_step size_of op ?s" by (simp add: stream_run_def)
  show ?case
  proof (cases "bs_ended ?s")
    case True
    then have "bs_pushed (stream_step size_of op ?s) = bs_pushed ?s" "bs_ended (stream_step size_of op ?s)"
      by (cases op; simp add: push_def finish_def fail_def close_def)+
    then show ?thesis
      using ys(1) by (intro exI [of _ "ys @ pushes [op]"]) (simp add: last pushes_append flip: append_assoc)
  next
    case False
    with ys have e: "bs_pushed s @ pushes ops = bs_pushed ?s" by simp
    show ?thesis
    proof (cases op)
      case (Push v)
      then show ?thesis
        using False e last push_taken [OF False, of size_of v] push_refused [of size_of v ?s]
        by (cases "bs_ended (push size_of v ?s)") (simp_all add: pushes_append flip: append_assoc)
    qed (use False e last in \<open>simp_all add: pushes_append finish_def fail_def close_def flip: append_assoc\<close>)
  qed
qed

text \<open>What the producer pushed before it first finished the stream.\<close>

definition before_finish :: "'a stream_op list \<Rightarrow> 'a list" where
  "before_finish ops = pushes (takeWhile (\<lambda>op. op \<noteq> Finish) ops)"

lemma before_finish_snoc:
  "before_finish (ops @ [op]) = (if Finish \<in> set ops then before_finish ops else before_finish ops @ pushes [op])"
proof (cases "Finish \<in> set ops")
  case True
  then show ?thesis by (simp add: before_finish_def takeWhile_append1 [of Finish])
next
  case False
  then have "takeWhile (\<lambda>op. op \<noteq> Finish) (ops @ xs) = ops @ takeWhile (\<lambda>op. op \<noteq> Finish) xs" for xs
    by (intro takeWhile_append2) auto
  from this [of "[op]"] this [of "[]"]
  have one: "takeWhile (\<lambda>op. op \<noteq> Finish) (ops @ [op]) = ops @ takeWhile (\<lambda>op. op \<noteq> Finish) [op]"
    and all: "takeWhile (\<lambda>op. op \<noteq> Finish) ops = ops" by simp_all
  with False show ?thesis unfolding before_finish_def all one by (simp add: pushes_append)
qed

lemma settle_failed: "bs_failed s \<Longrightarrow> bs_failed (settle s)"
  by (cases s rule: settle_cases) simp_all

lemma failed_step: "bs_failed s \<Longrightarrow> bs_failed (stream_step size_of op s)"
  by (cases op)
    (auto simp: push_def finish_def fail_def close_def next_item_def settled_now_def settle_failed split: list.splits)

lemma fail_failed: "\<not> bs_failed (fail e s) \<Longrightarrow> bs_ended s"
  by (auto simp: fail_def settle_failed split: if_splits)

text \<open>Without a failure and without a close of the consumer nothing is lost.\<close>

lemma nothing_lost_step:
  assumes "stream_inv s" "\<not> bs_failed (stream_step size_of op s)" "op \<noteq> Close" "bs_ended s \<longleftrightarrow> Finish \<in> set ops"
    and "map snd (items s) @ map fst (bs_queue s) = before_finish ops"
  shows "(bs_ended (stream_step size_of op s) \<longleftrightarrow> Finish \<in> set (ops @ [op])) \<and>
    map snd (items (stream_step size_of op s)) @ map fst (bs_queue (stream_step size_of op s)) = before_finish (ops @ [op])"
proof (cases op)
  case (Push v)
  have idle: "bs_waiter s = Some k \<Longrightarrow> bs_queue s = []" for k using assms(1) by (auto simp: stream_inv_def buffer_ok_def)
  show ?thesis
  proof (cases "bs_ended s")
    case True
    with assms Push show ?thesis by (simp add: push_def before_finish_snoc)
  next
    case False
    then have "bs_bytes s + size_of v \<le> bs_limit s"
      using assms(2) Push fail_failed [of overflow s] by (auto simp: push_def split: if_splits)
    with False assms(4, 5) Push idle show ?thesis
      by (cases "bs_waiter s") (auto simp: push_def before_finish_snoc items_answer simp flip: append_assoc)
  qed
next
  case Finish
  then have "bs_queue (finish s) = bs_queue s" "items (finish s) = items s"
    using assms(2) by (cases "s\<lparr>bs_ended := True\<rparr>" rule: settle_cases; auto simp: finish_def)+
  moreover have "bs_ended (finish s)" by (simp add: finish_def)
  ultimately show ?thesis using Finish assms(5) by (simp add: before_finish_snoc)
next
  case (Fail e)
  then have "bs_ended s" using assms(2) fail_failed by fastforce
  with Fail assms(4, 5) show ?thesis by (simp add: fail_def before_finish_snoc)
next
  case Next
  then show ?thesis using assms(4, 5)
    by (auto simp: next_item_def settled_now_def before_finish_snoc split: list.splits)
qed (use assms(3) in simp)

lemma nothing_lost:
  "\<not> bs_failed (stream_run size_of ops (new_stream onClose limit env)) \<Longrightarrow> Close \<notin> set ops \<Longrightarrow>
   (bs_ended (stream_run size_of ops (new_stream onClose limit env)) \<longleftrightarrow> Finish \<in> set ops) \<and>
   map snd (items (stream_run size_of ops (new_stream onClose limit env))) @
     map fst (bs_queue (stream_run size_of ops (new_stream onClose limit env))) = before_finish ops"
proof (induction ops rule: rev_induct)
  case Nil
  then show ?case by (simp add: stream_run_def new_stream_def before_finish_def)
next
  case (snoc op ops)
  let ?s = "stream_run size_of ops (new_stream onClose limit env)"
  have last: "stream_run size_of (ops @ [op]) (new_stream onClose limit env) = stream_step size_of op ?s"
    by (simp add: stream_run_def)
  have "\<not> bs_failed ?s" using snoc.prems(1) failed_step unfolding last by blast
  with snoc show ?case unfolding last
    by (intro nothing_lost_step stream_inv_run [OF stream_inv_new]) auto
qed

text \<open>
  C33. The consumer receives what the producer pushed, in the order of its calls, without loss or
  duplication: the delivered values are an initial part of the pushed ones; while the stream is
  open the rest is in the queue; and also when the producer has finished it, all that was pushed
  before has been delivered or is still in the queue, unless the stream failed or the consumer
  closed it.
\<close>

theorem stream_is_fifo:
  "let s = stream_run size_of ops (new_stream onClose limit env) in
     (\<exists>rest. pushes ops = map snd (items s) @ rest \<and> (closed s \<or> rest = map fst (bs_queue s))) \<and>
     (bs_failed s \<or> Close \<in> set ops \<or>
       map snd (items s) @ map fst (bs_queue s) = pushes (takeWhile (\<lambda>op. op \<noteq> Finish) ops)) \<and>
     sorted_wrt (<) (map fst (items s))"
proof -
  let ?s = "stream_run size_of ops (new_stream onClose limit env)"
  have inv: "stream_inv ?s" by (rule stream_inv_run [OF stream_inv_new])
  then obtain dropped where d: "bs_pushed ?s = map snd (items ?s) @ map fst (bs_queue ?s) @ dropped"
      "dropped \<noteq> [] \<longrightarrow> bs_ended ?s"
    by (auto simp: stream_inv_def order_ok_def)
  obtain ys where "pushes ops = bs_pushed ?s @ ys" "\<not> bs_ended ?s \<longrightarrow> ys = []"
    using pushed_run [of "new_stream onClose limit env" ops size_of] by (auto simp: new_stream_def)
  with d have "pushes ops = map snd (items ?s) @ (map fst (bs_queue ?s) @ dropped @ ys)"
      "closed ?s \<or> map fst (bs_queue ?s) @ dropped @ ys = map fst (bs_queue ?s)"
    by (auto simp: closed_def)
  moreover have "sorted_wrt (<) (map fst (items ?s))" using inv by (simp add: stream_inv_def calls_ok_def)
  moreover have "bs_failed ?s \<or> Close \<in> set ops \<or> map snd (items ?s) @ map fst (bs_queue ?s) = pushes (takeWhile (\<lambda>op. op \<noteq> Finish) ops)"
    using nothing_lost [of size_of ops onClose limit env] by (auto simp: before_finish_def)
  ultimately show ?thesis unfolding Let_def by blast
qed

text \<open>
  C34. The buffer never holds more than its byte limit, its count is exact, and a consumer waits
  only on an open stream with an empty buffer.
\<close>

theorem stream_is_bounded:
  "let s = stream_run size_of ops (new_stream onClose limit env) in
     bs_bytes s = sum_list (map snd (bs_queue s)) \<and> bs_bytes s \<le> bs_limit s \<and>
     (bs_waiter s = None \<or> bs_queue s = [] \<and> closed s = False)"
  using stream_inv_run [OF stream_inv_new, of size_of ops onClose limit env]
  by (auto simp: Let_def stream_inv_def buffer_ok_def closed_def)

text \<open>
  However the stream ends and whatever \<open>onClose\<close> does, \<open>onClose\<close> is called exactly once, and
  from then on no call of \<open>next\<close> is left waiting: each has settled exactly once.
\<close>

theorem stream_closes_once:
  "let s = stream_run size_of ops (new_stream onClose limit env) in
     bs_closes s = (if closed s then 1 else 0) \<and> distinct (map fst (bs_settled s)) \<and>
     set (map fst (bs_settled s)) = (if closed s then {..< bs_calls s} else {..< bs_calls s} - set_option (bs_waiter s))"
proof -
  let ?s = "stream_run size_of ops (new_stream onClose limit env)"
  have "stream_inv ?s" by (rule stream_inv_run [OF stream_inv_new])
  then show ?thesis by (cases "bs_waiter ?s") (auto simp: Let_def stream_inv_def buffer_ok_def calls_ok_def closed_def)
qed

text \<open>
  A push beyond the limit fails the stream with \<open>streamOverflow\<close>: the buffer is dropped, a
  waiting consumer and every later call of \<open>next\<close> are rejected with that error.
\<close>

theorem overflow_fails_stream:
  assumes "\<not> closed s" "bs_limit s < bs_bytes s + size_of v"
  defines "s' \<equiv> push size_of v s"
  shows "closed s' \<and> bs_failed s' \<and> bs_error s' = Some overflow \<and> bs_queue s' = [] \<and> bs_bytes s' = 0 \<and>
     bs_settled s' = bs_settled s @ map (\<lambda>k. (k, Rejected overflow)) (case bs_waiter s of None \<Rightarrow> [] | Some k \<Rightarrow> [k]) \<and>
     bs_settled (next_item s') = bs_settled s' @ [(bs_calls s', Rejected overflow)]"
  using assms(1,2)
  by (auto simp: s'_def closed_def push_def fail_def settle_def Let_def answer_def rejection_def next_item_def
      settled_now_def split: prod.splits sum.splits option.splits)

text \<open>After a normal end the consumer still drains the whole buffer and then gets \<open>done\<close>.\<close>

lemma drain_queue:
  assumes "bs_ended s" "\<not> bs_failed s"
  shows "bs_settled (stream_run size_of (replicate (Suc (length (bs_queue s))) Next) s) =
     bs_settled s @ map (\<lambda>(i, r). (bs_calls s + i, r))
       (enumerate 0 (map (\<lambda>p. Item (fst p)) (bs_queue s) @ [Done]))"
  using assms
proof (induction "bs_queue s" arbitrary: s)
  case Nil
  then show ?case by (simp add: stream_run_def next_item_def settled_now_def flip: Nil.hyps)
next
  case (Cons p q)
  obtain v n where p: "p = (v, n)" by (cases p)
  let ?t = "next_item s"
  have t: "?t = settled_now (Item v) (s\<lparr>bs_queue := q, bs_bytes := bs_bytes s - n\<rparr>)"
    using Cons.prems by (simp add: next_item_def p flip: Cons.hyps(2))
  have "bs_settled (stream_run size_of (replicate (Suc (length (bs_queue ?t))) Next) ?t) =
     bs_settled ?t @ map (\<lambda>(i, r). (bs_calls ?t + i, r)) (enumerate 0 (map (\<lambda>p. Item (fst p)) (bs_queue ?t) @ [Done]))"
    using Cons.prems by (intro Cons.hyps(1)) (simp_all add: t settled_now_def)
  then show ?case
    by (simp add: stream_run_def t settled_now_def p enumerate_Suc_eq case_prod_unfold comp_def flip: Cons.hyps(2))
qed

text \<open>
  Finishing an open stream whose \<open>onClose\<close> returns loses nothing: the consumer's next calls
  receive the whole buffer in order, and then \<open>done\<close>.
\<close>

theorem finish_drains:
  assumes "stream_inv s" "\<not> closed s" "bs_waiter s = None" "fst (bs_onClose s (bs_env s)) = Inr u"
  shows "bs_settled (stream_run size_of (Finish # replicate (Suc (length (bs_queue s))) Next) s) =
     bs_settled s @ map (\<lambda>(i, r). (bs_calls s + i, r))
       (enumerate 0 (map (\<lambda>p. Item (fst p)) (bs_queue s) @ [Done]))"
proof -
  have nf: "\<not> bs_failed s" using assms(1,2) by (auto simp: stream_inv_def buffer_ok_def closed_def)
  obtain env where c: "bs_onClose s (bs_env s) = (Inr u, env)"
    using assms(4) by (cases "bs_onClose s (bs_env s)") auto
  have f: "finish s = s\<lparr>bs_ended := True, bs_env := env, bs_closes := bs_closes s + 1\<rparr>"
    using assms(2,3) nf c by (simp add: closed_def finish_def settle_def answer_def)
  have "stream_run size_of (Finish # replicate (Suc (length (bs_queue s))) Next) s =
      stream_run size_of (replicate (Suc (length (bs_queue (finish s)))) Next) (finish s)"
    by (simp add: stream_run_def f)
  then show ?thesis using drain_queue [of "finish s" size_of] nf by (simp add: f)
qed

section \<open>Witnesses\<close>

definition sample_stream :: "(nat, unit) stream" where
  "sample_stream = stream_run (\<lambda>_. 2) [Push 7, Push 8] (new_stream (\<lambda>u. (Inr (), u)) 5 ())"

lemma sample_stream_eq:
  "sample_stream = (new_stream (\<lambda>u. (Inr (), u)) 5 ())\<lparr>bs_queue := [(7, 2), (8, 2)], bs_bytes := 4, bs_pushed := [7, 8]\<rparr>"
  by (simp add: sample_stream_def stream_run_def push_def new_stream_def)

theorem overflow_fails_stream_witness: "bs_failed (push (\<lambda>_. 2) 9 sample_stream)"
  using overflow_fails_stream [of sample_stream "\<lambda>_. 2" 9]
  by (simp add: sample_stream_eq closed_def new_stream_def)

theorem finish_drains_witness:
  "bs_settled (stream_run (\<lambda>_. 2) (Finish # replicate 3 Next) sample_stream) =
     [(0, Item (7 :: nat)), (1, Item 8), (2, Done)]"
proof -
  have "stream_inv sample_stream" unfolding sample_stream_def by (rule stream_inv_run [OF stream_inv_new])
  moreover have "\<not> closed sample_stream" "bs_waiter sample_stream = None" "bs_settled sample_stream = []"
      "fst (bs_onClose sample_stream (bs_env sample_stream)) = Inr ()" "bs_calls sample_stream = 0"
      "length (bs_queue sample_stream) = 2" "map (\<lambda>p. Item (fst p)) (bs_queue sample_stream) = [Item 7, Item 8]"
    by (simp_all add: sample_stream_eq closed_def new_stream_def)
  ultimately show ?thesis using finish_drains [of sample_stream "()" "\<lambda>_. 2"] by simp
qed

end
