(* ===== verification/Turn_Stream.thy ===== *)
theory Turn_Stream
  imports Protocol Buffered_Stream
begin

text \<open>
  The finite stream of one turn, \<open>src/protocol/turn-stream.ts\<close>: subscribe before the turn is
  admitted, hold back what is heard until the turn is accepted, then pass on the acceptance and
  only the accepted turn's events, up to the terminal one.

  The closure variables of \<open>createTurnStream\<close> that \<open>onClose\<close> touches are the environment of the
  buffered stream; the others and the point its \<open>async\<close> body has reached are the record \<open>turn\<close>.
  An input of the step function is a continuation of the body, a call of the listener, or a call
  of the consumer, in whatever order they happen. The \<open>TurnSource\<close> is the caller's: its calls are
  recorded in \<open>tu_calls\<close> and its replies are inputs. A dispose function is given by its outcome.
\<close>

section \<open>Frames\<close>

datatype frame = Accepted accepted_turn | Event daemon_event

fun frame_json :: "frame \<Rightarrow> json" where
  "frame_json (Accepted a) = JObj [(''type'', JStr ''accepted''), (''result'', accepted_json a)]"
| "frame_json (Event e) = JObj [(''type'', JStr ''event''), (''event'', event_json e)]"

definition frame_size :: "frame \<Rightarrow> nat" where
  "frame_size f = length (stringify (frame_json f))"

definition event_size :: "daemon_event \<Rightarrow> nat" where
  "event_size e = length (stringify (event_json e))"

definition isTerminalEvent :: "daemon_event \<Rightarrow> bool" where
  "isTerminalEvent event = isTerminalEventType (event_type_name (ev_type event))"

definition assertTurnMethod :: "string \<Rightarrow> unit result" where
  "assertTurnMethod meth =
     (if meth \<noteq> ''thread/start'' \<and> meth \<noteq> ''thread/send''
      then Inl (DaemonError InvalidParams ''Finite streaming supports thread/start and thread/send only'' None)
      else Inr ())"

section \<open>State\<close>

record turn_env =
  te_pending :: "daemon_event list"
  te_aborted :: bool
  te_dispose :: "unit result option"
  te_disposed :: nat

datatype source_call = CResolve string | CSubscribe json | CRequest string "(string \<times> json) list"

datatype phase = Resolving | Subscribing | Requesting | Rejecting thrown | Settled

text \<open>\<open>tu_heard\<close> records the events the listener has been called with; the source has no such field.\<close>

record turn =
  tu_stream :: "(frame, turn_env) stream"
  tu_accepted :: "accepted_turn option"
  tu_pendingBytes :: nat
  tu_limit :: nat
  tu_method :: string
  tu_params :: "(string \<times> json) list"
  tu_filter :: "(string \<times> json) list"
  tu_phase :: phase
  tu_calls :: "source_call list"
  tu_heard :: "daemon_event list"

section \<open>Operations\<close>

text \<open>The \<open>onClose\<close> callback, and a call of the dispose function.\<close>

definition call_dispose :: "turn_env \<Rightarrow> unit result \<times> turn_env" where
  "call_dispose env =
     (case te_dispose env of
        None \<Rightarrow> (Inr (), env)
      | Some outcome \<Rightarrow> (outcome, env\<lparr>te_disposed := te_disposed env + 1\<rparr>))"

definition on_close :: "turn_env \<Rightarrow> unit result \<times> turn_env" where
  "on_close env = call_dispose (env\<lparr>te_pending := [], te_aborted := True\<rparr>)"

definition on_stream :: "((frame, turn_env) stream \<Rightarrow> (frame, turn_env) stream) \<Rightarrow> turn \<Rightarrow> turn" where
  "on_stream f t = t\<lparr>tu_stream := f (tu_stream t)\<rparr>"

definition on_env :: "(turn_env \<Rightarrow> turn_env) \<Rightarrow> turn \<Rightarrow> turn" where
  "on_env f = on_stream (\<lambda>s. s\<lparr>bs_env := f (bs_env s)\<rparr>)"

definition for_turn :: "accepted_turn \<Rightarrow> daemon_event \<Rightarrow> bool" where
  "for_turn a event \<longleftrightarrow> ev_turnId event = Some (ac_turnId a) \<and> ev_threadId event = Some (ac_threadId a)"

text \<open>The part of \<open>deliver\<close> once the turn is accepted.\<close>

definition forward :: "accepted_turn \<Rightarrow> daemon_event \<Rightarrow> (frame, turn_env) stream \<Rightarrow> (frame, turn_env) stream" where
  "forward a event s =
     (if \<not> for_turn a event then s
      else
        (let s1 = push frame_size (Event event) s in
         if isTerminalEvent event then finish s1 else s1))"

definition deliver :: "daemon_event \<Rightarrow> turn \<Rightarrow> turn" where
  "deliver event t =
     (if closed (tu_stream t) then t
      else
        (case tu_accepted t of
           None \<Rightarrow>
             (let pendingBytes = tu_pendingBytes t + event_size event;
                  t1 = t\<lparr>tu_pendingBytes := pendingBytes\<rparr>
              in if pendingBytes > tu_limit t
                 then on_stream (fail (DaemonError StreamOverflow
                        ''Pre-acceptance event buffer exceeded its byte limit'' None)) t1
                 else on_env (\<lambda>env. env\<lparr>te_pending := te_pending env @ [event]\<rparr>) t1)
         | Some a \<Rightarrow> on_stream (forward a event) t))"

text \<open>The call of \<open>source.subscribe\<close>, unless the stream was closed before.\<close>

definition enter_subscribe :: "turn \<Rightarrow> turn" where
  "enter_subscribe t =
     (if closed (tu_stream t) then t\<lparr>tu_phase := Settled\<rparr>
      else t\<lparr>tu_calls := tu_calls t @ [CSubscribe (JObj (tu_filter t))], tu_phase := Subscribing\<rparr>)"

definition start_body :: "turn \<Rightarrow> turn" where
  "start_body t =
     (if tu_method t = ''thread/send''
      then
        (case jget (JObj (tu_params t)) ''threadId'' of
           JStr threadId \<Rightarrow>
             if threadId = []
             then t\<lparr>tu_phase := Rejecting (DaemonError InvalidParams ''threadId is required'' None)\<rparr>
             else t\<lparr>tu_calls := tu_calls t @ [CResolve threadId], tu_phase := Resolving\<rparr>
         | _ \<Rightarrow> t\<lparr>tu_phase := Rejecting (DaemonError InvalidParams ''threadId is required'' None)\<rparr>)
      else enter_subscribe t)"

definition createTurnStream :: "string \<Rightarrow> (string \<times> json) list \<Rightarrow> nat \<Rightarrow> turn result" where
  "createTurnStream meth params limit =
     (case assertTurnMethod meth of
        Inl e \<Rightarrow> Inl e
      | Inr _ \<Rightarrow> Inr (start_body
          \<lparr>tu_stream = new_stream on_close limit
             \<lparr>te_pending = [], te_aborted = False, te_dispose = None, te_disposed = 0\<rparr>,
           tu_accepted = None, tu_pendingBytes = 0, tu_limit = limit, tu_method = meth, tu_params = params,
           tu_filter = [], tu_phase = Settled, tu_calls = [], tu_heard = []\<rparr>))"

definition resolved :: "string result \<Rightarrow> turn \<Rightarrow> turn" where
  "resolved r t =
     (case r of
        Inl e \<Rightarrow> t\<lparr>tu_phase := Rejecting e\<rparr>
      | Inr threadId \<Rightarrow>
          enter_subscribe (t\<lparr>tu_filter := [(''threadId'', JStr threadId)],
                             tu_params := jset ''threadId'' (JStr threadId) (tu_params t)\<rparr>))"

definition subscribed :: "unit result result \<Rightarrow> turn \<Rightarrow> turn" where
  "subscribed r t =
     (case r of
        Inl e \<Rightarrow> t\<lparr>tu_phase := Rejecting e\<rparr>
      | Inr dispose \<Rightarrow>
          (let t1 = on_env (\<lambda>env. env\<lparr>te_dispose := Some dispose\<rparr>) t in
           if closed (tu_stream t1)
           then
             (on_env (\<lambda>env. snd (call_dispose env)) t1)
               \<lparr>tu_phase := (case dispose of Inl e \<Rightarrow> Rejecting e | Inr _ \<Rightarrow> Settled)\<rparr>
           else t1\<lparr>tu_calls := tu_calls t1 @ [CRequest (tu_method t1) (tu_params t1)], tu_phase := Requesting\<rparr>))"

definition replied :: "accepted_turn result \<Rightarrow> turn \<Rightarrow> turn" where
  "replied r t =
     (case r of
        Inl e \<Rightarrow> t\<lparr>tu_phase := Rejecting e\<rparr>
      | Inr a \<Rightarrow>
          (let t1 = t\<lparr>tu_accepted := Some a, tu_phase := Settled\<rparr> in
           if closed (tu_stream t1) then t1
           else
             (let t2 = on_stream (push frame_size (Accepted a)) t1;
                  buffered = te_pending (bs_env (tu_stream t2));
                  t3 = on_env (\<lambda>env. env\<lparr>te_pending := []\<rparr>) t2
              in fold deliver buffered t3)))"

datatype input =
    Resolved "string result"                \<comment> \<open>\<open>resolveThreadId\<close> settled\<close>
  | Subscribed "unit result result"         \<comment> \<open>\<open>subscribe\<close> settled\<close>
  | Replied "accepted_turn result"          \<comment> \<open>\<open>request\<close> settled\<close>
  | CatchHandler                            \<comment> \<open>the body's \<open>catch\<close> runs\<close>
  | Heard daemon_event                      \<comment> \<open>the listener is called\<close>
  | SourceError thrown                      \<comment> \<open>the error callback is called\<close>
  | Consume                                 \<comment> \<open>the consumer calls \<open>next\<close>\<close>
  | Abandon                                 \<comment> \<open>the consumer calls \<open>close\<close> or \<open>return\<close>\<close>

definition listening :: "turn \<Rightarrow> bool" where
  "listening t \<longleftrightarrow> list_ex (\<lambda>c. case c of CSubscribe _ \<Rightarrow> True | _ \<Rightarrow> False) (tu_calls t)"

text \<open>An input that cannot happen in the current phase changes nothing.\<close>

fun turn_step :: "input \<Rightarrow> turn \<Rightarrow> turn" where
  "turn_step (Resolved r) t = (if tu_phase t = Resolving then resolved r t else t)"
| "turn_step (Subscribed r) t = (if tu_phase t = Subscribing then subscribed r t else t)"
| "turn_step (Replied r) t = (if tu_phase t = Requesting then replied r t else t)"
| "turn_step CatchHandler t =
     (case tu_phase t of Rejecting e \<Rightarrow> (on_stream (fail e) t)\<lparr>tu_phase := Settled\<rparr> | _ \<Rightarrow> t)"
| "turn_step (Heard e) t = (if listening t then deliver e (t\<lparr>tu_heard := tu_heard t @ [e]\<rparr>) else t)"
| "turn_step (SourceError e) t = (if listening t then on_stream (fail e) t else t)"
| "turn_step Consume t = on_stream next_item t"
| "turn_step Abandon t = on_stream close t"

definition turn_run :: "input list \<Rightarrow> turn \<Rightarrow> turn" where
  "turn_run inputs t = fold turn_step inputs t"

end
