(* ===== verification/Turn_Stream_Props.thy ===== *)
theory Turn_Stream_Props
  imports Turn_Stream
begin

text \<open>
  What a turn stream promises its consumer and its source. The locale \<open>relay\<close> extends the
  contract \<open>sink\<close> by a forwarding function that passes on the wanted elements and ends the stream
  after the last one; its lemma gives the frames of a whole turn.
\<close>

section \<open>Forwarding into a sink\<close>

locale relay = sink push finish fail closed out
  for push :: "'a \<Rightarrow> 's \<Rightarrow> 's" and finish :: "'s \<Rightarrow> 's" and fail :: "thrown \<Rightarrow> 's \<Rightarrow> 's"
    and closed :: "'s \<Rightarrow> bool" and out :: "'s \<Rightarrow> 'a list" +
  fixes pass :: "'e \<Rightarrow> 's \<Rightarrow> 's" and wanted :: "'e \<Rightarrow> bool" and terminal :: "'e \<Rightarrow> bool" and frame :: "'e \<Rightarrow> 'a"
  assumes pass_eq: "pass e s =
    (if wanted e then (if terminal e then finish (push (frame e) s) else push (frame e) s) else s)"
begin

lemma pass_closed: "closed s \<Longrightarrow> pass e s = s"
  by (simp add: pass_eq closed_push closed_finish)

lemma pass_all_closed: "closed s \<Longrightarrow> fold pass es s = s"
  by (induction es) (simp_all add: pass_closed)

text \<open>
  Passing on a list of elements: an initial part of the wanted ones up to the first terminal one,
  and all of them, none terminal, while the sink stays open.
\<close>

lemma pass_all:
  assumes "\<not> closed s"
  shows "\<exists>taken. out (fold pass es s) = out s @ map frame taken \<and>
     prefix taken (through terminal (filter wanted es)) \<and>
     (\<not> closed (fold pass es s) \<longrightarrow> taken = filter wanted es \<and> (\<forall>e \<in> set taken. \<not> terminal e))"
  using assms
proof (induction es arbitrary: s)
  case (Cons e es)
  show ?case
  proof (cases "wanted e")
    case False
    with Cons show ?thesis by (simp add: pass_eq)
  next
    case True
    show ?thesis
    proof (cases "closed (push (frame e) s)")
      case closed: True
      then have "pass e s = push (frame e) s" using True by (simp add: pass_eq closed_finish)
      with closed True show ?thesis
        using Cons.prems by (intro exI [of _ "[]"]) (simp add: push_out pass_all_closed)
    next
      case opened: False
      show ?thesis
      proof (cases "terminal e")
        case last: True
        then have p: "pass e s = finish (push (frame e) s)" using True by (simp add: pass_eq)
        show ?thesis
          using opened Cons.prems last True
          by (intro exI [of _ "[e]"]) (simp add: p finish_out pass_all_closed push_out)
      next
        case False
        then have p: "pass e s = push (frame e) s" using True by (simp add: pass_eq)
        obtain taken where "out (fold pass es (pass e s)) = out (pass e s) @ map frame taken"
            "prefix taken (through terminal (filter wanted es))"
            "\<not> closed (fold pass es (pass e s)) \<longrightarrow> taken = filter wanted es \<and> (\<forall>e \<in> set taken. \<not> terminal e)"
          using Cons.IH [of "pass e s"] opened by (auto simp: p)
        with opened Cons.prems False True show ?thesis
          by (intro exI [of _ "e # taken"]) (simp add: p push_out)
      qed
    qed
  qed
qed simp

end

interpretation forwarding: relay "push frame_size" finish fail closed bs_pushed "forward a" "for_turn a" isTerminalEvent Event
  for a
  by unfold_locales (simp add: forward_def)

section \<open>Invariant\<close>

text \<open>The frames the consumer is owed: the acceptance, then the turn's events up to the terminal one.\<close>

definition owed :: "accepted_turn \<Rightarrow> daemon_event list \<Rightarrow> frame list" where
  "owed a heard = Accepted a # map Event (through isTerminalEvent (filter (for_turn a) heard))"

definition frames_ok :: "turn \<Rightarrow> bool" where
  "frames_ok t \<longleftrightarrow>
     (case tu_accepted t of
        None \<Rightarrow> bs_pushed (tu_stream t) = [] \<and>
          (closed (tu_stream t) \<or> te_pending (bs_env (tu_stream t)) = tu_heard t)
      | Some a \<Rightarrow> prefix (bs_pushed (tu_stream t)) (owed a (tu_heard t)) \<and>
          (closed (tu_stream t) \<or>
             bs_pushed (tu_stream t) = Accepted a # map Event (filter (for_turn a) (tu_heard t)) \<and>
             (\<forall>e \<in> set (tu_heard t). \<not> (for_turn a e \<and> isTerminalEvent e))))"

definition dispose_ok :: "turn \<Rightarrow> bool" where
  "dispose_ok t \<longleftrightarrow>
     (let env = bs_env (tu_stream t) in
      te_disposed env = (if closed (tu_stream t) \<and> te_dispose env \<noteq> None then 1 else 0) \<and>
      te_aborted env = closed (tu_stream t))"

text \<open>The calls made to the source, by the phase and by whether the subscription is set up.\<close>

definition requests :: "source_call list \<Rightarrow> source_call list" where
  "requests cs = filter (\<lambda>c. case c of CRequest _ _ \<Rightarrow> True | _ \<Rightarrow> False) cs"

definition subscriptions :: "source_call list \<Rightarrow> source_call list" where
  "subscriptions cs = filter (\<lambda>c. case c of CSubscribe _ \<Rightarrow> True | _ \<Rightarrow> False) cs"

definition calls_shape :: "source_call list \<Rightarrow> bool \<Rightarrow> bool \<Rightarrow> phase \<Rightarrow> bool" where
  "calls_shape cs disposable accepted p \<longleftrightarrow>
     (case p of
        Resolving \<Rightarrow> requests cs = [] \<and> subscriptions cs = [] \<and> \<not> disposable \<and> \<not> accepted
      | Subscribing \<Rightarrow> requests cs = [] \<and> length (subscriptions cs) = 1 \<and> \<not> disposable \<and> \<not> accepted
      | Requesting \<Rightarrow> length (requests cs) = 1 \<and> last cs = hd (requests cs) \<and> length (subscriptions cs) = 1 \<and>
          disposable \<and> \<not> accepted
      | _ \<Rightarrow>
          length (subscriptions cs) \<le> 1 \<and> (disposable \<longrightarrow> length (subscriptions cs) = 1) \<and>
          (accepted \<longrightarrow> requests cs \<noteq> []) \<and>
          (requests cs \<noteq> [] \<longrightarrow> length (requests cs) = 1 \<and> last cs = hd (requests cs) \<and> disposable))"

definition calls_ok_in :: "turn \<Rightarrow> bool" where
  "calls_ok_in t \<longleftrightarrow>
     calls_shape (tu_calls t) (te_dispose (bs_env (tu_stream t)) \<noteq> None) (tu_accepted t \<noteq> None) (tu_phase t)"

definition turn_inv :: "turn \<Rightarrow> bool" where
  "turn_inv t \<longleftrightarrow> bs_onClose (tu_stream t) = on_close \<and> stream_inv (tu_stream t) \<and>
     frames_ok t \<and> dispose_ok t \<and> calls_ok_in t"

lemma prefix_owed: "prefix (owed a heard) (owed a (heard @ es))"
  using through_mono [of isTerminalEvent "filter (for_turn a) heard" "filter (for_turn a) es"]
  by (auto simp: owed_def prefix_def)

section \<open>Preservation\<close>

text \<open>How the operations of the stream act on the environment: only through one closing.\<close>

definition follows :: "(frame, turn_env) stream \<Rightarrow> (frame, turn_env) stream \<Rightarrow> bool" where
  "follows s s' \<longleftrightarrow> bs_onClose s' = bs_onClose s \<and> (stream_inv s \<longrightarrow> stream_inv s') \<and>
     (if bs_ended s' \<longleftrightarrow> bs_ended s then bs_env s' = bs_env s
      else bs_ended s' \<and> bs_env s' = snd (bs_onClose s (bs_env s)))"

lemma follows_refl [simp]: "follows s s"
  by (simp add: follows_def)

lemma follows_trans: "follows s s' \<Longrightarrow> follows s' s'' \<Longrightarrow> follows s s''"
  by (auto simp: follows_def split: if_splits)

lemma follows_ops:
  "follows s (push size_of v s)" "follows s (finish s)" "follows s (fail e s)" "follows s (close s)"
  "follows s (next_item s)"
  by (auto simp: follows_def stream_inv_push stream_inv_finish stream_inv_fail stream_inv_close stream_inv_next)
    (auto simp: push_def finish_def fail_def close_def next_item_def settled_now_def split: if_splits list.splits)

lemma follows_forward: "follows s (forward a e s)"
  unfolding forward_def Let_def by (auto intro: follows_trans follows_ops)

lemma follows_forward_all: "follows s (fold (forward a) es s)"
proof (induction es arbitrary: s)
  case (Cons e es)
  then show ?case by (simp add: follows_trans [OF follows_forward Cons.IH])
qed simp

lemma dispose_ok_on_stream:
  assumes "follows (tu_stream t) s" "bs_onClose (tu_stream t) = on_close" "dispose_ok t" "tu_stream t' = s"
  shows "dispose_ok t'"
  using assms
  by (auto simp: follows_def dispose_ok_def Let_def closed_def on_close_def call_dispose_def split: if_splits option.splits)

lemma follows_dispose:
  "follows s s' \<Longrightarrow> bs_onClose s = on_close \<Longrightarrow> te_dispose (bs_env s') = te_dispose (bs_env s)"
  by (auto simp: follows_def on_close_def call_dispose_def split: if_splits option.splits)

lemma follows_closed: "follows s s' \<Longrightarrow> closed s \<Longrightarrow> closed s'"
  by (auto simp: follows_def closed_def split: if_splits)

lemma on_stream_simps [simp]:
  "tu_stream (on_stream f t) = f (tu_stream t)" "tu_accepted (on_stream f t) = tu_accepted t"
  "tu_pendingBytes (on_stream f t) = tu_pendingBytes t" "tu_limit (on_stream f t) = tu_limit t"
  "tu_method (on_stream f t) = tu_method t" "tu_params (on_stream f t) = tu_params t"
  "tu_filter (on_stream f t) = tu_filter t" "tu_phase (on_stream f t) = tu_phase t"
  "tu_calls (on_stream f t) = tu_calls t" "tu_heard (on_stream f t) = tu_heard t"
  by (simp_all add: on_stream_def)

lemma listening_on_stream [simp]: "listening (on_stream f t) = listening t"
  by (simp add: listening_def)

lemma follows_open: "follows s s' \<Longrightarrow> \<not> closed s' \<Longrightarrow> \<not> closed s \<and> bs_env s' = bs_env s"
  by (auto simp: follows_def closed_def split: if_splits)

lemma frames_ok_quiet:
  assumes "frames_ok t" "follows (tu_stream t) (tu_stream t')" "bs_pushed (tu_stream t') = bs_pushed (tu_stream t)"
    and "tu_accepted t' = tu_accepted t" "tu_heard t' = tu_heard t"
  shows "frames_ok t'"
proof (cases "closed (tu_stream t')")
  case True
  then show ?thesis using assms(1,3,4,5) by (auto simp: frames_ok_def split: option.splits)
next
  case False
  then have "\<not> closed (tu_stream t)" "bs_env (tu_stream t') = bs_env (tu_stream t)"
    using follows_open [OF assms(2)] by simp_all
  then show ?thesis using assms(1,3,4,5) by (cases "tu_accepted t") (auto simp: frames_ok_def)
qed

lemma quiet_pushed [simp]:
  "bs_pushed (finish s) = bs_pushed s" "bs_pushed (fail e s) = bs_pushed s" "bs_pushed (close s) = bs_pushed s"
  by (auto simp: finish_def fail_def close_def)

lemma calls_shape_over: "calls_shape cs d a p \<Longrightarrow> calls_shape cs d a Settled" "calls_shape cs d a p \<Longrightarrow> calls_shape cs d a (Rejecting e)"
  by (cases p; simp add: calls_shape_def)+

lemma stream_inv_env [simp]: "stream_inv (s\<lparr>bs_env := x\<rparr>) = stream_inv s"
  by (simp add: stream_inv_def buffer_ok_def order_ok_def calls_ok_def)

lemma calls_ok_in_cong:
  assumes "te_dispose (bs_env (tu_stream t')) = te_dispose (bs_env (tu_stream t))"
    and "tu_calls t' = tu_calls t" "tu_accepted t' = tu_accepted t" "tu_phase t' = tu_phase t"
  shows "calls_ok_in t' = calls_ok_in t"
  by (simp only: calls_ok_in_def assms)

lemma turn_invD:
  assumes "turn_inv t"
  shows "bs_onClose (tu_stream t) = on_close" "stream_inv (tu_stream t)" "frames_ok t" "dispose_ok t" "calls_ok_in t"
  using assms by (simp_all add: turn_inv_def)

lemma turn_inv_on_stream:
  assumes "turn_inv t" "follows (tu_stream t) (f (tu_stream t))" "frames_ok (on_stream f t)"
  shows "turn_inv (on_stream f t)"
proof -
  note inv = turn_invD [OF assms(1)]
  have "dispose_ok (on_stream f t)"
    by (rule dispose_ok_on_stream [OF assms(2) inv(1,4)]) simp
  moreover have "calls_ok_in (on_stream f t) = calls_ok_in t"
    using follows_dispose [OF assms(2) inv(1)] by (intro calls_ok_in_cong) simp_all
  moreover have "bs_onClose (f (tu_stream t)) = on_close" "stream_inv (f (tu_stream t))"
    using assms(2) inv(1,2) by (simp_all add: follows_def)
  ultimately show ?thesis using inv(5) assms(3) by (simp add: turn_inv_def)
qed

lemma turn_inv_quiet:
  assumes "turn_inv t" "follows (tu_stream t) (f (tu_stream t))" "bs_pushed (f (tu_stream t)) = bs_pushed (tu_stream t)"
  shows "turn_inv (on_stream f t)"
proof -
  have "frames_ok (on_stream f t)"
    by (rule frames_ok_quiet [of t]) (use assms in \<open>simp_all add: turn_inv_def\<close>)
  then show ?thesis using assms(1,2) by (rule turn_inv_on_stream [rotated 2])
qed

text \<open>A change of phase only, and an addition to the record of heard events.\<close>

lemma turn_inv_phase:
  assumes "turn_inv t" "p = Settled \<or> (\<exists>e. p = Rejecting e)"
  shows "turn_inv (t\<lparr>tu_phase := p\<rparr>)"
proof -
  note inv = turn_invD [OF assms(1)]
  have "calls_ok_in (t\<lparr>tu_phase := p\<rparr>)"
    using inv(5) assms(2) calls_shape_over by (auto simp: calls_ok_in_def)
  moreover have "frames_ok (t\<lparr>tu_phase := p\<rparr>)" "dispose_ok (t\<lparr>tu_phase := p\<rparr>)"
    using inv(3,4) by (cases "tu_accepted t"; simp add: frames_ok_def dispose_ok_def)+
  ultimately show ?thesis using inv(1,2) by (simp add: turn_inv_def)
qed

lemma frames_ok_deliver:
  assumes "frames_ok t"
  shows "frames_ok (deliver e (t\<lparr>tu_heard := tu_heard t @ [e]\<rparr>))"
proof (cases "closed (tu_stream t)")
  case True
  with assms show ?thesis
    using prefix_owed [of _ "tu_heard t" "[e]"]
    by (auto simp: frames_ok_def deliver_def split: option.splits intro: prefix_order.trans)
next
  case opened: False
  show ?thesis
  proof (cases "tu_accepted t")
    case None
    with assms opened show ?thesis
      by (auto simp: frames_ok_def deliver_def Let_def on_env_def closed_def fail_def)
  next
    case (Some a)
    let ?s = "tu_stream t" and ?s' = "forward a e (tu_stream t)"
    have p: "bs_pushed ?s = Accepted a # map Event (filter (for_turn a) (tu_heard t))"
      and n: "\<forall>e \<in> set (tu_heard t). \<not> (for_turn a e \<and> isTerminalEvent e)"
      using assms opened Some by (auto simp: frames_ok_def)
    obtain taken where taken: "bs_pushed ?s' = bs_pushed ?s @ map Event taken"
        "prefix taken (through isTerminalEvent (filter (for_turn a) [e]))"
        "\<not> closed ?s' \<longrightarrow> taken = filter (for_turn a) [e] \<and> (\<forall>e \<in> set taken. \<not> isTerminalEvent e)"
      using forwarding.pass_all [OF opened, of a "[e]"] by auto
    have o: "owed a (tu_heard t @ [e]) =
        bs_pushed ?s @ map Event (through isTerminalEvent (filter (for_turn a) [e]))"
      using n p by (auto simp: owed_def through_append)
    have "prefix (bs_pushed ?s') (owed a (tu_heard t @ [e]))"
      unfolding taken(1) o same_prefix_prefix by (rule map_mono_prefix [OF taken(2)])
    moreover have "closed ?s' \<or> bs_pushed ?s' = Accepted a # map Event (filter (for_turn a) (tu_heard t @ [e])) \<and>
        (\<forall>x \<in> set (tu_heard t @ [e]). \<not> (for_turn a x \<and> isTerminalEvent x))"
      using taken(1,3) p n by (auto split: if_splits)
    ultimately show ?thesis
      using opened Some by (simp add: frames_ok_def deliver_def)
  qed
qed

text \<open>The listener acts on the stream as an operation does, or only keeps the event.\<close>

lemma deliver_cases:
  assumes "tu_stream u = tu_stream t"
  obtains (1) "follows (tu_stream t) (tu_stream (deliver e u))"
    | (2) "\<not> closed (tu_stream t)" "tu_stream (deliver e u) =
        (tu_stream t)\<lparr>bs_env := (bs_env (tu_stream t))\<lparr>te_pending := te_pending (bs_env (tu_stream t)) @ [e]\<rparr>\<rparr>"
proof (cases "closed (tu_stream t)")
  case True
  then show ?thesis using assms by (intro 1) (simp add: deliver_def)
next
  case opened: False
  show ?thesis
  proof (cases "tu_accepted u")
    case None
    show ?thesis
    proof (cases "tu_pendingBytes u + event_size e > tu_limit u")
      case True
      then show ?thesis using assms opened None by (intro 1) (simp add: deliver_def follows_ops)
    next
      case False
      then show ?thesis using assms opened None by (intro 2) (simp_all add: deliver_def on_env_def)
    qed
  next
    case (Some a)
    then show ?thesis using assms opened by (intro 1) (simp add: deliver_def follows_forward)
  qed
qed

lemma deliver_simps [simp]:
  "tu_calls (deliver e t) = tu_calls t" "tu_accepted (deliver e t) = tu_accepted t"
  "tu_phase (deliver e t) = tu_phase t" "tu_heard (deliver e t) = tu_heard t"
  by (auto simp: deliver_def Let_def on_env_def split: option.splits)

lemma turn_inv_heard_deliver:
  assumes "turn_inv t"
  shows "turn_inv (deliver e (t\<lparr>tu_heard := tu_heard t @ [e]\<rparr>))"
proof -
  let ?t = "t\<lparr>tu_heard := tu_heard t @ [e]\<rparr>" and ?t' = "deliver e (t\<lparr>tu_heard := tu_heard t @ [e]\<rparr>)"
  note inv = turn_invD [OF assms(1)]
  have f: "frames_ok ?t'" by (rule frames_ok_deliver [OF inv(3)])
  have s: "bs_onClose (tu_stream ?t') = on_close \<and> stream_inv (tu_stream ?t') \<and> dispose_ok ?t' \<and>
      te_dispose (bs_env (tu_stream ?t')) = te_dispose (bs_env (tu_stream t))"
  proof (cases rule: deliver_cases [of ?t t e, simplified])
    case 1
    then show ?thesis
      using inv(1,2) follows_dispose [OF 1 inv(1)] dispose_ok_on_stream [OF 1 inv(1,4) refl]
      by (simp add: follows_def)
  next
    case 2
    then show ?thesis
      using inv(1,2,4) by (simp add: dispose_ok_def Let_def closed_def)
  qed
  then have "calls_ok_in ?t' = calls_ok_in t" by (intro calls_ok_in_cong) simp_all
  with s f inv(5) show ?thesis by (simp add: turn_inv_def)
qed

lemma calls_simps [simp]:
  "requests [] = []" "requests (cs @ ds) = requests cs @ requests ds" "requests [CResolve i] = []"
  "requests [CSubscribe f] = []" "requests [CRequest m q] = [CRequest m q]"
  "subscriptions [] = []" "subscriptions (cs @ ds) = subscriptions cs @ subscriptions ds"
  "subscriptions [CResolve i] = []" "subscriptions [CSubscribe f] = [CSubscribe f]" "subscriptions [CRequest m q] = []"
  by (simp_all add: requests_def subscriptions_def)

lemma inv_cong:
  assumes "tu_stream t' = tu_stream t" "tu_accepted t' = tu_accepted t" "tu_heard t' = tu_heard t"
  shows "frames_ok t' = frames_ok t" "dispose_ok t' = dispose_ok t"
  by (simp_all only: frames_ok_def dispose_ok_def assms)

lemma turn_inv_enter_subscribe:
  assumes "turn_inv t" "requests (tu_calls t) = []" "subscriptions (tu_calls t) = []" "tu_accepted t = None"
    and "te_dispose (bs_env (tu_stream t)) = None"
  shows "turn_inv (enter_subscribe t)"
proof -
  note inv = turn_invD [OF assms(1)]
  have "calls_ok_in (enter_subscribe t)"
    using assms(2-5) by (simp add: enter_subscribe_def calls_ok_in_def calls_shape_def)
  moreover have "tu_stream (enter_subscribe t) = tu_stream t" "tu_accepted (enter_subscribe t) = tu_accepted t"
      "tu_heard (enter_subscribe t) = tu_heard t"
    by (simp_all add: enter_subscribe_def)
  ultimately show ?thesis using inv inv_cong [of "enter_subscribe t" t] by (simp add: turn_inv_def)
qed

lemma turn_inv_fields:
  "turn_inv t \<Longrightarrow> turn_inv (t\<lparr>tu_filter := f, tu_params := q\<rparr>)"
  by (auto simp: turn_inv_def frames_ok_def dispose_ok_def calls_ok_in_def split: option.splits)

lemma turn_inv_resolved:
  assumes "turn_inv t" "tu_phase t = Resolving"
  shows "turn_inv (resolved r t)"
proof (cases r)
  case (Inl e)
  then show ?thesis using turn_inv_phase [OF assms(1)] by (simp add: resolved_def)
next
  case (Inr threadId)
  have "calls_shape (tu_calls t) (te_dispose (bs_env (tu_stream t)) \<noteq> None) (tu_accepted t \<noteq> None) Resolving"
    using turn_invD(5) [OF assms(1)] assms(2) by (simp add: calls_ok_in_def)
  then show ?thesis
    using Inr turn_inv_fields [OF assms(1)]
    by (simp add: resolved_def) (rule turn_inv_enter_subscribe; simp add: calls_shape_def)
qed

lemma dispose_ok_late:
  assumes "dispose_ok t" "te_dispose (bs_env (tu_stream t)) = None" "closed (tu_stream t)"
  shows "dispose_ok (on_env (\<lambda>env. snd (call_dispose env)) (on_env (\<lambda>env. env\<lparr>te_dispose := Some d\<rparr>) t))"
  using assms by (simp add: dispose_ok_def on_env_def call_dispose_def Let_def closed_def)

lemma turn_inv_subscribed:
  assumes "turn_inv t" "tu_phase t = Subscribing"
  shows "turn_inv (subscribed r t)"
proof (cases r)
  case (Inl e)
  then show ?thesis using turn_inv_phase [OF assms(1)] by (simp add: subscribed_def)
next
  case (Inr d)
  note inv = turn_invD [OF assms(1)]
  have c: "requests (tu_calls t) = []" "length (subscriptions (tu_calls t)) = 1"
      "te_dispose (bs_env (tu_stream t)) = None" "tu_accepted t = None"
    using inv(5) assms(2) by (simp_all add: calls_ok_in_def calls_shape_def)
  show ?thesis
  proof (cases "closed (tu_stream t)")
    case True
    let ?u = "on_env (\<lambda>env. snd (call_dispose env)) (on_env (\<lambda>env. env\<lparr>te_dispose := Some d\<rparr>) t)"
    have "calls_ok_in (?u\<lparr>tu_phase := Settled\<rparr>)" "calls_ok_in (?u\<lparr>tu_phase := Rejecting e\<rparr>)" for e
      using c by (simp_all add: calls_ok_in_def calls_shape_def on_env_def call_dispose_def)
    moreover have "frames_ok (?u\<lparr>tu_phase := p\<rparr>)" "dispose_ok (?u\<lparr>tu_phase := p\<rparr>)" for p
      using inv(3) dispose_ok_late [OF inv(4) c(3) True] c(4) True
      by (simp_all add: frames_ok_def dispose_ok_def on_env_def closed_def)
    ultimately show ?thesis
      using Inr True inv(1,2)
      by (cases d) (simp_all add: subscribed_def turn_inv_def on_env_def closed_def)
  next
    case False
    then show ?thesis
      using Inr inv c
      by (simp add: subscribed_def Let_def turn_inv_def calls_ok_in_def calls_shape_def on_env_def frames_ok_def
          dispose_ok_def closed_def)
  qed
qed

text \<open>With the turn accepted, delivering a batch is forwarding it.\<close>

lemma deliver_accepted:
  assumes "tu_accepted t = Some a"
  shows "deliver e t = on_stream (forward a e) t"
  using assms forwarding.pass_closed [of "tu_stream t" a e] by (simp add: deliver_def on_stream_def)

lemma deliver_all_accepted:
  "tu_accepted t = Some a \<Longrightarrow> fold deliver es t = on_stream (fold (forward a) es) t"
proof (induction es arbitrary: t)
  case (Cons e es)
  then show ?case by (simp add: deliver_accepted on_stream_def)
qed (simp add: on_stream_def)

lemma turn_inv_replied:
  assumes "turn_inv t" "tu_phase t = Requesting"
  shows "turn_inv (replied r t)"
proof (cases r)
  case (Inl e)
  then show ?thesis using turn_inv_phase [OF assms(1)] by (simp add: replied_def)
next
  case (Inr a)
  note inv = turn_invD [OF assms(1)]
  let ?t = "t\<lparr>tu_accepted := Some a, tu_phase := Settled\<rparr>"
  have c: "tu_accepted t = None" "calls_ok_in ?t"
    using inv(5) assms(2) by (auto simp: calls_ok_in_def calls_shape_def)
  have d: "dispose_ok ?t" using inv(4) by (simp add: dispose_ok_def)
  have p: "bs_pushed (tu_stream t) = []" using inv(3) c(1) by (simp add: frames_ok_def)
  show ?thesis
  proof (cases "closed (tu_stream t)")
    case True
    have "frames_ok ?t" using p True by (simp add: frames_ok_def)
    with True show ?thesis using Inr inv(1,2) c(2) d by (simp add: replied_def turn_inv_def)
  next
    case opened: False
    let ?s = "push frame_size (Accepted a) (tu_stream t)"
    define u where "u = on_env (\<lambda>env. env\<lparr>te_pending := []\<rparr>) (on_stream (push frame_size (Accepted a)) ?t)"
    have r: "replied r t = on_stream (fold (forward a) (te_pending (bs_env ?s))) u"
      using Inr opened by (simp add: replied_def Let_def u_def deliver_all_accepted on_env_def on_stream_def)
    have f: "follows (tu_stream ?t) ?s" by (simp add: follows_ops)
    have u_inv: "bs_onClose (tu_stream u) = on_close" "stream_inv (tu_stream u)" "dispose_ok u" "calls_ok_in u"
    proof -
      show "bs_onClose (tu_stream u) = on_close" "stream_inv (tu_stream u)"
        using f inv(1,2) by (simp_all add: u_def on_env_def follows_def)
      have "dispose_ok (on_stream (push frame_size (Accepted a)) ?t)"
        by (rule dispose_ok_on_stream [OF f _ d]) (simp_all add: inv(1))
      then show "dispose_ok u" by (simp add: u_def on_env_def dispose_ok_def Let_def closed_def)
      have "calls_ok_in u = calls_ok_in ?t"
        using follows_dispose [OF f] inv(1) by (intro calls_ok_in_cong) (simp_all add: u_def on_env_def)
      with c(2) show "calls_ok_in u" by simp
    qed
    have acc: "tu_accepted u = Some a" "tu_heard u = tu_heard t" by (simp_all add: u_def on_env_def)
    have "frames_ok (on_stream (fold (forward a) (te_pending (bs_env ?s))) u)"
    proof (cases "closed ?s")
      case True
      then have "closed (tu_stream u)" "bs_pushed (tu_stream u) = []"
        using p buffered.push_out [OF opened, of frame_size "Accepted a"] by (simp_all add: u_def on_env_def closed_def)
      with acc show ?thesis by (simp add: frames_ok_def forwarding.pass_all_closed)
    next
      case False
      then have "bs_pushed ?s = [Accepted a]" and e: "bs_env ?s = bs_env (tu_stream t)"
        using p buffered.push_out [OF opened, of frame_size "Accepted a"] follows_open [OF f False] by simp_all
      moreover have "te_pending (bs_env (tu_stream t)) = tu_heard t"
        using inv(3) c(1) opened by (simp add: frames_ok_def)
      moreover from False have o: "\<not> closed (tu_stream u)" by (simp add: u_def on_env_def closed_def)
      moreover have "bs_pushed (tu_stream u) = bs_pushed ?s" by (simp add: u_def on_env_def)
      ultimately obtain taken where "bs_pushed (fold (forward a) (tu_heard t) (tu_stream u)) = Accepted a # map Event taken"
          "prefix taken (through isTerminalEvent (filter (for_turn a) (tu_heard t)))"
          "\<not> closed (fold (forward a) (tu_heard t) (tu_stream u)) \<longrightarrow>
             taken = filter (for_turn a) (tu_heard t) \<and> (\<forall>e \<in> set taken. \<not> isTerminalEvent e)"
          and "te_pending (bs_env ?s) = tu_heard t"
        using forwarding.pass_all [OF o, of a "tu_heard t"] by auto
      then show ?thesis
        using acc by (auto simp: frames_ok_def owed_def intro: map_mono_prefix)
    qed
    moreover have ff: "follows (tu_stream u) (fold (forward a) (te_pending (bs_env ?s)) (tu_stream u))"
      by (rule follows_forward_all)
    moreover have "dispose_ok (replied r t)"
      unfolding r by (rule dispose_ok_on_stream [OF ff u_inv(1,3)]) simp
    moreover have "calls_ok_in (replied r t) = calls_ok_in u"
      unfolding r using follows_dispose [OF ff u_inv(1)] by (intro calls_ok_in_cong) simp_all
    ultimately show ?thesis
      using u_inv by (simp add: turn_inv_def r follows_def)
  qed
qed

lemma turn_inv_created:
  assumes "createTurnStream meth params limit = Inr t"
  shows "turn_inv t"
proof -
  define t0 where "t0 = \<lparr>tu_stream = new_stream on_close limit
       \<lparr>te_pending = [], te_aborted = False, te_dispose = None, te_disposed = 0\<rparr>,
     tu_accepted = None, tu_pendingBytes = 0, tu_limit = limit, tu_method = meth, tu_params = params,
     tu_filter = [], tu_phase = Settled, tu_calls = [], tu_heard = []\<rparr>"
  have t: "t = start_body t0"
    using assms by (simp add: createTurnStream_def t0_def split: sum.splits)
  have t0: "turn_inv t0"
    using stream_inv_new [of on_close limit "\<lparr>te_pending = [], te_aborted = False, te_dispose = None, te_disposed = 0\<rparr>"]
    by (simp add: turn_inv_def t0_def frames_ok_def dispose_ok_def calls_ok_in_def calls_shape_def closed_def)
      (simp add: new_stream_def)
  have "turn_inv (t0\<lparr>tu_calls := tu_calls t0 @ [CResolve i], tu_phase := Resolving\<rparr>)" for i
    using t0 by (simp add: turn_inv_def t0_def frames_ok_def dispose_ok_def calls_ok_in_def calls_shape_def new_stream_def)
  moreover have "turn_inv (enter_subscribe t0)"
    using t0 by (intro turn_inv_enter_subscribe) (simp_all add: t0_def new_stream_def)
  ultimately show ?thesis
    unfolding t start_body_def using turn_inv_phase [OF t0] by (auto split: json.splits)
qed

lemma turn_inv_step: "turn_inv t \<Longrightarrow> turn_inv (turn_step i t)"
proof (cases i)
  case CatchHandler
  assume t: "turn_inv t"
  have "turn_inv (on_stream (fail e) t)" for e by (rule turn_inv_quiet [OF t]) (simp_all add: follows_ops)
  then show ?thesis using t CatchHandler turn_inv_phase by (auto split: phase.splits)
qed (auto simp: turn_inv_resolved turn_inv_subscribed turn_inv_replied turn_inv_heard_deliver
    intro!: turn_inv_quiet follows_ops)

lemma turn_inv_run: "turn_inv t \<Longrightarrow> turn_inv (turn_run inputs t)"
  unfolding turn_run_def by (induction inputs arbitrary: t) (simp_all add: turn_inv_step)

section \<open>Completeness\<close>

text \<open>Unless it failed, a stream nobody abandoned has taken over every frame it owes.\<close>

definition whole :: "turn \<Rightarrow> bool" where
  "whole t \<longleftrightarrow> bs_failed (tu_stream t) \<or>
     (case tu_accepted t of
        None \<Rightarrow> \<not> closed (tu_stream t)
      | Some a \<Rightarrow> bs_pushed (tu_stream t) = owed a (tu_heard t) \<and>
          (closed (tu_stream t) \<longleftrightarrow> (\<exists>e \<in> set (tu_heard t). for_turn a e \<and> isTerminalEvent e)))"

lemma failed_settle: "bs_failed s \<Longrightarrow> bs_failed (settle s)"
  by (cases s rule: settle_cases) simp_all

lemma failed_fail: "\<not> closed s \<Longrightarrow> bs_failed (fail e s)"
  by (simp add: fail_def closed_def failed_settle)

lemma failed_mono [simp]:
  "bs_failed s \<Longrightarrow> bs_failed (finish s)" "bs_failed s \<Longrightarrow> bs_failed (fail e s)"
  "bs_failed s \<Longrightarrow> bs_failed (push size_of v s)" "bs_failed s \<Longrightarrow> bs_failed (next_item s)"
  by (auto simp: finish_def fail_def push_def next_item_def settled_now_def answer_def failed_settle split: list.splits option.splits)

lemma failed_forward: "bs_failed s \<Longrightarrow> bs_failed (forward a e s)"
  by (simp add: forward_def Let_def)

lemma push_lost: "\<not> closed s \<Longrightarrow> closed (push size_of v s) \<Longrightarrow> bs_failed (push size_of v s)"
  by (auto simp: push_def closed_def failed_fail split: if_splits)

lemma forward_all_complete:
  assumes "\<not> closed s" "\<not> bs_failed (fold (forward a) es s)"
  shows "bs_pushed (fold (forward a) es s) =
       bs_pushed s @ map Event (through isTerminalEvent (filter (for_turn a) es)) \<and>
     (closed (fold (forward a) es s) \<longleftrightarrow> (\<exists>e \<in> set es. for_turn a e \<and> isTerminalEvent e))"
  using assms
proof (induction es arbitrary: s)
  case (Cons e es)
  have later: "bs_failed s' \<Longrightarrow> bs_failed (fold (forward a) es s')" for s'
    by (induction es arbitrary: s') (simp_all add: failed_forward)
  show ?case
  proof (cases "for_turn a e")
    case False
    then have "forward a e s = s" by (simp add: forward_def)
    with Cons False show ?thesis by simp
  next
    case True
    let ?p = "push frame_size (Event e) s"
    have ok: "\<not> bs_failed (forward a e s)" using Cons.prems(2) later by auto
    with True have "\<not> closed ?p"
      using push_lost [OF Cons.prems(1), of frame_size "Event e"] by (auto simp: forward_def Let_def split: if_splits)
    then have out: "bs_pushed ?p = bs_pushed s @ [Event e]"
      using buffered.push_out [OF Cons.prems(1), of frame_size "Event e"] by simp
    show ?thesis
    proof (cases "isTerminalEvent e")
      case last: True
      then have "forward a e s = finish ?p" using True by (simp add: forward_def)
      with last True out show ?thesis by (simp add: forwarding.pass_all_closed buffered.finish_out)
    next
      case False
      then have "forward a e s = ?p" using True by (simp add: forward_def)
      with False True out \<open>\<not> closed ?p\<close> Cons.IH [of ?p] Cons.prems(2) show ?thesis by simp
    qed
  qed
qed simp

lemma complete_quiet:
  assumes "whole t" "bs_failed (tu_stream t) \<longrightarrow> bs_failed (f (tu_stream t))"
    and "bs_failed (f (tu_stream t)) \<or> bs_pushed (f (tu_stream t)) = bs_pushed (tu_stream t) \<and> closed (f (tu_stream t)) = closed (tu_stream t)"
  shows "whole (on_stream f t)"
  using assms by (cases "tu_accepted t") (auto simp: whole_def)

lemma complete_fail: "whole t \<Longrightarrow> whole (on_stream (fail e) t)"
proof (cases "closed (tu_stream t)")
  case True
  assume "whole t"
  with True show ?thesis by (simp add: on_stream_def buffered.closed_fail)
qed (simp add: whole_def failed_fail)

lemma complete_deliver:
  assumes "whole t"
  shows "whole (deliver e (t\<lparr>tu_heard := tu_heard t @ [e]\<rparr>))"
proof (cases "closed (tu_stream t)")
  case True
  with assms show ?thesis
    by (auto simp: whole_def deliver_def owed_def through_append split: option.splits)
next
  case opened: False
  show ?thesis
  proof (cases "tu_accepted t")
    case None
    with opened assms show ?thesis
      by (auto simp: whole_def deliver_def Let_def on_env_def failed_fail closed_def)
  next
    case (Some a)
    let ?t = "t\<lparr>tu_heard := tu_heard t @ [e]\<rparr>"
    have d: "deliver e ?t = on_stream (fold (forward a) [e]) ?t" using Some by (simp add: deliver_accepted)
    show ?thesis
    proof (cases "bs_failed (fold (forward a) [e] (tu_stream t))")
      case True
      then show ?thesis unfolding d by (simp add: whole_def)
    next
      case False
      then have "\<not> bs_failed (tu_stream t)" using failed_forward by auto
      with assms opened Some have "bs_pushed (tu_stream t) = owed a (tu_heard t)"
          "\<forall>x \<in> set (tu_heard t). \<not> (for_turn a x \<and> isTerminalEvent x)"
        by (auto simp: whole_def)
      moreover from this(2) have "owed a (tu_heard t @ [e]) =
          owed a (tu_heard t) @ map Event (through isTerminalEvent (filter (for_turn a) [e]))"
        by (auto simp: owed_def through_append through_id)
      ultimately show ?thesis
        unfolding d using forward_all_complete [OF opened False] Some False
        by (auto simp: whole_def simp del: fold_simps)
    qed
  qed
qed

lemma complete_replied:
  assumes "whole t" "turn_inv t" "tu_phase t = Requesting"
  shows "whole (replied r t)"
proof (cases r)
  case (Inl e)
  with assms(1) show ?thesis by (simp add: replied_def whole_def split: option.splits)
next
  case (Inr a)
  note inv = turn_invD [OF assms(2)]
  have none: "tu_accepted t = None" using inv(5) assms(3) by (simp add: calls_ok_in_def calls_shape_def)
  show ?thesis
  proof (cases "closed (tu_stream t)")
    case True
    then have "bs_failed (tu_stream t)" using assms(1) none by (simp add: whole_def)
    with True Inr show ?thesis by (simp add: replied_def whole_def)
  next
    case opened: False
    let ?s = "push frame_size (Accepted a) (tu_stream t)"
    let ?u = "?s\<lparr>bs_env := (bs_env ?s)\<lparr>te_pending := []\<rparr>\<rparr>"
    let ?v = "fold (forward a) (te_pending (bs_env ?s)) ?u"
    have r: "tu_stream (replied r t) = ?v" "tu_accepted (replied r t) = Some a" "tu_heard (replied r t) = tu_heard t"
      using Inr opened by (simp_all add: replied_def Let_def deliver_all_accepted on_env_def)
    show ?thesis
    proof (cases "bs_failed ?v")
      case False
      have keep: "bs_failed s \<Longrightarrow> bs_failed (fold (forward a) es s)" for es s
        by (induction es arbitrary: s) (simp_all add: failed_forward)
      have "\<not> closed ?s"
        using push_lost [OF opened, of frame_size "Accepted a"] keep [of ?u] False by auto
      then have o: "\<not> closed ?u" and p: "bs_pushed ?u = [Accepted a]"
        using buffered.push_out [OF opened, of frame_size "Accepted a"] inv(3) none
        by (simp_all add: closed_def frames_ok_def)
      have "te_pending (bs_env ?s) = tu_heard t"
        using follows_open [OF follows_ops(1) \<open>\<not> closed ?s\<close>] inv(3) none opened by (simp add: frames_ok_def)
      with forward_all_complete [OF o False] p r show ?thesis
        by (auto simp: whole_def owed_def)
    qed (simp add: whole_def r)
  qed
qed

lemma complete_fields:
  assumes "whole t" "bs_failed (tu_stream t') = bs_failed (tu_stream t)" "bs_pushed (tu_stream t') = bs_pushed (tu_stream t)"
    and "closed (tu_stream t') = closed (tu_stream t)" "tu_accepted t' = tu_accepted t" "tu_heard t' = tu_heard t"
  shows "whole t'"
  using assms(1) unfolding whole_def assms(2-6) .

lemma complete_step:
  assumes "whole t" "turn_inv t" "i \<noteq> Abandon"
  shows "whole (turn_step i t)"
proof (cases i)
  case (Resolved r)
  then show ?thesis
    by (auto intro!: complete_fields [OF assms(1)] simp: resolved_def enter_subscribe_def split: sum.splits)
next
  case (Subscribed r)
  then show ?thesis
    by (auto intro!: complete_fields [OF assms(1)] simp: subscribed_def Let_def on_env_def closed_def split: sum.splits)
next
  case (Replied r)
  then show ?thesis using complete_replied [OF assms(1,2)] assms(1) by simp
next
  case CatchHandler
  have "whole ((on_stream (fail e) t)\<lparr>tu_phase := Settled\<rparr>)" for e
    by (rule complete_fields [OF complete_fail [OF assms(1), of e]]) simp_all
  then show ?thesis using CatchHandler assms(1) by (auto split: phase.splits)
next
  case (Heard e)
  then show ?thesis using complete_deliver assms(1) by simp
next
  case (SourceError e)
  then show ?thesis using complete_fail assms(1) by simp
next
  case Consume
  have "whole (on_stream next_item t)"
    by (rule complete_quiet [OF assms(1)]) (auto simp: closed_def)
  then show ?thesis using Consume by simp
qed (use assms(3) in simp)

lemma complete_run: "whole t \<Longrightarrow> turn_inv t \<Longrightarrow> Abandon \<notin> set inputs \<Longrightarrow> whole (turn_run inputs t)"
  unfolding turn_run_def by (induction inputs arbitrary: t) (auto simp: complete_step turn_inv_step)

lemma complete_created: "createTurnStream meth params limit = Inr t \<Longrightarrow> whole t"
  by (auto simp: createTurnStream_def whole_def start_body_def enter_subscribe_def new_stream_def closed_def
      split: sum.splits if_splits json.splits)

section \<open>Properties\<close>

text \<open>
  What the consumer of a turn stream receives is an initial part of: the acceptance, then the
  accepted turn's events that the listener was called with, in order, up to the first terminal
  one. Events heard before the acceptance are included, those of other turns are not.
\<close>

theorem turn_frames_sound:
  assumes "createTurnStream meth params limit = Inr t0" "t = turn_run inputs t0"
  shows "case tu_accepted t of
       None \<Rightarrow> items (tu_stream t) = []
     | Some a \<Rightarrow> prefix (map snd (items (tu_stream t)))
         (Accepted a # map Event (through isTerminalEvent (filter (for_turn a) (tu_heard t))))"
proof -
  have inv: "turn_inv t" using turn_inv_run [OF turn_inv_created [OF assms(1)]] assms(2) by simp
  then have "prefix (map snd (items (tu_stream t))) (bs_pushed (tu_stream t))"
    by (auto simp: turn_inv_def stream_inv_def order_ok_def)
  with turn_invD(3) [OF inv] show ?thesis
    by (auto simp: frames_ok_def owed_def split: option.splits intro: prefix_order.trans)
qed

text \<open>
  C30. A turn stream is finite and complete: unless it fails or the consumer abandons it, the
  frames it has taken over are exactly the acceptance and the turn's events up to the terminal
  one, and it is closed exactly when the terminal event has been heard.
\<close>

theorem turn_frames_complete:
  assumes "createTurnStream meth params limit = Inr t0" "t = turn_run inputs t0" "Abandon \<notin> set inputs"
    and "\<not> bs_failed (tu_stream t)"
  shows "case tu_accepted t of
       None \<Rightarrow> \<not> closed (tu_stream t)
     | Some a \<Rightarrow>
         bs_pushed (tu_stream t) =
           Accepted a # map Event (through isTerminalEvent (filter (for_turn a) (tu_heard t))) \<and>
         closed (tu_stream t) = (\<exists>e \<in> set (tu_heard t). for_turn a e \<and> isTerminalEvent e)"
  using complete_run [OF complete_created [OF assms(1)] turn_inv_created [OF assms(1)] assms(3)] assms(2,4)
  by (simp add: whole_def owed_def split: option.splits)

text \<open>
  The turn is admitted after the subscription, and once: when the request has been made the
  subscription was set up before, it was the only one, and no call follows the request.
\<close>

theorem request_after_subscription:
  assumes "createTurnStream meth params limit = Inr t0" "t = turn_run inputs t0"
    and "CRequest m input \<in> set (tu_calls t)"
  shows "te_dispose (bs_env (tu_stream t)) \<noteq> None \<and> length (subscriptions (tu_calls t)) = 1 \<and>
     requests (tu_calls t) = [CRequest m input] \<and> last (tu_calls t) = CRequest m input"
proof -
  have "calls_ok_in t" using turn_inv_run [OF turn_inv_created [OF assms(1)]] assms(2) turn_invD(5) by simp
  moreover have r: "CRequest m input \<in> set (requests (tu_calls t))" using assms(3) by (simp add: requests_def)
  ultimately have "length (requests (tu_calls t)) = 1 \<and> last (tu_calls t) = hd (requests (tu_calls t)) \<and>
      length (subscriptions (tu_calls t)) = 1 \<and> te_dispose (bs_env (tu_stream t)) \<noteq> None"
    by (cases "tu_phase t") (auto simp: calls_ok_in_def calls_shape_def)
  with r show ?thesis by (cases "requests (tu_calls t)") auto
qed

text \<open>
  Closing the stream never leaks the subscription: once it is closed, the dispose function is
  called exactly once, even when it becomes known only after the closing; before, it is not called.
\<close>

theorem dispose_called_once:
  assumes "createTurnStream meth params limit = Inr t0" "t = turn_run inputs t0"
  shows "te_disposed (bs_env (tu_stream t)) =
      (if closed (tu_stream t) \<and> te_dispose (bs_env (tu_stream t)) \<noteq> None then 1 else 0) \<and>
    te_aborted (bs_env (tu_stream t)) = closed (tu_stream t)"
  using turn_inv_run [OF turn_inv_created [OF assms(1)]] assms(2) by (simp add: turn_inv_def dispose_ok_def Let_def)

text \<open>
  Once the stream is closed no turn is admitted through it: no input makes the request any more.
\<close>

theorem closed_stream_admits_nothing:
  assumes "closed (tu_stream t)"
  shows "requests (tu_calls (turn_step i t)) = requests (tu_calls t)"
proof -
  have d: "tu_calls (fold deliver es u) = tu_calls u" for es u
    by (induction es arbitrary: u) simp_all
  show ?thesis
    using assms
    by (cases i) (auto simp: resolved_def enter_subscribe_def subscribed_def Let_def on_env_def closed_def
      replied_def d split: sum.splits phase.splits)
qed

section \<open>Witnesses\<close>

definition sample_turn_event :: "event_type \<Rightarrow> string \<Rightarrow> daemon_event" where
  "sample_turn_event type turnId = \<lparr>ev_eventId = ''e'', ev_type = type, ev_timestamp = ''now'',
     ev_threadId = Some ''t'', ev_turnId = Some turnId, ev_workerId = None, ev_payload = JObj []\<rparr>"

definition sample_accepted :: accepted_turn where
  "sample_accepted = \<lparr>ac_threadId = ''t'', ac_turnId = ''turn'', ac_workerId = ''w'', ac_status = ''accepted'',
     ac_disposition = None\<rparr>"

definition sample_inputs :: "input list" where
  "sample_inputs = [Subscribed (Inr (Inr ())), Heard (sample_turn_event TurnStarted ''turn''),
     Heard (sample_turn_event TurnCompleted ''other''), Replied (Inr sample_accepted), Consume,
     Heard (sample_turn_event TurnCompleted ''turn'')]"

text \<open>A limit that the sample's frames respect, whatever their sizes.\<close>

definition sample_limit :: nat where
  "sample_limit = event_size (sample_turn_event TurnStarted ''turn'') + event_size (sample_turn_event TurnCompleted ''other'')
     + frame_size (Accepted sample_accepted) + frame_size (Event (sample_turn_event TurnStarted ''turn''))
     + frame_size (Event (sample_turn_event TurnCompleted ''turn''))"

definition sample_start :: turn where
  "sample_start = projr (createTurnStream ''thread/start'' [] sample_limit)"

lemma sample_start: "createTurnStream ''thread/start'' [] sample_limit = Inr sample_start"
  by (simp add: sample_start_def createTurnStream_def assertTurnMethod_def)

lemma sample_facts:
  "for_turn sample_accepted (sample_turn_event type turnId) \<longleftrightarrow> turnId = ''turn''"
  "\<not> isTerminalEvent (sample_turn_event TurnStarted turnId)" "isTerminalEvent (sample_turn_event TurnCompleted turnId)"
  "\<not> sample_limit < event_size (sample_turn_event TurnStarted ''turn'')"
  "\<not> sample_limit < event_size (sample_turn_event TurnStarted ''turn'') + event_size (sample_turn_event TurnCompleted ''other'')"
  "\<not> sample_limit < frame_size (Accepted sample_accepted)"
  "\<not> sample_limit < frame_size (Accepted sample_accepted) + frame_size (Event (sample_turn_event TurnStarted ''turn''))"
  "\<not> sample_limit < frame_size (Event (sample_turn_event TurnStarted ''turn'')) +
     frame_size (Event (sample_turn_event TurnCompleted ''turn''))"
  by (auto simp: for_turn_def isTerminalEvent_def isTerminalEventType_def sample_turn_event_def sample_accepted_def)
    (simp_all add: sample_limit_def sample_turn_event_def sample_accepted_def)

lemmas turn_eval = subscribed_def replied_def listening_def on_env_def on_stream_def deliver_def
  forward_def push_def finish_def next_item_def settled_now_def settle_def
  answer_def on_close_def call_dispose_def closed_def Let_def

lemma sample_run:
  "let t = turn_run sample_inputs sample_start in
     tu_accepted t = Some sample_accepted \<and> \<not> bs_failed (tu_stream t) \<and> closed (tu_stream t) \<and>
     tu_heard t = [sample_turn_event TurnStarted ''turn'', sample_turn_event TurnCompleted ''other'',
       sample_turn_event TurnCompleted ''turn''] \<and>
     CRequest ''thread/start'' [] \<in> set (tu_calls t) \<and> te_dispose (bs_env (tu_stream t)) = Some (Inr ())"
  by (simp add: sample_start_def createTurnStream_def assertTurnMethod_def start_body_def enter_subscribe_def
      new_stream_def sample_inputs_def turn_run_def turn_eval sample_facts)

definition sample_turn :: turn where
  "sample_turn = turn_run sample_inputs sample_start"

lemmas sample_turn = sample_run [unfolded Let_def, folded sample_turn_def]

theorem turn_frames_sound_witness:
  "prefix (map snd (items (tu_stream sample_turn)))
     [Accepted sample_accepted, Event (sample_turn_event TurnStarted ''turn''), Event (sample_turn_event TurnCompleted ''turn'')]"
  using turn_frames_sound [OF sample_start sample_turn_def] sample_turn by (simp add: sample_facts)

theorem turn_frames_complete_witness:
  "bs_pushed (tu_stream sample_turn) =
     [Accepted sample_accepted, Event (sample_turn_event TurnStarted ''turn''), Event (sample_turn_event TurnCompleted ''turn'')]"
  using turn_frames_complete [OF sample_start sample_turn_def] sample_turn
  by (simp add: sample_facts sample_inputs_def)

theorem request_after_subscription_witness:
  "requests (tu_calls sample_turn) = [CRequest ''thread/start'' []]"
  using request_after_subscription [OF sample_start sample_turn_def] sample_turn by blast

theorem dispose_called_once_witness: "te_disposed (bs_env (tu_stream sample_turn)) = 1"
  using dispose_called_once [OF sample_start sample_turn_def] sample_turn by simp

theorem closed_stream_admits_nothing_witness:
  "requests (tu_calls (turn_step (Subscribed (Inr (Inr ()))) (turn_step Abandon sample_start))) = []"
proof -
  have "requests (tu_calls (turn_step Abandon sample_start)) = []" "closed (tu_stream (turn_step Abandon sample_start))"
    by (simp_all add: sample_start_def createTurnStream_def assertTurnMethod_def start_body_def enter_subscribe_def
        new_stream_def turn_eval close_def)
  then show ?thesis using closed_stream_admits_nothing by metis
qed

end
