(* ===== verification/Async.thy ===== *)
theory Async
  imports Prelude
begin

text \<open>
  Asynchronous operations of a single-threaded program. Between two \<open>await\<close>s an \<open>async\<close>
  function runs alone; at an \<open>await\<close> other code may run before the awaited promise settles.
  An operation is a function of the state and of the \<^emph>\<open>schedule\<close> it meets: for each of its
  \<open>await\<close>s, in order, the steps of other code that run meanwhile and the value the promise
  settles with (\<open>None\<close> when it never settles). The result is either the state in which the
  operation is still suspended or its outcome, a thrown error or a value, with the state and the
  rest of the schedule. The operations of \<open>Worker_Pool\<close> and of the service are written with
  these combinators, so that they read like the source's \<open>async\<close> functions.
\<close>

section \<open>Operations\<close>

type_synonym ('i, 'r) schedule = "('i list \<times> 'r option) list"

datatype ('s, 'i, 'r, 'a) run =
    Waiting 's
  | Finished "'a result" 's "('i, 'r) schedule"

type_synonym ('s, 'i, 'r, 'a) proc = "'s \<Rightarrow> ('i, 'r) schedule \<Rightarrow> ('s, 'i, 'r, 'a) run"

definition ret :: "'a \<Rightarrow> ('s, 'i, 'r, 'a) proc" where
  "ret x s sch = Finished (Inr x) s sch"

definition raise :: "thrown \<Rightarrow> ('s, 'i, 'r, 'a) proc" where
  "raise e s sch = Finished (Inl e) s sch"

text \<open>Sequencing: the next statement runs unless the first one threw.\<close>

definition seq :: "('s, 'i, 'r, 'a) proc \<Rightarrow> ('a \<Rightarrow> ('s, 'i, 'r, 'b) proc) \<Rightarrow> ('s, 'i, 'r, 'b) proc" where
  "seq m f s sch =
     (case m s sch of
        Waiting s' \<Rightarrow> Waiting s'
      | Finished (Inl e) s' sch' \<Rightarrow> Finished (Inl e) s' sch'
      | Finished (Inr x) s' sch' \<Rightarrow> f x s' sch')"

text \<open>\<open>try { m } catch (error) { h }\<close>.\<close>

definition try_catch :: "('s, 'i, 'r, 'a) proc \<Rightarrow> (thrown \<Rightarrow> ('s, 'i, 'r, 'a) proc) \<Rightarrow> ('s, 'i, 'r, 'a) proc" where
  "try_catch m h s sch =
     (case m s sch of
        Waiting s' \<Rightarrow> Waiting s'
      | Finished (Inl e) s' sch' \<Rightarrow> h e s' sch'
      | Finished (Inr x) s' sch' \<Rightarrow> Finished (Inr x) s' sch')"

text \<open>
  \<open>try { m } finally { f }\<close>: an error of the finally block replaces the outcome.
\<close>

definition try_finally :: "('s, 'i, 'r, 'a) proc \<Rightarrow> ('s, 'i, 'r, unit) proc \<Rightarrow> ('s, 'i, 'r, 'a) proc" where
  "try_finally m f s sch =
     (case m s sch of
        Waiting s' \<Rightarrow> Waiting s'
      | Finished r s' sch' \<Rightarrow>
          (case f s' sch' of
             Waiting s'' \<Rightarrow> Waiting s''
           | Finished (Inl e) s'' sch'' \<Rightarrow> Finished (Inl e) s'' sch''
           | Finished (Inr _) s'' sch'' \<Rightarrow> Finished r s'' sch''))"

text \<open>Reading and updating the state, and a synchronous call that may throw.\<close>

definition query :: "('s \<Rightarrow> 'a) \<Rightarrow> ('s, 'i, 'r, 'a) proc" where
  "query f s sch = Finished (Inr (f s)) s sch"

definition update :: "('s \<Rightarrow> 's) \<Rightarrow> ('s, 'i, 'r, unit) proc" where
  "update f s sch = Finished (Inr ()) (f s) sch"

definition call :: "('s \<Rightarrow> 's result) \<Rightarrow> ('s, 'i, 'r, unit) proc" where
  "call f s sch = (case f s of Inl e \<Rightarrow> Finished (Inl e) s sch | Inr s' \<Rightarrow> Finished (Inr ()) s' sch)"

text \<open>Awaiting a promise: other code runs, then the promise settles with a reply.\<close>

definition interfere :: "('i \<Rightarrow> 's \<Rightarrow> 's) \<Rightarrow> 'i list \<Rightarrow> 's \<Rightarrow> 's" where
  "interfere step is s = fold step is s"

fun await :: "('i \<Rightarrow> 's \<Rightarrow> 's) \<Rightarrow> ('s, 'i, 'r, 'r) proc" where
  "await step s [] = Waiting s"
| "await step s ((is, None) # sch) = Waiting (interfere step is s)"
| "await step s ((is, Some r) # sch) = Finished (Inr r) (interfere step is s) sch"

text \<open>Sequencing after a synchronous statement.\<close>

named_theorems async_simps "evaluation of the synchronous statements of an operation"

lemma seq_sync [async_simps]:
  "seq (ret x) f s sch = f x s sch"
  "seq (raise e) m s sch = Finished (Inl e) s sch"
  "seq (query q) k s sch = k (q s) s sch"
  "seq (update g) h s sch = h () (g s) sch"
  "seq (call c) h s sch = (case c s of Inl e \<Rightarrow> Finished (Inl e) s sch | Inr s' \<Rightarrow> h () s' sch)"
  by (simp_all add: seq_def ret_def raise_def query_def update_def call_def split: sum.splits)

lemma sync_statements [async_simps]:
  "ret x s sch = Finished (Inr x) s sch"
  "raise e s sch = Finished (Inl e) s sch"
  "query q s sch = Finished (Inr (q s)) s sch"
  "update g s sch = Finished (Inr ()) (g s) sch"
  by (simp_all add: ret_def raise_def query_def update_def)

lemma try_catch_sync [async_simps]:
  "try_catch (ret x) h s sch = Finished (Inr x) s sch"
  "try_catch (raise e) h s sch = h e s sch"
  by (simp_all add: try_catch_def ret_def raise_def)

lemma seq_assoc: "seq (seq m f) g s sch = seq m (\<lambda>x. seq (f x) g) s sch"
  by (simp add: seq_def split: run.splits sum.splits)

section \<open>Progress through the schedule\<close>

text \<open>Every await takes one entry of the schedule; \<open>takes n m\<close>: finishing, \<open>m\<close> takes at least \<open>n\<close>.\<close>

definition takes :: "nat \<Rightarrow> ('s, 'i, 'r, 'a) proc \<Rightarrow> bool" where
  "takes n m \<longleftrightarrow> (\<forall>s sch x s' sch'. m s sch = Finished (Inr x) s' sch' \<longrightarrow> length sch' + n \<le> length sch)"

definition never_grows :: "('s, 'i, 'r, 'a) proc \<Rightarrow> bool" where
  "never_grows m \<longleftrightarrow> (\<forall>s sch r s' sch'. m s sch = Finished r s' sch' \<longrightarrow> length sch' \<le> length sch)"

lemma await_takes: "await step s sch = Finished r s' sch' \<Longrightarrow> Suc (length sch') \<le> length sch"
  by (cases "(step, s, sch)" rule: await.cases) auto

lemma never_grows_sync [simp]:
  "never_grows (ret x)" "never_grows (raise e)" "never_grows (query q)" "never_grows (update g)" "never_grows (call c)"
  by (auto simp: never_grows_def sync_statements call_def split: sum.splits)

lemma never_grows_await [simp]: "never_grows (await step)"
  by (auto simp: never_grows_def dest: await_takes)

lemma never_grows_seq: "never_grows m \<Longrightarrow> (\<And>x. never_grows (f x)) \<Longrightarrow> never_grows (seq m f)"
  unfolding never_grows_def seq_def by (fastforce split: run.splits sum.splits)

lemma never_grows_try: "never_grows m \<Longrightarrow> (\<And>e. never_grows (h e)) \<Longrightarrow> never_grows (try_catch m h)"
  unfolding never_grows_def try_catch_def by (fastforce split: run.splits sum.splits)

lemma takes_seq:
  assumes "takes n m" "\<And>x. never_grows (f x)"
  shows "takes n (seq m f)"
  unfolding takes_def
proof (intro allI impI)
  fix s sch y s2 sch2
  assume "seq m f s sch = Finished (Inr y) s2 sch2"
  then obtain x s1 sch1 where "m s sch = Finished (Inr x) s1 sch1" "f x s1 sch1 = Finished (Inr y) s2 sch2"
    by (auto simp: seq_def split: run.splits sum.splits)
  with assms show "length sch2 + n \<le> length sch"
    unfolding takes_def never_grows_def by (metis add_le_mono1 order_trans)
qed

lemma takes_after:
  assumes "never_grows m" "\<And>x. takes n (f x)"
  shows "takes n (seq m f)"
  unfolding takes_def
proof (intro allI impI)
  fix s sch y s2 sch2
  assume "seq m f s sch = Finished (Inr y) s2 sch2"
  then obtain x s1 sch1 where "m s sch = Finished (Inr x) s1 sch1" "f x s1 sch1 = Finished (Inr y) s2 sch2"
    by (auto simp: seq_def split: run.splits sum.splits)
  with assms show "length sch2 + n \<le> length sch"
    unfolding takes_def never_grows_def by (meson order_trans)
qed

lemma takes_await: "takes 1 (await step)"
  by (auto simp: takes_def dest: await_takes)

lemma takes_try_raise:
  assumes "takes n m" "\<And>e s sch x s' sch'. h e s sch \<noteq> Finished (Inr x) s' sch'"
  shows "takes n (try_catch m h)"
  using assms unfolding takes_def try_catch_def by (auto split: run.splits sum.splits)

section \<open>Safety of operations\<close>

text \<open>
  \<open>run_ok A I Q r\<close>: where the operation is suspended the invariant \<open>I\<close> holds; where it has
  finished \<open>I\<close> holds and \<open>Q\<close> relates the outcome to the state. \<open>A\<close> is what the operation
  relies on: the steps of other code in the schedule satisfy it.
\<close>

definition sch_ok :: "('i \<Rightarrow> bool) \<Rightarrow> ('i, 'r) schedule \<Rightarrow> bool" where
  "sch_ok A sch \<longleftrightarrow> (\<forall>(is, r) \<in> set sch. \<forall>i \<in> set is. A i)"

fun run_ok :: "('i \<Rightarrow> bool) \<Rightarrow> ('s \<Rightarrow> bool) \<Rightarrow> ('a result \<Rightarrow> 's \<Rightarrow> bool) \<Rightarrow> ('s, 'i, 'r, 'a) run \<Rightarrow> bool" where
  "run_ok A I Q (Waiting s) = I s"
| "run_ok A I Q (Finished r s sch) = (I s \<and> Q r s \<and> sch_ok A sch)"

lemma run_ok_mono:
  "run_ok A I Q r \<Longrightarrow> (\<And>x s. I s \<Longrightarrow> Q x s \<Longrightarrow> Q' x s) \<Longrightarrow> run_ok A I Q' r"
  by (cases r) auto

lemma run_ok_seq:
  assumes "run_ok A I R (m s sch)"
    and "\<And>e s. I s \<Longrightarrow> R (Inl e) s \<Longrightarrow> Q (Inl e) s"
    and "\<And>x s sch. I s \<Longrightarrow> R (Inr x) s \<Longrightarrow> sch_ok A sch \<Longrightarrow> run_ok A I Q (f x s sch)"
  shows "run_ok A I Q (seq m f s sch)"
  using assms by (auto simp: seq_def split: run.splits sum.splits)

lemma run_ok_try:
  assumes "run_ok A I R (m s sch)"
    and "\<And>e s sch. I s \<Longrightarrow> R (Inl e) s \<Longrightarrow> sch_ok A sch \<Longrightarrow> run_ok A I Q (h e s sch)"
    and "\<And>x s. I s \<Longrightarrow> R (Inr x) s \<Longrightarrow> Q (Inr x) s"
  shows "run_ok A I Q (try_catch m h s sch)"
  using assms by (auto simp: try_catch_def split: run.splits sum.splits)

lemma sch_ok_True [simp]: "sch_ok (\<lambda>_. True) sch"
  by (auto simp: sch_ok_def)

section \<open>The interference contract\<close>

text \<open>
  The contract between an operation and the code that runs at its awaits: every step of other
  code that the operation relies on keeps the invariant. Under it an await keeps the invariant,
  and with it whatever else those steps keep.
\<close>

definition keeps :: "('i \<Rightarrow> 's \<Rightarrow> 's) \<Rightarrow> ('i \<Rightarrow> bool) \<Rightarrow> ('s \<Rightarrow> bool) \<Rightarrow> ('s \<Rightarrow> bool) \<Rightarrow> bool" where
  "keeps step A I R \<longleftrightarrow> (\<forall>i s. A i \<longrightarrow> I s \<longrightarrow> R s \<longrightarrow> R (step i s))"

lemma keepsI: "(\<And>i s. A i \<Longrightarrow> I s \<Longrightarrow> R s \<Longrightarrow> R (step i s)) \<Longrightarrow> keeps step A I R"
  by (simp add: keeps_def)

locale interference =
  fixes step :: "'i \<Rightarrow> 's \<Rightarrow> 's" and A :: "'i \<Rightarrow> bool" and I :: "'s \<Rightarrow> bool"
  assumes step_I: "A i \<Longrightarrow> I s \<Longrightarrow> I (step i s)"
begin

lemma interfere_keeps:
  assumes "keeps step A I R" "I s" "R s" "\<forall>i \<in> set is. A i"
  shows "I (interfere step is s) \<and> R (interfere step is s)"
  using assms(2-4) unfolding interfere_def
  by (induction "is" arbitrary: s) (use assms(1) in \<open>auto simp: step_I keeps_def\<close>)

lemma await_ok:
  assumes "keeps step A I R" "I s" "R s" "sch_ok A sch"
  shows "run_ok A I (\<lambda>r s. (\<exists>x. r = Inr x) \<and> R s) (await step s sch)"
  using assms interfere_keeps [OF assms(1-3)]
  by (cases "(step, s, sch)" rule: await.cases) (auto simp: sch_ok_def)

lemma await_seq:
  assumes "keeps step A I R" "I s" "R s" "sch_ok A sch"
    and "\<And>x s sch. I s \<Longrightarrow> R s \<Longrightarrow> sch_ok A sch \<Longrightarrow> run_ok A I Q (f x s sch)"
  shows "run_ok A I Q (seq (await step) f s sch)"
proof (rule run_ok_seq)
  show "run_ok A I (\<lambda>r s. (\<exists>x. r = Inr x) \<and> R s) (await step s sch)" by (rule await_ok [OF assms(1-4)])
qed (use assms(5) in auto)

end

end
