(* ===== verification/Versions.thy ===== *)
theory Versions
  imports Prelude
begin

text \<open>
  The versions of Pi that are supported (\<open>src/version.ts\<close>), which a worker checks before it starts the
  process.
\<close>

definition ident_char :: "char \<Rightarrow> bool" where
  "ident_char c \<longleftrightarrow> is_digit c \<or> c = CHR ''-'' \<or>
     (65 \<le> (of_char c :: nat) \<and> (of_char c :: nat) \<le> 90) \<or> (97 \<le> (of_char c :: nat) \<and> (of_char c :: nat) \<le> 122)"

text \<open>The match of \<open>/^1\.0\.(0|[1-9]\d*)(?:\+[\da-zA-Z-]+(?:\.[\da-zA-Z-]+)*)?$/\<close>.\<close>

definition isSupportedPiVersion :: "string \<Rightarrow> bool" where
  "isSupportedPiVersion version =
     (let v = trim version; rest = drop 4 v;
          patch = takeWhile (\<lambda>c. c \<noteq> CHR ''+'') rest; build = dropWhile (\<lambda>c. c \<noteq> CHR ''+'') rest in
      starts_with ''1.0.'' v \<and>
      (patch = ''0'' \<or> patch \<noteq> [] \<and> list_all is_digit patch \<and> hd patch \<noteq> CHR ''0'') \<and>
      (build = [] \<or> list_all (\<lambda>p. p \<noteq> [] \<and> list_all ident_char p) (split_on (CHR ''.'') (tl build))))"

end
