(* ===== verification/Worker_Pool.thy ===== *)
theory Worker_Pool
  imports Async Protocol Versions
begin

text \<open>
  The worker pool of \<open>src/worker/worker-pool.ts\<close>. A worker is named by its \<open>workerId\<close>; the pool
  makes every id once, so an id stands for the object. \<open>po_workers\<close> lists the keys of the map
  \<open>workers\<close> in insertion order and \<open>po_objs\<close> holds the objects, which live on after they leave the
  map. The methods of \<open>PooledWorker\<close> are those of \<open>PiRpcWorker\<close>, as far as they touch the fields
  the pool reads. \<open>po_clock\<close> is the time, \<open>po_log\<close> the events emitted on the bus, in order;
  \<open>po_sent\<close> records the commands sent and \<open>po_retired\<close> the workers retired, with their quiescence
  and the size of the pool at that moment (the source has no such fields).

  The asynchronous methods are operations of \<open>Async\<close>. The steps of other code that may run at
  their awaits are the datatype \<open>istep\<close>: what the service, the worker processes and the timers do
  to the pool and its workers. The pool serialises its own asynchronous methods
  (\<open>withLifecycle\<close>), so none of them is among those steps.
\<close>

section \<open>State\<close>

datatype worker_state = Starting | Idle | Assigned | Running | Crashed | Stopped

record worker =
  w_cwd :: string
  w_startedAt :: nat
  w_version :: "string option"
  w_state :: worker_state
  w_threadId :: "string option"
  w_activeTurnId :: "string option"
  w_abortingTurnId :: "string option"
  w_lastUsedAt :: nat
  w_pid :: "nat option"
  w_child :: bool
  w_pending :: nat

record pool_options =
  op_minWorkers :: nat
  op_maxWorkers :: nat
  op_idleTtlMs :: nat
  op_reuseAcrossThreads :: "bool option"
  op_prewarmCwd :: string
  op_reapIntervalMs :: "nat option"

record settled_outcome =
  so_turnId :: "string option"
  so_piEvent :: json
  so_failure :: "(string \<times> json) list option"

record pool =
  po_options :: pool_options
  po_canReclaim :: "(worker \<Rightarrow> bool) option"
  po_objs :: "string \<Rightarrow> worker"
  po_workers :: "string list"
  po_reaper :: "nat option"
  po_nextWorkerId :: nat
  po_stopped :: bool
  po_recoveryTimer :: bool
  po_recoveryDelayMs :: nat
  po_reservations :: "string \<Rightarrow> nat"
  po_claimed :: "string set"
  po_retiring :: "string set"
  po_outcomes :: "string \<Rightarrow> settled_outcome option"
  po_clock :: nat
  po_log :: "draft list"
  po_sent :: "(string \<times> json) list"
  po_retired :: "(string \<times> bool \<times> nat) list"

definition no_worker :: worker where
  "no_worker = \<lparr>w_cwd = [], w_startedAt = 0, w_version = None, w_state = Starting, w_threadId = None,
     w_activeTurnId = None, w_abortingTurnId = None, w_lastUsedAt = 0, w_pid = None, w_child = False, w_pending = 0\<rparr>"

definition new_pool :: "pool_options \<Rightarrow> (worker \<Rightarrow> bool) option \<Rightarrow> nat \<Rightarrow> pool" where
  "new_pool opts canReclaim now = \<lparr>po_options = opts, po_canReclaim = canReclaim, po_objs = (\<lambda>_. no_worker),
     po_workers = [], po_reaper = None, po_nextWorkerId = 1, po_stopped = False, po_recoveryTimer = False,
     po_recoveryDelayMs = 1000, po_reservations = (\<lambda>_. 0), po_claimed = {}, po_retiring = {},
     po_outcomes = (\<lambda>_. None), po_clock = now, po_log = [], po_sent = [], po_retired = []\<rparr>"

abbreviation obj :: "pool \<Rightarrow> string \<Rightarrow> worker" where
  "obj p w \<equiv> po_objs p w"

definition set_obj :: "string \<Rightarrow> (worker \<Rightarrow> worker) \<Rightarrow> pool \<Rightarrow> pool" where
  "set_obj w f p = p\<lparr>po_objs := (po_objs p)(w := f (po_objs p w))\<rparr>"

definition emit_event :: "draft \<Rightarrow> pool \<Rightarrow> pool" where
  "emit_event d p = p\<lparr>po_log := po_log p @ [d]\<rparr>"

definition draft_of :: "event_type \<Rightarrow> string option \<Rightarrow> string option \<Rightarrow> string option \<Rightarrow> json \<Rightarrow> draft" where
  "draft_of type workerId threadId turnId payload = \<lparr>dr_type = type, dr_threadId = threadId, dr_turnId = turnId,
     dr_workerId = workerId, dr_payload = payload, dr_timestamp = None\<rparr>"

section \<open>Synchronous methods\<close>

definition isUnavailableWorker :: "worker \<Rightarrow> bool" where
  "isUnavailableWorker w \<longleftrightarrow> w_state w = Crashed \<or> w_state w = Stopped"

definition read_worker :: "string \<Rightarrow> pool \<Rightarrow> string result" where
  "read_worker w p =
     (if w \<in> set (po_workers p) then Inr w
      else Inl (DaemonError NotFound ''Worker not found'' (Some [(''workerId'', JStr w)])))"

definition findByThread :: "string \<Rightarrow> pool \<Rightarrow> string option" where
  "findByThread threadId p =
     List.find (\<lambda>w. w_threadId (obj p w) = Some threadId \<and> w \<notin> po_retiring p \<and> \<not> isUnavailableWorker (obj p w))
       (po_workers p)"

definition isQuiescent :: "pool \<Rightarrow> string \<Rightarrow> bool" where
  "isQuiescent p w \<longleftrightarrow>
     (w_state (obj p w) = Idle \<or> w_state (obj p w) = Assigned) \<and>
     \<not> truthy (w_activeTurnId (obj p w)) \<and> \<not> truthy (w_abortingTurnId (obj p w)) \<and>
     w \<notin> po_retiring p \<and> po_reservations p w = 0 \<and> w_pending (obj p w) = 0"

definition isReclaimable :: "pool \<Rightarrow> string \<Rightarrow> bool" where
  "isReclaimable p w \<longleftrightarrow>
     isQuiescent p w \<and>
     (\<not> truthy (w_threadId (obj p w)) \<or>
      (case po_canReclaim p of None \<Rightarrow> True | Some canReclaim \<Rightarrow> canReclaim (obj p w)))"

definition pool_stopped :: thrown where
  "pool_stopped = DaemonError WorkerCrashed ''Worker pool is stopped'' None"

definition assertRunning :: "pool \<Rightarrow> pool result" where
  "assertRunning p = (if po_stopped p then Inl pool_stopped else Inr p)"

definition retain :: "string \<Rightarrow> pool \<Rightarrow> pool result" where
  "retain w p =
     (case assertRunning p of
        Inl e \<Rightarrow> Inl e
      | Inr _ \<Rightarrow>
          if w \<notin> set (po_workers p) \<or> w \<in> po_retiring p \<or> isUnavailableWorker (obj p w)
          then Inl (DaemonError WorkerCrashed ''Worker is no longer available'' (Some [(''workerId'', JStr w)]))
          else Inr (p\<lparr>po_reservations := (po_reservations p)(w := po_reservations p w + 1)\<rparr>))"

definition release :: "string \<Rightarrow> string option \<Rightarrow> pool \<Rightarrow> pool" where
  "release w threadId p =
     (let remaining = po_reservations p w - 1;
          p1 = p\<lparr>po_reservations := (po_reservations p)(w := remaining)\<rparr>
      in if isUnavailableWorker (obj p1 w) \<or> w \<in> po_retiring p1 then p1
         else
           (let p2 = set_obj w (\<lambda>u. u\<lparr>w_lastUsedAt := po_clock p1\<rparr>) p1 in
            if remaining > 0 \<or> truthy (w_activeTurnId (obj p2 w)) then p2
            else
              (let p3 = set_obj w (\<lambda>u. u\<lparr>w_state := (if truthy (w_threadId u) then Assigned else Idle)\<rparr>) p2 in
               emit_event (draft_of WorkerIdle (Some w) (orElse threadId (w_threadId (obj p3 w))) None
                 (JObj [(''cwd'', JStr (w_cwd (obj p3 w)))])) p3)))"

definition reserveForAssignment :: "string \<Rightarrow> pool \<Rightarrow> pool result" where
  "reserveForAssignment w p =
     (case retain w p of
        Inl e \<Rightarrow> Inl e
      | Inr p1 \<Rightarrow> Inr (set_obj w (\<lambda>u. u\<lparr>w_threadId := None\<rparr>) (p1\<lparr>po_claimed := insert w (po_claimed p1)\<rparr>)))"

definition min_target :: "pool \<Rightarrow> nat" where
  "min_target p = min (op_minWorkers (po_options p)) (op_maxWorkers (po_options p))"

definition scheduleMinimumRecovery :: "pool \<Rightarrow> pool" where
  "scheduleMinimumRecovery p =
     (if po_stopped p \<or> po_recoveryTimer p \<or> length (po_workers p) \<ge> min_target p then p
      else p\<lparr>po_recoveryTimer := True, po_recoveryDelayMs := min (po_recoveryDelayMs p * 2) 30000\<rparr>)"

definition remove_worker :: "string \<Rightarrow> pool \<Rightarrow> pool" where
  "remove_worker w p = p\<lparr>po_workers := removeAll w (po_workers p)\<rparr>"

section \<open>Events of a worker\<close>

text \<open>\<open>agentFailure\<close>: the properties of the failure object, when a message stopped with an error.\<close>

definition agentFailure :: "json \<Rightarrow> (string \<times> json) list option" where
  "agentFailure raw =
     (let messages = (case jget raw ''messages'' of JArr ms \<Rightarrow> ms | _ \<Rightarrow> []) in
      case List.find (\<lambda>m. jget m ''stopReason'' = JStr ''error'' \<or> jget m ''stopReason'' = JStr ''aborted'')
             (filter record_like messages) of
        None \<Rightarrow> None
      | Some failed \<Rightarrow>
          (let stopReason = jstr_opt (jget failed ''stopReason'');
               message = (case jget failed ''errorMessage'' of
                   JStr m \<Rightarrow> m
                 | _ \<Rightarrow> ''Pi turn ended with stopReason '' @ (case stopReason of Some s \<Rightarrow> s | None \<Rightarrow> ''unknown''))
           in Some [(''errorCode'', JStr ''piRpcError''), (''message'', JStr message), (''stopReason'', jopt stopReason)]))"

text \<open>The Pi events that are passed on with the raw event as their payload.\<close>

definition plain_event :: "string \<Rightarrow> event_type option" where
  "plain_event type =
     (if type = ''auto_retry_start'' then Some RetryScheduled
      else if type = ''queue_update'' then Some QueueUpdated
      else if type = ''auto_retry_end'' then Some RetryCompleted
      else if type = ''compaction_start'' then Some CompactionStarted
      else if type = ''compaction_end'' then Some CompactionCompleted
      else if type = ''extension_ui_request'' then Some ExtensionUiRequested
      else if type = ''extension_error'' then Some ExtensionError
      else if type = ''tool_execution_start'' then Some ToolStarted
      else if type = ''tool_execution_update'' then Some ToolUpdated
      else if type = ''tool_execution_end'' then Some ToolCompleted
      else if type = ''message_start'' \<or> type = ''message_update'' then Some MessageDelta
      else if type = ''message_end'' then Some MessageCompleted
      else None)"

text \<open>The branch for \<open>agent_settled\<close>.\<close>

definition settled_event :: "string \<Rightarrow> json \<Rightarrow> pool \<Rightarrow> draft \<times> pool" where
  "settled_event w raw p =
     (let p1 = set_obj w (\<lambda>u. u\<lparr>w_state := Assigned\<rparr>) p;
          u = obj p1 w;
          outcome = (case po_outcomes p1 w of
              Some pending \<Rightarrow> if so_turnId pending = w_activeTurnId u then Some pending else None
            | None \<Rightarrow> None);
          p2 = p1\<lparr>po_outcomes := (po_outcomes p1)(w := None)\<rparr>
      in if \<not> truthy (w_activeTurnId u)
         then (draft_of ThreadUpdated (Some w) (w_threadId u) None
                 (JObj [(''piEvent'', raw), (''status'', JStr ''idle'')]), p2)
         else if w_abortingTurnId u = w_activeTurnId u
         then (draft_of TurnAborted (Some w) (w_threadId u) (w_activeTurnId u)
                 (JObj [(''piEvent'', raw), (''reason'', JStr ''client''), (''finalState'', JStr ''aborted'')]),
               set_obj w (\<lambda>u. u\<lparr>w_abortingTurnId := None\<rparr>) p2)
         else
           (case outcome of
              Some done \<Rightarrow>
                (case so_failure done of
                   Some why \<Rightarrow>
                     (draft_of TurnFailed (Some w) (w_threadId u) (w_activeTurnId u)
                        (JObj ([(''piEvent'', so_piEvent done), (''settledPiEvent'', raw), (''status'', JStr ''failed'')] @ why)), p2)
                 | None \<Rightarrow>
                     (draft_of TurnCompleted (Some w) (w_threadId u) (w_activeTurnId u)
                        (JObj [(''piEvent'', raw), (''agentEndPiEvent'', so_piEvent done), (''status'', JStr ''completed'')]), p2))
            | None \<Rightarrow>
                (draft_of TurnCompleted (Some w) (w_threadId u) (w_activeTurnId u)
                   (JObj [(''piEvent'', raw), (''status'', JStr ''completed'')]), p2)))"

definition event_name :: "json \<Rightarrow> string" where
  "event_name raw = (case jget raw ''type'' of JUndefined \<Rightarrow> [] | JNull \<Rightarrow> [] | v \<Rightarrow> js_string v)"

definition mapWorkerEvent :: "string \<Rightarrow> json \<Rightarrow> pool \<Rightarrow> draft \<times> pool" where
  "mapWorkerEvent w raw p =
     (let type = event_name raw; u = obj p w;
          draft = (\<lambda>t payload. draft_of t (Some w) (w_threadId u) (w_activeTurnId u) payload)
      in if type = ''agent_start''
         then (draft TurnStarted (JObj [(''piEvent'', raw), (''piRunId'', jget raw ''id'')]),
               set_obj w (\<lambda>u. u\<lparr>w_state := Running\<rparr>) p)
         else if type = ''turn_start'' then (draft RunStepStarted (JObj [(''piEvent'', raw)]), p)
         else if type = ''turn_end'' then (draft RunStepCompleted (JObj [(''piEvent'', raw)]), p)
         else if type = ''agent_end''
         then (draft ThreadUpdated (JObj [(''piEvent'', raw),
                 (''status'', JStr (if jget raw ''willRetry'' = JBool True then ''retrying'' else ''settling''))]),
               p\<lparr>po_outcomes := (po_outcomes p)(w := Some \<lparr>so_turnId = w_activeTurnId u, so_piEvent = raw,
                  so_failure = agentFailure raw\<rparr>)\<rparr>)
         else if type = ''agent_settled'' then settled_event w raw p
         else (case plain_event type of
                 Some t \<Rightarrow> (draft t raw, p)
               | None \<Rightarrow> (draft ThreadUpdated (JObj [(''piEvent'', raw)]), p)))"

text \<open>The listener for \<open>event\<close> that \<open>spawn\<close> installs.\<close>

definition on_event :: "string \<Rightarrow> json \<Rightarrow> pool \<Rightarrow> pool" where
  "on_event w raw p = (let (d, p1) = mapWorkerEvent w raw p in emit_event d p1)"

text \<open>\<open>{ pid: worker.pid, ...event }\<close>.\<close>

definition crash_payload :: "worker \<Rightarrow> (string \<times> json) list \<Rightarrow> json" where
  "crash_payload u kvs =
     JObj (fold (\<lambda>(k, v). jset k v) kvs [(''pid'', case w_pid u of Some n \<Rightarrow> JNum (int n) | None \<Rightarrow> JUndefined)])"

text \<open>The listener for \<open>exit\<close> that \<open>spawn\<close> installs.\<close>

definition on_exit :: "string \<Rightarrow> (string \<times> json) list \<Rightarrow> pool \<Rightarrow> pool" where
  "on_exit w event p =
     (if w_state (obj p w) \<noteq> Crashed then p
      else
        (let turnId = w_activeTurnId (obj p w);
             p1 = set_obj w (\<lambda>u. u\<lparr>w_activeTurnId := None\<rparr>) (remove_worker w p);
             p2 = emit_event (draft_of WorkerCrashedEvent (Some w) (w_threadId (obj p1 w)) turnId
                    (crash_payload (obj p1 w) event)) p1;
             p3 = (if truthy turnId
                   then emit_event (draft_of TurnFailed (Some w) (w_threadId (obj p2 w)) turnId
                          (JObj [(''errorCode'', JStr ''workerCrashed''), (''message'', JStr ''Pi RPC worker exited'')])) p2
                   else p2);
             p4 = (if po_clock p3 - w_startedAt (obj p3 w) \<ge> 60000 then p3\<lparr>po_recoveryDelayMs := 1000\<rparr> else p3)
         in scheduleMinimumRecovery p4))"

text \<open>The child process closes: \<open>PiRpcWorker\<close> sets its state and emits \<open>exit\<close>.\<close>

definition child_closed :: "string \<Rightarrow> (string \<times> json) list \<Rightarrow> pool \<Rightarrow> pool" where
  "child_closed w event p =
     on_exit w event (set_obj w (\<lambda>u. u\<lparr>w_state := (if w_state u = Stopped then Stopped else Crashed)\<rparr>) p)"

section \<open>Asynchronous methods\<close>

text \<open>
  What other code may do while a method of the pool is suspended: the calls and field writes of
  the service, the events and the exit of a worker process, a command's end or timeout, the
  recovery timer, \<open>stopAll\<close> (its part before the first await), and the passing of time.
\<close>

datatype istep =
    SRetain string
  | SRelease string "string option"
  | SThread string "string option"
  | SActive string "string option"
  | SAborting string "string option"
  | SRunning string
  | SEvent string json
  | SChild string nat
  | SExit string "(string \<times> json) list"
  | SSend string json
  | SReplied string
  | STimedOut string
  | SCanReclaim "worker \<Rightarrow> bool"
  | STimer
  | SStop
  | STick nat

datatype reply = ROk | RError thrown | RVersion string | RData json

type_synonym 'a op = "(pool, istep, reply, 'a) proc"

definition stop_requested :: "pool \<Rightarrow> pool" where
  "stop_requested p = p\<lparr>po_stopped := True, po_reaper := None, po_recoveryTimer := False\<rparr>"

definition send_command :: "string \<Rightarrow> json \<Rightarrow> pool \<Rightarrow> pool" where
  "send_command w cmd p =
     set_obj w (\<lambda>u. u\<lparr>w_pending := w_pending u + 1\<rparr>) (p\<lparr>po_sent := po_sent p @ [(w, cmd)]\<rparr>)"

definition command_done :: "string \<Rightarrow> pool \<Rightarrow> pool" where
  "command_done w p = set_obj w (\<lambda>u. u\<lparr>w_pending := w_pending u - 1, w_lastUsedAt := po_clock p\<rparr>) p"

fun run_istep :: "istep \<Rightarrow> pool \<Rightarrow> pool" where
  "run_istep (SRetain w) p = (case retain w p of Inl _ \<Rightarrow> p | Inr p1 \<Rightarrow> p1)"
| "run_istep (SRelease w t) p = release w t p"
| "run_istep (SThread w t) p = set_obj w (\<lambda>u. u\<lparr>w_threadId := t\<rparr>) p"
| "run_istep (SActive w t) p = set_obj w (\<lambda>u. u\<lparr>w_activeTurnId := t\<rparr>) p"
| "run_istep (SAborting w t) p = set_obj w (\<lambda>u. u\<lparr>w_abortingTurnId := t\<rparr>) p"
| "run_istep (SRunning w) p = set_obj w (\<lambda>u. u\<lparr>w_state := Running\<rparr>) p"
| "run_istep (SEvent w raw) p = on_event w raw p"
| "run_istep (SChild w n) p = set_obj w (\<lambda>u. u\<lparr>w_child := True, w_pid := Some n\<rparr>) p"
| "run_istep (SExit w event) p = child_closed w event p"
| "run_istep (SSend w cmd) p = send_command w cmd p"
| "run_istep (SReplied w) p = command_done w p"
| "run_istep (STimedOut w) p = set_obj w (\<lambda>u. u\<lparr>w_state := Crashed\<rparr>) p"
| "run_istep (SCanReclaim f) p = p\<lparr>po_canReclaim := Some f\<rparr>"
| "run_istep STimer p = p\<lparr>po_recoveryTimer := False\<rparr>"
| "run_istep SStop p = stop_requested p"
| "run_istep (STick n) p = p\<lparr>po_clock := po_clock p + n\<rparr>"

text \<open>\<open>worker.stop()\<close>, \<open>worker.start()\<close>, \<open>worker.command(...)\<close> and \<open>worker.getState()\<close>.\<close>

definition stop_sync :: "string \<Rightarrow> pool \<Rightarrow> pool" where
  "stop_sync w = set_obj w (\<lambda>u. if w_child u \<and> w_state u \<noteq> Stopped then u\<lparr>w_state := Stopped\<rparr> else u)"

definition settled :: "reply \<Rightarrow> unit op" where
  "settled r = (case r of RError e \<Rightarrow> raise e | _ \<Rightarrow> ret ())"

definition stop_worker :: "string \<Rightarrow> unit op" where
  "stop_worker w = seq (update (stop_sync w)) (\<lambda>_. seq (await run_istep) settled)"

text \<open>
  \<open>start\<close> of the worker: the version is probed, then the process is spawned; both are awaited. The
  statements after the awaits are named, since the process of theory \<open>Pi_Worker\<close> does the same.
\<close>

definition version_of :: "reply \<Rightarrow> string" where
  "version_of r = (case r of RVersion v \<Rightarrow> v | _ \<Rightarrow> [])"

definition unsupported_version :: "string \<Rightarrow> thrown" where
  "unsupported_version v = DaemonError PiRpcError ''Unsupported pi version''
     (Some [(''version'', JStr v), (''supported'', JStr ''1.0.x'')])"

definition version_probed :: "string \<Rightarrow> string \<Rightarrow> pool \<Rightarrow> pool" where
  "version_probed w v = set_obj w (\<lambda>u. u\<lparr>w_version := Some v\<rparr>)"

definition child_created :: "string \<Rightarrow> pool \<Rightarrow> pool" where
  "child_created w = set_obj w (\<lambda>u. u\<lparr>w_child := True\<rparr>)"

definition child_spawned :: "string \<Rightarrow> pool \<Rightarrow> pool" where
  "child_spawned w = set_obj w (\<lambda>u. u\<lparr>w_state := Idle\<rparr>)"

definition await_spawn :: "string \<Rightarrow> unit op" where
  "await_spawn w =
     seq (update (child_created w)) (\<lambda>_.
     seq (await run_istep) (\<lambda>r.
       case r of RError e \<Rightarrow> raise e | _ \<Rightarrow> update (child_spawned w)))"

definition start_worker :: "string \<Rightarrow> unit op" where
  "start_worker w =
     seq (await run_istep) (\<lambda>r.
       case r of
         RError e \<Rightarrow> raise e
       | _ \<Rightarrow>
           seq (update (version_probed w (version_of r))) (\<lambda>_.
             if \<not> isSupportedPiVersion (version_of r) then raise (unsupported_version (version_of r))
             else await_spawn w))"

definition run_command :: "string \<Rightarrow> json \<Rightarrow> json op" where
  "run_command w cmd =
     seq (update (send_command w cmd)) (\<lambda>_.
     seq (await run_istep) (\<lambda>r.
     seq (update (command_done w)) (\<lambda>_.
       case r of RError e \<Rightarrow> raise e | RData data \<Rightarrow> ret data | _ \<Rightarrow> ret JUndefined)))"

definition get_state :: "string \<Rightarrow> json op" where
  "get_state w =
     seq (run_command w (JObj [(''type'', JStr ''get_state'')]))
       (\<lambda>data. ret (case data of JUndefined \<Rightarrow> JObj [] | JNull \<Rightarrow> JObj [] | v \<Rightarrow> v))"

definition assertNotCancelled :: "json \<Rightarrow> string \<Rightarrow> unit op" where
  "assertNotCancelled data cmd =
     (if record_like data \<and> jget data ''cancelled'' = JBool True
      then raise (DaemonError PiRpcError ''Pi RPC command was cancelled'' (Some [(''command'', JStr cmd)]))
      else ret ())"

definition note_retired :: "string \<Rightarrow> pool \<Rightarrow> pool" where
  "note_retired w p = p\<lparr>po_retired := po_retired p @ [(w, isQuiescent p w, length (po_workers p))]\<rparr>"

definition retire :: "string \<Rightarrow> unit op" where
  "retire w =
     seq (update (\<lambda>p. (note_retired w p)\<lparr>po_retiring := insert w (po_retiring p)\<rparr>)) (\<lambda>_.
     seq (stop_worker w) (\<lambda>_.
       update (remove_worker w)))"

definition worker_id :: "nat \<Rightarrow> string" where
  "worker_id n = ''worker_'' @ dec n"

text \<open>The creation of a worker and its entry into the map.\<close>

definition create_worker :: "string \<Rightarrow> pool \<Rightarrow> pool" where
  "create_worker cwd p =
     (let w = worker_id (po_nextWorkerId p) in
      p\<lparr>po_nextWorkerId := po_nextWorkerId p + 1,
        po_objs := (po_objs p)(w := no_worker\<lparr>w_cwd := cwd, w_startedAt := po_clock p, w_lastUsedAt := po_clock p\<rparr>),
        po_workers := po_workers p @ [w]\<rparr>)"

definition capacity_error :: "pool \<Rightarrow> thrown" where
  "capacity_error p = DaemonError Capacity ''Worker capacity reached''
     (Some [(''maxWorkers'', JNum (int (op_maxWorkers (po_options p))))])"

definition started_event :: "string \<Rightarrow> string \<Rightarrow> pool \<Rightarrow> draft" where
  "started_event w cwd p = draft_of WorkerStarted (Some w) None None
     (JObj [(''pid'', case w_pid (obj p w) of Some n \<Rightarrow> JNum (int n) | None \<Rightarrow> JUndefined),
            (''version'', jopt (w_version (obj p w))), (''cwd'', JStr cwd)])"

definition start_checked :: "string \<Rightarrow> unit op" where
  "start_checked w =
     seq (start_worker w) (\<lambda>_.
     seq (query po_stopped) (\<lambda>stopped.
       if stopped then raise (DaemonError WorkerCrashed ''Worker pool stopped during worker startup'' None)
       else ret ()))"

definition spawn :: "string \<Rightarrow> bool \<Rightarrow> string op" where
  "spawn cwd reserve p sch =
     (if po_stopped p then raise pool_stopped p sch
      else if length (po_workers p) \<ge> op_maxWorkers (po_options p) then raise (capacity_error p) p sch
      else
        (let w = worker_id (po_nextWorkerId p) in
         seq (update (create_worker cwd)) (\<lambda>_.
         seq (if reserve then call (reserveForAssignment w) else ret ()) (\<lambda>_.
         seq (try_catch (start_checked w) (\<lambda>e.
                seq (update (remove_worker w)) (\<lambda>_.
                seq (try_catch (stop_worker w) (\<lambda>_. ret ())) (\<lambda>_.
                  raise e)))) (\<lambda>_.
         seq (update (\<lambda>p. if reserve then set_obj w (\<lambda>u. u\<lparr>w_state := Assigned\<rparr>) p else p)) (\<lambda>_.
         seq (update (\<lambda>p. emit_event (started_event w cwd p) p)) (\<lambda>_.
           ret w))))) p sch))"

definition candidates :: "pool \<Rightarrow> string list" where
  "candidates p = filter (\<lambda>w. isReclaimable p w \<and>
     (op_reuseAcrossThreads (po_options p) \<noteq> Some False \<or> w \<notin> po_claimed p)) (po_workers p)"

text \<open>The least recently used reclaimable worker; the first of several, as \<open>sort\<close> is stable.\<close>

definition victim :: "pool \<Rightarrow> string option" where
  "victim p =
     (case sort_key (\<lambda>w. w_lastUsedAt (obj p w)) (filter (isReclaimable p) (po_workers p)) of
        [] \<Rightarrow> None | w # _ \<Rightarrow> Some w)"

definition spawn_or_recover :: "string \<Rightarrow> string op" where
  "spawn_or_recover cwd =
     try_catch (spawn cwd True) (\<lambda>e. seq (update scheduleMinimumRecovery) (\<lambda>_. raise e))"

definition selectWorker :: "string \<Rightarrow> string op" where
  "selectWorker cwd p sch =
     (case List.find (\<lambda>w. w_cwd (obj p w) = cwd) (candidates p) of
        Some idle \<Rightarrow>
          seq (call (reserveForAssignment idle)) (\<lambda>_.
          seq (update (set_obj idle (\<lambda>u. u\<lparr>w_state := Assigned\<rparr>))) (\<lambda>_.
            ret idle)) p sch
      | None \<Rightarrow>
          if length (po_workers p) \<ge> op_maxWorkers (po_options p)
          then
            (case victim p of
               None \<Rightarrow> raise (capacity_error p) p sch
             | Some w \<Rightarrow> seq (retire w) (\<lambda>_. spawn_or_recover cwd) p sch)
          else spawn_or_recover cwd p sch)"

definition acquireForNew :: "string \<Rightarrow> string op" where
  "acquireForNew cwd = seq (call assertRunning) (\<lambda>_. selectWorker cwd)"

text \<open>The switch of a selected worker to the thread's session, and what a failed switch does.\<close>

definition switch_session :: "string \<Rightarrow> string \<Rightarrow> string \<Rightarrow> unit op" where
  "switch_session threadId sessionPath w =
     seq (run_command w (JObj [(''type'', JStr ''switch_session''), (''sessionPath'', JStr sessionPath)])) (\<lambda>response.
     seq (assertNotCancelled response ''switch_session'') (\<lambda>_.
     seq (get_state w) (\<lambda>state.
       if jget state ''sessionId'' \<noteq> JStr threadId
       then raise (DaemonError PiRpcError ''Pi resumed a different session than requested''
              (Some [(''threadId'', JStr threadId), (''sessionId'', jget state ''sessionId''), (''sessionPath'', JStr sessionPath)]))
       else update (set_obj w (\<lambda>u. u\<lparr>w_threadId := Some threadId\<rparr>)))))"

definition switch_failed :: "string \<Rightarrow> thrown \<Rightarrow> unit op" where
  "switch_failed w e =
     seq (update (release w None)) (\<lambda>_.
     seq (query (\<lambda>p. isUnavailableWorker (obj p w))) (\<lambda>unavailable.
     seq (if unavailable then ret () else seq (retire w) (\<lambda>_. update scheduleMinimumRecovery)) (\<lambda>_.
       raise e)))"

definition switch_worker :: "string \<Rightarrow> string \<Rightarrow> string \<Rightarrow> unit op" where
  "switch_worker threadId sessionPath w = try_catch (switch_session threadId sessionPath w) (switch_failed w)"

definition select_and_switch :: "string \<Rightarrow> string \<Rightarrow> string \<Rightarrow> string op" where
  "select_and_switch threadId cwd sessionPath =
     seq (selectWorker cwd) (\<lambda>w.
     seq (switch_worker threadId sessionPath w) (\<lambda>_.
       ret w))"

definition acquireForSession :: "string \<Rightarrow> string \<Rightarrow> string \<Rightarrow> string op" where
  "acquireForSession threadId cwd sessionPath =
     seq (call assertRunning) (\<lambda>_ p sch.
       case findByThread threadId p of
         None \<Rightarrow> select_and_switch threadId cwd sessionPath p sch
       | Some w \<Rightarrow>
           if \<not> isQuiescent p w
           then raise (DaemonError Busy ''Thread already has an active daemon operation''
                  (Some [(''threadId'', JStr threadId)])) p sch
           else if w_cwd (obj p w) = cwd then seq (call (retain w)) (\<lambda>_. ret w) p sch
           else if \<not> isReclaimable p w
           then raise (DaemonError Capacity
                  ''Thread session is not persisted; cannot replace its worker for another workspace''
                  (Some [(''threadId'', JStr threadId)])) p sch
           else
             seq (retire w) (\<lambda>_.
             seq (update scheduleMinimumRecovery) (\<lambda>_.
               select_and_switch threadId cwd sessionPath)) p sch)"

text \<open>
  The loop of \<open>maintainMinimum\<close>: each turn awaits at least once, so a fuel of one more than the
  length of the schedule suffices (\<open>maintain_fuel\<close>).
\<close>

primrec maintain_loop :: "nat \<Rightarrow> unit op" where
  "maintain_loop 0 p sch = Waiting p"
| "maintain_loop (Suc k) p sch =
     (if \<not> po_stopped p \<and> \<not> po_recoveryTimer p \<and> length (po_workers p) < min_target p
      then seq (spawn (op_prewarmCwd (po_options p)) False) (\<lambda>_. maintain_loop k) p sch
      else ret () p sch)"

definition maintainMinimum :: "unit op" where
  "maintainMinimum p sch = maintain_loop (Suc (length sch)) p sch"

text \<open>What the recovery timer runs.\<close>

definition recover_minimum :: "unit op" where
  "recover_minimum =
     try_catch maintainMinimum (\<lambda>e.
       update (\<lambda>p. scheduleMinimumRecovery
         (emit_event (draft_of WorkerCrashedEvent None None None
            (JObj [(''recoveryFailed'', JBool True), (''message'', JStr (thrown_message e))])) p)))"

primrec reap_loop :: "string list \<Rightarrow> unit op" where
  "reap_loop [] p sch = ret () p sch"
| "reap_loop (w # ws) p sch =
     (if length (po_workers p) \<le> op_minWorkers (po_options p) then ret () p sch
      else if isReclaimable p w then seq (retire w) (\<lambda>_. reap_loop ws) p sch
      else reap_loop ws p sch)"

definition reap_candidates :: "pool \<Rightarrow> string list" where
  "reap_candidates p =
     sort_key (\<lambda>w. w_lastUsedAt (obj p w))
       (filter (\<lambda>w. po_clock p - w_lastUsedAt (obj p w) \<ge> op_idleTtlMs (po_options p))
          (filter (isReclaimable p) (po_workers p)))"

definition reapIdleWorkers :: "unit op" where
  "reapIdleWorkers p sch =
     (if po_stopped p \<or> op_idleTtlMs (po_options p) = 0 then ret () p sch
      else seq (reap_loop (reap_candidates p)) (\<lambda>_. update scheduleMinimumRecovery) p sch)"

definition reap_tick :: "unit op" where
  "reap_tick =
     try_catch reapIdleWorkers (\<lambda>e.
       update (emit_event (draft_of WorkerCrashedEvent None None None (JObj [(''message'', JStr (thrown_message e))]))))"

definition reap_interval :: "pool_options \<Rightarrow> nat" where
  "reap_interval opts =
     (case op_reapIntervalMs opts of Some ms \<Rightarrow> ms | None \<Rightarrow> min (max (op_idleTtlMs opts div 2) 1000) 60000)"

definition start :: "unit op" where
  "start =
     seq (update (\<lambda>p. p\<lparr>po_stopped := False\<rparr>)) (\<lambda>_.
     seq maintainMinimum (\<lambda>_.
       update (\<lambda>p. if op_idleTtlMs (po_options p) > 0 \<or> op_minWorkers (po_options p) > 0
                   then p\<lparr>po_reaper := Some (reap_interval (po_options p))\<rparr> else p)))"

definition stopAll :: "unit op" where
  "stopAll =
     seq (update stop_requested) (\<lambda>_.
     seq (update (\<lambda>p. fold stop_sync (po_workers p) p)) (\<lambda>_.
     seq (await run_istep) (\<lambda>r.
     seq (settled r) (\<lambda>_.
       update (\<lambda>p. p\<lparr>po_workers := []\<rparr>)))))"

end
