(* ===== verification/Worker_Pool_Props.thy ===== *)
theory Worker_Pool_Props
  imports Worker_Pool
begin

text \<open>
  The invariant of the worker pool, that every step of other code and every method keeps it at
  each of its awaits, and what each method guarantees. The contract \<open>interference\<close> is
  interpreted on the steps of the pool and this invariant.
\<close>

section \<open>Which fields an update touches\<close>

named_theorems frame "fields that an update leaves alone"

lemma set_obj_frame [frame, simp]:
  "po_options (set_obj w f p) = po_options p" "po_workers (set_obj w f p) = po_workers p"
  "po_nextWorkerId (set_obj w f p) = po_nextWorkerId p" "po_stopped (set_obj w f p) = po_stopped p"
  "po_recoveryTimer (set_obj w f p) = po_recoveryTimer p" "po_recoveryDelayMs (set_obj w f p) = po_recoveryDelayMs p"
  "po_reservations (set_obj w f p) = po_reservations p" "po_claimed (set_obj w f p) = po_claimed p"
  "po_retiring (set_obj w f p) = po_retiring p" "po_retired (set_obj w f p) = po_retired p"
  "po_canReclaim (set_obj w f p) = po_canReclaim p" "po_clock (set_obj w f p) = po_clock p"
  "po_log (set_obj w f p) = po_log p" "po_outcomes (set_obj w f p) = po_outcomes p" "po_sent (set_obj w f p) = po_sent p"
  "obj (set_obj w f p) v = (if v = w then f (obj p w) else obj p v)"
  by (auto simp: set_obj_def)

lemma emit_event_frame [frame, simp]:
  "po_options (emit_event d p) = po_options p" "po_workers (emit_event d p) = po_workers p"
  "po_nextWorkerId (emit_event d p) = po_nextWorkerId p" "po_stopped (emit_event d p) = po_stopped p"
  "po_recoveryTimer (emit_event d p) = po_recoveryTimer p" "po_recoveryDelayMs (emit_event d p) = po_recoveryDelayMs p"
  "po_reservations (emit_event d p) = po_reservations p" "po_claimed (emit_event d p) = po_claimed p"
  "po_retiring (emit_event d p) = po_retiring p" "po_retired (emit_event d p) = po_retired p"
  "po_canReclaim (emit_event d p) = po_canReclaim p" "po_clock (emit_event d p) = po_clock p"
  "po_objs (emit_event d p) = po_objs p" "po_log (emit_event d p) = po_log p @ [d]" "po_sent (emit_event d p) = po_sent p"
  by (auto simp: emit_event_def)

lemma remove_worker_frame [frame, simp]:
  "po_options (remove_worker w p) = po_options p" "po_workers (remove_worker w p) = removeAll w (po_workers p)"
  "po_nextWorkerId (remove_worker w p) = po_nextWorkerId p" "po_stopped (remove_worker w p) = po_stopped p"
  "po_recoveryTimer (remove_worker w p) = po_recoveryTimer p" "po_recoveryDelayMs (remove_worker w p) = po_recoveryDelayMs p"
  "po_reservations (remove_worker w p) = po_reservations p" "po_claimed (remove_worker w p) = po_claimed p"
  "po_retiring (remove_worker w p) = po_retiring p" "po_retired (remove_worker w p) = po_retired p"
  "po_objs (remove_worker w p) = po_objs p" "po_clock (remove_worker w p) = po_clock p" "po_log (remove_worker w p) = po_log p"
  by (auto simp: remove_worker_def)

lemma scheduleMinimumRecovery_frame [frame, simp]:
  "po_options (scheduleMinimumRecovery p) = po_options p" "po_workers (scheduleMinimumRecovery p) = po_workers p"
  "po_nextWorkerId (scheduleMinimumRecovery p) = po_nextWorkerId p" "po_stopped (scheduleMinimumRecovery p) = po_stopped p"
  "po_reservations (scheduleMinimumRecovery p) = po_reservations p" "po_claimed (scheduleMinimumRecovery p) = po_claimed p"
  "po_retiring (scheduleMinimumRecovery p) = po_retiring p" "po_retired (scheduleMinimumRecovery p) = po_retired p"
  "po_objs (scheduleMinimumRecovery p) = po_objs p" "po_log (scheduleMinimumRecovery p) = po_log p"
  by (auto simp: scheduleMinimumRecovery_def)

lemma retain_frame:
  assumes "retain w p = Inr p'"
  shows "p' = p\<lparr>po_reservations := (po_reservations p)(w := po_reservations p w + 1)\<rparr>"
    "\<not> po_stopped p" "w \<in> set (po_workers p)" "w \<notin> po_retiring p" "\<not> isUnavailableWorker (obj p w)"
  using assms by (auto simp: retain_def assertRunning_def split: if_splits sum.splits)

lemma release_frame [frame, simp]:
  "po_options (release w t p) = po_options p" "po_workers (release w t p) = po_workers p"
  "po_nextWorkerId (release w t p) = po_nextWorkerId p" "po_stopped (release w t p) = po_stopped p"
  "po_recoveryTimer (release w t p) = po_recoveryTimer p" "po_recoveryDelayMs (release w t p) = po_recoveryDelayMs p"
  "po_claimed (release w t p) = po_claimed p" "po_retiring (release w t p) = po_retiring p"
  "po_retired (release w t p) = po_retired p"
  "po_reservations (release w t p) = (po_reservations p)(w := po_reservations p w - 1)"
  by (auto simp: release_def Let_def)

lemma settled_event_frame [frame, simp]:
  "po_options (snd (settled_event w raw p)) = po_options p" "po_workers (snd (settled_event w raw p)) = po_workers p"
  "po_nextWorkerId (snd (settled_event w raw p)) = po_nextWorkerId p" "po_stopped (snd (settled_event w raw p)) = po_stopped p"
  "po_recoveryTimer (snd (settled_event w raw p)) = po_recoveryTimer p"
  "po_recoveryDelayMs (snd (settled_event w raw p)) = po_recoveryDelayMs p"
  "po_reservations (snd (settled_event w raw p)) = po_reservations p" "po_claimed (snd (settled_event w raw p)) = po_claimed p"
  "po_retiring (snd (settled_event w raw p)) = po_retiring p" "po_retired (snd (settled_event w raw p)) = po_retired p"
  by (auto simp: settled_event_def Let_def split: option.splits)

lemma mapWorkerEvent_frame [frame, simp]:
  "po_options (snd (mapWorkerEvent w raw p)) = po_options p" "po_workers (snd (mapWorkerEvent w raw p)) = po_workers p"
  "po_nextWorkerId (snd (mapWorkerEvent w raw p)) = po_nextWorkerId p" "po_stopped (snd (mapWorkerEvent w raw p)) = po_stopped p"
  "po_recoveryTimer (snd (mapWorkerEvent w raw p)) = po_recoveryTimer p"
  "po_recoveryDelayMs (snd (mapWorkerEvent w raw p)) = po_recoveryDelayMs p"
  "po_reservations (snd (mapWorkerEvent w raw p)) = po_reservations p" "po_claimed (snd (mapWorkerEvent w raw p)) = po_claimed p"
  "po_retiring (snd (mapWorkerEvent w raw p)) = po_retiring p" "po_retired (snd (mapWorkerEvent w raw p)) = po_retired p"
  by (auto simp: mapWorkerEvent_def Let_def split: option.splits)

lemma on_event_eq: "on_event w raw p = emit_event (fst (mapWorkerEvent w raw p)) (snd (mapWorkerEvent w raw p))"
  by (simp add: on_event_def case_prod_unfold Let_def)

lemma on_exit_frame [frame, simp]:
  "po_options (on_exit w e p) = po_options p" "po_nextWorkerId (on_exit w e p) = po_nextWorkerId p"
  "po_stopped (on_exit w e p) = po_stopped p" "po_reservations (on_exit w e p) = po_reservations p"
  "po_claimed (on_exit w e p) = po_claimed p" "po_retiring (on_exit w e p) = po_retiring p"
  "po_retired (on_exit w e p) = po_retired p"
  "po_workers (on_exit w e p) = (if w_state (obj p w) = Crashed then removeAll w (po_workers p) else po_workers p)"
  by (auto simp: on_exit_def Let_def)

section \<open>The invariant\<close>

definition made :: "pool \<Rightarrow> string \<Rightarrow> bool" where
  "made p w \<longleftrightarrow> (\<exists>k < po_nextWorkerId p. w = worker_id k)"

definition pool_inv :: "pool \<Rightarrow> bool" where
  "pool_inv p \<longleftrightarrow>
     distinct (po_workers p) \<and> length (po_workers p) \<le> op_maxWorkers (po_options p) \<and>
     (\<forall>w \<in> set (po_workers p) \<union> po_claimed p \<union> po_retiring p. made p w) \<and>
     1000 \<le> po_recoveryDelayMs p \<and> po_recoveryDelayMs p \<le> 30000"

lemma worker_id_inj [simp]: "worker_id m = worker_id n \<longleftrightarrow> m = n"
  by (simp add: worker_id_def)

lemma made_mono: "made p w \<Longrightarrow> po_nextWorkerId p \<le> po_nextWorkerId p' \<Longrightarrow> made p' w"
  by (auto simp: made_def)

text \<open>What other code cannot change, and what it can change in one direction only.\<close>

lemma run_istep_frame [frame, simp]:
  "po_options (run_istep i p) = po_options p" "po_nextWorkerId (run_istep i p) = po_nextWorkerId p"
  "po_claimed (run_istep i p) = po_claimed p" "po_retiring (run_istep i p) = po_retiring p"
  "po_retired (run_istep i p) = po_retired p"
  by (cases i; auto simp: on_event_eq child_closed_def send_command_def command_done_def stop_requested_def
      split: sum.splits dest: retain_frame(1))+

lemma run_istep_stopped: "po_stopped p \<Longrightarrow> po_stopped (run_istep i p)"
  by (cases i) (auto simp: on_event_eq child_closed_def send_command_def command_done_def stop_requested_def
      split: sum.splits dest: retain_frame(1))

lemma length_removeAll_le: "length (removeAll x xs) \<le> length xs"
  by (simp add: removeAll_filter_not_eq)

lemma run_istep_workers:
  "set (po_workers (run_istep i p)) \<subseteq> set (po_workers p)" "length (po_workers (run_istep i p)) \<le> length (po_workers p)"
  "distinct (po_workers p) \<Longrightarrow> distinct (po_workers (run_istep i p))"
  by (cases i; auto simp: on_event_eq child_closed_def send_command_def command_done_def stop_requested_def
      distinct_removeAll length_removeAll_le split: sum.splits dest: retain_frame(1))+

lemma delay_schedule: "1000 \<le> po_recoveryDelayMs p \<Longrightarrow> po_recoveryDelayMs p \<le> 30000 \<Longrightarrow>
   1000 \<le> po_recoveryDelayMs (scheduleMinimumRecovery p) \<and> po_recoveryDelayMs (scheduleMinimumRecovery p) \<le> 30000"
  by (auto simp: scheduleMinimumRecovery_def)

lemma delay_on_exit: "1000 \<le> po_recoveryDelayMs p \<Longrightarrow> po_recoveryDelayMs p \<le> 30000 \<Longrightarrow>
   1000 \<le> po_recoveryDelayMs (on_exit w e p) \<and> po_recoveryDelayMs (on_exit w e p) \<le> 30000"
  by (auto simp: on_exit_def Let_def intro!: delay_schedule)

lemma run_istep_delay:
  assumes "1000 \<le> po_recoveryDelayMs p" "po_recoveryDelayMs p \<le> 30000"
  shows "1000 \<le> po_recoveryDelayMs (run_istep i p) \<and> po_recoveryDelayMs (run_istep i p) \<le> 30000"
  using assms
  by (cases i) (auto simp: on_event_eq child_closed_def send_command_def command_done_def stop_requested_def
      delay_on_exit split: sum.splits dest: retain_frame(1))

lemma pool_inv_istep:
  assumes "pool_inv p"
  shows "pool_inv (run_istep i p)"
proof -
  have m: "made (run_istep i p) w \<longleftrightarrow> made p w" for w by (simp add: made_def)
  have "length (po_workers (run_istep i p)) \<le> op_maxWorkers (po_options p)"
    using assms run_istep_workers(2) [of i p] by (simp add: pool_inv_def)
  then show ?thesis
    using assms run_istep_workers(1) [of i p] run_istep_workers(3) [of p i] run_istep_delay [of p] by (auto simp: pool_inv_def m)
qed

text \<open>The contract of \<open>Async\<close> on the pool, relying on steps that satisfy \<open>A\<close>.\<close>

interpretation pool_rely: interference run_istep A pool_inv for A :: "istep \<Rightarrow> bool"
  by unfold_locales (simp add: pool_inv_istep)

section \<open>Methods keep the invariant\<close>

abbreviation pool_run where
  "pool_run A Q r \<equiv> run_ok A pool_inv Q r"

lemma pool_inv_cong:
  assumes "pool_inv p" "po_options p' = po_options p" "po_workers p' = po_workers p" "po_nextWorkerId p' = po_nextWorkerId p"
    and "po_claimed p' = po_claimed p" "po_retiring p' = po_retiring p" "po_recoveryDelayMs p' = po_recoveryDelayMs p"
  shows "pool_inv p'"
  using assms by (simp add: pool_inv_def made_def)

lemma pool_inv_updates [simp]:
  assumes "pool_inv p"
  shows "pool_inv (set_obj w f p)" "pool_inv (emit_event d p)" "pool_inv (release w t p)"
    "pool_inv (scheduleMinimumRecovery p)" "pool_inv (send_command w c p)" "pool_inv (command_done w p)"
    "pool_inv (stop_sync w p)" "pool_inv (stop_requested p)" "pool_inv (remove_worker w p)"
proof -
  show "pool_inv (set_obj w f p)" for f by (rule pool_inv_cong [OF assms]) simp_all
  show "pool_inv (emit_event d p)" by (rule pool_inv_cong [OF assms]) simp_all
  show "pool_inv (release w t p)" by (rule pool_inv_cong [OF assms]) simp_all
  show "pool_inv (scheduleMinimumRecovery p)"
    using assms delay_schedule [of p] by (simp add: pool_inv_def made_def)
  show "pool_inv (send_command w c p)" by (rule pool_inv_cong [OF assms]) (simp_all add: send_command_def)
  show "pool_inv (command_done w p)" by (rule pool_inv_cong [OF assms]) (simp_all add: command_done_def)
  show "pool_inv (stop_sync w p)" by (rule pool_inv_cong [OF assms]) (simp_all add: stop_sync_def)
  show "pool_inv (stop_requested p)" by (rule pool_inv_cong [OF assms]) (simp_all add: stop_requested_def)
  show "pool_inv (remove_worker w p)"
    using assms le_trans [OF length_removeAll_le [of w "po_workers p"]] by (auto simp: pool_inv_def made_def distinct_removeAll)
qed

lemma pool_inv_retain: "pool_inv p \<Longrightarrow> retain w p = Inr p' \<Longrightarrow> pool_inv p'"
  by (drule retain_frame(1)) (simp add: pool_inv_def made_def)

text \<open>
  What stays while a method is suspended: the pool's own bookkeeping, and the reservations of the
  workers that the other code does not release. \<open>later\<close> is what all methods but \<open>start\<close> respect.
\<close>

definition quiet :: "(istep \<Rightarrow> bool) \<Rightarrow> pool \<Rightarrow> pool \<Rightarrow> bool" where
  "quiet A p s \<longleftrightarrow>
     po_options s = po_options p \<and> po_claimed s = po_claimed p \<and> po_retiring s = po_retiring p \<and>
     po_retired s = po_retired p \<and> po_nextWorkerId s = po_nextWorkerId p \<and>
     set (po_workers s) \<subseteq> set (po_workers p) \<and> (po_stopped p \<longrightarrow> po_stopped s) \<and>
     (\<forall>w. (\<forall>t. \<not> A (SRelease w t)) \<longrightarrow> po_reservations p w \<le> po_reservations s w)"

definition later :: "pool \<Rightarrow> pool \<Rightarrow> bool" where
  "later p s \<longleftrightarrow>
     po_options s = po_options p \<and> po_claimed p \<subseteq> po_claimed s \<and> po_retiring p \<subseteq> po_retiring s \<and>
     po_nextWorkerId p \<le> po_nextWorkerId s \<and> (po_stopped p \<longrightarrow> po_stopped s)"

lemma quiet_refl [simp]: "quiet A p p"
  by (simp add: quiet_def)

lemma quiet_trans:
  assumes "quiet A p q" "quiet A q s"
  shows "quiet A p s"
proof -
  have "po_reservations p w \<le> po_reservations s w" if "\<forall>t. \<not> A (SRelease w t)" for w
    using assms that le_trans [of "po_reservations p w" "po_reservations q w"] by (simp add: quiet_def)
  moreover have "set (po_workers s) \<subseteq> set (po_workers p)" using assms by (auto simp: quiet_def)
  ultimately show ?thesis using assms by (simp add: quiet_def)
qed

lemma later_refl [simp]: "later p p"
  by (simp add: later_def)

lemma later_trans: "later p q \<Longrightarrow> later q s \<Longrightarrow> later p s"
  by (auto simp: later_def)

lemma quiet_later: "quiet A p s \<Longrightarrow> later p s"
  by (simp add: quiet_def later_def)

lemma quiet_set_obj [simp]: "quiet A p (set_obj w f q) = quiet A p q"
  by (simp add: quiet_def)

lemma quiet_emit_event [simp]: "quiet A p (emit_event d q) = quiet A p q"
  by (simp add: quiet_def)

lemma quiet_remove_worker: "quiet A p q \<Longrightarrow> quiet A p (remove_worker w q)"
  by (auto simp: quiet_def)

lemma quiet_send_command [simp]: "quiet A p (send_command w c q) = quiet A p q"
  by (simp add: quiet_def send_command_def)

lemma quiet_command_done [simp]: "quiet A p (command_done w q) = quiet A p q"
  by (simp add: command_done_def)

lemma quiet_stop_sync [simp]: "quiet A p (stop_sync w q) = quiet A p q"
  by (simp add: stop_sync_def)

lemma quiet_istep:
  assumes "A i"
  shows "quiet A p (run_istep i p)"
proof -
  have "po_reservations p w \<le> po_reservations (run_istep i p) w" if "\<forall>t. \<not> A (SRelease w t)" for w
    using that assms
    by (cases i) (auto simp: on_event_eq child_closed_def send_command_def command_done_def stop_requested_def
      split: sum.splits dest!: retain_frame(1))
  then show ?thesis
    using run_istep_workers(1) [of i p] run_istep_stopped [of p i] by (auto simp: quiet_def)
qed

lemma keeps_quiet: "keeps run_istep A pool_inv (quiet A p)"
  by (rule keepsI) (rule quiet_trans [OF _ quiet_istep])

lemma settled_eq: "settled r s sch = Finished (case r of RError e \<Rightarrow> Inl e | _ \<Rightarrow> Inr ()) s sch"
  by (cases r) (simp_all add: settled_def async_simps)

lemma stop_worker_ok:
  assumes "pool_inv p" "sch_ok A sch"
  shows "pool_run A (\<lambda>r s. quiet A p s) (stop_worker w p sch)"
  unfolding stop_worker_def seq_sync
  by (rule pool_rely.await_seq [OF keeps_quiet [of A p]]) (use assms in \<open>simp_all add: settled_eq\<close>)

lemma start_worker_ok:
  assumes "pool_inv p" "sch_ok A sch"
  shows "pool_run A (\<lambda>r s. quiet A p s) (start_worker w p sch)"
  unfolding start_worker_def
proof (rule pool_rely.await_seq [OF keeps_quiet [of A p]])
  fix r s and sch' :: "(istep, reply) schedule"
  assume s: "pool_inv s" "quiet A p s" "sch_ok A sch'"
  have spawned: "pool_run A (\<lambda>r s. quiet A p s) (await_spawn w (version_probed w v s) sch')" for v
    unfolding await_spawn_def seq_sync
    by (rule pool_rely.await_seq [OF keeps_quiet [of A p]])
      (use s in \<open>auto simp: async_simps version_probed_def child_created_def child_spawned_def split: reply.splits\<close>)
  show "pool_run A (\<lambda>r s. quiet A p s) ((case r of RError e \<Rightarrow> raise e
      | _ \<Rightarrow> seq (update (version_probed w (version_of r))) (\<lambda>_.
          if \<not> isSupportedPiVersion (version_of r) then raise (unsupported_version (version_of r)) else await_spawn w)) s sch')"
    using s spawned by (cases r) (auto simp: async_simps version_probed_def)
qed (use assms in simp_all)

lemma start_checked_ok:
  assumes "pool_inv p" "sch_ok A sch"
  shows "pool_run A (\<lambda>r s. quiet A p s \<and> (\<forall>u. r = Inr u \<longrightarrow> \<not> po_stopped s)) (start_checked w p sch)"
  unfolding start_checked_def
  by (rule run_ok_seq, rule start_worker_ok [OF assms]) (auto simp: async_simps)

lemma run_command_ok:
  assumes "pool_inv p" "sch_ok A sch"
  shows "pool_run A (\<lambda>r s. quiet A p s) (run_command w c p sch)"
  unfolding run_command_def seq_sync
  by (rule pool_rely.await_seq [OF keeps_quiet [of A p]])
    (use assms in \<open>auto simp: async_simps split: reply.splits\<close>)

lemma get_state_ok:
  assumes "pool_inv p" "sch_ok A sch"
  shows "pool_run A (\<lambda>r s. quiet A p s) (get_state w p sch)"
  unfolding get_state_def
  by (rule run_ok_seq, rule run_command_ok [OF assms]) (auto simp: async_simps)

text \<open>Retiring a worker marks it for ever, and then takes it out of the map.\<close>

definition marked :: "string \<Rightarrow> pool \<Rightarrow> pool" where
  "marked w p = (note_retired w p)\<lparr>po_retiring := insert w (po_retiring p)\<rparr>"

lemma marked_frame [frame, simp]:
  "po_options (marked w p) = po_options p" "po_workers (marked w p) = po_workers p"
  "po_nextWorkerId (marked w p) = po_nextWorkerId p" "po_stopped (marked w p) = po_stopped p"
  "po_reservations (marked w p) = po_reservations p" "po_claimed (marked w p) = po_claimed p"
  "po_retiring (marked w p) = insert w (po_retiring p)" "po_objs (marked w p) = po_objs p"
  "po_recoveryDelayMs (marked w p) = po_recoveryDelayMs p"
  "po_retired (marked w p) = po_retired p @ [(w, isQuiescent p w, length (po_workers p))]"
  by (simp_all add: marked_def note_retired_def)

lemma retire_ok:
  assumes "pool_inv p" "sch_ok A sch" "made p w"
  shows "pool_run A (\<lambda>r s. quiet A (marked w p) s \<and> (\<forall>u. r = Inr u \<longrightarrow> w \<notin> set (po_workers s))) (retire w p sch)"
proof -
  have inv: "pool_inv (marked w p)" using assms(1,3) by (simp add: pool_inv_def made_def)
  show ?thesis
    unfolding retire_def seq_sync marked_def [symmetric]
    by (rule run_ok_seq, rule stop_worker_ok [OF inv assms(2)])
      (auto simp: async_simps quiet_remove_worker)
qed

text \<open>Spawning: a new id, entered into the map, and claimed when it is reserved.\<close>

lemma create_worker_frame [frame, simp]:
  "po_options (create_worker cwd p) = po_options p"
  "po_workers (create_worker cwd p) = po_workers p @ [worker_id (po_nextWorkerId p)]"
  "po_nextWorkerId (create_worker cwd p) = Suc (po_nextWorkerId p)" "po_stopped (create_worker cwd p) = po_stopped p"
  "po_reservations (create_worker cwd p) = po_reservations p" "po_claimed (create_worker cwd p) = po_claimed p"
  "po_retiring (create_worker cwd p) = po_retiring p" "po_retired (create_worker cwd p) = po_retired p"
  "po_recoveryDelayMs (create_worker cwd p) = po_recoveryDelayMs p"
  "w_state (obj (create_worker cwd p) (worker_id (po_nextWorkerId p))) = Starting"
  by (simp_all add: create_worker_def Let_def no_worker_def)

lemma not_made_next: "\<not> made p (worker_id (po_nextWorkerId p))"
  by (simp add: made_def)

lemma new_id_fresh:
  assumes "pool_inv p"
  shows "worker_id (po_nextWorkerId p) \<notin> set (po_workers p)" "worker_id (po_nextWorkerId p) \<notin> po_retiring p"
    "worker_id (po_nextWorkerId p) \<notin> po_claimed p"
  using assms not_made_next [of p] by (auto simp: pool_inv_def)

definition created :: "string \<Rightarrow> bool \<Rightarrow> pool \<Rightarrow> pool" where
  "created cwd reserve p =
     (let w = worker_id (po_nextWorkerId p); p1 = create_worker cwd p in
      if reserve
      then set_obj w (\<lambda>u. u\<lparr>w_threadId := None\<rparr>)
             (p1\<lparr>po_reservations := (po_reservations p1)(w := po_reservations p1 w + 1), po_claimed := insert w (po_claimed p1)\<rparr>)
      else p1)"

lemma reserve_created:
  assumes "pool_inv p" "\<not> po_stopped p"
  shows "reserveForAssignment (worker_id (po_nextWorkerId p)) (create_worker cwd p) = Inr (created cwd True p)"
  using assms new_id_fresh(2) [OF assms(1)]
  by (simp add: reserveForAssignment_def retain_def assertRunning_def isUnavailableWorker_def created_def Let_def)

lemma created_frame [frame, simp]:
  "po_options (created cwd r p) = po_options p"
  "po_workers (created cwd r p) = po_workers p @ [worker_id (po_nextWorkerId p)]"
  "po_nextWorkerId (created cwd r p) = Suc (po_nextWorkerId p)" "po_stopped (created cwd r p) = po_stopped p"
  "po_claimed (created cwd r p) = (if r then insert (worker_id (po_nextWorkerId p)) (po_claimed p) else po_claimed p)"
  "po_retiring (created cwd r p) = po_retiring p" "po_retired (created cwd r p) = po_retired p"
  "po_recoveryDelayMs (created cwd r p) = po_recoveryDelayMs p"
  "po_reservations (created cwd r p) w = po_reservations p w + (if r \<and> w = worker_id (po_nextWorkerId p) then 1 else 0)"
  by (simp_all add: created_def Let_def)

lemma pool_inv_created:
  assumes "pool_inv p" "length (po_workers p) < op_maxWorkers (po_options p)"
  shows "pool_inv (created cwd r p)"
  using assms new_id_fresh(1) [OF assms(1)]
  by (auto simp: pool_inv_def made_def less_Suc_eq)

definition spawn_post :: "(istep \<Rightarrow> bool) \<Rightarrow> string \<Rightarrow> bool \<Rightarrow> pool \<Rightarrow> string result \<Rightarrow> pool \<Rightarrow> bool" where
  "spawn_post A cwd r p x s \<longleftrightarrow>
     (case x of
        Inl e \<Rightarrow> s = p \<or> quiet A (created cwd r p) s
      | Inr w \<Rightarrow> w = worker_id (po_nextWorkerId p) \<and> quiet A (created cwd r p) s \<and> \<not> po_stopped s)"

lemma spawn_ok:
  assumes "pool_inv p" "sch_ok A sch"
  shows "pool_run A (spawn_post A cwd reserve p) (spawn cwd reserve p sch)"
proof -
  consider "po_stopped p" | "\<not> po_stopped p" "op_maxWorkers (po_options p) \<le> length (po_workers p)"
    | "\<not> po_stopped p" "length (po_workers p) < op_maxWorkers (po_options p)" by linarith
  then show ?thesis
  proof cases
    case 3
    let ?w = "worker_id (po_nextWorkerId p)" and ?q = "created cwd reserve p"
    let ?h = "\<lambda>e. seq (update (remove_worker ?w)) (\<lambda>_. seq (try_catch (stop_worker ?w) (\<lambda>_. ret ())) (\<lambda>_. raise e :: unit op))"
    have inv: "pool_inv ?q" by (rule pool_inv_created [OF assms(1) 3(2)])
    have handler: "pool_run A (\<lambda>r s. quiet A ?q s \<and> (\<exists>e. r = Inl e)) (?h e s sch')"
      if s: "pool_inv s" "quiet A ?q s" "sch_ok A sch'" for e s sch'
      unfolding seq_sync
    proof (rule run_ok_seq, rule run_ok_try)
      show "pool_run A (\<lambda>r s'. quiet A (remove_worker ?w s) s') (stop_worker ?w (remove_worker ?w s) sch')"
        using s by (intro stop_worker_ok) simp_all
      fix e' s' and sch'' :: "(istep, reply) schedule"
      assume "pool_inv s'" "quiet A (remove_worker ?w s) s'" "sch_ok A sch''"
      then show "pool_run A (\<lambda>r s. quiet A ?q s) (ret () s' sch'')"
        using quiet_trans [OF quiet_remove_worker [OF s(2)]] by (simp add: async_simps)
    qed (use quiet_trans [OF quiet_remove_worker [OF s(2)]] in \<open>auto simp: async_simps\<close>)
    have body: "pool_run A (\<lambda>r s. quiet A ?q s \<and> (\<forall>u. r = Inr u \<longrightarrow> \<not> po_stopped s)) (try_catch (start_checked ?w) ?h ?q sch)"
    proof (rule run_ok_try, rule start_checked_ok [OF inv assms(2)])
      fix e :: thrown and s and sch' :: "(istep, reply) schedule"
      assume "pool_inv s" "quiet A ?q s \<and> (\<forall>u. Inl e = Inr u \<longrightarrow> \<not> po_stopped s)" "sch_ok A sch'"
      then show "pool_run A (\<lambda>r s. quiet A ?q s \<and> (\<forall>u. r = Inr u \<longrightarrow> \<not> po_stopped s)) (?h e s sch')"
        by (intro run_ok_mono [OF handler]) auto
    qed auto
    have "spawn cwd reserve p sch =
        seq (try_catch (start_checked ?w) ?h) (\<lambda>_.
        seq (update (\<lambda>p. if reserve then set_obj ?w (\<lambda>u. u\<lparr>w_state := Assigned\<rparr>) p else p)) (\<lambda>_.
        seq (update (\<lambda>p. emit_event (started_event ?w cwd p) p)) (\<lambda>_.
          ret ?w))) ?q sch"
      using 3 reserve_created [OF assms(1) 3(1), of cwd]
      by (cases reserve) (simp_all add: spawn_def Let_def seq_sync created_def)
    then show ?thesis
      by (simp only:) (rule run_ok_seq, rule body, auto simp: async_simps spawn_post_def)
  qed (use assms in \<open>simp_all add: spawn_def async_simps spawn_post_def\<close>)
qed

lemma spawn_post_later:
  assumes "spawn_post A cwd r p x s"
  shows "later p s" "po_retired s = po_retired p"
  using assms by (auto simp: spawn_post_def later_def quiet_def split: sum.splits if_splits)

text \<open>What a caller knows of a worker it has acquired, when it asked in the pool \<open>p\<close>.\<close>

definition acquired :: "(istep \<Rightarrow> bool) \<Rightarrow> pool \<Rightarrow> string \<Rightarrow> pool \<Rightarrow> bool" where
  "acquired A p w s \<longleftrightarrow>
     w \<notin> po_retiring s \<and> w \<in> po_claimed s \<and> \<not> po_stopped s \<and> made s w \<and>
     (op_reuseAcrossThreads (po_options p) = Some False \<longrightarrow> w \<notin> po_claimed p) \<and>
     ((\<forall>t. \<not> A (SRelease w t)) \<longrightarrow> 1 \<le> po_reservations s w)"

lemma spawn_acquired:
  assumes "pool_inv p" "spawn_post A cwd True p (Inr w) s"
  shows "acquired A p w s"
  using assms(2) new_id_fresh [OF assms(1)]
  by (fastforce simp: spawn_post_def acquired_def quiet_def made_def)

definition select_post :: "(istep \<Rightarrow> bool) \<Rightarrow> pool \<Rightarrow> string result \<Rightarrow> pool \<Rightarrow> bool" where
  "select_post A p x s \<longleftrightarrow>
     later p s \<and>
     (po_retired s = po_retired p \<or>
      (\<exists>v n. victim p = Some v \<and> op_maxWorkers (po_options p) \<le> n \<and> po_retired s = po_retired p @ [(v, True, n)])) \<and>
     (\<forall>w. x = Inr w \<longrightarrow> acquired A p w s)"

lemma spawn_or_recover_ok:
  assumes "pool_inv p" "sch_ok A sch"
  shows "pool_run A (\<lambda>x s. later p s \<and> po_retired s = po_retired p \<and> (\<forall>w. x = Inr w \<longrightarrow> acquired A p w s))
    (spawn_or_recover cwd p sch)"
  unfolding spawn_or_recover_def
proof (rule run_ok_try, rule spawn_ok [OF assms])
  fix e s and sch' :: "(istep, reply) schedule"
  assume "pool_inv s" "spawn_post A cwd True p (Inl e) s" "sch_ok A sch'"
  then show "pool_run A (\<lambda>x s. later p s \<and> po_retired s = po_retired p \<and> (\<forall>w. x = Inr w \<longrightarrow> acquired A p w s))
      (seq (update scheduleMinimumRecovery) (\<lambda>_. raise e) s sch')"
    using spawn_post_later [of A cwd True p "Inl e" s] by (simp add: async_simps later_def)
next
  fix w s
  assume "pool_inv s" "spawn_post A cwd True p (Inr w) s"
  then show "later p s \<and> po_retired s = po_retired p \<and> (\<forall>v. Inr w = Inr v \<longrightarrow> acquired A p v s)"
    using spawn_post_later spawn_acquired [OF assms(1)] by auto
qed

lemma acquired_from:
  assumes "acquired A q w s" "later p q"
  shows "acquired A p w s"
  using assms by (auto simp: acquired_def later_def)

lemma victim_Some:
  assumes "victim p = Some w"
  shows "w \<in> set (po_workers p)" "isReclaimable p w" "\<forall>v \<in> set (po_workers p). isReclaimable p v \<longrightarrow>
    w_lastUsedAt (obj p w) \<le> w_lastUsedAt (obj p v)"
proof -
  let ?k = "\<lambda>w. w_lastUsedAt (obj p w)" and ?r = "filter (isReclaimable p) (po_workers p)"
  obtain ws where s: "sort_key ?k ?r = w # ws"
    using assms by (auto simp: victim_def split: list.splits)
  then have "set (w # ws) = set ?r" by (metis set_sort)
  then show "w \<in> set (po_workers p)" "isReclaimable p w" by auto
  have "sorted (map ?k (w # ws))" using sorted_sort_key [of ?k ?r] s by simp
  with \<open>set (w # ws) = set ?r\<close> show "\<forall>v \<in> set (po_workers p). isReclaimable p v \<longrightarrow> ?k w \<le> ?k v"
    by (auto dest: equalityD2)
qed

lemma reserve_frame:
  assumes "reserveForAssignment w p = Inr s"
  shows "\<not> po_stopped p" "w \<notin> po_retiring p"
    "s = set_obj w (\<lambda>u. u\<lparr>w_threadId := None\<rparr>) (p\<lparr>po_reservations := (po_reservations p)(w := po_reservations p w + 1),
      po_claimed := insert w (po_claimed p)\<rparr>)"
proof -
  obtain q where q: "retain w p = Inr q" and s: "s = set_obj w (\<lambda>u. u\<lparr>w_threadId := None\<rparr>) (q\<lparr>po_claimed := insert w (po_claimed q)\<rparr>)"
    using assms by (auto simp: reserveForAssignment_def split: sum.splits)
  note r = retain_frame [OF q]
  show "\<not> po_stopped p" "w \<notin> po_retiring p" using r by simp_all
  show "s = set_obj w (\<lambda>u. u\<lparr>w_threadId := None\<rparr>) (p\<lparr>po_reservations := (po_reservations p)(w := po_reservations p w + 1),
      po_claimed := insert w (po_claimed p)\<rparr>)"
    unfolding s by (simp add: r(1))
qed

lemma made_frame [simp]: "made (set_obj v f p) w = made p w"
  by (simp add: made_def)

lemma selectWorker_ok:
  assumes "pool_inv p" "sch_ok A sch"
  shows "pool_run A (select_post A p) (selectWorker cwd p sch)"
proof (cases "List.find (\<lambda>w. w_cwd (obj p w) = cwd) (candidates p)")
  case (Some w)
  then have w: "w \<in> set (po_workers p)" "op_reuseAcrossThreads (po_options p) = Some False \<longrightarrow> w \<notin> po_claimed p"
    by (auto simp: candidates_def dest: find_Some_iff_in)
  have m: "made p w" using assms(1) w(1) by (simp add: pool_inv_def)
  show ?thesis
  proof (cases "reserveForAssignment w p")
    case (Inl e)
    then show ?thesis using Some assms by (simp add: selectWorker_def async_simps select_post_def)
  next
    case (Inr s)
    note r = reserve_frame [OF Inr]
    have "pool_inv s" using assms(1) m by (simp add: r(3)) (simp add: pool_inv_def made_def)
    moreover have "later p s" by (auto simp: r(3) later_def)
    moreover have "acquired A p w s" using r(1,2) w(2) m by (simp add: r(3) acquired_def made_def)
    ultimately show ?thesis
      using Some Inr assms(2)
      by (simp add: selectWorker_def async_simps select_post_def later_def acquired_def r(3))
  qed
next
  case None
  have spawned: "pool_run A (select_post A p) (spawn_or_recover cwd p sch)"
    by (rule run_ok_mono [OF spawn_or_recover_ok [OF assms]]) (simp add: select_post_def)
  show ?thesis
  proof (cases "op_maxWorkers (po_options p) \<le> length (po_workers p)")
    case True
    show ?thesis
    proof (cases "victim p")
      case no: None
      then show ?thesis using None True assms by (simp add: selectWorker_def async_simps select_post_def)
    next
      case (Some v)
      note v = victim_Some [OF Some]
      have m: "made p v" using assms(1) v(1) by (simp add: pool_inv_def)
      have q: "isQuiescent p v" using v(2) by (simp add: isReclaimable_def)
      have "pool_run A (select_post A p) (seq (retire v) (\<lambda>_. spawn_or_recover cwd) p sch)"
      proof (rule run_ok_seq, rule retire_ok [OF assms m])
        fix e :: thrown and s
        assume "pool_inv s" "quiet A (marked v p) s \<and> (\<forall>u. Inl e = Inr u \<longrightarrow> v \<notin> set (po_workers s))"
        then show "select_post A p (Inl e) s"
          using Some q True by (auto simp: select_post_def later_def quiet_def)
      next
        fix u :: unit and s and sch' :: "(istep, reply) schedule"
        assume s: "pool_inv s" "quiet A (marked v p) s \<and> (\<forall>u'. Inr u = Inr u' \<longrightarrow> v \<notin> set (po_workers s))" "sch_ok A sch'"
        then have l: "later p s" "po_retired s = po_retired p @ [(v, True, length (po_workers p))]"
          using q by (auto simp: later_def quiet_def)
        show "pool_run A (select_post A p) (spawn_or_recover cwd s sch')"
          by (rule run_ok_mono [OF spawn_or_recover_ok [OF s(1,3)]])
            (use l Some True in \<open>auto simp: select_post_def intro: later_trans acquired_from\<close>)
      qed
      then show ?thesis using None True Some by (simp add: selectWorker_def)
    qed
  next
    case False
    then show ?thesis using None spawned by (simp add: selectWorker_def)
  qed
qed

lemma call_assertRunning: "seq (call assertRunning) f p sch = (if po_stopped p then Finished (Inl pool_stopped) p sch else f () p sch)"
  by (simp add: seq_sync assertRunning_def)

lemma acquireForNew_ok:
  assumes "pool_inv p" "sch_ok A sch"
  shows "pool_run A (select_post A p) (acquireForNew cwd p sch)"
  using selectWorker_ok [OF assms] assms
  by (simp add: acquireForNew_def call_assertRunning select_post_def)

text \<open>Switching a worker to a session: confirmed by Pi, or the worker is not used again.\<close>

lemma switch_session_ok:
  assumes "pool_inv p" "sch_ok A sch"
  shows "pool_run A (\<lambda>r s. quiet A p s \<and> (\<forall>u. r = Inr u \<longrightarrow> w_threadId (obj s w) = Some threadId))
    (switch_session threadId path w p sch)"
  unfolding switch_session_def
proof (rule run_ok_seq, rule run_command_ok [OF assms])
  fix response s and sch' :: "(istep, reply) schedule"
  assume s: "pool_inv s" "quiet A p s" "sch_ok A sch'"
  have "pool_run A (\<lambda>r t. quiet A p t \<and> (\<forall>u. r = Inr u \<longrightarrow> w_threadId (obj t w) = Some threadId))
      (seq (get_state w) (\<lambda>state.
        if jget state ''sessionId'' \<noteq> JStr threadId
        then raise (DaemonError PiRpcError ''Pi resumed a different session than requested''
               (Some [(''threadId'', JStr threadId), (''sessionId'', jget state ''sessionId''), (''sessionPath'', JStr path)]))
        else update (set_obj w (\<lambda>u. u\<lparr>w_threadId := Some threadId\<rparr>))) s sch')"
    by (rule run_ok_seq, rule get_state_ok [OF s(1,3)]) (use quiet_trans [OF s(2)] in \<open>auto simp: async_simps\<close>)
  then show "pool_run A (\<lambda>r t. quiet A p t \<and> (\<forall>u. r = Inr u \<longrightarrow> w_threadId (obj t w) = Some threadId))
      (seq (assertNotCancelled response ''switch_session'') (\<lambda>_.
       seq (get_state w) (\<lambda>state.
        if jget state ''sessionId'' \<noteq> JStr threadId
        then raise (DaemonError PiRpcError ''Pi resumed a different session than requested''
               (Some [(''threadId'', JStr threadId), (''sessionId'', jget state ''sessionId''), (''sessionPath'', JStr path)]))
        else update (set_obj w (\<lambda>u. u\<lparr>w_threadId := Some threadId\<rparr>)))) s sch')"
    using s by (simp add: assertNotCancelled_def async_simps)
qed auto

lemma switch_failed_ok:
  assumes "pool_inv p" "sch_ok A sch" "made p w"
  shows "pool_run A (\<lambda>r s. later p s \<and> (w \<in> po_retiring s \<or> isUnavailableWorker (obj s w)) \<and> (\<exists>e. r = Inl e))
    (switch_failed w e p sch)"
proof (cases "isUnavailableWorker (obj (release w None p) w)")
  case True
  then show ?thesis using assms by (simp add: switch_failed_def async_simps later_def)
next
  case False
  let ?p = "release w None p"
  have m: "made ?p w" using assms(3) by (simp add: made_def)
  have "pool_run A (\<lambda>r s. later p s \<and> w \<in> po_retiring s \<and> (\<exists>e. r = Inl e))
      (seq (retire w) (\<lambda>_. seq (update scheduleMinimumRecovery) (\<lambda>_. raise e)) ?p sch)"
    by (rule run_ok_seq, rule retire_ok [OF _ assms(2) m])
      (use assms(1) in \<open>auto simp: async_simps quiet_def later_def\<close>)
  then have "pool_run A (\<lambda>r s. later p s \<and> w \<in> po_retiring s \<and> (\<exists>e. r = Inl e)) (switch_failed w e p sch)"
    using False by (simp add: switch_failed_def seq_sync seq_assoc)
  then show ?thesis by (rule run_ok_mono) auto
qed

definition switch_post :: "pool \<Rightarrow> string \<Rightarrow> string \<Rightarrow> unit result \<Rightarrow> pool \<Rightarrow> bool" where
  "switch_post p threadId w x s \<longleftrightarrow>
     later p s \<and>
     (case x of
        Inl e \<Rightarrow> w \<in> po_retiring s \<or> isUnavailableWorker (obj s w)
      | Inr _ \<Rightarrow> w_threadId (obj s w) = Some threadId \<and> po_retiring s = po_retiring p)"

lemma switch_worker_ok:
  assumes "pool_inv p" "sch_ok A sch" "made p w"
  shows "pool_run A (switch_post p threadId w) (switch_worker threadId path w p sch)"
  unfolding switch_worker_def
proof (rule run_ok_try, rule switch_session_ok [OF assms(1,2)])
  fix e :: thrown and s and sch' :: "(istep, reply) schedule"
  assume s: "pool_inv s" "quiet A p s \<and> (\<forall>u. Inl e = Inr u \<longrightarrow> w_threadId (obj s w) = Some threadId)" "sch_ok A sch'"
  then have l: "later p s" "made s w" using assms(3) by (auto simp: quiet_later made_def quiet_def)
  show "pool_run A (switch_post p threadId w) (switch_failed w e s sch')"
    by (rule run_ok_mono [OF switch_failed_ok [OF s(1,3) l(2)]])
      (use l in \<open>auto simp: switch_post_def intro: later_trans\<close>)
next
  fix u :: unit and s
  assume "pool_inv s" "quiet A p s \<and> (\<forall>u'. Inr u = Inr u' \<longrightarrow> w_threadId (obj s w) = Some threadId)"
  then show "switch_post p threadId w (Inr u) s" by (auto simp: switch_post_def quiet_later quiet_def later_def)
qed

text \<open>A session is acquired when the worker that is returned has it and is not being retired.\<close>

definition session_post :: "pool \<Rightarrow> string \<Rightarrow> string result \<Rightarrow> pool \<Rightarrow> bool" where
  "session_post p threadId x s \<longleftrightarrow>
     later p s \<and> (\<forall>w. x = Inr w \<longrightarrow> w \<notin> po_retiring s \<and> w_threadId (obj s w) = Some threadId)"

lemma select_and_switch_ok:
  assumes "pool_inv p" "sch_ok A sch"
  shows "pool_run A (session_post p threadId) (select_and_switch threadId cwd path p sch)"
  unfolding select_and_switch_def
proof (rule run_ok_seq, rule selectWorker_ok [OF assms])
  fix w s and sch' :: "(istep, reply) schedule"
  assume s: "pool_inv s" "select_post A p (Inr w) s" "sch_ok A sch'"
  then have a: "later p s" "w \<notin> po_retiring s" "made s w" by (simp_all add: select_post_def acquired_def)
  show "pool_run A (session_post p threadId) (seq (switch_worker threadId path w) (\<lambda>_. ret w) s sch')"
    by (rule run_ok_seq, rule switch_worker_ok [OF s(1,3) a(3), where threadId = threadId])
      (use a in \<open>auto simp: async_simps session_post_def switch_post_def intro: later_trans\<close>)
qed (simp add: select_post_def session_post_def)

lemma acquireForSession_ok:
  assumes "pool_inv p" "sch_ok A sch"
  shows "pool_run A (session_post p threadId) (acquireForSession threadId cwd path p sch)"
proof (cases "po_stopped p \<or> findByThread threadId p = None")
  case True
  then show ?thesis
    using select_and_switch_ok [OF assms] assms
    by (auto simp: acquireForSession_def call_assertRunning session_post_def)
next
  case False
  then obtain w where w: "findByThread threadId p = Some w" and run: "\<not> po_stopped p" by auto
  then have f: "w \<in> set (po_workers p)" "w_threadId (obj p w) = Some threadId" "w \<notin> po_retiring p"
    by (auto simp: findByThread_def dest!: find_Some_iff_in)
  have m: "made p w" using assms(1) f(1) by (simp add: pool_inv_def)
  have kept: "pool_run A (session_post p threadId) (seq (call (retain w)) (\<lambda>_. ret w) p sch)"
  proof (cases "retain w p")
    case (Inl e)
    then show ?thesis using assms by (simp add: async_simps session_post_def)
  next
    case (Inr s)
    then show ?thesis
      using assms pool_inv_retain [OF assms(1) Inr] f retain_frame(1) [OF Inr]
      by (simp add: async_simps session_post_def later_def)
  qed
  have replaced: "pool_run A (session_post p threadId)
      (seq (retire w) (\<lambda>_. seq (update scheduleMinimumRecovery) (\<lambda>_. select_and_switch threadId cwd path)) p sch)"
  proof (rule run_ok_seq, rule retire_ok [OF assms m])
    fix u :: unit and s and sch' :: "(istep, reply) schedule"
    assume s: "pool_inv s" "quiet A (marked w p) s \<and> (\<forall>u'. Inr u = Inr u' \<longrightarrow> w \<notin> set (po_workers s))" "sch_ok A sch'"
    then have l: "later p (scheduleMinimumRecovery s)" by (auto simp: later_def quiet_def)
    show "pool_run A (session_post p threadId)
        (seq (update scheduleMinimumRecovery) (\<lambda>_. select_and_switch threadId cwd path) s sch')"
      unfolding seq_sync
      by (rule run_ok_mono [OF select_and_switch_ok [OF _ s(3)]])
        (use l s(1) in \<open>auto simp: session_post_def intro: later_trans\<close>)
  qed (auto simp: session_post_def later_def quiet_def)
  show ?thesis
    using w run kept replaced assms
    by (simp add: acquireForSession_def call_assertRunning sync_statements session_post_def)
qed

text \<open>The background methods.\<close>

lemma maintain_loop_ok:
  assumes "pool_inv p" "sch_ok A sch"
  shows "pool_run A (\<lambda>r s. later p s \<and> po_retired s = po_retired p) (maintain_loop k p sch)"
  using assms
proof (induction k arbitrary: p sch)
  case (Suc k)
  have "pool_run A (\<lambda>r s. later p s \<and> po_retired s = po_retired p)
      (seq (spawn (op_prewarmCwd (po_options p)) False) (\<lambda>_. maintain_loop k) p sch)"
  proof (rule run_ok_seq, rule spawn_ok [OF Suc.prems])
    fix w s and sch' :: "(istep, reply) schedule"
    assume s: "pool_inv s" "spawn_post A (op_prewarmCwd (po_options p)) False p (Inr w) s" "sch_ok A sch'"
    show "pool_run A (\<lambda>r s. later p s \<and> po_retired s = po_retired p) (maintain_loop k s sch')"
      by (rule run_ok_mono [OF Suc.IH [OF s(1,3)]]) (use spawn_post_later [OF s(2)] in \<open>auto intro: later_trans\<close>)
  qed (use spawn_post_later in auto)
  then show ?case using Suc.prems by (simp add: async_simps)
qed simp

lemma maintainMinimum_ok:
  "pool_inv p \<Longrightarrow> sch_ok A sch \<Longrightarrow> pool_run A (\<lambda>r s. later p s \<and> po_retired s = po_retired p) (maintainMinimum p sch)"
  by (simp add: maintainMinimum_def maintain_loop_ok del: maintain_loop.simps)

lemma recover_minimum_ok:
  assumes "pool_inv p" "sch_ok A sch"
  shows "pool_run A (\<lambda>r s. later p s) (recover_minimum p sch)"
  unfolding recover_minimum_def
  by (rule run_ok_try, rule maintainMinimum_ok [OF assms]) (auto simp: async_simps later_def)

lemma reap_loop_ok:
  assumes "pool_inv p" "sch_ok A sch" "\<forall>w \<in> set ws. made p w"
  shows "pool_run A (\<lambda>r s. later p s \<and> (\<exists>new. po_retired s = po_retired p @ new \<and>
      (\<forall>(w, q, n) \<in> set new. w \<in> set ws \<and> q \<and> op_minWorkers (po_options p) < n))) (reap_loop ws p sch)"
  using assms
proof (induction ws arbitrary: p sch)
  case Nil
  then show ?case by (simp add: async_simps)
next
  case (Cons w ws)
  have skip: "pool_run A (\<lambda>r s. later p s \<and> (\<exists>new. po_retired s = po_retired p @ new \<and>
      (\<forall>(v, q, n) \<in> set new. v \<in> set (w # ws) \<and> q \<and> op_minWorkers (po_options p) < n))) (reap_loop ws p sch)"
    by (rule run_ok_mono [OF Cons.IH]) (use Cons.prems in auto)
  show ?case
  proof (cases "op_minWorkers (po_options p) < length (po_workers p) \<and> isReclaimable p w")
    case True
    have m: "made p w" using Cons.prems(3) by simp
    have "pool_run A (\<lambda>r s. later p s \<and> (\<exists>new. po_retired s = po_retired p @ new \<and>
        (\<forall>(v, q, n) \<in> set new. v \<in> set (w # ws) \<and> q \<and> op_minWorkers (po_options p) < n)))
        (seq (retire w) (\<lambda>_. reap_loop ws) p sch)"
    proof (rule run_ok_seq, rule retire_ok [OF Cons.prems(1,2) m])
      fix e :: thrown and s
      assume "pool_inv s" "quiet A (marked w p) s \<and> (\<forall>u. Inl e = Inr u \<longrightarrow> w \<notin> set (po_workers s))"
      then show "later p s \<and> (\<exists>new. po_retired s = po_retired p @ new \<and>
          (\<forall>(v, q, n) \<in> set new. v \<in> set (w # ws) \<and> q \<and> op_minWorkers (po_options p) < n))"
        using True by (auto simp: later_def quiet_def isReclaimable_def)
    next
      fix u :: unit and s and sch' :: "(istep, reply) schedule"
      assume s: "pool_inv s" "quiet A (marked w p) s \<and> (\<forall>u'. Inr u = Inr u' \<longrightarrow> w \<notin> set (po_workers s))" "sch_ok A sch'"
      then have l: "later p s" "po_retired s = po_retired p @ [(w, True, length (po_workers p))]"
          "po_options s = po_options p" "\<forall>v \<in> set ws. made s v"
        using True Cons.prems(3) by (auto simp: later_def quiet_def isReclaimable_def made_def)
      show "pool_run A (\<lambda>r s. later p s \<and> (\<exists>new. po_retired s = po_retired p @ new \<and>
          (\<forall>(v, q, n) \<in> set new. v \<in> set (w # ws) \<and> q \<and> op_minWorkers (po_options p) < n))) (reap_loop ws s sch')"
        by (rule run_ok_mono [OF Cons.IH [OF s(1,3) l(4)]])
          (use l(1-3) True in \<open>auto intro: later_trans intro!: exI\<close>)
    qed
    then show ?thesis using True by simp
  next
    case False
    then show ?thesis using skip Cons.prems by (auto simp: async_simps)
  qed
qed

lemma reapIdleWorkers_ok:
  assumes "pool_inv p" "sch_ok A sch"
  shows "pool_run A (\<lambda>r s. later p s \<and> (\<exists>new. po_retired s = po_retired p @ new \<and>
      (\<forall>(w, q, n) \<in> set new. w \<in> set (reap_candidates p) \<and> q \<and> op_minWorkers (po_options p) < n)))
    (reapIdleWorkers p sch)"
proof (cases "po_stopped p \<or> op_idleTtlMs (po_options p) = 0")
  case True
  then show ?thesis using assms by (auto simp: reapIdleWorkers_def async_simps)
next
  case False
  have m: "\<forall>w \<in> set (reap_candidates p). made p w"
    using assms(1) by (auto simp: reap_candidates_def pool_inv_def)
  have "pool_run A (\<lambda>r s. later p s \<and> (\<exists>new. po_retired s = po_retired p @ new \<and>
      (\<forall>(w, q, n) \<in> set new. w \<in> set (reap_candidates p) \<and> q \<and> op_minWorkers (po_options p) < n)))
      (seq (reap_loop (reap_candidates p)) (\<lambda>_. update scheduleMinimumRecovery) p sch)"
    by (rule run_ok_seq, rule reap_loop_ok [OF assms m]) (auto simp: async_simps later_def)
  then show ?thesis using False by (simp add: reapIdleWorkers_def)
qed

lemma reap_tick_ok:
  assumes "pool_inv p" "sch_ok A sch"
  shows "pool_run A (\<lambda>r s. later p s) (reap_tick p sch)"
  unfolding reap_tick_def
  by (rule run_ok_try, rule reapIdleWorkers_ok [OF assms]) (auto simp: async_simps later_def)

lemma start_ok:
  assumes "pool_inv p" "sch_ok A sch"
  shows "pool_run A (\<lambda>r s. True) (start p sch)"
proof -
  have i: "pool_inv (p\<lparr>po_stopped := False\<rparr>)" by (rule pool_inv_cong [OF assms(1)]) simp_all
  have r: "pool_inv s \<Longrightarrow> pool_inv (s\<lparr>po_reaper := x\<rparr>)" for s x by (erule pool_inv_cong) simp_all
  show ?thesis
    unfolding start_def seq_sync
    by (rule run_ok_seq, rule maintainMinimum_ok [OF i assms(2)]) (auto simp: async_simps r)
qed

lemma fold_stop_sync_frame:
  "pool_inv p \<Longrightarrow> pool_inv (fold stop_sync ws p)" "po_stopped (fold stop_sync ws p) = po_stopped p"
  by (induction ws arbitrary: p) (simp_all add: stop_sync_def)

lemma stopAll_ok:
  assumes "pool_inv p" "sch_ok A sch"
  shows "pool_run A (\<lambda>r s. po_stopped s \<and> (\<forall>u. r = Inr u \<longrightarrow> po_workers s = [])) (stopAll p sch)"
proof -
  let ?p = "fold stop_sync (po_workers (stop_requested p)) (stop_requested p)"
  have i: "pool_inv ?p" "po_stopped ?p"
    using assms(1) by (simp_all add: fold_stop_sync_frame) (simp add: stop_requested_def)
  have e: "pool_inv s \<Longrightarrow> pool_inv (s\<lparr>po_workers := []\<rparr>)" for s by (simp add: pool_inv_def made_def)
  show ?thesis
    unfolding stopAll_def seq_sync
  proof (rule pool_rely.await_seq [where R = po_stopped])
    show "keeps run_istep A pool_inv po_stopped" by (rule keepsI) (rule run_istep_stopped)
    fix x s and sch' :: "(istep, reply) schedule"
    assume "pool_inv s" "po_stopped s" "sch_ok A sch'"
    then show "pool_run A (\<lambda>r s. po_stopped s \<and> (\<forall>u. r = Inr u \<longrightarrow> po_workers s = []))
        (seq (settled x) (\<lambda>_. update (\<lambda>p. p\<lparr>po_workers := []\<rparr>)) s sch')"
      by (cases x) (simp_all add: settled_def async_simps e)
  qed (use i assms(2) in simp_all)
qed

section \<open>The fuel of the minimum loop\<close>

lemma takes_start_checked: "takes 1 (start_checked w)"
proof -
  have "takes 1 (start_worker w)"
    unfolding start_worker_def await_spawn_def
    by (intro takes_seq [OF takes_await])
      (simp split: reply.split add: never_grows_seq)
  then show ?thesis
    unfolding start_checked_def by (rule takes_seq) (intro never_grows_seq, auto)
qed

lemma spawn_takes:
  assumes "spawn cwd r p sch = Finished (Inr w) s sch'"
  shows "length sch' < length sch"
proof -
  let ?w = "worker_id (po_nextWorkerId p)"
  let ?h = "\<lambda>e. seq (update (remove_worker ?w)) (\<lambda>_. seq (try_catch (stop_worker ?w) (\<lambda>_. ret ())) (\<lambda>_. raise e :: unit op))"
  let ?m = "seq (update (create_worker cwd)) (\<lambda>_.
         seq (if r then call (reserveForAssignment ?w) else ret ()) (\<lambda>_.
         seq (try_catch (start_checked ?w) ?h) (\<lambda>_.
         seq (update (\<lambda>p. if r then set_obj ?w (\<lambda>u. u\<lparr>w_state := Assigned\<rparr>) p else p)) (\<lambda>_.
         seq (update (\<lambda>p. emit_event (started_event ?w cwd p) p)) (\<lambda>_.
           ret ?w)))))"
  have "?h e s sch \<noteq> Finished (Inr x) s' sch''" for e s sch x s' sch''
    by (auto simp: seq_def raise_def split: run.splits sum.splits)
  then have "takes 1 (try_catch (start_checked ?w) ?h)"
    by (intro takes_try_raise [OF takes_start_checked]) blast
  then have "takes 1 ?m"
    by (intro takes_after takes_seq never_grows_seq) simp_all
  moreover have "?m p sch = Finished (Inr w) s sch'"
    using assms by (simp add: spawn_def Let_def sync_statements split: if_splits)
  ultimately show ?thesis unfolding takes_def by force
qed

lemma maintain_fuel: "length sch < k \<Longrightarrow> maintain_loop k p sch = maintainMinimum p sch"
proof (induction "length sch" arbitrary: k p sch rule: less_induct)
  case less
  then obtain j where k: "k = Suc j" "length sch \<le> j" by (cases k) auto
  have "maintain_loop j s sch' = maintain_loop (length sch) s sch'"
    if "spawn (op_prewarmCwd (po_options p)) False p sch = Finished (Inr w) s sch'" for w s sch'
    using less.hyps [OF spawn_takes [OF that], of j s] less.hyps [OF spawn_takes [OF that], of "length sch" s]
      spawn_takes [OF that] k(2) by simp
  then show ?case
    by (auto simp: k maintainMinimum_def seq_def split: run.splits sum.splits)
qed

lemma maintain_loop_done:
  assumes "maintain_loop k p sch = Finished (Inr u) s sch'"
  shows "po_stopped s \<or> po_recoveryTimer s \<or> min_target s \<le> length (po_workers s)"
  using assms
proof (induction k arbitrary: p sch)
  case (Suc k)
  then show ?case
    by (auto simp: seq_def sync_statements split: if_splits run.splits sum.splits)
qed simp

end
