(* ===== verification/Worker_Pool_Held.thy ===== *)
theory Worker_Pool_Held
  imports Worker_Pool_Props
begin

text \<open>
  A worker that is held: it has a reservation that nobody releases. The contract \<open>interference\<close> is
  interpreted on \<open>held w\<close>, which every step of other code but a release of \<open>w\<close> keeps; every method of the
  pool keeps it too, at each of its awaits and at its end, and none of them returns \<open>w\<close>.
\<close>

section \<open>Held workers\<close>

definition no_release :: "string \<Rightarrow> istep \<Rightarrow> bool" where
  "no_release w i \<longleftrightarrow> (\<forall>t. i \<noteq> SRelease w t)"

definition held :: "string \<Rightarrow> pool \<Rightarrow> bool" where
  "held w p \<longleftrightarrow> pool_inv p \<and> made p w \<and> w \<notin> po_retiring p \<and> 1 \<le> po_reservations p w"

lemma heldD: "held w p \<Longrightarrow> pool_inv p"
  by (simp add: held_def)

lemma held_not_quiescent: "held w p \<Longrightarrow> \<not> isQuiescent p w"
  by (auto simp: held_def isQuiescent_def)

lemma held_not_reclaimable: "held w p \<Longrightarrow> \<not> isReclaimable p w"
  by (simp add: isReclaimable_def held_not_quiescent)

lemma held_not_next: "held w p \<Longrightarrow> worker_id (po_nextWorkerId p) \<noteq> w"
  using not_made_next [of p] by (auto simp: held_def)

lemma held_cong:
  assumes "held w p" "pool_inv p'" "po_nextWorkerId p \<le> po_nextWorkerId p'" "w \<notin> po_retiring p'"
    and "po_reservations p w \<le> po_reservations p' w"
  shows "held w p'"
  using assms by (auto simp: held_def intro: made_mono)

lemma held_updates [simp]:
  assumes "held w p"
  shows "held w (set_obj v f p)" "held w (emit_event d p)" "held w (scheduleMinimumRecovery p)" "held w (send_command v c p)"
    "held w (command_done v p)" "held w (stop_sync v p)" "held w (stop_requested p)" "held w (remove_worker v p)"
    "held w (version_probed v t p)" "held w (child_created v p)" "held w (child_spawned v p)" "v \<noteq> w \<Longrightarrow> held w (release v t' p)"
  by (rule held_cong [OF assms]; use assms in \<open>simp add: held_def version_probed_def child_created_def child_spawned_def
      send_command_def command_done_def stop_sync_def stop_requested_def\<close>;
      use assms in \<open>simp add: held_def pool_inv_def made_def\<close>)+

lemma held_istep:
  assumes "no_release w i" "held w p"
  shows "held w (run_istep i p)"
proof (rule held_cong [OF assms(2) pool_inv_istep [OF heldD [OF assms(2)]]])
  show "po_reservations p w \<le> po_reservations (run_istep i p) w"
    using quiet_istep [of "no_release w" i p] assms(1) by (simp add: quiet_def no_release_def)
qed (use assms(2) in \<open>simp_all add: held_def\<close>)

interpretation held: interference run_istep "no_release w" "held w" for w
  by unfold_locales (rule held_istep)

abbreviation held_run where
  "held_run w Q r \<equiv> run_ok (no_release w) (held w) Q r"

lemma held_await:
  assumes "held w p" "sch_ok (no_release w) sch"
    and "\<And>x s sch. held w s \<Longrightarrow> sch_ok (no_release w) sch \<Longrightarrow> held_run w Q (f x s sch)"
  shows "held_run w Q (seq (await run_istep) f p sch)"
  by (rule held.await_seq [where R = "\<lambda>_. True"]) (use assms in \<open>simp_all add: keeps_def\<close>)

text \<open>What the invariant of the pool gives of a run can be added.\<close>

lemma held_also:
  assumes "held_run w Q r" "run_ok (no_release w) pool_inv Q' r"
  shows "held_run w (\<lambda>x s. Q x s \<and> Q' x s) r"
  using assms by (cases r) auto

section \<open>The methods\<close>

abbreviation anything :: "'a result \<Rightarrow> pool \<Rightarrow> bool" where
  "anything \<equiv> \<lambda>_ _. True"

lemma stop_worker_held: "held w p \<Longrightarrow> sch_ok (no_release w) sch \<Longrightarrow> held_run w anything (stop_worker v p sch)"
  unfolding stop_worker_def seq_sync by (rule held_await) (simp_all add: settled_eq)

lemma start_worker_held:
  assumes "held w p" "sch_ok (no_release w) sch"
  shows "held_run w anything (start_worker v p sch)"
  unfolding start_worker_def
proof (rule held_await [OF assms])
  fix r s and sch' :: "(istep, reply) schedule"
  assume s: "held w s" "sch_ok (no_release w) sch'"
  have spawned: "held_run w anything (await_spawn v (version_probed v t s) sch')" for t
    unfolding await_spawn_def seq_sync
    by (rule held_await) (use s in \<open>auto simp: async_simps split: reply.splits\<close>)
  show "held_run w anything ((case r of RError e \<Rightarrow> raise e
      | _ \<Rightarrow> seq (update (version_probed v (version_of r))) (\<lambda>_.
          if \<not> isSupportedPiVersion (version_of r) then raise (unsupported_version (version_of r)) else await_spawn v)) s sch')"
    using s spawned by (cases r) (auto simp: async_simps)
qed

lemma run_command_held: "held w p \<Longrightarrow> sch_ok (no_release w) sch \<Longrightarrow> held_run w anything (run_command v c p sch)"
  unfolding run_command_def seq_sync by (rule held_await) (auto simp: async_simps split: reply.splits)

lemma retire_held:
  assumes "held w p" "sch_ok (no_release w) sch" "made p v" "v \<noteq> w"
  shows "held_run w anything (retire v p sch)"
proof -
  have m: "held w (marked v p)"
    by (rule held_cong [OF assms(1)]) (use assms in \<open>auto simp: held_def pool_inv_def made_def\<close>)
  show ?thesis
    unfolding retire_def seq_sync marked_def [symmetric]
    by (rule run_ok_seq, rule stop_worker_held [OF m assms(2)]) (auto simp: async_simps)
qed

lemma spawn_held:
  assumes "held w p" "sch_ok (no_release w) sch"
  shows "held_run w (\<lambda>x s. x \<noteq> Inr w) (spawn cwd reserve p sch)"
proof -
  consider "po_stopped p" | "\<not> po_stopped p" "op_maxWorkers (po_options p) \<le> length (po_workers p)"
    | "\<not> po_stopped p" "length (po_workers p) < op_maxWorkers (po_options p)" by linarith
  then show ?thesis
  proof cases
    case 3
    let ?v = "worker_id (po_nextWorkerId p)" and ?q = "created cwd reserve p"
    let ?h = "\<lambda>e. seq (update (remove_worker ?v)) (\<lambda>_. seq (try_catch (stop_worker ?v) (\<lambda>_. ret ())) (\<lambda>_. raise e :: unit op))"
    note v = held_not_next [OF assms(1)]
    have q: "held w ?q"
      by (rule held_cong [OF assms(1) pool_inv_created [OF heldD [OF assms(1)] 3(2)]])
        (use assms(1) in \<open>auto simp: held_def\<close>)
    have checked: "held_run w anything (start_checked ?v ?q sch)"
      unfolding start_checked_def by (rule run_ok_seq, rule start_worker_held [OF q assms(2)]) (auto simp: async_simps)
    have handler: "held_run w anything (?h e s sch')" if "held w s" "sch_ok (no_release w) sch'" for e s sch'
      unfolding seq_sync
      by (rule run_ok_seq [where R = anything], rule run_ok_try, rule stop_worker_held) (use that in \<open>auto simp: async_simps\<close>)
    have body: "held_run w anything (try_catch (start_checked ?v) ?h ?q sch)"
      by (rule run_ok_try, rule checked) (auto intro: handler)
    have "spawn cwd reserve p sch =
        seq (try_catch (start_checked ?v) ?h) (\<lambda>_.
        seq (update (\<lambda>p. if reserve then set_obj ?v (\<lambda>u. u\<lparr>w_state := Assigned\<rparr>) p else p)) (\<lambda>_.
        seq (update (\<lambda>p. emit_event (started_event ?v cwd p) p)) (\<lambda>_.
          ret ?v))) ?q sch"
      using 3 reserve_created [OF heldD [OF assms(1)] 3(1), of cwd]
      by (cases reserve) (simp_all add: spawn_def Let_def seq_sync created_def)
    then show ?thesis
      by (simp only:) (rule run_ok_seq, rule body, use v in \<open>auto simp: async_simps\<close>)
  qed (use assms in \<open>simp_all add: spawn_def async_simps\<close>)
qed

lemma spawn_or_recover_held:
  "held w p \<Longrightarrow> sch_ok (no_release w) sch \<Longrightarrow> held_run w (\<lambda>x s. x \<noteq> Inr w) (spawn_or_recover cwd p sch)"
  unfolding spawn_or_recover_def by (rule run_ok_try, rule spawn_held) (auto simp: async_simps)

lemma selectWorker_held:
  assumes "held w p" "sch_ok (no_release w) sch"
  shows "held_run w (\<lambda>x s. x \<noteq> Inr w) (selectWorker cwd p sch)"
proof (cases "List.find (\<lambda>w. w_cwd (obj p w) = cwd) (candidates p)")
  case (Some v)
  then have v: "v \<in> set (po_workers p)" "isReclaimable p v" by (auto simp: candidates_def dest: find_Some_iff_in)
  then have m: "made p v" "v \<noteq> w" using assms(1) held_not_reclaimable by (auto simp: held_def pool_inv_def)
  show ?thesis
  proof (cases "reserveForAssignment v p")
    case (Inl e)
    then show ?thesis using Some assms by (simp add: selectWorker_def async_simps)
  next
    case (Inr s)
    note r = reserve_frame [OF Inr]
    have "held w s"
      by (rule held_cong [OF assms(1)]) (use assms(1) m in \<open>auto simp: r(3) held_def pool_inv_def made_def\<close>)
    then show ?thesis using Some Inr assms(2) m(2) by (simp add: selectWorker_def async_simps)
  qed
next
  case None
  show ?thesis
  proof (cases "victim p")
    case (Some v)
    note v = victim_Some [OF Some]
    have m: "made p v" "v \<noteq> w" using assms(1) v held_not_reclaimable by (auto simp: held_def pool_inv_def)
    have "held_run w (\<lambda>x s. x \<noteq> Inr w) (seq (retire v) (\<lambda>_. spawn_or_recover cwd) p sch)"
      by (rule run_ok_seq, rule retire_held [OF assms m]) (auto intro: spawn_or_recover_held)
    then show ?thesis using None Some spawn_or_recover_held [OF assms] by (simp add: selectWorker_def)
  qed (use None assms spawn_or_recover_held in \<open>simp add: selectWorker_def async_simps\<close>)
qed

lemma switch_worker_held:
  assumes "held w p" "sch_ok (no_release w) sch" "made p v" "v \<noteq> w"
  shows "held_run w anything (switch_worker threadId path v p sch)"
  unfolding switch_worker_def
proof (rule run_ok_try)
  have state: "held_run w anything (seq (get_state v) (\<lambda>state.
       if jget state ''sessionId'' \<noteq> JStr threadId
       then raise (DaemonError PiRpcError ''Pi resumed a different session than requested''
              (Some [(''threadId'', JStr threadId), (''sessionId'', jget state ''sessionId''), (''sessionPath'', JStr path)]))
       else update (set_obj v (\<lambda>u. u\<lparr>w_threadId := Some threadId\<rparr>))) s sch')"
    if "held w s" "sch_ok (no_release w) sch'" for s sch'
    by (rule run_ok_seq [where R = anything])
      (unfold get_state_def, rule run_ok_seq, rule run_command_held [OF that], auto simp: async_simps)
  have "held_run w anything (switch_session threadId path v p sch)"
    unfolding switch_session_def
    by (rule run_ok_seq, rule run_command_held [OF assms(1,2)]) (auto simp: assertNotCancelled_def async_simps state)
  from held_also [OF this switch_session_ok [OF heldD [OF assms(1)] assms(2)]]
  show "held_run w (\<lambda>x s. made s v) (switch_session threadId path v p sch)"
    by (rule run_ok_mono) (use assms(3) in \<open>auto simp: quiet_def made_def\<close>)
next
  fix e s and sch' :: "(istep, reply) schedule"
  assume s: "held w s" "made s v" "sch_ok (no_release w) sch'"
  have "made (release v None s) v" using s(2) by (simp add: made_def)
  have release: "held_run w anything (seq (retire v) (\<lambda>_. seq (update scheduleMinimumRecovery) (\<lambda>_. raise e)) (release v None s) sch')"
    by (rule run_ok_seq, rule retire_held) (use s assms(4) \<open>made (release v None s) v\<close> in \<open>auto simp: async_simps\<close>)
  with s assms(4) show "held_run w anything (switch_failed v e s sch')"
    using release by (auto simp: switch_failed_def async_simps seq_assoc)
qed auto

lemma select_and_switch_held:
  assumes "held w p" "sch_ok (no_release w) sch"
  shows "held_run w (\<lambda>x s. x \<noteq> Inr w) (select_and_switch threadId cwd path p sch)"
proof -
  have switched: "held_run w (\<lambda>x s. x \<noteq> Inr w) (seq (switch_worker threadId path v) (\<lambda>_. ret v) s sch')"
    if "held w s" "sch_ok (no_release w) sch'" "made s v" "v \<noteq> w" for v s sch'
    by (rule run_ok_seq, rule switch_worker_held [OF that]) (use that in \<open>auto simp: async_simps\<close>)
  show ?thesis
  unfolding select_and_switch_def
  by (rule run_ok_seq, rule held_also [OF selectWorker_held [OF assms] selectWorker_ok [OF heldD [OF assms(1)] assms(2)]])
    (auto simp: select_post_def acquired_def switched)
qed

lemma acquireForNew_held:
  assumes "held w p" "sch_ok (no_release w) sch"
  shows "held_run w (\<lambda>x s. x \<noteq> Inr w) (acquireForNew cwd p sch)"
  using selectWorker_held [OF assms] assms by (simp add: acquireForNew_def call_assertRunning)

lemma acquireForSession_held:
  assumes "held w p" "sch_ok (no_release w) sch"
  shows "held_run w (\<lambda>x s. x \<noteq> Inr w) (acquireForSession threadId cwd path p sch)"
proof (cases "po_stopped p \<or> findByThread threadId p = None")
  case True
  then show ?thesis using select_and_switch_held [OF assms] assms by (auto simp: acquireForSession_def call_assertRunning)
next
  case False
  then obtain v where v: "findByThread threadId p = Some v" and run: "\<not> po_stopped p" by auto
  then have m: "made p v" using assms(1) by (auto simp: findByThread_def held_def pool_inv_def dest!: find_Some_iff_in)
  show ?thesis
  proof (cases "v = w")
    case True
    then show ?thesis
      using v run assms held_not_quiescent by (simp add: acquireForSession_def call_assertRunning sync_statements)
  next
    case neq: False
    have kept: "held_run w (\<lambda>x s. x \<noteq> Inr w) (seq (call (retain v)) (\<lambda>_. ret v) p sch)"
    proof (cases "retain v p")
      case (Inr s)
      have "held w s"
        by (rule held_cong [OF assms(1) pool_inv_retain [OF heldD [OF assms(1)] Inr]])
          (use assms(1) retain_frame(1) [OF Inr] in \<open>auto simp: held_def\<close>)
      with neq assms(2) Inr show ?thesis by (simp add: async_simps)
    qed (use assms in \<open>simp add: async_simps\<close>)
    have replaced: "held_run w (\<lambda>x s. x \<noteq> Inr w)
        (seq (retire v) (\<lambda>_. seq (update scheduleMinimumRecovery) (\<lambda>_. select_and_switch threadId cwd path)) p sch)"
      by (rule run_ok_seq, rule retire_held [OF assms m neq]) (auto simp: async_simps intro: select_and_switch_held)
    show ?thesis
      using v run kept replaced assms by (simp add: acquireForSession_def call_assertRunning sync_statements)
  qed
qed

lemma maintain_loop_held:
  "held w p \<Longrightarrow> sch_ok (no_release w) sch \<Longrightarrow> held_run w anything (maintain_loop k p sch)"
proof (induction k arbitrary: p sch)
  case (Suc k)
  have "held_run w anything (seq (spawn (op_prewarmCwd (po_options p)) False) (\<lambda>_. maintain_loop k) p sch)"
    by (rule run_ok_seq, rule spawn_held [OF Suc.prems]) (auto intro: Suc.IH)
  then show ?case using Suc.prems by (simp add: async_simps)
qed simp

lemma maintainMinimum_held:
  "held w p \<Longrightarrow> sch_ok (no_release w) sch \<Longrightarrow> held_run w anything (maintainMinimum p sch)"
  by (simp add: maintainMinimum_def maintain_loop_held del: maintain_loop.simps)

lemma recover_minimum_held: "held w p \<Longrightarrow> sch_ok (no_release w) sch \<Longrightarrow> held_run w anything (recover_minimum p sch)"
  unfolding recover_minimum_def by (rule run_ok_try, rule maintainMinimum_held) (auto simp: async_simps)

lemma reap_loop_held:
  "held w p \<Longrightarrow> sch_ok (no_release w) sch \<Longrightarrow> \<forall>v \<in> set ws. made p v \<Longrightarrow> held_run w anything (reap_loop ws p sch)"
proof (induction ws arbitrary: p sch)
  case (Cons v ws)
  show ?case
  proof (cases "op_minWorkers (po_options p) < length (po_workers p) \<and> isReclaimable p v")
    case True
    then have v: "made p v" "v \<noteq> w" using Cons.prems held_not_reclaimable by auto
    have "held_run w anything (seq (retire v) (\<lambda>_. reap_loop ws) p sch)"
      by (rule run_ok_seq, rule held_also [OF retire_held [OF Cons.prems(1,2) v] retire_ok [OF heldD [OF Cons.prems(1)] Cons.prems(2) v(1)]])
        (use Cons.prems(3) in \<open>auto intro!: Cons.IH simp: quiet_def made_def\<close>)
    then show ?thesis using True by simp
  next
    case False
    then show ?thesis using Cons by (auto simp: async_simps)
  qed
qed (simp add: async_simps)

lemma reap_tick_held:
  assumes "held w p" "sch_ok (no_release w) sch"
  shows "held_run w anything (reap_tick p sch)"
  unfolding reap_tick_def
proof (rule run_ok_try [where R = anything])
  have m: "\<forall>v \<in> set (reap_candidates p). made p v"
    using assms(1) by (auto simp: reap_candidates_def held_def pool_inv_def)
  have "held_run w anything (seq (reap_loop (reap_candidates p)) (\<lambda>_. update scheduleMinimumRecovery) p sch)"
    by (rule run_ok_seq, rule reap_loop_held [OF assms m]) (auto simp: async_simps)
  then show "held_run w anything (reapIdleWorkers p sch)" using assms by (simp add: reapIdleWorkers_def async_simps)
qed (auto simp: async_simps)

lemma start_held:
  assumes "held w p" "sch_ok (no_release w) sch"
  shows "held_run w anything (start p sch)"
proof -
  have h: "held w (p\<lparr>po_stopped := b\<rparr>)" "held w (q\<lparr>po_reaper := x\<rparr>)" if "held w p" "held w q" for b x p q
    using that by (simp_all add: held_def pool_inv_def made_def)
  show ?thesis
    unfolding start_def seq_sync
    by (rule run_ok_seq, rule maintainMinimum_held) (use assms in \<open>auto simp: async_simps h\<close>)
qed

lemma stopAll_held:
  assumes "held w p" "sch_ok (no_release w) sch"
  shows "held_run w anything (stopAll p sch)"
proof -
  have "held w (fold stop_sync vs q)" if "held w q" for vs q using that by (induction vs arbitrary: q) simp_all
  moreover have "held w (s\<lparr>po_workers := []\<rparr>)" if "held w s" for s using that by (simp add: held_def pool_inv_def made_def)
  ultimately show ?thesis
    unfolding stopAll_def seq_sync
    by (intro held_await) (use assms in \<open>auto simp: settled_def async_simps split: reply.splits\<close>)
qed

section \<open>Acquiring gives a reservation\<close>

text \<open>What the caller of either acquisition gets, unless somebody else releases it meanwhile.\<close>

definition gives_hold :: "(istep \<Rightarrow> bool) \<Rightarrow> string result \<Rightarrow> pool \<Rightarrow> bool" where
  "gives_hold A x s \<longleftrightarrow> (\<forall>w. x = Inr w \<longrightarrow> (\<forall>t. \<not> A (SRelease w t)) \<longrightarrow> made s w \<and> w \<notin> po_retiring s \<and> 1 \<le> po_reservations s w)"

lemma acquireForNew_gives_hold:
  "pool_inv p \<Longrightarrow> sch_ok A sch \<Longrightarrow> pool_run A (gives_hold A) (acquireForNew cwd p sch)"
  by (rule run_ok_mono, rule acquireForNew_ok) (auto simp: gives_hold_def select_post_def acquired_def)

lemma switch_worker_quiet:
  assumes "pool_inv p" "sch_ok A sch" "made p w"
  shows "pool_run A (\<lambda>x s. \<forall>u. x = Inr u \<longrightarrow> quiet A p s) (switch_worker threadId path w p sch)"
  unfolding switch_worker_def
proof (rule run_ok_try, rule switch_session_ok [OF assms(1,2)])
  fix e :: thrown and s and sch' :: "(istep, reply) schedule"
  assume s: "pool_inv s" "quiet A p s \<and> (\<forall>u. Inl e = Inr u \<longrightarrow> w_threadId (obj s w) = Some threadId)" "sch_ok A sch'"
  then have "made s w" using assms(3) by (auto simp: made_def quiet_def)
  from switch_failed_ok [OF s(1,3) this, of e]
  show "pool_run A (\<lambda>x s. \<forall>u. x = Inr u \<longrightarrow> quiet A p s) (switch_failed w e s sch')" by (rule run_ok_mono) auto
qed auto

lemma select_and_switch_gives_hold:
  assumes "pool_inv p" "sch_ok A sch"
  shows "pool_run A (gives_hold A) (select_and_switch threadId cwd path p sch)"
  unfolding select_and_switch_def
proof (rule run_ok_seq, rule selectWorker_ok [OF assms])
  fix w s and sch' :: "(istep, reply) schedule"
  assume s: "pool_inv s" "select_post A p (Inr w) s" "sch_ok A sch'"
  then have a: "acquired A p w s" "made s w" by (simp_all add: select_post_def acquired_def)
  have "gives_hold A (Inr w) t" if "quiet A s t" for t
    using a(1) that by (fastforce simp: gives_hold_def acquired_def quiet_def made_def)
  note hold = this
  show "pool_run A (gives_hold A) (seq (switch_worker threadId path w) (\<lambda>_. ret w) s sch')"
    by (rule run_ok_seq, rule switch_worker_quiet [OF s(1,3) a(2)]) (use hold in \<open>auto simp: async_simps gives_hold_def\<close>)
qed (auto simp: gives_hold_def)

lemma acquireForSession_gives_hold:
  assumes "pool_inv p" "sch_ok A sch"
  shows "pool_run A (gives_hold A) (acquireForSession threadId cwd path p sch)"
proof (cases "po_stopped p \<or> findByThread threadId p = None")
  case True
  then show ?thesis
    using select_and_switch_gives_hold [OF assms] assms by (auto simp: acquireForSession_def call_assertRunning gives_hold_def)
next
  case False
  then obtain w where w: "findByThread threadId p = Some w" and run: "\<not> po_stopped p" by auto
  then have m: "made p w" "w \<notin> po_retiring p" using assms(1) by (auto simp: findByThread_def pool_inv_def dest!: find_Some_iff_in)
  have kept: "pool_run A (gives_hold A) (seq (call (retain w)) (\<lambda>_. ret w) p sch)"
  proof (cases "retain w p")
    case (Inr s)
    with m pool_inv_retain [OF assms(1) Inr] retain_frame(1) [OF Inr] assms(2) show ?thesis
      by (simp add: async_simps gives_hold_def made_def)
  qed (use assms in \<open>simp add: async_simps gives_hold_def\<close>)
  have replaced: "pool_run A (gives_hold A)
      (seq (retire w) (\<lambda>_. seq (update scheduleMinimumRecovery) (\<lambda>_. select_and_switch threadId cwd path)) p sch)"
    by (rule run_ok_seq, rule retire_ok [OF assms m(1)])
      (auto simp: async_simps gives_hold_def intro!: select_and_switch_gives_hold)
  show ?thesis
    using w run kept replaced assms by (simp add: acquireForSession_def call_assertRunning sync_statements gives_hold_def)
qed

end
