(* ===== verification/Worker_Pool_Theorems.thy ===== *)
theory Worker_Pool_Theorems
  imports Worker_Pool_Held
begin

text \<open>
  The properties of the worker pool, for every pool reached by its methods and by the steps of
  the other code, under every schedule; and a concrete pool that the witnesses run.
\<close>

section \<open>Reachable pools\<close>

datatype pool_method = AcquireNew string | AcquireSession string string string | StartPool | ReapTick | RecoverTick | StopPool

fun state_of :: "(pool, istep, reply, 'a) run \<Rightarrow> pool" where
  "state_of (Waiting s) = s"
| "state_of (Finished r s sch) = s"

fun run_method :: "pool_method \<Rightarrow> pool \<Rightarrow> (istep, reply) schedule \<Rightarrow> pool" where
  "run_method (AcquireNew cwd) p sch = state_of (acquireForNew cwd p sch)"
| "run_method (AcquireSession t cwd path) p sch = state_of (acquireForSession t cwd path p sch)"
| "run_method StartPool p sch = state_of (start p sch)"
| "run_method ReapTick p sch = state_of (reap_tick p sch)"
| "run_method RecoverTick p sch = state_of (recover_minimum p sch)"
| "run_method StopPool p sch = state_of (stopAll p sch)"

inductive pool_reach :: "pool \<Rightarrow> bool" where
  created: "pool_reach (new_pool opts canReclaim now)"
| step: "pool_reach p \<Longrightarrow> pool_reach (run_istep i p)"
| run: "pool_reach p \<Longrightarrow> pool_reach (run_method m p sch)"

lemma run_ok_state: "run_ok A I Q r \<Longrightarrow> I (state_of r)"
  by (cases r) auto

lemma pool_inv_method:
  assumes "pool_inv p"
  shows "pool_inv (run_method m p sch)"
  using run_ok_state [OF acquireForNew_ok [OF assms sch_ok_True]] run_ok_state [OF acquireForSession_ok [OF assms sch_ok_True]]
    run_ok_state [OF start_ok [OF assms sch_ok_True]] run_ok_state [OF reap_tick_ok [OF assms sch_ok_True]]
    run_ok_state [OF recover_minimum_ok [OF assms sch_ok_True]] run_ok_state [OF stopAll_ok [OF assms sch_ok_True]]
  by (cases m) simp_all

lemma pool_inv_reach: "pool_reach p \<Longrightarrow> pool_inv p"
proof (induction rule: pool_reach.induct)
  case (created opts canReclaim now)
  show ?case by (simp add: new_pool_def pool_inv_def)
qed (simp_all add: pool_inv_istep pool_inv_method)

section \<open>Properties\<close>

text \<open>
  C8. The pool never holds more workers than \<open>maxWorkers\<close>, at no await of any method and under
  no interleaving with the service, the worker processes and the timers; no worker is in it twice,
  and the recovery delay stays between one second and thirty.
\<close>

theorem capacity_never_exceeded:
  assumes "pool_reach p"
  shows "length (po_workers p) \<le> op_maxWorkers (po_options p) \<and> distinct (po_workers p) \<and>
     1000 \<le> po_recoveryDelayMs p \<and> po_recoveryDelayMs p \<le> 30000"
  using pool_inv_reach [OF assms] by (simp add: pool_inv_def)

text \<open>
  The pools that follow while nobody releases \<open>w\<close>: other code takes its steps and the methods of the
  pool run, under any schedule without a release of \<open>w\<close>.
\<close>

inductive while_held :: "string \<Rightarrow> pool \<Rightarrow> pool \<Rightarrow> bool" for w where
  now: "while_held w s s"
| step: "while_held w s q \<Longrightarrow> no_release w i \<Longrightarrow> while_held w s (run_istep i q)"
| run: "while_held w s q \<Longrightarrow> sch_ok (no_release w) sch \<Longrightarrow> while_held w s (run_method m q sch)"

lemma held_method:
  assumes "held w p" "sch_ok (no_release w) sch"
  shows "held w (run_method m p sch)"
  using run_ok_state [OF acquireForNew_held [OF assms]] run_ok_state [OF acquireForSession_held [OF assms]]
    run_ok_state [OF start_held [OF assms]] run_ok_state [OF reap_tick_held [OF assms]]
    run_ok_state [OF recover_minimum_held [OF assms]] run_ok_state [OF stopAll_held [OF assms]]
  by (cases m) simp_all

lemma while_held_held: "while_held w s q \<Longrightarrow> held w s \<Longrightarrow> held w q"
  by (induction rule: while_held.induct) (auto intro: held_istep held_method)

text \<open>
  C9. An acquired worker is exclusive for as long as it is not released, whether it was acquired for a
  new thread or for a session: in every pool that follows, through any calls of the pool's methods and
  steps of the other code, it holds a reservation and is not being retired, so that neither the
  next selection nor eviction nor the reaper can choose it, and no acquisition returns it.
\<close>

theorem acquired_worker_is_exclusive:
  assumes "pool_reach p" "acquireForNew cwd p sch = Finished (Inr w) s sch' \<or> acquireForSession threadId cwd path p sch = Finished (Inr w) s sch'"
    and "sch_ok (no_release w) sch" "while_held w s q"
  shows "1 \<le> po_reservations q w \<and> w \<notin> po_retiring q \<and>
     w \<notin> set (candidates q) \<and> victim q \<noteq> Some w \<and> w \<notin> set (reap_candidates q) \<and>
     (\<forall>cwd2 sch2 v t sch3. sch_ok (no_release w) sch2 \<and> acquireForNew cwd2 q sch2 = Finished (Inr v) t sch3 \<longrightarrow> v \<noteq> w) \<and>
     (\<forall>id2 cwd2 path2 sch2 v t sch3. sch_ok (no_release w) sch2 \<and>
        acquireForSession id2 cwd2 path2 q sch2 = Finished (Inr v) t sch3 \<longrightarrow> v \<noteq> w)"
proof -
  have inv: "pool_inv p" by (rule pool_inv_reach [OF assms(1)])
  have "held w s"
    using assms(2) acquireForNew_gives_hold [OF inv assms(3), of cwd] acquireForSession_gives_hold [OF inv assms(3), of threadId cwd path]
    by (auto simp: gives_hold_def held_def no_release_def)
  with assms(4) have q: "held w q" by (rule while_held_held)
  have new: "v \<noteq> w" if "sch_ok (no_release w) sch2" "acquireForNew cwd2 q sch2 = Finished (Inr v) t sch3" for cwd2 sch2 v t sch3
    using acquireForNew_held [OF q that(1), of cwd2] that(2) by simp
  have session: "v \<noteq> w" if "sch_ok (no_release w) sch2" "acquireForSession id2 cwd2 path2 q sch2 = Finished (Inr v) t sch3"
    for id2 cwd2 path2 sch2 v t sch3
    using acquireForSession_held [OF q that(1), of id2 cwd2 path2] that(2) by simp
  have free: "1 \<le> po_reservations q w" "w \<notin> po_retiring q" "w \<notin> set (candidates q)" "victim q \<noteq> Some w" "w \<notin> set (reap_candidates q)"
    using q held_not_reclaimable [OF q] victim_Some(2) [of q w] by (auto simp: held_def candidates_def reap_candidates_def)
  show ?thesis
    by (intro conjI free allI impI; elim conjE) ((rule new; assumption), (rule session; assumption))
qed

text \<open>
  With \<open>reuseAcrossThreads\<close> set to false no worker ever serves two threads: the worker an
  acquisition hands out was never claimed by an earlier one.
\<close>

theorem no_reuse_across_threads:
  assumes "pool_reach p" "op_reuseAcrossThreads (po_options p) = Some False"
    and "acquireForNew cwd p sch = Finished (Inr w) s sch'"
  shows "w \<notin> po_claimed p \<and> w \<in> po_claimed s"
proof -
  from acquireForNew_ok [OF pool_inv_reach [OF assms(1)] sch_ok_True, of cwd sch] assms(3)
  have "acquired (\<lambda>_. True) p w s" by (simp add: select_post_def)
  with assms(2) show ?thesis by (simp add: acquired_def)
qed

text \<open>
  A worker returned for a session has that session: the pool has it assigned to the thread,
  which Pi confirmed or which it was assigned to before, and it is not being retired.
\<close>

theorem session_worker_has_session:
  assumes "pool_reach p" "acquireForSession threadId cwd path p sch = Finished (Inr w) s sch'"
  shows "w_threadId (obj s w) = Some threadId \<and> w \<notin> po_retiring s"
  using acquireForSession_ok [OF pool_inv_reach [OF assms(1)] sch_ok_True, of threadId cwd path sch] assms(2)
  by (simp add: session_post_def)

text \<open>
  After a failed switch of session the worker is not used again: it is being retired or its
  process is gone, so it is not found for any thread and cannot be selected.
\<close>

theorem failed_switch_not_reused:
  assumes "pool_reach p" "w \<in> set (po_workers p)"
    and "switch_worker threadId path w p sch = Finished (Inl e) s sch'"
  shows "findByThread t s \<noteq> Some w \<and> w \<notin> set (candidates s) \<and> victim s \<noteq> Some w"
proof -
  have inv: "pool_inv p" by (rule pool_inv_reach [OF assms(1)])
  then have "made p w" using assms(2) by (simp add: pool_inv_def)
  from switch_worker_ok [OF inv sch_ok_True this, of threadId path sch] assms(3)
  have u: "w \<in> po_retiring s \<or> isUnavailableWorker (obj s w)" by (simp add: switch_post_def)
  then have "\<not> isReclaimable s w" by (auto simp: isReclaimable_def isQuiescent_def isUnavailableWorker_def)
  moreover have "findByThread t s \<noteq> Some w"
    using u by (auto simp: findByThread_def dest!: find_Some_iff_in)
  ultimately show ?thesis using victim_Some(2) [of s w] by (auto simp: candidates_def)
qed

text \<open>
  Retiring is final: a worker once marked is still marked after any acquisition, whether it
  succeeds or fails, and it is not the worker the acquisition returns.
\<close>

theorem retired_never_returns:
  assumes "pool_reach p" "v \<in> po_retiring p"
    and "acquireForSession threadId cwd path p sch = Finished r s sch' \<or> acquireForNew cwd p sch = Finished r s sch'"
  shows "v \<in> po_retiring s \<and> r \<noteq> Inr v"
proof -
  have inv: "pool_inv p" by (rule pool_inv_reach [OF assms(1)])
  have "later p s \<and> (\<forall>w. r = Inr w \<longrightarrow> w \<notin> po_retiring s)"
    using assms(3) acquireForSession_ok [OF inv sch_ok_True, of threadId cwd path sch]
      acquireForNew_ok [OF inv sch_ok_True, of cwd sch]
    by (auto simp: session_post_def select_post_def acquired_def)
  with assms(2) show ?thesis by (auto simp: later_def)
qed

text \<open>
  Acquiring a worker evicts at most one, only when the pool is full, and the one evicted is
  quiescent, reclaimable and the least recently used of those.
\<close>

theorem eviction_is_lru:
  assumes "pool_reach p" "acquireForNew cwd p sch = Finished r s sch'" "po_retired s \<noteq> po_retired p"
  shows "\<exists>v n. po_retired s = po_retired p @ [(v, True, n)] \<and> op_maxWorkers (po_options p) \<le> n \<and>
     v \<in> set (po_workers p) \<and> isReclaimable p v \<and>
     (\<forall>u \<in> set (po_workers p). isReclaimable p u \<longrightarrow> w_lastUsedAt (obj p v) \<le> w_lastUsedAt (obj p u))"
proof -
  have "select_post (\<lambda>_. True) p r s"
    using acquireForNew_ok [OF pool_inv_reach [OF assms(1)] sch_ok_True, of cwd sch] assms(2) by simp
  with assms(3) obtain v n where v: "victim p = Some v" "op_maxWorkers (po_options p) \<le> n"
      "po_retired s = po_retired p @ [(v, True, n)]"
    by (auto simp: select_post_def)
  show ?thesis using v(2,3) victim_Some [OF v(1)] by blast
qed

text \<open>
  The reaper retires only workers that had been idle for the time to live when it started,
  each quiescent at the moment it is retired and none while the pool is at its minimum.
\<close>

theorem reaper_spares_minimum:
  assumes "pool_reach p" "reapIdleWorkers p sch = Finished r s sch'"
  shows "\<exists>new. po_retired s = po_retired p @ new \<and>
     (\<forall>(w, quiescent, n) \<in> set new. quiescent \<and> op_minWorkers (po_options p) < n \<and>
        isReclaimable p w \<and> op_idleTtlMs (po_options p) \<le> po_clock p - w_lastUsedAt (obj p w))"
proof -
  obtain new where new: "po_retired s = po_retired p @ new"
      "\<forall>(w, q, n) \<in> set new. w \<in> set (reap_candidates p) \<and> q \<and> op_minWorkers (po_options p) < n"
    using reapIdleWorkers_ok [OF pool_inv_reach [OF assms(1)] sch_ok_True, of sch] assms(2) by auto
  have "isReclaimable p w \<and> op_idleTtlMs (po_options p) \<le> po_clock p - w_lastUsedAt (obj p w)"
    if "w \<in> set (reap_candidates p)" for w
    using that by (auto simp: reap_candidates_def)
  with new show ?thesis by (intro exI [of _ new]) fastforce
qed

text \<open>
  The loop that restores the minimum ends by itself: when it returns, the pool has its minimum
  of workers, or it was stopped, or a recovery is scheduled; more fuel than one unit for each await
  changes nothing.
\<close>

theorem maintain_minimum_returns:
  assumes "maintainMinimum p sch = Finished (Inr u) s sch'"
  shows "(po_stopped s \<or> po_recoveryTimer s \<or> min_target s \<le> length (po_workers s)) \<and>
     maintain_loop (Suc (length sch) + extra) p sch = maintainMinimum p sch"
  using maintain_loop_done [of "Suc (length sch)" p sch u s sch'] maintain_fuel [of sch "Suc (length sch) + extra" p] assms
  by (simp add: maintainMinimum_def del: maintain_loop.simps)


text \<open>
  A stopped pool hands out no worker and is not changed by the attempt.
\<close>

theorem stopped_pool_refuses:
  assumes "po_stopped p"
  shows "acquireForNew cwd p sch = Finished (Inl pool_stopped) p sch \<and>
     acquireForSession threadId cwd path p sch = Finished (Inl pool_stopped) p sch \<and>
     retain w p = Inl pool_stopped"
  using assms by (simp add: acquireForNew_def acquireForSession_def call_assertRunning retain_def assertRunning_def)

text \<open>
  C31. The mapping of Pi events: the event is for this worker's thread and turn, and it is terminal
  exactly when Pi reports that the agent has settled while a turn is active. Then the turn is
  aborted if it was being aborted, failed if the last agent end of that turn reported a failure,
  and completed otherwise.
\<close>

theorem settled_classifies_turn:
  assumes "mapWorkerEvent w raw p = (d, s)"
  shows "(isTerminalEventType (event_type_name (dr_type d)) \<longleftrightarrow>
       event_name raw = ''agent_settled'' \<and> truthy (w_activeTurnId (obj p w))) \<and>
     dr_workerId d = Some w \<and> dr_threadId d = w_threadId (obj p w) \<and>
     (isTerminalEventType (event_type_name (dr_type d)) \<longrightarrow>
       dr_turnId d = w_activeTurnId (obj p w) \<and> w_state (obj s w) = Assigned \<and> po_outcomes s w = None \<and>
       (dr_type d = TurnAborted \<longleftrightarrow> w_abortingTurnId (obj p w) = w_activeTurnId (obj p w)) \<and>
       (dr_type d = TurnFailed \<longleftrightarrow> w_abortingTurnId (obj p w) \<noteq> w_activeTurnId (obj p w) \<and>
          (\<exists>out. po_outcomes p w = Some out \<and> so_turnId out = w_activeTurnId (obj p w) \<and> so_failure out \<noteq> None)))"
proof (cases "event_name raw = ''agent_settled''")
  case True
  then have "(d, s) = settled_event w raw p" using assms by (simp add: mapWorkerEvent_def)
  then show ?thesis
    using True by (auto simp: settled_event_def Let_def draft_of_def split: if_splits option.splits)
next
  case False
  have "plain_event n = Some t \<Longrightarrow> t \<noteq> TurnCompleted \<and> t \<noteq> TurnFailed \<and> t \<noteq> TurnAborted" for n t
    by (auto simp: plain_event_def split: if_splits)
  with False assms show ?thesis
    by (auto simp: mapWorkerEvent_def Let_def draft_of_def split: if_splits option.splits)
qed

text \<open>
  When a worker's process exits unexpectedly the worker leaves the pool, its turn is cleared,
  and exactly these events are emitted: the crash and, if a turn was active, its failure.
\<close>

theorem crash_fails_turn_once:
  assumes "w_state (obj p w) \<noteq> Stopped"
  shows "let s = child_closed w event p; u = obj p w in
     w \<notin> set (po_workers s) \<and> w_activeTurnId (obj s w) = None \<and> w_state (obj s w) = Crashed \<and>
     map (\<lambda>d. (dr_type d, dr_threadId d, dr_turnId d)) (po_log s) =
       map (\<lambda>d. (dr_type d, dr_threadId d, dr_turnId d)) (po_log p) @
       (WorkerCrashedEvent, w_threadId u, w_activeTurnId u) #
       (if truthy (w_activeTurnId u) then [(TurnFailed, w_threadId u, w_activeTurnId u)] else [])"
proof -
  have d: "po_objs (p\<lparr>po_recoveryDelayMs := x\<rparr>) = po_objs p" "po_log (p\<lparr>po_recoveryDelayMs := x\<rparr>) = po_log p"
      "po_workers (p\<lparr>po_recoveryDelayMs := x\<rparr>) = po_workers p" for p :: pool and x by simp_all
  show ?thesis
    using assms by (simp add: child_closed_def on_exit_def Let_def draft_of_def d)
qed

lemma recovery_round:
  assumes "\<not> po_stopped p" "\<not> po_recoveryTimer p" "length (po_workers p) < min_target p"
  defines "s \<equiv> run_istep STimer (scheduleMinimumRecovery p)"
  shows "\<not> po_stopped s \<and> \<not> po_recoveryTimer s \<and> length (po_workers s) < min_target s \<and>
     po_recoveryDelayMs s = min (po_recoveryDelayMs p * 2) 30000"
proof -
  have s: "s = p\<lparr>po_recoveryTimer := False, po_recoveryDelayMs := min (po_recoveryDelayMs p * 2) 30000\<rparr>"
    using assms(1-3) by (simp add: s_def scheduleMinimumRecovery_def)
  then have "min_target s = min_target p" by (simp add: min_target_def)
  with s assms(1,3) show ?thesis by simp
qed

text \<open>
  Recovery backs off: while the pool stays below its minimum and each recovery only fires the
  timer again, the delay after \<open>k\<close> rounds is \<open>1000 * 2 ^ k\<close> milliseconds, up to thirty seconds.
\<close>

theorem recovery_backs_off:
  assumes "\<not> po_stopped p" "\<not> po_recoveryTimer p" "length (po_workers p) < min_target p" "po_recoveryDelayMs p = 1000"
  shows "po_recoveryDelayMs (((\<lambda>p. run_istep STimer (scheduleMinimumRecovery p)) ^^ k) p) = min (1000 * 2 ^ k) 30000"
proof -
  let ?f = "\<lambda>p. run_istep STimer (scheduleMinimumRecovery p)"
  have "\<not> po_stopped ((?f ^^ k) p) \<and> \<not> po_recoveryTimer ((?f ^^ k) p) \<and>
      length (po_workers ((?f ^^ k) p)) < min_target ((?f ^^ k) p) \<and>
      po_recoveryDelayMs ((?f ^^ k) p) = min (1000 * 2 ^ k) 30000"
  proof (induction k)
    case 0
    then show ?case using assms by simp
  next
    case (Suc k)
    then have r: "\<not> po_stopped (?f ((?f ^^ k) p)) \<and> \<not> po_recoveryTimer (?f ((?f ^^ k) p)) \<and>
        length (po_workers (?f ((?f ^^ k) p))) < min_target (?f ((?f ^^ k) p)) \<and>
        po_recoveryDelayMs (?f ((?f ^^ k) p)) = min (po_recoveryDelayMs ((?f ^^ k) p) * 2) 30000"
      by (intro recovery_round) blast+
    have "po_recoveryDelayMs ((?f ^^ k) p) = min (1000 * 2 ^ k) 30000" using Suc by blast
    then have "min (po_recoveryDelayMs ((?f ^^ k) p) * 2) 30000 = min (1000 * 2 ^ Suc k) 30000"
      by (simp add: min_def)
    with r show ?case by (simp only: funpow.simps comp_def simp_thms)
  qed
  then show ?thesis by blast
qed

text \<open>
  Releasing the last reservation of an available worker without an active turn makes it
  available again, assigned if it has a thread, and announces it once; otherwise releasing only
  counts down and announces nothing.
\<close>

theorem release_announces_idle:
  assumes "w \<notin> po_retiring p" "\<not> isUnavailableWorker (obj p w)" "po_reservations p w \<le> 1"
    and "\<not> truthy (w_activeTurnId (obj p w))" "\<not> truthy (w_abortingTurnId (obj p w))" "w_pending (obj p w) = 0"
  shows "isQuiescent (release w threadId p) w \<and>
     po_log (release w threadId p) = po_log p @ [draft_of WorkerIdle (Some w) (orElse threadId (w_threadId (obj p w))) None
       (JObj [(''cwd'', JStr (w_cwd (obj p w)))])]"
  using assms by (auto simp: release_def Let_def isQuiescent_def isUnavailableWorker_def)

section \<open>A concrete pool\<close>

text \<open>
  A pool of at most one worker that does not reuse workers across threads: a worker is acquired,
  fails to switch to a session or is released, is evicted and replaced, and is reaped.
\<close>

definition sample_opts :: "nat \<Rightarrow> pool_options" where
  "sample_opts least = \<lparr>op_minWorkers = least, op_maxWorkers = 1, op_idleTtlMs = 5000, op_reuseAcrossThreads = Some False,
     op_prewarmCwd = ''/home'', op_reapIntervalMs = None\<rparr>"

definition sample_pool :: pool where
  "sample_pool = new_pool (sample_opts 0) None 0"

lemma supported_102: "isSupportedPiVersion ''1.0.2''"
  by code_simp

abbreviation started :: "(istep, reply) schedule" where
  "started \<equiv> [([], Some (RVersion ''1.0.2'')), ([], Some ROk)]"

lemmas pool_eval = new_pool_def sample_opts_def sync_statements seq_def try_catch_def interfere_def
  acquireForNew_def acquireForSession_def assertRunning_def call_def selectWorker_def candidates_def victim_def
  spawn_or_recover_def spawn_def create_worker_def reserveForAssignment_def retain_def start_checked_def start_worker_def
  stop_worker_def stop_sync_def settled_def supported_102 version_of_def retire_def note_retired_def remove_worker_def set_obj_def emit_event_def
  switch_worker_def switch_session_def switch_failed_def run_command_def get_state_def send_command_def command_done_def
  assertNotCancelled_def record_like_def release_def isUnavailableWorker_def isReclaimable_def await_spawn_def version_probed_def child_created_def child_spawned_def isQuiescent_def
  findByThread_def select_and_switch_def scheduleMinimumRecovery_def min_target_def no_worker_def started_event_def
  draft_of_def reapIdleWorkers_def reap_candidates_def maintainMinimum_def Let_def

definition sample_held :: pool where
  "sample_held = state_of (acquireForNew ''/w'' sample_pool started)"

lemma sample_held: "acquireForNew ''/w'' sample_pool started = Finished (Inr (worker_id 1)) sample_held []"
  by (simp add: sample_held_def sample_pool_def pool_eval)

lemma sample_held_fields:
  "po_workers sample_held = [worker_id 1]" "po_retiring sample_held = {}" "po_claimed sample_held = {worker_id 1}"
  "po_reservations sample_held (worker_id 1) = 1" "po_stopped sample_held = False" "po_options sample_held = sample_opts 0"
  "po_canReclaim sample_held = None" "po_clock sample_held = 0" "po_nextWorkerId sample_held = 2"
  "obj sample_held (worker_id 1) = no_worker\<lparr>w_cwd := ''/w'', w_version := Some ''1.0.2'', w_child := True, w_state := Assigned\<rparr>"
  "po_recoveryTimer sample_held = False" "po_retired sample_held = []"
  by (simp_all add: sample_held_def sample_pool_def pool_eval)

lemmas sample_held_eq = sample_held_fields [unfolded One_nat_def]

lemma sample_pool_reach: "pool_reach sample_pool"
  unfolding sample_pool_def by (rule pool_reach.created)

lemma sample_held_reach: "pool_reach sample_held"
  using pool_reach.run [OF sample_pool_reach, of "AcquireNew ''/w''" started] by (simp add: sample_held_def)

text \<open>The worker released, six seconds later.\<close>

definition sample_idle :: pool where
  "sample_idle = run_istep (STick 6000) (run_istep (SRelease (worker_id 1) None) sample_held)"

lemma sample_idle_reach: "pool_reach sample_idle"
  unfolding sample_idle_def by (intro pool_reach.step sample_held_reach)

lemma sample_idle_fields:
  "po_workers sample_idle = [worker_id 1]" "po_retiring sample_idle = {}" "po_claimed sample_idle = {worker_id 1}"
  "po_reservations sample_idle (worker_id 1) = 0" "po_stopped sample_idle = False" "po_options sample_idle = sample_opts 0"
  "po_canReclaim sample_idle = None" "po_clock sample_idle = 6000" "po_nextWorkerId sample_idle = 2"
  "obj sample_idle (worker_id 1) = no_worker\<lparr>w_cwd := ''/w'', w_version := Some ''1.0.2'', w_child := True, w_state := Idle\<rparr>"
  "po_recoveryTimer sample_idle = False" "po_retired sample_idle = []"
  by (simp_all add: sample_idle_def sample_held_eq release_def set_obj_def emit_event_def Let_def
      isUnavailableWorker_def no_worker_def)

lemmas sample_idle_eq = sample_idle_fields [unfolded One_nat_def]

section \<open>Witnesses\<close>

theorem capacity_never_exceeded_witness: "length (po_workers sample_held) \<le> 1"
  using capacity_never_exceeded [OF sample_held_reach] by (simp add: sample_held_eq sample_opts_def)

theorem acquired_worker_is_exclusive_witness:
  "worker_id 1 \<notin> set (candidates (run_istep (STick 5) sample_held)) \<and>
   1 \<le> po_reservations (run_istep (STick 5) sample_held) (worker_id 1)"
proof -
  have "while_held (worker_id 1) sample_held (run_istep (STick 5) sample_held)"
    by (rule while_held.step [OF while_held.now]) (simp add: no_release_def)
  from acquired_worker_is_exclusive [OF sample_pool_reach disjI1 [OF sample_held] _ this] show ?thesis
    by (simp add: sch_ok_def)
qed

theorem no_reuse_across_threads_witness: "worker_id 1 \<notin> po_claimed sample_pool"
  using no_reuse_across_threads [OF sample_pool_reach _ sample_held]
  by (simp add: sample_pool_def new_pool_def sample_opts_def)

theorem session_worker_has_session_witness:
  "\<exists>s sch. acquireForSession ''t'' ''/w'' ''f'' sample_pool
      [([], Some (RVersion ''1.0.2'')), ([], Some ROk), ([], Some (RData (JObj []))), ([], Some (RData (JObj [(''sessionId'', JStr ''t'')])))] =
      Finished (Inr (worker_id 1)) s sch \<and> w_threadId (obj s (worker_id 1)) = Some ''t''"
proof -
  obtain s sch where run: "acquireForSession ''t'' ''/w'' ''f'' sample_pool
      [([], Some (RVersion ''1.0.2'')), ([], Some ROk), ([], Some (RData (JObj []))), ([], Some (RData (JObj [(''sessionId'', JStr ''t'')])))] =
      Finished (Inr (worker_id 1)) s sch"
    by (simp add: sample_pool_def pool_eval)
  with session_worker_has_session [OF sample_pool_reach run] show ?thesis by blast
qed

definition sample_failed :: pool where
  "sample_failed = state_of (switch_worker ''t'' ''f'' (worker_id 1) sample_held
     [([], Some (RError (JsError ''no session''))), ([], Some ROk)])"

lemma sample_failed: "\<exists>e. switch_worker ''t'' ''f'' (worker_id 1) sample_held
    [([], Some (RError (JsError ''no session''))), ([], Some ROk)] = Finished (Inl e) sample_failed []"
  by (simp add: sample_failed_def pool_eval sample_held_eq)

theorem failed_switch_not_reused_witness: "findByThread ''t'' sample_failed \<noteq> Some (worker_id 1)"
  using failed_switch_not_reused [OF sample_held_reach, of "worker_id 1" "''t''" "''f''"] sample_failed
  by (auto simp: sample_held_eq)

definition sample_evicted :: pool where
  "sample_evicted = state_of (acquireForNew ''/v'' sample_idle (([], Some ROk) # started))"

lemma sample_evicted:
  "acquireForNew ''/v'' sample_idle (([], Some ROk) # started) = Finished (Inr (worker_id 2)) sample_evicted []"
  "po_retired sample_evicted = [(worker_id 1, True, 1)]" "po_retiring sample_evicted = {worker_id 1}"
  "po_workers sample_evicted = [worker_id 2]"
  by (simp_all add: sample_evicted_def pool_eval sample_idle_eq)

lemma sample_evicted_reach: "pool_reach sample_evicted"
  using pool_reach.run [OF sample_idle_reach, of "AcquireNew ''/v''" "([], Some ROk) # started"]
  by (simp add: sample_evicted_def)

theorem retired_never_returns_witness:
  "\<exists>e s. acquireForNew ''/v'' sample_evicted [] = Finished (Inl e) s [] \<and> worker_id 1 \<in> po_retiring s"
proof -
  obtain e s where run: "acquireForNew ''/v'' sample_evicted [] = Finished (Inl e) s []"
    by (simp add: sample_evicted_def pool_eval sample_idle_eq)
  with retired_never_returns [OF sample_evicted_reach, of "worker_id 1"] sample_evicted(3) show ?thesis by blast
qed

theorem eviction_is_lru_witness: "isReclaimable sample_idle (worker_id 1)"
  using eviction_is_lru [OF sample_idle_reach sample_evicted(1)] sample_evicted(2) by (auto simp: sample_idle_eq)

theorem reaper_spares_minimum_witness:
  "\<exists>r s sch new. reapIdleWorkers sample_idle [([], Some ROk)] = Finished r s sch \<and> po_retired s = [(worker_id 1, True, 1)] \<and>
     po_retired s = po_retired sample_idle @ new \<and> (\<forall>(w, quiescent, n) \<in> set new. quiescent)"
proof -
  obtain r s sch where run: "reapIdleWorkers sample_idle [([], Some ROk)] = Finished r s sch"
      "po_retired s = [(worker_id 1, True, 1)]"
    by (simp add: pool_eval sample_idle_eq)
  obtain new where "po_retired s = po_retired sample_idle @ new" "\<forall>(w, quiescent, n) \<in> set new. quiescent"
    using reaper_spares_minimum [OF sample_idle_reach run(1)] by fastforce
  with run show ?thesis by blast
qed

theorem maintain_minimum_returns_witness:
  "\<exists>s sch. maintainMinimum (new_pool (sample_opts 1) None 0) started = Finished (Inr ()) s sch \<and>
     (po_stopped s \<or> po_recoveryTimer s \<or> min_target s \<le> length (po_workers s))"
proof -
  obtain s sch where run: "maintainMinimum (new_pool (sample_opts 1) None 0) started = Finished (Inr ()) s sch"
    by (simp add: pool_eval)
  with maintain_minimum_returns [OF run] show ?thesis by blast
qed

theorem stopped_pool_refuses_witness:
  "acquireForNew ''/w'' (stop_requested sample_held) [] = Finished (Inl pool_stopped) (stop_requested sample_held) []"
  using stopped_pool_refuses [of "stop_requested sample_held" "''/w''" "[]"] by (simp add: stop_requested_def)

definition sample_active :: pool where
  "sample_active = run_istep (SActive (worker_id 1) (Some ''turn'')) (run_istep (SThread (worker_id 1) (Some ''t'')) sample_held)"

theorem settled_classifies_turn_witness:
  "\<exists>d s. mapWorkerEvent (worker_id 1) (JObj [(''type'', JStr ''agent_settled'')]) sample_active = (d, s) \<and>
     dr_turnId d = Some ''turn'' \<and> dr_threadId d = Some ''t''"
proof -
  obtain d s where m: "mapWorkerEvent (worker_id 1) (JObj [(''type'', JStr ''agent_settled'')]) sample_active = (d, s)"
    by (cases "mapWorkerEvent (worker_id 1) (JObj [(''type'', JStr ''agent_settled'')]) sample_active")
  have "dr_turnId d = Some ''turn'' \<and> dr_threadId d = Some ''t''"
    using settled_classifies_turn [OF m] by (auto simp: event_name_def sample_active_def)
  with m show ?thesis by blast
qed

theorem crash_fails_turn_once_witness:
  "map dr_turnId (po_log (child_closed (worker_id 1) [] sample_active)) =
     map dr_turnId (po_log sample_active) @ [Some ''turn'', Some ''turn'']"
proof -
  have "map (\<lambda>d. (dr_type d, dr_threadId d, dr_turnId d)) (po_log (child_closed (worker_id 1) [] sample_active)) =
      map (\<lambda>d. (dr_type d, dr_threadId d, dr_turnId d)) (po_log sample_active) @
      [(WorkerCrashedEvent, Some ''t'', Some ''turn''), (TurnFailed, Some ''t'', Some ''turn'')]"
    using crash_fails_turn_once [of sample_active "worker_id 1" "[]"]
    by (simp add: sample_active_def sample_held_eq no_worker_def Let_def)
  from arg_cong [OF this, of "map (\<lambda>x. snd (snd x))"] show ?thesis by (simp add: comp_def)
qed

theorem recovery_backs_off_witness:
  "po_recoveryDelayMs (((\<lambda>p. run_istep STimer (scheduleMinimumRecovery p)) ^^ 6) (new_pool (sample_opts 1) None 0)) = 30000"
  using recovery_backs_off [of "new_pool (sample_opts 1) None 0" 6]
  by (simp add: new_pool_def sample_opts_def min_target_def)

theorem release_announces_idle_witness: "isQuiescent (release (worker_id 1) None sample_held) (worker_id 1)"
  using release_announces_idle [of "worker_id 1" sample_held None]
  by (simp add: sample_held_eq isUnavailableWorker_def no_worker_def)

end
