(* ===== verification/Paths.thy ===== *)
theory Paths
  imports Prelude
begin

text \<open>
  \<open>resolve\<close> and \<open>join\<close> of \<open>node:path\<close> on POSIX, which the catalog, the configuration and the
  service apply to paths. \<open>here\<close> is the working directory of the process, an absolute path.
\<close>

section \<open>Segments\<close>

text \<open>
  One segment of a path against the segments kept so far, last first: empty segments and \<open>.\<close>
  are dropped, \<open>..\<close> removes a kept segment; at the root it is dropped, in a relative path that
  starts with \<open>..\<close> it stays.
\<close>

definition path_step :: "bool \<Rightarrow> string \<Rightarrow> string list \<Rightarrow> string list" where
  "path_step absolute seg kept =
     (if seg = [] \<or> seg = ''.'' then kept
      else if seg = ''..'' then
        (case kept of
           [] \<Rightarrow> if absolute then [] else [''..'']
         | k # ks \<Rightarrow> if k = ''..'' then ''..'' # k # ks else ks)
      else seg # kept)"

definition path_segments :: "bool \<Rightarrow> string list \<Rightarrow> string list" where
  "path_segments absolute segs = rev (fold (path_step absolute) segs [])"

definition slash :: char where
  "slash = CHR ''/''"

definition is_absolute :: "string \<Rightarrow> bool" where
  "is_absolute p \<longleftrightarrow> p \<noteq> [] \<and> hd p = slash"

section \<open>The functions of \<open>node:path\<close>\<close>

definition resolve :: "string \<Rightarrow> string \<Rightarrow> string" where
  "resolve here p =
     slash # join [slash] (path_segments True (split_on slash (if is_absolute p then p else here @ slash # p)))"

definition path_normalize :: "string \<Rightarrow> string" where
  "path_normalize p =
     (if p = [] then ''.''
      else
        let absolute = is_absolute p;
            body = join [slash] (path_segments absolute (split_on slash p));
            trailing = (last p = slash) in
        if body = [] then (if absolute then [slash] else if trailing then ''./'' else ''.'')
        else (if absolute then [slash] else []) @ body @ (if trailing then [slash] else []))"

definition path_join :: "string list \<Rightarrow> string" where
  "path_join parts = path_normalize (join [slash] (filter (\<lambda>p. p \<noteq> []) parts))"

section \<open>Lemmas\<close>

definition plain_segment :: "string \<Rightarrow> bool" where
  "plain_segment s \<longleftrightarrow> s \<noteq> [] \<and> s \<noteq> ''.'' \<and> s \<noteq> ''..'' \<and> slash \<notin> set s"

lemma path_fold_plain:
  assumes "\<forall>s \<in> set segs. slash \<notin> set s" "\<forall>s \<in> set kept. plain_segment s"
  shows "\<forall>s \<in> set (fold (path_step True) segs kept). plain_segment s"
  using assms
proof (induction segs arbitrary: kept)
  case (Cons a segs)
  have "\<forall>s \<in> set (path_step True a kept). plain_segment s"
    using Cons.prems by (auto simp: path_step_def plain_segment_def split: list.splits)
  moreover have "\<forall>s \<in> set segs. slash \<notin> set s" using Cons.prems(1) by simp
  ultimately show ?case unfolding fold_simps by (intro Cons.IH)
qed simp

lemma split_on_pieces: "\<forall>s \<in> set (split_on c xs). c \<notin> set s"
proof (induction xs)
  case (Cons x xs)
  then show ?case by (cases "split_on c xs") auto
qed simp

lemma path_segments_plain: "\<forall>s \<in> set (path_segments True (split_on slash p)). plain_segment s"
  unfolding path_segments_def set_rev by (rule path_fold_plain) (simp_all add: split_on_pieces)

lemma fold_plain: "\<forall>s \<in> set segs. plain_segment s \<Longrightarrow> fold (path_step True) segs kept = rev segs @ kept"
  by (induction segs arbitrary: kept) (auto simp: path_step_def plain_segment_def)

lemma split_on_join:
  "segs \<noteq> [] \<Longrightarrow> \<forall>s \<in> set segs. c \<notin> set s \<Longrightarrow> split_on c (join [c] segs) = segs"
  by (induction "[c]" segs rule: join.induct) (auto simp: split_on_absent split_on_append)

lemma path_segments_absolute:
  assumes "\<forall>s \<in> set segs. plain_segment s"
  shows "path_segments True (split_on slash (slash # join [slash] segs)) = segs"
proof (cases "segs = []")
  case False
  with assms have "split_on slash (join [slash] segs) = segs"
    by (intro split_on_join) (auto simp: plain_segment_def)
  with assms show ?thesis by (simp add: path_segments_def fold_plain path_step_def)
qed (simp add: path_segments_def path_step_def)

text \<open>A resolved path is absolute and in normal form: resolving it again changes nothing.\<close>

lemma resolve_absolute [simp]: "is_absolute (resolve here p)"
  by (simp add: is_absolute_def resolve_def)

lemma resolve_resolve [simp]: "resolve here' (resolve here p) = resolve here p"
proof -
  define segs where "segs = path_segments True (split_on slash (if is_absolute p then p else here @ slash # p))"
  have "\<forall>s \<in> set segs. plain_segment s" unfolding segs_def by (rule path_segments_plain)
  then have "resolve here' (slash # join [slash] segs) = slash # join [slash] segs"
    by (simp add: resolve_def is_absolute_def path_segments_absolute del: split_on.simps)
  then show ?thesis by (simp only: resolve_def [of here p] segs_def)
qed

end
