(* ===== verification/Thread_Queries.thy ===== *)
theory Thread_Queries
  imports Worker_Pool Paths
begin

text \<open>
  The pure functions of \<open>src/service/pi-threads-service.ts\<close> behind the reading methods:
  \<open>preview\<close>, \<open>withDefaults\<close>, \<open>limitEntries\<close>, \<open>filterMessages\<close>, \<open>parseSince\<close>, \<open>filterThreads\<close>,
  \<open>pageThreads\<close> and \<open>overlayWorkerThreadStatuses\<close>, with \<open>WorkerPool.list\<close>.

  Times are milliseconds. \<open>date_parse\<close> stands for \<open>Date.parse\<close> (\<open>None\<close> for \<open>NaN\<close>), whose
  treatment of most formats the language leaves to the implementation; \<open>now\<close> is \<open>Date.now()\<close>
  and \<open>here\<close> the working directory.
  Arguments of type \<open>number\<close> are integers here.
\<close>

section \<open>Small helpers\<close>

definition preview :: "string option \<Rightarrow> string option" where
  "preview value =
     (case value of
        None \<Rightarrow> None
      | Some s \<Rightarrow>
          if s = [] then None
          else Some (if 120 < length s then slice s 0 117 @ ''...'' else s))"

text \<open>\<open>withDefaults\<close> on the two fields it sets: the model and the thinking level.\<close>

definition withDefaults :: "string option \<times> string option \<Rightarrow> string option \<times> string option \<Rightarrow> string option \<times> string option" where
  "withDefaults params defaults = (orElse (fst params) (fst defaults), orElse (snd params) (snd defaults))"

section \<open>Entries of a session file\<close>

definition isMessageEntry :: "json \<Rightarrow> bool" where
  "isMessageEntry entry \<longleftrightarrow> record_like entry \<and> jget entry ''type'' = JStr ''message''"

definition limitEntries :: "json list option \<Rightarrow> int option \<Rightarrow> bool option \<Rightarrow> json list option" where
  "limitEntries entries lastN asc =
     (case entries of
        None \<Rightarrow> None
      | Some es \<Rightarrow>
          let messages = filter isMessageEntry es;
              messages = (if asc = Some False then rev messages else messages) in
          case lastN of
            None \<Rightarrow> Some messages
          | Some n \<Rightarrow>
              if n \<le> 0 then Some []
              else Some (if asc = Some False then rev (slice messages 0 n) else slice_from messages (- n)))"

section \<open>Messages\<close>

definition messageRole :: "json \<Rightarrow> json" where
  "messageRole message = (if record_like message then jget message ''role'' else JUndefined)"

definition piRole :: "string \<Rightarrow> string" where
  "piRole role =
     (if role = ''tool'' then ''toolResult''
      else if role = ''bash'' then ''bashExecution''
      else role)"

definition messageTimestamp :: "(string \<Rightarrow> int option) \<Rightarrow> json \<Rightarrow> int option" where
  "messageTimestamp date_parse message =
     (if record_like message then
        let createdAt = jget message ''createdAt'';
            raw = (if nullish createdAt then jget message ''timestamp'' else createdAt) in
        case raw of JNum n \<Rightarrow> Some n | JStr s \<Rightarrow> date_parse s | _ \<Rightarrow> None
      else None)"

text \<open>The match of \<open>/^(\d+)(ms|s|m|h|d|w)$/i\<close>: the digits and the unit in lower case.\<close>

definition match_relative :: "string \<Rightarrow> (string \<times> string) option" where
  "match_relative s =
     (let digits = takeWhile is_digit s; unit = to_lower (dropWhile is_digit s) in
      if digits \<noteq> [] \<and> unit \<in> {''ms'', ''s'', ''m'', ''h'', ''d'', ''w''} then Some (digits, unit) else None)"

definition unit_ms :: "string \<Rightarrow> int" where
  "unit_ms unit =
     (if unit = ''ms'' then 1
      else if unit = ''s'' then 1000
      else if unit = ''m'' then 60000
      else if unit = ''h'' then 3600000
      else if unit = ''d'' then 86400000
      else 604800000)"

definition parseSince :: "(string \<Rightarrow> int option) \<Rightarrow> int \<Rightarrow> string option \<Rightarrow> int option result" where
  "parseSince date_parse now value =
     (case value of
        None \<Rightarrow> Inr None
      | Some v \<Rightarrow>
          if v = [] then Inr None
          else
            let trimmed = trim v in
            if trimmed \<noteq> [] \<and> list_all is_digit trimmed then Inr (Some (int (undec trimmed) * 1000))
            else
              case match_relative trimmed of
                Some (digits, unit) \<Rightarrow> Inr (Some (now - int (undec digits) * unit_ms unit))
              | None \<Rightarrow>
                  (case date_parse trimmed of
                     None \<Rightarrow> Inl (DaemonError InvalidParams ''Invalid --since value'' (Some [(''since'', JStr v)]))
                   | Some t \<Rightarrow> Inr (Some t)))"

text \<open>The options of \<open>filterMessages\<close>: \<open>last\<close>, \<open>role\<close> and \<open>since\<close>.\<close>

record message_query =
  mq_last :: "int option"
  mq_role :: "string option"
  mq_since :: "string option"

definition filterMessages :: "(string \<Rightarrow> int option) \<Rightarrow> int \<Rightarrow> json list \<Rightarrow> message_query \<Rightarrow> json list result" where
  "filterMessages date_parse now messages q =
     (case parseSince date_parse now (mq_since q) of
        Inl e \<Rightarrow> Inl e
      | Inr since \<Rightarrow>
          let filtered = messages;
              filtered = (case mq_role q of
                 None \<Rightarrow> filtered
               | Some r \<Rightarrow> if r = [] then filtered
                            else filter (\<lambda>m. messageRole m = JStr (piRole r)) filtered);
              filtered = (case since of
                 None \<Rightarrow> filtered
               | Some t \<Rightarrow> filter (\<lambda>m. case messageTimestamp date_parse m of None \<Rightarrow> False | Some u \<Rightarrow> t \<le> u) filtered) in
          Inr (case mq_last q of
                 None \<Rightarrow> filtered
               | Some n \<Rightarrow> if n \<le> 0 then [] else slice_from filtered (- n)))"

section \<open>Threads\<close>

text \<open>\<open>ThreadListParams\<close>; \<open>tl_sort\<close> is the text of the option, \<open>updated\<close> or \<open>created\<close>.\<close>

record thread_list_params =
  tl_cwd :: "string option"
  tl_limit :: "int option"
  tl_cursor :: "string option"
  tl_since :: "string option"
  tl_archived :: bool
  tl_sort :: "string option"
  tl_asc :: "bool option"

definition parseThreadDate :: "(string \<Rightarrow> int option) \<Rightarrow> string option \<Rightarrow> int" where
  "parseThreadDate date_parse value =
     (case value of
        None \<Rightarrow> 0
      | Some v \<Rightarrow> if v = [] then 0 else (case date_parse v of None \<Rightarrow> 0 | Some t \<Rightarrow> t))"

definition threadUpdatedTime :: "(string \<Rightarrow> int option) \<Rightarrow> thread_summary \<Rightarrow> int" where
  "threadUpdatedTime date_parse thread = parseThreadDate date_parse (orElse (th_modified thread) (th_created thread))"

definition threadCreatedTime :: "(string \<Rightarrow> int option) \<Rightarrow> thread_summary \<Rightarrow> int" where
  "threadCreatedTime date_parse thread = parseThreadDate date_parse (orElse (th_created thread) (th_modified thread))"

definition threadTime :: "(string \<Rightarrow> int option) \<Rightarrow> thread_summary \<Rightarrow> int" where
  "threadTime date_parse thread = threadUpdatedTime date_parse thread"

text \<open>The comparison that \<open>filterThreads\<close> sorts by.\<close>

definition thread_compare :: "(string \<Rightarrow> int option) \<Rightarrow> thread_list_params \<Rightarrow> thread_summary \<Rightarrow> thread_summary \<Rightarrow> int" where
  "thread_compare date_parse q left right =
     (let sort = (case tl_sort q of None \<Rightarrow> ''updated'' | Some s \<Rightarrow> s);
          value = (\<lambda>t. if sort = ''created'' then threadCreatedTime date_parse t else threadUpdatedTime date_parse t) in
      if tl_asc q = Some True then value left - value right else value right - value left)"

definition filterThreads ::
  "(string \<Rightarrow> int option) \<Rightarrow> int \<Rightarrow> thread_summary list \<Rightarrow> thread_list_params \<Rightarrow> thread_summary list result" where
  "filterThreads date_parse now threads q =
     (if tl_archived q then
        Inl (DaemonError InvalidParams ''Pi session archive filtering is not supported'' (Some [(''archived'', JBool True)]))
      else
        case parseSince date_parse now (tl_since q) of
          Inl e \<Rightarrow> Inl e
        | Inr since \<Rightarrow>
            Inr (js_sort (thread_compare date_parse q)
                   (case since of None \<Rightarrow> threads | Some t \<Rightarrow> filter (\<lambda>x. t \<le> threadTime date_parse x) threads)))"

text \<open>
  \<open>Number(text)\<close> on the texts that denote integers; every other text is \<open>NaN\<close>, \<open>None\<close> here. A sum
  with \<open>NaN\<close> is \<open>NaN\<close>, which \<open>slice\<close> reads as 0 and which compares as false.
\<close>

definition to_number :: "string \<Rightarrow> int option" where
  "to_number s =
     (let t = trim s; digits = (if t \<noteq> [] \<and> (hd t = CHR ''-'' \<or> hd t = CHR ''+'') then tl t else t) in
      if t = [] then Some 0
      else if digits \<noteq> [] \<and> list_all is_digit digits
      then Some (if hd t = CHR ''-'' then - int (undec digits) else int (undec digits))
      else None)"

definition pageThreads :: "thread_summary list \<Rightarrow> thread_list_params \<Rightarrow> thread_summary list \<times> string option" where
  "pageThreads threads q =
     (let offset = (case tl_cursor q of
            None \<Rightarrow> Some 0
          | Some c \<Rightarrow> if c = [] then Some 0 else to_number c);
          limit = (case tl_limit q of None \<Rightarrow> 50 | Some l \<Rightarrow> l) in
      case offset of
        None \<Rightarrow> (slice threads 0 0, None)
      | Some i \<Rightarrow> (slice threads i (i + limit),
                   if i + limit < int (length threads) then Some (int_string (i + limit)) else None))"

section \<open>Threads of live workers\<close>

fun worker_state_name :: "worker_state \<Rightarrow> string" where
  "worker_state_name Starting = ''starting''"
| "worker_state_name Idle = ''idle''"
| "worker_state_name Assigned = ''assigned''"
| "worker_state_name Running = ''running''"
| "worker_state_name Crashed = ''crashed''"
| "worker_state_name Stopped = ''stopped''"

text \<open>\<open>WorkerPool.list()\<close>; \<open>iso_date\<close> is \<open>Date.prototype.toISOString\<close>.\<close>

definition list_workers :: "(nat \<Rightarrow> string) \<Rightarrow> pool \<Rightarrow> worker_status list" where
  "list_workers iso_date p =
     map (\<lambda>w. \<lparr>ws_workerId = w, ws_pid = w_pid (obj p w), ws_cwd = w_cwd (obj p w),
               ws_state = worker_state_name (w_state (obj p w)), ws_threadId = w_threadId (obj p w),
               ws_version = w_version (obj p w), ws_startedAt = iso_date (w_startedAt (obj p w)),
               ws_lastUsedAt = iso_date (w_lastUsedAt (obj p w))\<rparr>) (po_workers p)"

text \<open>\<open>existing.status = status\<close> on the first thread with the id, or \<open>None\<close> when there is none.\<close>

fun set_status :: "string \<Rightarrow> string \<Rightarrow> thread_summary list \<Rightarrow> thread_summary list option" where
  "set_status t status [] = None"
| "set_status t status (x # xs) =
     (if th_threadId x = t then Some (x\<lparr>th_status := status\<rparr> # xs)
      else map_option (\<lambda>ys. x # ys) (set_status t status xs))"

text \<open>One round of the loop over the workers; \<open>active\<close> is \<open>activeTurns.has\<close>.\<close>

definition overlay_worker ::
  "(string \<Rightarrow> bool) \<Rightarrow> string option \<Rightarrow> worker_status \<Rightarrow> thread_summary list \<Rightarrow> thread_summary list" where
  "overlay_worker active resolvedCwd w threads =
     (case ws_threadId w of
        None \<Rightarrow> threads
      | Some t \<Rightarrow>
          if t = [] \<or> (truthy resolvedCwd \<and> resolvedCwd \<noteq> Some (ws_cwd w)) then threads
          else
            let status = (if ws_state w = ''running'' \<or> active t then ''running'' else ''idle'') in
            case set_status t status threads of
              Some threads' \<Rightarrow> threads'
            | None \<Rightarrow> threads @ [\<lparr>th_threadId = t, th_path = None, th_cwd = ws_cwd w, th_name = None, th_parent = None,
                                  th_created = None, th_modified = None, th_messageCount = 0,
                                  th_firstMessage = None, th_status = status\<rparr>])"

definition overlayWorkerThreadStatuses ::
  "string \<Rightarrow> thread_summary list \<Rightarrow> worker_status list \<Rightarrow> (string \<Rightarrow> bool) \<Rightarrow> string option \<Rightarrow> thread_summary list" where
  "overlayWorkerThreadStatuses here catalogThreads workers active cwd =
     (let resolvedCwd = (case cwd of None \<Rightarrow> None | Some c \<Rightarrow> if c = [] then None else Some (resolve here c)) in
      fold (overlay_worker active resolvedCwd) workers catalogThreads)"

end
