(* ===== verification/Thread_Queries_Props.thy ===== *)
theory Thread_Queries_Props
  imports Thread_Queries "HOL-Library.Multiset"
begin

text \<open>
  What the reading methods return: sorting and paging of threads, the entries and messages of a
  thread, relative times, and the overlay of the live workers on the catalog.
\<close>

section \<open>Sorting\<close>

text \<open>The number \<open>filterThreads\<close> sorts by, in ascending order of this key.\<close>

definition thread_key :: "(string \<Rightarrow> int option) \<Rightarrow> thread_list_params \<Rightarrow> thread_summary \<Rightarrow> int" where
  "thread_key date_parse q t =
     (let value = (if tl_sort q = Some ''created'' then threadCreatedTime date_parse t else threadUpdatedTime date_parse t) in
      if tl_asc q = Some True then value else - value)"

lemma thread_compare_key: "thread_compare date_parse q = (\<lambda>x y. thread_key date_parse q x - thread_key date_parse q y)"
  by (auto simp: thread_compare_def thread_key_def Let_def fun_eq_iff split: option.splits)

definition in_range :: "(string \<Rightarrow> int option) \<Rightarrow> int option \<Rightarrow> thread_summary \<Rightarrow> bool" where
  "in_range date_parse since t \<longleftrightarrow> (case since of None \<Rightarrow> True | Some s \<Rightarrow> s \<le> threadTime date_parse t)"

lemma filterThreads_eq:
  "filterThreads date_parse now threads q =
     (if tl_archived q then
        Inl (DaemonError InvalidParams ''Pi session archive filtering is not supported'' (Some [(''archived'', JBool True)]))
      else case parseSince date_parse now (tl_since q) of
        Inl e \<Rightarrow> Inl e
      | Inr since \<Rightarrow> Inr (sort_key (thread_key date_parse q) (filter (in_range date_parse since) threads)))"
proof -
  have "(case since of None \<Rightarrow> threads | Some t \<Rightarrow> filter (\<lambda>x. t \<le> threadTime date_parse x) threads)
      = filter (in_range date_parse since) threads" for since
    by (cases since) (auto simp: in_range_def cong: filter_cong)
  then show ?thesis
    by (auto simp: filterThreads_def thread_compare_key js_sort_key split: sum.splits)
qed

text \<open>
  C35. A listing contains exactly the threads in the requested range, ordered by the requested date
  in the requested direction; threads with the same date keep their order.
\<close>

theorem listing_is_stable_sort:
  assumes "filterThreads date_parse now threads q = Inr result"
  shows "\<exists>since. parseSince date_parse now (tl_since q) = Inr since \<and>
    sorted (map (thread_key date_parse q) result) \<and>
    mset result = mset (filter (in_range date_parse since) threads) \<and>
    (\<forall>k. filter (\<lambda>t. thread_key date_parse q t = k) result
       = filter (\<lambda>t. thread_key date_parse q t = k) (filter (in_range date_parse since) threads))"
  using assms by (auto simp: filterThreads_eq sort_key_stable simp del: mset_filter split: if_splits sum.splits)

definition sample_threads :: "thread_summary list" where
  "sample_threads = map (\<lambda>(i, d). \<lparr>th_threadId = i, th_path = None, th_cwd = ''/w'', th_name = None, th_parent = None,
     th_created = Some d, th_modified = None, th_messageCount = 0, th_firstMessage = None, th_status = ''idle''\<rparr>)
     [(''a'', ''1''), (''b'', ''3''), (''c'', ''2''), (''d'', ''3'')]"

definition sample_query :: thread_list_params where
  "sample_query = \<lparr>tl_cwd = None, tl_limit = Some 3, tl_cursor = None, tl_since = Some ''2m'', tl_archived = False,
     tl_sort = None, tl_asc = None\<rparr>"

definition sample_dates :: "string \<Rightarrow> int option" where
  "sample_dates s = (if s = ''1'' then Some 1000 else if s = ''2'' then Some 70000 else if s = ''3'' then Some 80000 else None)"

lemmas sample_query_defs = sample_threads_def sample_query_def sample_dates_def

lemma sample_listing:
  "filterThreads sample_dates 130000 sample_threads sample_query = Inr (map ((!) sample_threads) [1, 3, 2])"
  by code_simp

theorem listing_is_stable_sort_witness:
  "sorted (map (thread_key sample_dates sample_query) (map ((!) sample_threads) [1, 3, 2]))"
  using listing_is_stable_sort [OF sample_listing] by blast

section \<open>Paging\<close>

lemma digit_not_space: "is_digit c \<Longrightarrow> \<not> is_space c"
  by (auto simp: is_digit_def is_space_def)

lemma dropWhile_none: "list_all (\<lambda>c. \<not> P c) s \<Longrightarrow> dropWhile P s = s"
  by (induction s) auto

lemma trim_digits: "list_all is_digit s \<Longrightarrow> trim s = s"
  by (simp add: trim_def dropWhile_none list_all_iff digit_not_space)

lemma trim_dec [simp]: "trim (dec n) = dec n"
  by (rule trim_digits) (rule dec_digits)

lemma dec_no_sign: "hd (dec n) \<noteq> CHR ''-''" "hd (dec n) \<noteq> CHR ''+''"
  using dec_digits [of n] by (cases "dec n"; auto simp: is_digit_def)+

lemma to_number_dec [simp]: "to_number (dec n) = Some (int n)"
  by (simp add: to_number_def Let_def dec_no_sign dec_digits)

text \<open>
  A client that follows the cursors: the pages from the first one on, until a page has no cursor.
\<close>

fun follow :: "nat \<Rightarrow> thread_summary list \<Rightarrow> thread_list_params \<Rightarrow> thread_summary list option" where
  "follow 0 threads q = None"
| "follow (Suc k) threads q =
     (case pageThreads threads q of
        (page, None) \<Rightarrow> Some page
      | (page, Some cursor) \<Rightarrow> map_option ((@) page) (follow k threads (q\<lparr>tl_cursor := Some cursor\<rparr>)))"

definition page_size :: "thread_list_params \<Rightarrow> int" where
  "page_size q = (case tl_limit q of None \<Rightarrow> 50 | Some l \<Rightarrow> l)"

lemma pageThreads_at:
  assumes "0 < page_size q" "tl_cursor q = (if i = 0 then None else Some (dec i))"
  shows "pageThreads threads q =
    (take (nat (page_size q)) (drop i threads),
     if i + nat (page_size q) < length threads then Some (dec (i + nat (page_size q))) else None)"
proof -
  obtain n where n: "page_size q = int n" "0 < n" using assms(1) by (metis zero_less_imp_eq_int)
  have cursor: "(case tl_cursor q of None \<Rightarrow> Some 0 | Some c \<Rightarrow> if c = [] then Some 0 else to_number c) = Some (int i)"
    using assms(2) by simp
  have "(int i + int n < int (length threads)) = (i + n < length threads)" by linarith
  moreover have "int_string (int i + int n) = dec (i + n)" by (simp add: int_string_def nat_add_distrib)
  ultimately show ?thesis using cursor n(1)
    by (simp add: pageThreads_def Let_def page_size_def [symmetric] slice_page)
qed

lemma follow_from:
  assumes "0 < page_size q" "tl_cursor q = (if i = 0 then None else Some (dec i))" "length threads < i + k" "i \<le> length threads"
  shows "follow k threads q = Some (drop i threads)"
  using assms(2,3,1,4)
proof (induction k arbitrary: i q)
  case (Suc k)
  let ?n = "nat (page_size q)"
  let ?q = "q\<lparr>tl_cursor := Some (dec (i + ?n))\<rparr>"
  note page = pageThreads_at [OF Suc.prems(3,1), of threads]
  show ?case
  proof (cases "i + ?n < length threads")
    case True
    have size: "page_size ?q = page_size q" by (simp add: page_size_def)
    have n: "0 < ?n" using Suc.prems(3) by simp
    have "follow k threads ?q = Some (drop (i + ?n) threads)"
      by (rule Suc.IH) (use Suc.prems n size True in auto)
    then show ?thesis
      using True page by (simp add: drop_drop [symmetric] add.commute [of i] del: drop_drop)
  qed (use page in simp)
qed simp

text \<open>
  A client that starts without a cursor and follows the cursors it gets receives every thread
  of the listing exactly once and in order, in at most as many pages as there are threads, plus one.
\<close>

theorem paging_covers_listing:
  assumes "tl_cursor q = None" "0 < page_size q"
  shows "follow (length threads + 1) threads q = Some threads"
  using follow_from [of q 0 threads "length threads + 1"] assms by simp

theorem paging_covers_listing_witness:
  "follow 5 sample_threads sample_query = Some sample_threads"
  using paging_covers_listing [of sample_query sample_threads]
  by (simp add: sample_query_def sample_threads_def page_size_def eval_nat_numeral)

section \<open>Entries\<close>

text \<open>
  The entries of a thread are its message entries; with a limit they are the last ones in the
  order of the file, whatever direction was asked for; without a limit the direction decides.
\<close>

theorem entries_are_last_messages:
  "limitEntries (Some entries) lastN asc =
     (let messages = filter isMessageEntry entries in
      Some (case lastN of
              None \<Rightarrow> if asc = Some False then rev messages else messages
            | Some n \<Rightarrow> last_n (nat n) messages))"
proof (cases lastN)
  case (Some n)
  show ?thesis
  proof (cases "n \<le> 0")
    case False
    then obtain m where m: "n = int m" "0 < m" by (metis not_le zero_less_imp_eq_int)
    then show ?thesis
      by (simp add: limitEntries_def Let_def Some slice_from_last slice_first rev_take_rev)
  qed (simp add: limitEntries_def Let_def Some last_n_def)
qed (simp add: limitEntries_def Let_def)

section \<open>Relative times\<close>

lemma trim_last:
  assumes "list_all is_digit s" "s \<noteq> []" "u \<noteq> []" "\<not> is_space (last u)"
  shows "trim (s @ u) = s @ u"
proof -
  have 1: "dropWhile is_space (s @ u) = s @ u"
    using assms(1,2) by (cases s) (auto simp: digit_not_space)
  have 2: "dropWhile is_space (rev (s @ u)) = rev (s @ u)"
    using assms(3,4) by (cases u rule: rev_cases) auto
  show ?thesis by (simp only: trim_def 1 2 rev_rev_ident)
qed

text \<open>
  \<open>--since\<close> with a number and a unit means that long before now; with digits only it is a time
  in seconds.
\<close>

theorem since_relative:
  assumes "unit \<in> {''ms'', ''s'', ''m'', ''h'', ''d'', ''w''}"
  shows "parseSince date_parse now (Some (dec n @ unit)) = Inr (Some (now - int n * unit_ms unit)) \<and>
    parseSince date_parse now (Some (dec n)) = Inr (Some (int n * 1000))"
proof -
  have unit: "unit \<noteq> []" "\<not> is_space (last unit)" "\<not> is_digit (hd unit)" "to_lower unit = unit"
    using assms by (auto simp: is_space_def is_digit_def to_lower_def to_lower_char_def)
  then obtain c cs where c: "unit = c # cs" "\<not> is_digit c" by (cases unit) auto
  have "list_all is_digit (dec n)" by (rule dec_digits)
  then have "takeWhile is_digit (dec n @ unit) = dec n" "dropWhile is_digit (dec n @ unit) = unit"
    "\<not> list_all is_digit (dec n @ unit)"
    by (simp_all add: c list_all_iff)
  moreover have "trim (dec n @ unit) = dec n @ unit" using unit by (intro trim_last) (auto simp: dec_digits)
  ultimately show ?thesis
    using assms unit by (simp add: parseSince_def Let_def match_relative_def dec_digits)
qed

theorem since_relative_witness:
  "parseSince (\<lambda>_. None) 100000 (Some (dec 30 @ ''s'')) = Inr (Some 70000)"
  using since_relative [of "''s''" "\<lambda>_. None" 100000 30] by (simp add: unit_ms_def)

section \<open>Live workers\<close>

definition status_of :: "string \<Rightarrow> thread_summary list \<Rightarrow> string option" where
  "status_of t threads = map_option th_status (List.find (\<lambda>x. th_threadId x = t) threads)"

text \<open>The workers the overlay considers: bound to a thread and, when a directory is given, in it.\<close>

definition in_scope :: "string option \<Rightarrow> worker_status \<Rightarrow> bool" where
  "in_scope resolvedCwd w \<longleftrightarrow> truthy (ws_threadId w) \<and> (truthy resolvedCwd \<longrightarrow> resolvedCwd = Some (ws_cwd w))"

definition live_status :: "(string \<Rightarrow> bool) \<Rightarrow> worker_status \<Rightarrow> string" where
  "live_status active w =
     (if ws_state w = ''running'' \<or> active (the (ws_threadId w)) then ''running'' else ''idle'')"

lemma set_status_ids: "set_status t st xs = Some ys \<Longrightarrow> map th_threadId ys = map th_threadId xs"
  by (induction xs arbitrary: ys) (auto split: if_splits)

lemma set_status_None: "set_status t st xs = None \<longleftrightarrow> t \<notin> th_threadId ` set xs"
  by (induction xs) auto

lemma set_status_of:
  "set_status t st xs = Some ys \<Longrightarrow> status_of u ys = (if u = t then Some st else status_of u xs)"
  by (induction xs arbitrary: ys) (auto simp: status_of_def split: if_splits)

lemma status_of_snoc:
  "status_of u (xs @ [x]) = (case status_of u xs of None \<Rightarrow> if th_threadId x = u then Some (th_status x) else None | Some st \<Rightarrow> Some st)"
  by (induction xs) (auto simp: status_of_def)

lemma status_of_None: "status_of u xs = None \<longleftrightarrow> u \<notin> th_threadId ` set xs"
  by (induction xs) (auto simp: status_of_def)

lemma overlay_out: "\<not> in_scope cwd w \<Longrightarrow> overlay_worker active cwd w xs = xs"
  by (auto simp: in_scope_def overlay_worker_def truthy_iff split: option.splits)

lemma overlay_in:
  assumes "in_scope cwd w" "ws_threadId w = Some t"
  shows "status_of u (overlay_worker active cwd w xs) = (if u = t then Some (live_status active w) else status_of u xs)"
    and "map th_threadId (overlay_worker active cwd w xs) = map th_threadId xs @ (if t \<in> th_threadId ` set xs then [] else [t])"
proof -
  let ?new = "\<lparr>th_threadId = t, th_path = None, th_cwd = ws_cwd w, th_name = None, th_parent = None,
    th_created = None, th_modified = None, th_messageCount = 0, th_firstMessage = None, th_status = live_status active w\<rparr>"
  have eq: "overlay_worker active cwd w xs =
      (case set_status t (live_status active w) xs of Some ys \<Rightarrow> ys | None \<Rightarrow> xs @ [?new])"
  proof -
    have "\<not> (t = [] \<or> truthy cwd \<and> cwd \<noteq> Some (ws_cwd w))" using assms by (auto simp: in_scope_def)
    then show ?thesis
      by (simp only: overlay_worker_def assms(2) option.case Let_def live_status_def option.sel if_False)
  qed
  have "status_of u (overlay_worker active cwd w xs) = (if u = t then Some (live_status active w) else status_of u xs) \<and>
    map th_threadId (overlay_worker active cwd w xs) = map th_threadId xs @ (if t \<in> th_threadId ` set xs then [] else [t])"
  proof (cases "set_status t (live_status active w) xs")
    case None
    then have "t \<notin> th_threadId ` set xs" "status_of t xs = None" by (simp_all add: set_status_None status_of_None)
    then show ?thesis by (auto simp: eq None status_of_snoc split: option.splits)
  next
    case (Some ys)
    have "t \<in> th_threadId ` set xs" using set_status_None [of t "live_status active w" xs] Some by auto
    then show ?thesis using set_status_of [OF Some, of u] set_status_ids [OF Some] by (simp add: eq Some)
  qed
  then show "status_of u (overlay_worker active cwd w xs) = (if u = t then Some (live_status active w) else status_of u xs)"
    and "map th_threadId (overlay_worker active cwd w xs) = map th_threadId xs @ (if t \<in> th_threadId ` set xs then [] else [t])"
    by blast+
qed

lemma overlay_fold:
  assumes "distinct (map th_threadId xs)"
  shows "distinct (map th_threadId (fold (overlay_worker active cwd) ws xs)) \<and>
    prefix (map th_threadId xs) (map th_threadId (fold (overlay_worker active cwd) ws xs)) \<and>
    status_of u (fold (overlay_worker active cwd) ws xs) =
      (case List.find (\<lambda>w. in_scope cwd w \<and> ws_threadId w = Some u) (rev ws) of
         None \<Rightarrow> status_of u xs | Some w \<Rightarrow> Some (live_status active w))"
  using assms
proof (induction ws rule: rev_induct)
  case (snoc w ws)
  let ?xs = "fold (overlay_worker active cwd) ws xs"
  show ?case
  proof (cases "in_scope cwd w")
    case True
    then obtain t where t: "ws_threadId w = Some t" by (auto simp: in_scope_def truthy_iff)
    have "set (map th_threadId ?xs) = th_threadId ` set ?xs" by simp
    then show ?thesis
      using snoc True t overlay_in [OF True t, where active = active and xs = ?xs] by (auto simp: prefix_def)
  qed (use snoc in \<open>simp add: overlay_out\<close>)
qed simp

text \<open>
  The overlay keeps the catalog's threads in their order, adds each missing thread of a live
  worker once, and gives a thread the status of the last live worker bound to it: running when that
  worker is running or the thread has an active turn, idle otherwise. Other threads keep theirs.
\<close>

theorem overlay_shows_live_workers:
  assumes "distinct (map th_threadId catalogThreads)"
  shows "let result = overlayWorkerThreadStatuses here catalogThreads workers active cwd;
             scope = (case cwd of None \<Rightarrow> None | Some c \<Rightarrow> if c = [] then None else Some (resolve here c)) in
    distinct (map th_threadId result) \<and>
    prefix (map th_threadId catalogThreads) (map th_threadId result) \<and>
    (\<forall>t. status_of t result =
      (case List.find (\<lambda>w. in_scope scope w \<and> ws_threadId w = Some t) (rev workers) of
         None \<Rightarrow> status_of t catalogThreads | Some w \<Rightarrow> Some (live_status active w)))"
  using overlay_fold [OF assms] by (simp add: overlayWorkerThreadStatuses_def Let_def)

theorem overlay_shows_live_workers_witness:
  "distinct (map th_threadId sample_threads) \<and>
   distinct (map th_threadId (overlayWorkerThreadStatuses ''/w'' sample_threads
     [\<lparr>ws_workerId = ''worker_1'', ws_pid = None, ws_cwd = ''/w'', ws_state = ''running'', ws_threadId = Some ''b'',
       ws_version = None, ws_startedAt = ''0'', ws_lastUsedAt = ''0''\<rparr>] (\<lambda>_. False) (Some ''/w/'')))"
proof -
  have "distinct (map th_threadId sample_threads)" by (simp add: sample_threads_def)
  from this overlay_shows_live_workers [OF this] show ?thesis unfolding Let_def by blast
qed

end
