(* ===== verification/Configuration.thy ===== *)
theory Configuration
  imports Paths Worker_Pool
begin

text \<open>
  The configuration file (\<open>src/config.ts\<close>), the checks on listening sockets and requests
  (\<open>src/security/auth.ts\<close>, \<open>src/security/tls.ts\<close>) and the disposition of an input (\<open>src/worker/input-disposition.ts\<close>).
  A configuration is the JavaScript object itself, since the file's content is not checked before
  it is merged over the defaults.
\<close>

section \<open>Merging objects\<close>

text \<open>The properties that \<open>...value\<close> spreads into an object.\<close>

fun spread :: "json \<Rightarrow> (string \<times> json) list" where
  "spread (JObj kvs) = kvs"
| "spread (JArr vs) = map (\<lambda>(i, v). (dec i, v)) (enumerate 0 vs)"
| "spread (JStr s) = map (\<lambda>(i, c). (dec i, JStr [c])) (enumerate 0 s)"
| "spread _ = []"

definition overwrite :: "(string \<times> json) list \<Rightarrow> (string \<times> json) list \<Rightarrow> (string \<times> json) list" where
  "overwrite base over = fold (\<lambda>(k, v). jset k v) over base"

text \<open>\<open>value?.key\<close>.\<close>

definition jget_opt :: "json \<Rightarrow> string \<Rightarrow> json" where
  "jget_opt v k = (if nullish v then JUndefined else jget v k)"

section \<open>src/config.ts\<close>

definition defaultConfigPath :: "string \<Rightarrow> string \<Rightarrow> string" where
  "defaultConfigPath here home = resolve here (path_join [home, ''.config'', ''pi-threads'', ''config.json''])"

definition default_worker :: "(string \<times> json) list" where
  "default_worker = [(''minWorkers'', JNum 0), (''maxWorkers'', JNum 4), (''idleTtlMs'', JNum 300000),
     (''reuseAcrossThreads'', JBool True)]"

definition default_tcp :: "(string \<times> json) list" where
  "default_tcp = [(''enabled'', JBool False), (''bind'', JStr ''127.0.0.1''), (''port'', JNum 8765),
     (''allowedOrigins'', JArr [])]"

definition default_daemon :: "(string \<times> json) list" where
  "default_daemon = [(''unixSocket'', JStr ''/tmp/pi-threads.sock''), (''worker'', JObj default_worker),
     (''tcp'', JObj default_tcp)]"

definition default_servers :: "(string \<times> json) list" where
  "default_servers = [(''local'', JObj [(''endpoint'', JStr ''unix:///tmp/pi-threads.sock'')])]"

definition defaultConfig :: json where
  "defaultConfig = JObj [(''defaults'', JObj []), (''daemon'', JObj default_daemon), (''servers'', JObj default_servers)]"

definition THINKING_LEVELS :: "string list" where
  "THINKING_LEVELS = [''off'', ''minimal'', ''low'', ''medium'', ''high'', ''xhigh'', ''max'']"

definition mergeConfig :: "json \<Rightarrow> json \<Rightarrow> json result" where
  "mergeConfig base over =
     (if nullish over then Inl (JsError ''Cannot read properties of null'')
      else
        let daemon = jget base ''daemon''; over_daemon = jget over ''daemon'' in
        Inr (JObj
          [(''defaults'', JObj (overwrite (spread (jget base ''defaults'')) (spread (jget over ''defaults'')))),
           (''daemon'', JObj
              (jset ''tcp'' (JObj (overwrite (spread (jget daemon ''tcp'')) (spread (jget_opt over_daemon ''tcp''))))
                (jset ''worker'' (JObj (overwrite (spread (jget daemon ''worker'')) (spread (jget_opt over_daemon ''worker''))))
                  (overwrite (spread daemon) (spread over_daemon))))),
           (''servers'', JObj (overwrite (spread (jget base ''servers'')) (spread (jget over ''servers''))))]))"

fun isSafeInteger :: "json \<Rightarrow> bool" where
  "isSafeInteger (JNum n) = (\<bar>n\<bar> \<le> 2 ^ 53 - 1)"
| "isSafeInteger _ = False"

fun jnum :: "json \<Rightarrow> int" where
  "jnum (JNum n) = n"
| "jnum _ = 0"

fun is_jbool :: "json \<Rightarrow> bool" where
  "is_jbool (JBool _) = True"
| "is_jbool _ = False"

definition config_error :: "string \<Rightarrow> string \<Rightarrow> thrown" where
  "config_error source message = JsError (source @ '': '' @ message)"

definition blank_model :: "json \<Rightarrow> bool" where
  "blank_model m = (case m of JStr s \<Rightarrow> trim s = [] | _ \<Rightarrow> True)"

definition validateConfig :: "json \<Rightarrow> string \<Rightarrow> json result" where
  "validateConfig config source =
     (let worker = jget (jget config ''daemon'') ''worker'';
          maxWorkers = jget worker ''maxWorkers''; minWorkers = jget worker ''minWorkers'';
          idleTtlMs = jget worker ''idleTtlMs'';
          model = jget (jget config ''defaults'') ''model''; thinking = jget (jget config ''defaults'') ''thinking'' in
      if \<not> isSafeInteger maxWorkers \<or> jnum maxWorkers < 1 then
        Inl (config_error source ''daemon.worker.maxWorkers must be an integer of at least 1'')
      else if \<not> isSafeInteger minWorkers \<or> jnum minWorkers < 0 then
        Inl (config_error source ''daemon.worker.minWorkers must be a non-negative integer'')
      else if jnum maxWorkers < jnum minWorkers then
        Inl (config_error source ''daemon.worker.minWorkers cannot exceed maxWorkers'')
      else if \<not> isSafeInteger idleTtlMs \<or> jnum idleTtlMs < 0 then
        Inl (config_error source ''daemon.worker.idleTtlMs must be a non-negative integer'')
      else if \<not> is_jbool (jget worker ''reuseAcrossThreads'') then
        Inl (config_error source ''daemon.worker.reuseAcrossThreads must be a boolean'')
      else if model \<noteq> JUndefined \<and> blank_model model then
        Inl (config_error source ''defaults.model must be a non-empty string'')
      else if thinking \<noteq> JUndefined \<and> thinking \<notin> JStr ` set THINKING_LEVELS then
        Inl (config_error source (''defaults.thinking must be one of '' @ join '', '' THINKING_LEVELS))
      else Inr config)"

text \<open>\<open>read\<close> gives the content of an existing file or the error of \<open>readFileSync\<close>, \<open>None\<close> when there is no file.\<close>

definition loadConfig ::
  "(string \<Rightarrow> string + json) \<Rightarrow> (string \<Rightarrow> string result option) \<Rightarrow> string \<Rightarrow> string \<Rightarrow> string option \<Rightarrow> json result" where
  "loadConfig json_parse read here home path =
     (let configPath = (case path of
            None \<Rightarrow> defaultConfigPath here home
          | Some p \<Rightarrow> if p = [] then defaultConfigPath here home else resolve here p) in
      case read configPath of
        None \<Rightarrow> Inr defaultConfig
      | Some (Inl e) \<Rightarrow> Inl e
      | Some (Inr content) \<Rightarrow>
          (case json_parse content of
             Inl message \<Rightarrow> Inl (JsError message)
           | Inr raw \<Rightarrow>
               (case mergeConfig defaultConfig raw of
                  Inl e \<Rightarrow> Inl e
                | Inr merged \<Rightarrow> validateConfig merged configPath)))"

text \<open>The options of a client: \<open>connect\<close>, \<open>server\<close>, \<open>authToken\<close>, \<open>authTokenEnv\<close>, \<open>tlsCa\<close>.\<close>

record client_options =
  co_connect :: "string option"
  co_server :: "string option"
  co_authToken :: "string option"
  co_authTokenEnv :: "string option"
  co_tlsCa :: "string option"

definition coalesce :: "json \<Rightarrow> json \<Rightarrow> json" where
  "coalesce a b = (if nullish a then b else a)"

definition server_entry :: "json \<Rightarrow> string option \<Rightarrow> json" where
  "server_entry config server = jget (jget config ''servers'') (case server of None \<Rightarrow> ''local'' | Some s \<Rightarrow> s)"

definition resolveEndpoint :: "json \<Rightarrow> string option \<Rightarrow> string option \<Rightarrow> json" where
  "resolveEndpoint config connect server =
     (if truthy connect then jopt connect
      else coalesce (jget_opt (server_entry config server) ''endpoint'') (jget (jget config ''daemon'') ''unixSocket''))"

text \<open>The result is the endpoint, the token, the token's variable and the certificate authority.\<close>

definition resolveClientConfig :: "json \<Rightarrow> client_options \<Rightarrow> json \<times> json \<times> json \<times> json" where
  "resolveClientConfig config opts =
     (let server = (if truthy (co_connect opts) then JUndefined else server_entry config (co_server opts)) in
      (coalesce (jopt (co_connect opts)) (coalesce (jget_opt server ''endpoint'') (jget (jget config ''daemon'') ''unixSocket'')),
       coalesce (jopt (co_authToken opts)) (jget_opt server ''authToken''),
       coalesce (jopt (co_authTokenEnv opts)) (jget_opt server ''authTokenEnv''),
       coalesce (jopt (co_tlsCa opts)) (jget_opt server ''tlsCa'')))"

definition serverNameCandidates ::
  "(string \<Rightarrow> string + json) \<Rightarrow> (string \<Rightarrow> string result option) \<Rightarrow> string \<Rightarrow> string \<Rightarrow> string option \<Rightarrow> string list result" where
  "serverNameCandidates json_parse read here home path =
     (case loadConfig json_parse read here home path of
        Inl e \<Rightarrow> Inl e | Inr config \<Rightarrow> Inr (map fst (spread (jget config ''servers''))))"

text \<open>The options of the worker pool in a configuration that passed the checks.\<close>

definition pool_options_of :: "json \<Rightarrow> string \<Rightarrow> pool_options" where
  "pool_options_of config here =
     (let worker = jget (jget config ''daemon'') ''worker'' in
      \<lparr>op_minWorkers = nat (jnum (jget worker ''minWorkers'')), op_maxWorkers = nat (jnum (jget worker ''maxWorkers'')),
       op_idleTtlMs = nat (jnum (jget worker ''idleTtlMs'')),
       op_reuseAcrossThreads = Some (jget worker ''reuseAcrossThreads'' = JBool True),
       op_prewarmCwd = here, op_reapIntervalMs = None\<rparr>)"

section \<open>src/security\<close>

record auth_config =
  au_token :: "string option"
  au_tokenEnv :: "string option"
  au_allowedOrigins :: "string list option"

text \<open>\<open>env\<close> is \<open>process.env\<close>.\<close>

definition resolveToken :: "(string \<Rightarrow> string option) \<Rightarrow> auth_config \<Rightarrow> string option" where
  "resolveToken env config =
     (if truthy (au_token config) then au_token config
      else case au_tokenEnv config of
             None \<Rightarrow> None
           | Some v \<Rightarrow> if v = [] then None else env v)"

text \<open>
  The group of \<open>/^Bearer\s+(.+)$/i\<close>: the spaces are matched greedily, and one of them is given
  back when nothing else is left; a dot matches no line terminator.
\<close>

definition bearer_token :: "string \<Rightarrow> string option" where
  "bearer_token header =
     (let rest = drop 6 header; gap = takeWhile is_space rest; token = dropWhile is_space rest;
          terminator = (\<lambda>c. c = CHR 0x0A \<or> c = CHR 0x0D) in
      if to_lower (take 6 header) \<noteq> ''bearer'' \<or> gap = [] then None
      else if token \<noteq> [] then (if list_all (\<lambda>c. \<not> terminator c) token then Some token else None)
      else if 2 \<le> length gap \<and> \<not> terminator (last gap) then Some [last gap]
      else None)"

text \<open>\<open>timingSafeEqualText\<close>; \<open>crypto.timingSafeEqual\<close> compares buffers of the same length.\<close>

definition timingSafeEqualText :: "string \<Rightarrow> string \<Rightarrow> bool" where
  "timingSafeEqualText left right =
     (if length left \<noteq> length right then False else list_all2 (=) left right)"

definition assertBearerToken :: "(string \<Rightarrow> string option) \<Rightarrow> auth_config \<Rightarrow> string option \<Rightarrow> unit result" where
  "assertBearerToken env config authorizationHeader =
     (case resolveToken env config of
        None \<Rightarrow> Inr ()
      | Some expected \<Rightarrow>
          if expected = [] then Inr ()
          else
            let actual = (case authorizationHeader of None \<Rightarrow> None | Some h \<Rightarrow> bearer_token h) in
            if \<not> truthy actual then Inl (DaemonError Unauthorized ''Bearer token required'' None)
            else if \<not> timingSafeEqualText expected (the actual) then
              Inl (DaemonError Forbidden ''Bearer token rejected'' None)
            else Inr ())"

definition isLoopbackHost :: "string \<Rightarrow> bool" where
  "isLoopbackHost host \<longleftrightarrow> host = ''127.0.0.1'' \<or> host = ''::1'' \<or> host = ''localhost''"

definition assertAuthConfiguredForBind :: "(string \<Rightarrow> string option) \<Rightarrow> string \<Rightarrow> auth_config \<Rightarrow> unit result" where
  "assertAuthConfiguredForBind env host config =
     (if isLoopbackHost host then Inr ()
      else if \<not> truthy (resolveToken env config) then
        Inl (DaemonError Forbidden ''Non-loopback TCP requires bearer token auth'' (Some [(''bind'', JStr host)]))
      else Inr ())"

definition assertOriginAllowed :: "string list option \<Rightarrow> string option \<Rightarrow> unit result" where
  "assertOriginAllowed allowedOrigins origin =
     (case origin of
        None \<Rightarrow> Inr ()
      | Some o1 \<Rightarrow>
          if o1 = [] then Inr ()
          else if (case allowedOrigins of None \<Rightarrow> True | Some os \<Rightarrow> o1 \<notin> set os) then
            Inl (DaemonError Forbidden ''Origin rejected'' (Some [(''origin'', JStr o1)]))
          else Inr ())"

record tls_config =
  tc_ca :: "string option"
  tc_cert :: "string option"
  tc_key :: "string option"

definition assertTlsAllowedForBind :: "string \<Rightarrow> tls_config option \<Rightarrow> unit result" where
  "assertTlsAllowedForBind host tls =
     (if isLoopbackHost host then Inr ()
      else if (case tls of None \<Rightarrow> True | Some t \<Rightarrow> \<not> truthy (tc_cert t) \<or> \<not> truthy (tc_key t)) then
        Inl (DaemonError Forbidden ''Non-loopback TCP requires TLS certificate and key'' (Some [(''bind'', JStr host)]))
      else Inr ())"

text \<open>The certificate authority, the certificate and the key, read from their files in this order.\<close>

definition loadTlsOptions ::
  "(string \<Rightarrow> string result) \<Rightarrow> tls_config option \<Rightarrow> (string option \<times> string \<times> string) option result" where
  "loadTlsOptions read tls =
     (case tls of
        None \<Rightarrow> Inr None
      | Some t \<Rightarrow>
          if \<not> truthy (tc_cert t) \<or> \<not> truthy (tc_key t) then Inr None
          else
            case (if truthy (tc_ca t) then (case read (the (tc_ca t)) of Inl e \<Rightarrow> Inl e | Inr b \<Rightarrow> Inr (Some b)) else Inr None) of
              Inl e \<Rightarrow> Inl e
            | Inr ca \<Rightarrow>
                (case read (the (tc_cert t)) of
                   Inl e \<Rightarrow> Inl e
                 | Inr cert \<Rightarrow>
                     (case read (the (tc_key t)) of Inl e \<Rightarrow> Inl e | Inr key \<Rightarrow> Inr (Some (ca, cert, key)))))"

section \<open>src/worker/input-disposition.ts\<close>

text \<open>The arguments are \<open>response.data\<close> and \<open>response.command\<close>.\<close>

definition promptDisposition :: "json \<Rightarrow> json \<Rightarrow> string result" where
  "promptDisposition data cmd =
     (let disposition = (if record_like data then jget data ''disposition'' else JUndefined) in
      if disposition = JStr ''started'' then Inr ''started''
      else if disposition = JStr ''queued'' then Inr ''queued''
      else if disposition = JStr ''handled'' then Inr ''handled''
      else Inl (DaemonError PiRpcError ''Pi RPC response is missing a valid input disposition'' (Some [(''command'', cmd)])))"

definition queueDisposition :: "json \<Rightarrow> json \<Rightarrow> string result" where
  "queueDisposition data cmd =
     (case promptDisposition data cmd of
        Inl e \<Rightarrow> Inl e
      | Inr disposition \<Rightarrow>
          if disposition = ''started'' then
            Inl (DaemonError PiRpcError ''Pi RPC queue response has an invalid disposition'' (Some [(''command'', cmd)]))
          else Inr disposition)"

end
