(* ===== verification/Configuration_Props.thy ===== *)
theory Configuration_Props
  imports Configuration
begin

text \<open>
  What the configuration checks guarantee: the settings of the pool and the defaults of a turn are
  checked in a loaded configuration and the file takes precedence over the defaults; a listener beyond the loopback host admits only requests with the
  token; the supported versions of Pi are the releases 1.0.n.
\<close>

section \<open>Merging\<close>

lemma overwrite_snoc: "overwrite base (over @ [(k, v)]) = jset k v (overwrite base over)"
  by (simp add: overwrite_def)

lemma jget_overwrite:
  "jget (JObj (overwrite base over)) k = (case map_of (rev over) k of Some v \<Rightarrow> v | None \<Rightarrow> jget (JObj base) k)"
proof (induction over rule: rev_induct)
  case (snoc x over)
  obtain k' v where "x = (k', v)" by fastforce
  with snoc show ?case by (simp add: overwrite_snoc del: jget.simps)
qed (simp add: overwrite_def)

lemma spread_JObj: "is_jobj v \<Longrightarrow> JObj (spread v) = v"
  by (cases v) auto

text \<open>What an object of the file says for a key, if anything.\<close>

definition override_of :: "json \<Rightarrow> string \<Rightarrow> json option" where
  "override_of v k = map_of (rev (spread v)) k"

definition override_or :: "json option \<Rightarrow> json \<Rightarrow> json" where
  "override_or over base = (case over of Some v \<Rightarrow> v | None \<Rightarrow> base)"

lemma jget_merged: "jget (JObj (overwrite (spread base) (spread over))) k = override_or (override_of over k) (jget (JObj (spread base)) k)"
  by (simp add: jget_overwrite override_of_def override_or_def del: jget.simps split: option.splits)

text \<open>
  In a merged configuration every setting of the file replaces the default, separately for the
  defaults, the worker, the socket and each server, and a setting the file leaves out keeps its
  default.
\<close>

theorem file_overrides_defaults:
  assumes "mergeConfig defaultConfig raw = Inr config"
  shows "jget (jget config ''defaults'') k = override_or (override_of (jget raw ''defaults'') k) JUndefined \<and>
    jget (jget (jget config ''daemon'') ''worker'') k
      = override_or (override_of (jget_opt (jget raw ''daemon'') ''worker'') k) (jget (JObj default_worker) k) \<and>
    jget (jget (jget config ''daemon'') ''tcp'') k
      = override_or (override_of (jget_opt (jget raw ''daemon'') ''tcp'') k) (jget (JObj default_tcp) k) \<and>
    jget (jget config ''servers'') k = override_or (override_of (jget raw ''servers'') k) (jget (JObj default_servers) k) \<and>
    jget (jget config ''daemon'') ''unixSocket''
      = override_or (override_of (jget raw ''daemon'') ''unixSocket'') (JStr ''/tmp/pi-threads.sock'')"
proof -
  let ?daemon = "jset ''tcp'' (JObj (overwrite (spread (JObj default_tcp)) (spread (jget_opt (jget raw ''daemon'') ''tcp''))))
    (jset ''worker'' (JObj (overwrite (spread (JObj default_worker)) (spread (jget_opt (jget raw ''daemon'') ''worker''))))
      (overwrite (spread (JObj default_daemon)) (spread (jget raw ''daemon''))))"
  have config: "config = JObj
      [(''defaults'', JObj (overwrite (spread (JObj [])) (spread (jget raw ''defaults'')))), (''daemon'', JObj ?daemon),
       (''servers'', JObj (overwrite (spread (JObj default_servers)) (spread (jget raw ''servers''))))]"
    using assms by (simp add: mergeConfig_def defaultConfig_def default_daemon_def Let_def split: if_splits)
  have parts: "jget config ''defaults'' = JObj (overwrite (spread (JObj [])) (spread (jget raw ''defaults'')))"
    "jget config ''daemon'' = JObj ?daemon"
    "jget config ''servers'' = JObj (overwrite (spread (JObj default_servers)) (spread (jget raw ''servers'')))"
    by (simp_all add: config)
  have daemon: "jget (JObj ?daemon) ''worker''
      = JObj (overwrite (spread (JObj default_worker)) (spread (jget_opt (jget raw ''daemon'') ''worker'')))"
    "jget (JObj ?daemon) ''tcp''
      = JObj (overwrite (spread (JObj default_tcp)) (spread (jget_opt (jget raw ''daemon'') ''tcp'')))"
    "jget (JObj ?daemon) ''unixSocket''
      = override_or (override_of (jget raw ''daemon'') ''unixSocket'') (JStr ''/tmp/pi-threads.sock'')"
    by (simp_all add: jget_merged del: jget.simps spread.simps) (simp add: default_daemon_def)
  show ?thesis
    unfolding parts daemon jget_merged by simp
qed

section \<open>Checks\<close>

text \<open>
  The types and ranges of the settings that are checked: those of the worker pool and the defaults of a
  turn. The other settings are not checked by the program.
\<close>

definition checked_settings :: "json \<Rightarrow> bool" where
  "checked_settings config \<longleftrightarrow>
     (let worker = jget (jget config ''daemon'') ''worker''; model = jget (jget config ''defaults'') ''model'';
          thinking = jget (jget config ''defaults'') ''thinking'' in
      (\<exists>lo hi ttl reuse. jget worker ''minWorkers'' = JNum lo \<and> jget worker ''maxWorkers'' = JNum hi \<and>
         jget worker ''idleTtlMs'' = JNum ttl \<and> jget worker ''reuseAcrossThreads'' = JBool reuse \<and>
         0 \<le> lo \<and> lo \<le> hi \<and> 1 \<le> hi \<and> hi < 2 ^ 53 \<and> 0 \<le> ttl \<and> ttl < 2 ^ 53) \<and>
      (model = JUndefined \<or> (\<exists>m. model = JStr m \<and> trim m \<noteq> [])) \<and>
      (thinking = JUndefined \<or> (\<exists>t. thinking = JStr t \<and> t \<in> set THINKING_LEVELS)))"

lemma isSafeInteger_iff: "isSafeInteger v \<longleftrightarrow> (\<exists>n. v = JNum n \<and> \<bar>n\<bar> \<le> 2 ^ 53 - 1)"
  by (cases v) auto

lemma is_jbool_iff: "is_jbool v \<longleftrightarrow> (\<exists>b. v = JBool b)"
  by (cases v) auto

lemma blank_model_iff: "blank_model v \<longleftrightarrow> (\<forall>m. v = JStr m \<longrightarrow> trim m = [])"
  by (cases v) (auto simp: blank_model_def)

lemma numbers_ok:
  "(\<exists>lo hi ttl reuse. a = JNum lo \<and> b = JNum hi \<and> c = JNum ttl \<and> d = JBool reuse \<and>
      0 \<le> lo \<and> lo \<le> hi \<and> 1 \<le> hi \<and> hi < 2 ^ 53 \<and> 0 \<le> ttl \<and> ttl < 2 ^ 53) \<longleftrightarrow>
   (isSafeInteger b \<and> 1 \<le> jnum b) \<and> (isSafeInteger a \<and> 0 \<le> jnum a) \<and> jnum a \<le> jnum b \<and>
   (isSafeInteger c \<and> 0 \<le> jnum c) \<and> is_jbool d"
  by (auto simp: isSafeInteger_iff is_jbool_iff)

lemma guard_Inr: "(if P then Inl x else y) = Inr c \<longleftrightarrow> \<not> P \<and> y = Inr c"
  by simp

lemma validateConfig_ok: "validateConfig config source = Inr c \<longleftrightarrow> c = config \<and> checked_settings config"
  unfolding validateConfig_def checked_settings_def Let_def numbers_ok guard_Inr blank_model_iff
  by (simp only: de_Morgan_disj de_Morgan_conj not_not not_less not_all not_imp sum.inject image_iff) blast

lemma validateConfig_error:
  "validateConfig config source = Inl e \<Longrightarrow> \<exists>message. e = JsError (source @ '': '' @ message)"
  by (auto simp: validateConfig_def config_error_def Let_def split: if_splits)

lemma default_checked: "checked_settings defaultConfig"
  by (auto simp: checked_settings_def defaultConfig_def default_daemon_def default_worker_def)

lemma loadConfig_ok:
  assumes "loadConfig json_parse read here home path = Inr config"
  shows "checked_settings config"
  using assms default_checked
  by (auto simp: loadConfig_def Let_def validateConfig_ok split: option.splits sum.splits)

text \<open>
  C36. What loading a configuration gives: the defaults when there is no file, otherwise the file merged
  over them, exactly if the settings of the worker pool and the defaults of a turn have their types and
  ranges there. So the pool's minimum is never above its maximum, which is at least one.
\<close>

theorem loaded_settings_are_checked:
  shows "(loadConfig json_parse read here home path = Inr config \<longleftrightarrow>
      (let file = if truthy path then resolve here (the path) else defaultConfigPath here home in
       read file = None \<and> config = defaultConfig \<or>
       (\<exists>content raw. read file = Some (Inr content) \<and> json_parse content = Inr raw \<and>
          mergeConfig defaultConfig raw = Inr config \<and> checked_settings config))) \<and>
    (loadConfig json_parse read here home path = Inr config \<longrightarrow>
      checked_settings config \<and> op_minWorkers (pool_options_of config cwd) \<le> op_maxWorkers (pool_options_of config cwd) \<and>
      1 \<le> op_maxWorkers (pool_options_of config cwd))"
proof (intro conjI impI)
  have path: "(case path of None \<Rightarrow> defaultConfigPath here home
      | Some p \<Rightarrow> if p = [] then defaultConfigPath here home else resolve here p)
    = (if truthy path then resolve here (the path) else defaultConfigPath here home)"
    by (simp add: truthy_iff split: option.split)
  show "loadConfig json_parse read here home path = Inr config \<longleftrightarrow>
      (let file = if truthy path then resolve here (the path) else defaultConfigPath here home in
       read file = None \<and> config = defaultConfig \<or>
       (\<exists>content raw. read file = Some (Inr content) \<and> json_parse content = Inr raw \<and>
          mergeConfig defaultConfig raw = Inr config \<and> checked_settings config))"
    unfolding loadConfig_def Let_def path by (auto simp: validateConfig_ok split: option.splits sum.splits)
  assume "loadConfig json_parse read here home path = Inr config"
  then have "checked_settings config" by (rule loadConfig_ok)
  then show "checked_settings config" "op_minWorkers (pool_options_of config cwd) \<le> op_maxWorkers (pool_options_of config cwd)"
    "1 \<le> op_maxWorkers (pool_options_of config cwd)"
    by (auto simp: checked_settings_def pool_options_of_def Let_def)
qed

theorem loaded_settings_are_checked_witness:
  "op_maxWorkers (pool_options_of defaultConfig ''/w'') = 4 \<and> checked_settings defaultConfig"
proof -
  have "loadConfig (\<lambda>_. Inl []) (\<lambda>_. None) ''/w'' ''/home/u'' None = Inr defaultConfig"
    by (simp add: loadConfig_def)
  with loaded_settings_are_checked [of "\<lambda>_. Inl []" "\<lambda>_. None" "''/w''" "''/home/u''" None defaultConfig]
  show ?thesis
    by (simp add: pool_options_of_def defaultConfig_def default_daemon_def default_worker_def)
qed

definition sample_raw :: json where
  "sample_raw = JObj [(''daemon'', JObj [(''worker'', JObj [(''maxWorkers'', JNum 2)])])]"

theorem file_overrides_defaults_witness:
  "\<exists>config. mergeConfig defaultConfig sample_raw = Inr config \<and>
     jget (jget (jget config ''daemon'') ''worker'') ''maxWorkers'' = JNum 2"
proof -
  obtain config where config: "mergeConfig defaultConfig sample_raw = Inr config"
    by (auto simp: mergeConfig_def sample_raw_def Let_def)
  from file_overrides_defaults [OF this, of "''maxWorkers''"]
  have "jget (jget (jget config ''daemon'') ''worker'') ''maxWorkers'' = JNum 2"
    by (simp add: sample_raw_def override_or_def override_of_def jget_opt_def)
  with config show ?thesis by blast
qed

text \<open>
  A merged configuration whose checked settings are wrong is refused, with an error that names the
  file; any other is accepted unchanged.
\<close>

theorem ill_typed_config_refused:
  "(case validateConfig config source of
      Inr c \<Rightarrow> c = config \<and> checked_settings config
    | Inl e \<Rightarrow> (\<exists>message. e = JsError (source @ '': '' @ message)) \<and> \<not> checked_settings config)"
proof (cases "validateConfig config source")
  case (Inl e)
  then have "\<not> checked_settings config" using validateConfig_ok [of config source config] by auto
  with Inl validateConfig_error [OF Inl] show ?thesis by simp
next
  case (Inr c)
  with validateConfig_ok [of config source c] show ?thesis by simp
qed

section \<open>Tokens\<close>

lemma timingSafeEqualText_iff [simp]: "timingSafeEqualText a b \<longleftrightarrow> a = b"
  by (auto simp: timingSafeEqualText_def list_all2_eq [symmetric])

lemma assertBearerToken_iff:
  "assertBearerToken env config header =
     (if \<not> truthy (resolveToken env config) then Inr ()
      else let actual = Option.bind header bearer_token in
        if \<not> truthy actual then Inl (DaemonError Unauthorized ''Bearer token required'' None)
        else if actual = resolveToken env config then Inr ()
        else Inl (DaemonError Forbidden ''Bearer token rejected'' None))"
  by (cases "resolveToken env config"; cases header)
    (auto simp: assertBearerToken_def Let_def truthy_iff split: option.splits)

lemma bearer_token_sent:
  assumes "t \<noteq> []" "\<not> is_space (hd t)" "list_all (\<lambda>c. c \<noteq> CHR 0x0A \<and> c \<noteq> CHR 0x0D) t"
  shows "bearer_token (''Bearer '' @ t) = Some t"
proof -
  obtain c cs where "t = c # cs" using assms(1) by (cases t) auto
  moreover have "to_lower ''Bearer'' = ''bearer''" "is_space (CHR '' '')" by code_simp+
  moreover have "take 6 (''Bearer '' @ t) = ''Bearer''" "drop 6 (''Bearer '' @ t) = CHR '' '' # t" by simp_all
  ultimately show ?thesis
    using assms by (simp add: bearer_token_def Let_def list_all_iff)
qed

text \<open>
  On a host beyond loopback where listening was allowed, a request without a bearer token is
  unauthorized, one with another token is forbidden, and one is admitted exactly when its header
  carries the configured token.
\<close>

theorem remote_requests_need_token:
  assumes "assertAuthConfiguredForBind env host config = Inr ()" "\<not> isLoopbackHost host"
  shows "\<exists>token. token \<noteq> [] \<and> resolveToken env config = Some token \<and>
    assertBearerToken env config None = Inl (DaemonError Unauthorized ''Bearer token required'' None) \<and>
    (assertBearerToken env config (Some header) = Inr () \<longleftrightarrow> bearer_token header = Some token) \<and>
    (\<forall>other. other \<noteq> [] \<longrightarrow> other \<noteq> token \<longrightarrow> bearer_token header = Some other \<longrightarrow>
       assertBearerToken env config (Some header) = Inl (DaemonError Forbidden ''Bearer token rejected'' None))"
proof -
  obtain token where token: "resolveToken env config = Some token" "token \<noteq> []"
    using assms by (auto simp: assertAuthConfiguredForBind_def truthy_iff split: if_splits)
  then show ?thesis
    by (auto simp: assertBearerToken_iff Let_def truthy_iff)
qed

definition sample_auth :: auth_config where
  "sample_auth = \<lparr>au_token = None, au_tokenEnv = Some ''TOKEN'', au_allowedOrigins = None\<rparr>"

definition sample_env :: "string \<Rightarrow> string option" where
  "sample_env = Map.empty(''TOKEN'' \<mapsto> ''s3cret'')"

theorem remote_requests_need_token_witness:
  "assertBearerToken sample_env sample_auth None = Inl (DaemonError Unauthorized ''Bearer token required'' None) \<and>
   bearer_token ''Bearer s3cret'' = Some ''s3cret''"
proof -
  have bind: "assertAuthConfiguredForBind sample_env ''0.0.0.0'' sample_auth = Inr ()" "\<not> isLoopbackHost ''0.0.0.0''"
    by (simp_all add: assertAuthConfiguredForBind_def isLoopbackHost_def sample_env_def sample_auth_def resolveToken_def)
  have "bearer_token (''Bearer '' @ ''s3cret'') = Some ''s3cret''"
    by (rule bearer_token_sent) (simp_all add: is_space_def)
  with remote_requests_need_token [OF bind] show ?thesis by auto
qed

section \<open>Versions of Pi\<close>

lemma digits_canonical:
  "list_all is_digit s \<Longrightarrow> s \<noteq> [] \<Longrightarrow> s = ''0'' \<or> hd s \<noteq> CHR ''0'' \<Longrightarrow> s = dec (undec s)"
proof (induction s rule: rev_induct)
  case (snoc c s)
  have c: "c = digit_char (digit_val c)" "digit_val c < 10"
    using snoc.prems(1) by (auto simp: is_digit_def digit_char_def digit_val_def)
  show ?case
  proof (cases "s = []")
    case True
    have "undec [c] = digit_val c" by (simp add: undec_def)
    with True c show ?thesis by (simp add: dec_small)
  next
    case False
    have s: "s = dec (undec s)" using snoc False by (intro snoc.IH) auto
    have "undec s \<noteq> 0"
    proof
      assume "undec s = 0"
      moreover have "dec 0 = ''0''" by code_simp
      ultimately have "dec (undec s) = ''0''" by simp
      with s have "s = ''0''" by simp
      with snoc.prems(3) show False by simp
    qed
    then have "undec (s @ [c]) \<ge> 10" "undec (s @ [c]) div 10 = undec s" "undec (s @ [c]) mod 10 = digit_val c"
      using c(2) by (simp_all add: undec_snoc)
    then have "dec (undec (s @ [c])) = dec (undec s) @ [digit_char (digit_val c)]" by (simp add: dec_big)
    with s c show ?thesis by metis
  qed
qed simp

lemma dec_no_plus: "CHR ''+'' \<notin> set (dec n)"
  using dec_digits [of n] by (auto simp: list_all_iff is_digit_def)

lemma join_split_on: "join [c] (split_on c s) = s"
proof (induction s)
  case (Cons x s)
  obtain p ps where p: "split_on c s = p # ps" by (metis split_on_not_Nil neq_Nil_conv)
  with Cons show ?case by (cases ps) auto
qed simp

lemma ident_no_dot: "list_all ident_char p \<Longrightarrow> CHR ''.'' \<notin> set p"
  by (auto simp: list_all_iff ident_char_def is_digit_def)

lemma split_on_join_dots:
  "ids \<noteq> [] \<Longrightarrow> \<forall>p \<in> set ids. list_all ident_char p \<Longrightarrow> split_on (CHR ''.'') (join ''.'' ids) = ids"
  by (rule split_on_join) (auto dest: ident_no_dot)

text \<open>The texts of the supported releases: 1.0 with a patch number and optional build identifiers.\<close>

definition pi_release :: "nat \<Rightarrow> string list \<Rightarrow> string" where
  "pi_release patch ids = ''1.0.'' @ dec patch @ (if ids = [] then [] else CHR ''+'' # join ''.'' ids)"

text \<open>
  A version of Pi is supported exactly when, up to surrounding blanks, it is 1.0.n for a number n,
  possibly with build identifiers: pre-releases, leading zeros and empty identifiers are refused.
\<close>

theorem supported_versions:
  "isSupportedPiVersion version \<longleftrightarrow>
     (\<exists>patch ids. trim version = pi_release patch ids \<and> (\<forall>p \<in> set ids. p \<noteq> [] \<and> list_all ident_char p))"
proof
  assume sup: "isSupportedPiVersion version"
  define rest where "rest = drop 4 (trim version)"
  define patch where "patch = takeWhile (\<lambda>c. c \<noteq> CHR ''+'') rest"
  define build where "build = dropWhile (\<lambda>c. c \<noteq> CHR ''+'') rest"
  have v: "trim version = ''1.0.'' @ patch @ build"
  proof -
    have "take 4 (trim version) = ''1.0.''"
      using sup by (simp add: isSupportedPiVersion_def starts_with_def Let_def numeral_eq_Suc)
    then show ?thesis by (metis append_take_drop_id build_def patch_def rest_def takeWhile_dropWhile_id)
  qed
  have patch: "patch = ''0'' \<or> patch \<noteq> [] \<and> list_all is_digit patch \<and> hd patch \<noteq> CHR ''0''"
    and build: "build = [] \<or> list_all (\<lambda>p. p \<noteq> [] \<and> list_all ident_char p) (split_on (CHR ''.'') (tl build))"
    using sup unfolding isSupportedPiVersion_def Let_def rest_def [symmetric] patch_def [symmetric] build_def [symmetric]
    by blast+
  have "patch = dec (undec patch)" using patch by (intro digits_canonical) (auto simp: is_digit_def)
  moreover obtain ids where "build = (if ids = [] then [] else CHR ''+'' # join ''.'' ids)" "\<forall>p \<in> set ids. p \<noteq> [] \<and> list_all ident_char p"
  proof -
    have "\<exists>ids. build = (if ids = [] then [] else CHR ''+'' # join ''.'' ids) \<and> (\<forall>p \<in> set ids. p \<noteq> [] \<and> list_all ident_char p)"
    proof (cases build)
      case (Cons c cs)
      then have "c = CHR ''+''" unfolding build_def by (metis (mono_tags, lifting) dropWhile_eq_Cons_conv)
      with Cons build show ?thesis
        by (intro exI [of _ "split_on (CHR ''.'') cs"]) (auto simp: join_split_on list_all_iff)
    qed (auto intro: exI [of _ "[]"])
    then show thesis using that by blast
  qed
  ultimately have "trim version = pi_release (undec patch) ids \<and> (\<forall>p \<in> set ids. p \<noteq> [] \<and> list_all ident_char p)"
    using v by (simp add: pi_release_def)
  then show "\<exists>patch ids. trim version = pi_release patch ids \<and> (\<forall>p \<in> set ids. p \<noteq> [] \<and> list_all ident_char p)"
    by blast
next
  assume "\<exists>patch ids. trim version = pi_release patch ids \<and> (\<forall>p \<in> set ids. p \<noteq> [] \<and> list_all ident_char p)"
  then obtain patch ids where v: "trim version = pi_release patch ids" and ids: "\<forall>p \<in> set ids. p \<noteq> [] \<and> list_all ident_char p"
    by blast
  let ?build = "if ids = [] then [] else CHR ''+'' # join ''.'' ids"
  have parts: "takeWhile (\<lambda>c. c \<noteq> CHR ''+'') (dec patch @ ?build) = dec patch"
    "dropWhile (\<lambda>c. c \<noteq> CHR ''+'') (dec patch @ ?build) = ?build"
    using dec_no_plus [of patch] by (auto simp: takeWhile_append dropWhile_append)
  have "dec patch = ''0'' \<or> dec patch \<noteq> [] \<and> list_all is_digit (dec patch) \<and> hd (dec patch) \<noteq> CHR ''0''"
    using dec_canonical [of patch] by (auto simp: dec_digits)
  moreover have "?build = [] \<or> list_all (\<lambda>p. p \<noteq> [] \<and> list_all ident_char p) (split_on (CHR ''.'') (tl ?build))"
    using ids split_on_join_dots [of ids] by (auto simp: list_all_iff)
  moreover have "drop 4 (trim version) = dec patch @ ?build" "starts_with ''1.0.'' (trim version)"
    by (simp_all add: v pi_release_def starts_with_def)
  ultimately show "isSupportedPiVersion version"
    unfolding isSupportedPiVersion_def Let_def by (simp only: parts simp_thms)
qed

theorem supported_versions_witness: "isSupportedPiVersion ''1.0.7+linux.x64''"
proof -
  have "trim ''1.0.7+linux.x64'' = pi_release 7 [''linux'', ''x64'']" "list_all ident_char ''linux''" "list_all ident_char ''x64''"
    by code_simp+
  then have "\<exists>patch ids. trim ''1.0.7+linux.x64'' = pi_release patch ids \<and> (\<forall>p \<in> set ids. p \<noteq> [] \<and> list_all ident_char p)"
    by (intro exI [of _ 7] exI [of _ "[''linux'', ''x64'']"]) simp
  then show ?thesis by (simp only: supported_versions)
qed

end
