(* ===== verification/Line_Framing.thy ===== *)
theory Line_Framing
  imports Protocol
begin

text \<open>
  The line framing that the worker (\<open>handleStdout\<close> of \<open>src/worker/pi-rpc-worker.ts\<close>), the JSON-RPC
  connection (\<open>handleChunk\<close> of \<open>src/transport/json-rpc-router.ts\<close>) and the socket client (\<open>consume\<close>
  of \<open>src/client/socket-client.ts\<close>) each contain: text arrives in arbitrary chunks, a line ends at a
  line feed, a carriage return before it is dropped, and empty lines are skipped.
\<close>

section \<open>Lines of a buffer\<close>

definition newline :: char where
  "newline = CHR 0x0A"

definition carriage_return :: char where
  "carriage_return = CHR 0x0D"

text \<open>\<open>line.replace(/\r$/, "")\<close>.\<close>

definition strip_cr :: "string \<Rightarrow> string" where
  "strip_cr line = (if line \<noteq> [] \<and> last line = carriage_return then butlast line else line)"

text \<open>\<open>buffer.indexOf("\n")\<close>: the text before the first line feed and the text after it.\<close>

definition next_line :: "string \<Rightarrow> (string \<times> string) option" where
  "next_line buffer =
     (if newline \<in> set buffer
      then Some (takeWhile (\<lambda>c. c \<noteq> newline) buffer, tl (dropWhile (\<lambda>c. c \<noteq> newline) buffer))
      else None)"

lemma next_line_append: "newline \<notin> set line \<Longrightarrow> next_line (line @ newline # rest) = Some (line, rest)"
proof -
  assume "newline \<notin> set line"
  then have "\<forall>c \<in> set line. c \<noteq> newline" by blast
  then show ?thesis by (simp add: next_line_def takeWhile_append dropWhile_append)
qed

lemma next_line_None: "next_line b = None \<longleftrightarrow> newline \<notin> set b"
  by (simp add: next_line_def)

lemma next_line_Some: "next_line b = Some (line, rest) \<longleftrightarrow> b = line @ newline # rest \<and> newline \<notin> set line"
proof
  assume next_b: "next_line b = Some (line, rest)"
  then have "newline \<in> set b" by (auto simp: next_line_def split: if_splits)
  then obtain ys zs where b: "b = ys @ newline # zs" "newline \<notin> set ys" by (meson split_list_first)
  with next_b next_line_append [OF b(2), of zs] show "b = line @ newline # rest \<and> newline \<notin> set line" by simp
next
  assume "b = line @ newline # rest \<and> newline \<notin> set line"
  then show "next_line b = Some (line, rest)" using next_line_append by blast
qed

text \<open>
  The loop that all three readers contain: while there is a complete line, take it off the buffer
  and, unless it is empty, handle it; \<open>stop\<close> ends the loop early.
\<close>

function drain_lines :: "('s \<Rightarrow> bool) \<Rightarrow> (string \<Rightarrow> 's \<Rightarrow> 's) \<Rightarrow> string \<Rightarrow> 's \<Rightarrow> string \<times> 's" where
  "drain_lines stop handle buffer s =
     (if stop s then (buffer, s)
      else case next_line buffer of
        None \<Rightarrow> (buffer, s)
      | Some (line, rest) \<Rightarrow>
          drain_lines stop handle rest (if strip_cr line = [] then s else handle (strip_cr line) s))"
  by pat_completeness auto
termination by (relation "measure (\<lambda>(_, _, b, _). length b)") (auto simp: next_line_Some)

declare drain_lines.simps [simp del]

section \<open>The lines of a text\<close>

text \<open>The complete lines of a text, as they are handled, and what is left of it.\<close>

definition lines_of :: "string \<Rightarrow> string list" where
  "lines_of text_read = filter (\<lambda>l. l \<noteq> []) (map strip_cr (butlast (split_on newline text_read)))"

definition rest_of :: "string \<Rightarrow> string" where
  "rest_of text_read = last (split_on newline text_read)"

lemma lines_of_none: "newline \<notin> set b \<Longrightarrow> lines_of b = [] \<and> rest_of b = b"
  by (simp add: lines_of_def rest_of_def split_on_absent)

lemma lines_of_next:
  "newline \<notin> set line \<Longrightarrow> lines_of (line @ newline # rest) =
     (if strip_cr line = [] then lines_of rest else strip_cr line # lines_of rest) \<and>
   rest_of (line @ newline # rest) = rest_of rest"
  by (simp add: lines_of_def rest_of_def split_on_append)

lemma drain_lines_eq:
  "drain_lines (\<lambda>_. False) handle buffer s = (rest_of buffer, fold handle (lines_of buffer) s)"
proof (induction "length buffer" arbitrary: buffer s rule: less_induct)
  case less
  show ?case
  proof (cases "next_line buffer")
    case None
    then show ?thesis
      by (subst drain_lines.simps) (simp add: lines_of_none None next_line_None [THEN iffD1])
  next
    case (Some lr)
    obtain line rest where lr: "lr = (line, rest)" by fastforce
    with Some have b: "buffer = line @ newline # rest" "newline \<notin> set line" by (simp_all add: next_line_Some)
    then have "length rest < length buffer" by simp
    with less lines_of_next [OF b(2), of rest] show ?thesis
      by (subst drain_lines.simps) (simp add: next_line_append b)
  qed
qed

lemma split_on_join_last: "split_on c (xs @ ys) = butlast (split_on c xs) @ split_on c (last (split_on c xs) @ ys)"
proof (induction xs)
  case (Cons x xs)
  obtain p ps where p: "split_on c xs = p # ps" by (metis split_on_not_Nil neq_Nil_conv)
  show ?case
  proof (cases ps)
    case Nil
    then show ?thesis using Cons p by (cases "split_on c (p @ ys)") auto
  next
    case (Cons q qs)
    then show ?thesis using Cons.IH p by auto
  qed
qed simp

lemma rest_of_append: "rest_of (a @ b) = rest_of (rest_of a @ b)"
proof -
  have "last (split_on newline (a @ b)) = last (butlast (split_on newline a) @ split_on newline (rest_of a @ b))"
    unfolding rest_of_def by (subst split_on_join_last) simp
  then show ?thesis unfolding rest_of_def by simp
qed

lemma lines_of_append: "lines_of (a @ b) = lines_of a @ lines_of (rest_of a @ b)"
proof -
  have "butlast (split_on newline (a @ b)) = butlast (split_on newline a) @ butlast (split_on newline (rest_of a @ b))"
    by (subst split_on_join_last) (simp add: rest_of_def butlast_append)
  then show ?thesis by (simp add: lines_of_def)
qed

section \<open>Encoded values are lines\<close>

definition printable :: "string \<Rightarrow> bool" where
  "printable s \<longleftrightarrow> (\<forall>c \<in> set s. 32 \<le> (of_char c :: nat))"

lemma printable_simps [simp]:
  "printable []" "printable (c # s) \<longleftrightarrow> 32 \<le> (of_char c :: nat) \<and> printable s"
  "printable (s @ t) \<longleftrightarrow> printable s \<and> printable t"
  by (auto simp: printable_def)

lemma printable_dec: "printable (dec n)"
  using dec_digits [of n] by (auto simp: printable_def list_all_iff is_digit_def)

lemma printable_escape: "printable (escape_char c)"
  by (auto simp: escape_char_def Let_def hex_char_def)

lemma printable_quote: "printable (quote s)"
  by (induction s) (simp_all add: quote_def printable_escape)

lemma printable_join: "printable sep \<Longrightarrow> \<forall>s \<in> set ss. printable s \<Longrightarrow> printable (join sep ss)"
  by (induction sep ss rule: join.induct) auto

lemma printable_stringify_all:
  "printable (stringify v)" "\<forall>s \<in> set (stringify_elems vs). printable s"
  "\<forall>s \<in> set (stringify_props kvs). printable s"
  by (induction v and vs and kvs rule: stringify_stringify_elems_stringify_props.induct)
    (auto simp: int_string_def printable_dec printable_quote printable_join)

lemma stringify_not_Nil: "stringify v \<noteq> []"
  by (cases v) (auto simp: int_string_def quote_def)

lemma printable_line: "printable s \<Longrightarrow> newline \<notin> set s \<and> strip_cr s = s"
proof -
  assume s: "printable s"
  then have "newline \<notin> set s" "carriage_return \<notin> set s"
    by (auto simp: printable_def newline_def carriage_return_def)
  then show ?thesis unfolding strip_cr_def by (metis last_in_set)
qed

lemma lines_of_messages:
  "lines_of (concat (map encodeJsonLine ms) @ tail) = map stringify ms @ lines_of tail \<and>
   rest_of (concat (map encodeJsonLine ms) @ tail) = rest_of tail"
proof (induction ms)
  case (Cons m ms)
  have "encodeJsonLine m @ t = stringify m @ newline # t" for t
    by (simp add: encodeJsonLine_def newline_def)
  with Cons lines_of_next [of "stringify m"] printable_line [OF printable_stringify_all(1), of m] show ?case
    by (simp add: stringify_not_Nil)
qed simp

section \<open>The contract of a reader\<close>

text \<open>
  A reader keeps the unfinished line in its buffer and handles the complete ones, in order; \<open>live\<close>
  says that it has not been closed, and \<open>obs\<close> is what its handler works on.
\<close>

locale line_reader =
  fixes consume :: "string \<Rightarrow> 's \<Rightarrow> 's" and buffer :: "'s \<Rightarrow> string" and live :: "'s \<Rightarrow> bool"
    and obs :: "'s \<Rightarrow> 'o" and handle :: "string \<Rightarrow> 'o \<Rightarrow> 'o"
  assumes buffer_consume: "live s \<Longrightarrow> buffer (consume chunk s) = rest_of (buffer s @ chunk)"
    and obs_consume: "live s \<Longrightarrow> obs (consume chunk s) = fold handle (lines_of (buffer s @ chunk)) (obs s)"
    and live_consume: "live s \<Longrightarrow> live (consume chunk s)"
begin

text \<open>How the text is cut into chunks does not matter.\<close>

lemma chunks:
  "live s \<Longrightarrow> newline \<notin> set (buffer s) \<Longrightarrow>
   live (fold consume cs s) \<and> buffer (fold consume cs s) = rest_of (buffer s @ concat cs) \<and>
   obs (fold consume cs s) = fold handle (lines_of (buffer s @ concat cs)) (obs s)"
proof (induction cs rule: rev_induct)
  case Nil
  then show ?case by (simp add: lines_of_none)
next
  case (snoc c cs)
  then show ?case
    using rest_of_append [of "buffer s @ concat cs" c] lines_of_append [of "buffer s @ concat cs" c]
    by (simp add: buffer_consume obs_consume live_consume)
qed

text \<open>A sequence of encoded values, however it is cut, is handled value by value.\<close>

lemma messages:
  assumes "live s" "buffer s = []" "concat cs = concat (map encodeJsonLine ms) @ tail" "newline \<notin> set tail"
  shows "live (fold consume cs s) \<and> buffer (fold consume cs s) = tail \<and>
    obs (fold consume cs s) = fold handle (map stringify ms) (obs s)"
  using chunks [of s cs] lines_of_messages [of ms tail] lines_of_none [of tail] assms by simp

end

end
