(* ===== verification/Pi_Worker.thy ===== *)
theory Pi_Worker
  imports Line_Framing Configuration
begin

text \<open>
  One Pi process and its commands: \<open>src/worker/pi-rpc-worker.ts\<close>. Each call of \<open>command\<close> has a
  number, its position in \<open>pw_calls\<close>; its phase says where its promise is. The promise chain
  \<open>commandQueue\<close> is \<open>pw_chain\<close>, the calls whose task has not begun, in order, with \<open>pw_current\<close>, the
  call whose task is running. \<open>pw_stdin\<close>, \<open>pw_signals\<close> and \<open>pw_emitted\<close> record what the process and
  the listeners receive, and \<open>pw_sent\<close> the calls written, in order (the source has no such fields).

  Everything that happens is a step of the inductive relation \<open>pw_step\<close>: calls from outside, output
  and the end of the process, timers, and the microtasks that continue a suspended call. A promise
  that settles only marks its call; the call continues in a later step, as in JavaScript. The
  microtasks that one settlement causes along the chain and the \<open>finally\<close> block are one step.
  \<open>json_parse\<close> is \<open>JSON.parse\<close>.
\<close>

section \<open>State\<close>

datatype phase =
    Enqueued
  | Awaiting string
  | Answered json
  | Refused thrown
  | Returned "json result"

record command_call =
  ca_command :: json
  ca_timeout :: nat
  ca_phase :: phase

datatype startup = NotStarted | Probing | Spawning | StartDone "unit result"

record pi_worker =
  pw_id :: string
  pw_cwd :: string
  pw_version :: "string option"
  pw_state :: worker_state
  pw_lastUsedAt :: nat
  pw_child :: bool
  pw_buffer :: string
  pw_nextCommandId :: nat
  pw_pending :: "(string \<times> nat) list"
  pw_chain :: "nat list"
  pw_current :: "nat option"
  pw_commandCount :: nat
  pw_calls :: "command_call list"
  pw_startup :: startup
  pw_exited :: bool
  pw_clock :: nat
  pw_stdin :: "string list"
  pw_sent :: "nat list"
  pw_signals :: "string list"
  pw_emitted :: "(string \<times> json) list"

definition new_pi_worker :: "string \<Rightarrow> string \<Rightarrow> nat \<Rightarrow> pi_worker" where
  "new_pi_worker workerId cwd now = \<lparr>pw_id = workerId, pw_cwd = cwd, pw_version = None, pw_state = Starting,
     pw_lastUsedAt = now, pw_child = False, pw_buffer = [], pw_nextCommandId = 1, pw_pending = [], pw_chain = [],
     pw_current = None, pw_commandCount = 0, pw_calls = [], pw_startup = NotStarted, pw_exited = False,
     pw_clock = now, pw_stdin = [], pw_sent = [], pw_signals = [], pw_emitted = []\<rparr>"

definition phase_of :: "pi_worker \<Rightarrow> nat \<Rightarrow> phase" where
  "phase_of w n = ca_phase (pw_calls w ! n)"

definition set_phase :: "nat \<Rightarrow> phase \<Rightarrow> pi_worker \<Rightarrow> pi_worker" where
  "set_phase n ph w = w\<lparr>pw_calls := (pw_calls w)[n := (pw_calls w ! n)\<lparr>ca_phase := ph\<rparr>]\<rparr>"

section \<open>Checks of messages\<close>

definition typed_record :: "json \<Rightarrow> bool" where
  "typed_record v \<longleftrightarrow> isRecord v \<and> (case jget v ''type'' of JStr s \<Rightarrow> s \<noteq> [] | _ \<Rightarrow> False)"

lemma typed_record_iff: "typed_record v \<longleftrightarrow> isRecord v \<and> (\<exists>s. jget v ''type'' = JStr s \<and> s \<noteq> [])"
  by (auto simp: typed_record_def split: json.splits)

fun has_key :: "json \<Rightarrow> string \<Rightarrow> bool" where
  "has_key (JObj kvs) k = (k \<in> set (map fst kvs))"
| "has_key _ k = False"

definition validateCommand :: "json \<Rightarrow> unit result" where
  "validateCommand cmd =
     (if \<not> typed_record cmd then
        Inl (DaemonError InvalidParams ''Pi RPC command must be an object with a type'' (Some [(''command'', cmd)]))
      else if has_key cmd ''id'' then
        Inl (DaemonError InvalidParams ''Pi RPC command id is assigned by pi-threads'' (Some [(''command'', jget cmd ''type'')]))
      else Inr ())"

definition validateRawMessage :: "json \<Rightarrow> unit result" where
  "validateRawMessage v =
     (if \<not> typed_record v then
        Inl (DaemonError InvalidParams ''Pi RPC raw message must be an object with a type'' (Some [(''value'', v)]))
      else Inr ())"

definition isBypassCommand :: "json \<Rightarrow> bool" where
  "isBypassCommand type \<longleftrightarrow> type = JStr ''abort'' \<or> type = JStr ''abort_bash''"

definition bypass :: "pi_worker \<Rightarrow> nat \<Rightarrow> bool" where
  "bypass w n \<longleftrightarrow> isBypassCommand (jget (ca_command (pw_calls w ! n)) ''type'')"

section \<open>Commands\<close>

definition not_running :: "pi_worker \<Rightarrow> bool" where
  "not_running w \<longleftrightarrow> \<not> pw_child w \<or> pw_state w = Crashed \<or> pw_state w = Stopped"

definition not_running_error :: "pi_worker \<Rightarrow> thrown" where
  "not_running_error w = DaemonError WorkerCrashed ''Worker is not running'' (Some [(''workerId'', JStr (pw_id w))])"

definition rpc_id :: "nat \<Rightarrow> string" where
  "rpc_id k = ''rpc_'' @ dec k"

text \<open>\<open>executeCommand\<close> up to its await: the command is written and waits for its response.\<close>

definition begin_command :: "nat \<Rightarrow> pi_worker \<Rightarrow> pi_worker" where
  "begin_command n w =
     (if not_running w then set_phase n (Refused (not_running_error w)) w
      else
        let rid = rpc_id (pw_nextCommandId w);
            payload = encodeJsonLine (JObj (jset ''id'' (JStr rid) (spread (ca_command (pw_calls w ! n))))) in
        set_phase n (Awaiting rid)
          (w\<lparr>pw_nextCommandId := pw_nextCommandId w + 1, pw_pending := pw_pending w @ [(rid, n)],
             pw_stdin := pw_stdin w @ [payload], pw_sent := pw_sent w @ [n]\<rparr>))"

text \<open>\<open>command\<close> up to its first await; \<open>enqueueCommand\<close> appends the call to the chain.\<close>

definition call_command :: "json \<Rightarrow> nat \<Rightarrow> pi_worker \<Rightarrow> pi_worker" where
  "call_command cmd timeoutMs w =
     (case validateCommand cmd of
        Inl e \<Rightarrow> w\<lparr>pw_calls := pw_calls w @ [\<lparr>ca_command = cmd, ca_timeout = timeoutMs, ca_phase = Returned (Inl e)\<rparr>]\<rparr>
      | Inr _ \<Rightarrow>
          let n = length (pw_calls w);
              w1 = w\<lparr>pw_calls := pw_calls w @ [\<lparr>ca_command = cmd, ca_timeout = timeoutMs, ca_phase = Enqueued\<rparr>],
                     pw_commandCount := pw_commandCount w + 1\<rparr> in
          if isBypassCommand (jget cmd ''type'') then begin_command n w1
          else w1\<lparr>pw_chain := pw_chain w1 @ [n]\<rparr>)"

text \<open>The next task of the chain begins once the task before it has settled.\<close>

definition next_task :: "pi_worker \<Rightarrow> pi_worker" where
  "next_task w =
     (case (pw_current w, pw_chain w) of
        (None, n # ns) \<Rightarrow> begin_command n (w\<lparr>pw_current := Some n, pw_chain := ns\<rparr>)
      | _ \<Rightarrow> w)"

text \<open>\<open>executeCommand\<close> after its await, and the \<open>finally\<close> block of \<open>command\<close>.\<close>

definition outcome :: "phase \<Rightarrow> json result" where
  "outcome ph =
     (case ph of
        Answered r \<Rightarrow>
          if \<not> jtruthy (jget r ''success'') then
            Inl (DaemonError PiRpcError
              (if nullish (jget r ''error'') then ''Pi RPC command failed'' else js_string (jget r ''error''))
              (Some [(''command'', jget r ''command'')]))
          else Inr r
      | Refused e \<Rightarrow> Inl e
      | Returned r \<Rightarrow> r
      | _ \<Rightarrow> Inr JUndefined)"

definition resume_call :: "nat \<Rightarrow> pi_worker \<Rightarrow> pi_worker" where
  "resume_call n w =
     (set_phase n (Returned (outcome (phase_of w n))) w)
       \<lparr>pw_current := (if pw_current w = Some n then None else pw_current w),
        pw_commandCount := pw_commandCount w - 1, pw_lastUsedAt := pw_clock w\<rparr>"

definition drop_pending :: "string \<Rightarrow> pi_worker \<Rightarrow> pi_worker" where
  "drop_pending rid w = w\<lparr>pw_pending := filter (\<lambda>(i, _). i \<noteq> rid) (pw_pending w)\<rparr>"

definition rejectPending :: "thrown \<Rightarrow> pi_worker \<Rightarrow> pi_worker" where
  "rejectPending e w = (fold (\<lambda>(_, n). set_phase n (Refused e)) (pw_pending w) w)\<lparr>pw_pending := []\<rparr>"

text \<open>The timer of a command.\<close>

definition command_timeout :: "string \<Rightarrow> pi_worker \<Rightarrow> pi_worker" where
  "command_timeout rid w =
     (case map_of (pw_pending w) rid of
        None \<Rightarrow> w
      | Some n \<Rightarrow>
          let w1 = set_phase n (Refused (DaemonError Timeout ''Pi RPC command timed out''
                     (Some [(''command'', jget (ca_command (pw_calls w ! n)) ''type'')]))) (drop_pending rid w);
              w2 = rejectPending (DaemonError WorkerCrashed ''Pi RPC worker timed out'' None) (w1\<lparr>pw_state := Crashed\<rparr>) in
          w2\<lparr>pw_signals := pw_signals w2 @ [''SIGKILL'']\<rparr>)"

text \<open>The callback of \<open>stdin.write\<close> with an error.\<close>

definition write_failed :: "string \<Rightarrow> string \<Rightarrow> pi_worker \<Rightarrow> pi_worker" where
  "write_failed rid message w =
     (case map_of (pw_pending w) rid of
        None \<Rightarrow> w
      | Some n \<Rightarrow> set_phase n (Refused (DaemonError WorkerCrashed ''Unable to write Pi RPC command''
                     (Some [(''message'', JStr message)]))) (drop_pending rid w))"

definition sendRaw :: "json \<Rightarrow> pi_worker \<Rightarrow> pi_worker result" where
  "sendRaw v w =
     (case validateRawMessage v of
        Inl e \<Rightarrow> Inl e
      | Inr _ \<Rightarrow>
          if not_running w then Inl (not_running_error w)
          else Inr (w\<lparr>pw_stdin := pw_stdin w @ [encodeJsonLine v]\<rparr>))"

section \<open>Output of the process\<close>

definition safeParseWorkerLine :: "(string \<Rightarrow> string + json) \<Rightarrow> string \<Rightarrow> json option" where
  "safeParseWorkerLine json_parse line =
     (case json_parse line of Inl _ \<Rightarrow> None | Inr v \<Rightarrow> if isRecord v then Some v else None)"

definition handle_message :: "json \<Rightarrow> pi_worker \<Rightarrow> pi_worker" where
  "handle_message m w =
     (case (jget m ''type'' = JStr ''response'', jget m ''id'') of
        (True, JStr rid) \<Rightarrow>
          (case map_of (pw_pending w) rid of
             None \<Rightarrow> w
           | Some n \<Rightarrow> set_phase n (Answered m) (drop_pending rid w))
      | _ \<Rightarrow> w\<lparr>pw_emitted := pw_emitted w @ [(''event'', m)]\<rparr>)"

definition handle_stdout_line :: "(string \<Rightarrow> string + json) \<Rightarrow> string \<Rightarrow> pi_worker \<Rightarrow> pi_worker" where
  "handle_stdout_line json_parse line w =
     (case safeParseWorkerLine json_parse line of None \<Rightarrow> w | Some m \<Rightarrow> handle_message m w)"

definition handleStdout :: "(string \<Rightarrow> string + json) \<Rightarrow> string \<Rightarrow> pi_worker \<Rightarrow> pi_worker" where
  "handleStdout json_parse chunk w =
     (case drain_lines (\<lambda>_. False) (handle_stdout_line json_parse) (pw_buffer w @ chunk) (w\<lparr>pw_buffer := []\<rparr>) of
        (rest, w1) \<Rightarrow> w1\<lparr>pw_buffer := rest\<rparr>)"

section \<open>Start, stop and the end of the process\<close>

text \<open>\<open>probePiVersion\<close>: how the process \<open>pi --version\<close> ended.\<close>

record probe =
  pb_error :: "string option"
  pb_timedOut :: bool
  pb_exitCode :: "int option"
  pb_output :: string
  pb_errorOutput :: string

definition probePiVersion :: "nat \<Rightarrow> probe \<Rightarrow> string result" where
  "probePiVersion timeoutMs pr =
     (case pb_error pr of
        Some message \<Rightarrow> Inl (DaemonError PiRpcError ''Unable to run pi --version'' (Some [(''message'', JStr message)]))
      | None \<Rightarrow>
          if pb_timedOut pr then Inl (DaemonError Timeout ''pi --version timed out'' (Some [(''timeoutMs'', JNum (int timeoutMs))]))
          else if pb_exitCode pr \<noteq> Some 0 then
            Inl (DaemonError PiRpcError ''Unable to run pi --version''
              (Some [(''exitCode'', case pb_exitCode pr of None \<Rightarrow> JNull | Some n \<Rightarrow> JNum n)]))
          else Inr (trim (if pb_output pr \<noteq> [] then pb_output pr else pb_errorOutput pr)))"

text \<open>The program that is run and its environment.\<close>

definition pi_command :: "(string \<Rightarrow> string option) \<Rightarrow> string option \<Rightarrow> string" where
  "pi_command env piBin = the (orElse (orElse piBin (env ''PI_THREADS_PI_BIN'')) (Some ''pi''))"

definition piWorkerEnv :: "(string \<Rightarrow> string option) \<Rightarrow> string \<Rightarrow> string option" where
  "piWorkerEnv env = env
     (''PI_OFFLINE'' := orElse (env ''PI_OFFLINE'') (Some ''1''),
      ''PI_SKIP_VERSION_CHECK'' := orElse (env ''PI_SKIP_VERSION_CHECK'') (Some ''1''),
      ''PI_TELEMETRY'' := orElse (env ''PI_TELEMETRY'') (Some ''0''))"

definition probed :: "string result \<Rightarrow> pi_worker \<Rightarrow> pi_worker" where
  "probed r w =
     (case r of
        Inl e \<Rightarrow> w\<lparr>pw_startup := StartDone (Inl e)\<rparr>
      | Inr v \<Rightarrow>
          let w1 = w\<lparr>pw_version := Some v\<rparr> in
          if \<not> isSupportedPiVersion v then
            w1\<lparr>pw_startup := StartDone (Inl (DaemonError PiRpcError ''Unsupported pi version''
              (Some [(''version'', JStr v), (''supported'', JStr ''1.0.x'')])))\<rparr>
          else w1\<lparr>pw_child := True, pw_startup := Spawning\<rparr>)"

definition spawned :: "pi_worker \<Rightarrow> pi_worker" where
  "spawned w = w\<lparr>pw_state := Idle, pw_startup := StartDone (Inr ())\<rparr>"

text \<open>The listeners for \<open>error\<close> of the process, for \<open>error\<close> of its input, and for \<open>close\<close>.\<close>

definition child_error :: "string \<Rightarrow> pi_worker \<Rightarrow> pi_worker" where
  "child_error message w =
     (let w1 = rejectPending (DaemonError WorkerCrashed ''Pi RPC process failed'' (Some [(''message'', JStr message)])) w in
      if pw_startup w1 = Spawning then
        w1\<lparr>pw_startup := StartDone (Inl (DaemonError PiRpcError ''Unable to start Pi RPC worker''
          (Some [(''message'', JStr message)])))\<rparr>
      else w1)"

definition stdin_error :: "string \<Rightarrow> pi_worker \<Rightarrow> pi_worker" where
  "stdin_error message w =
     rejectPending (DaemonError WorkerCrashed ''Pi RPC input closed'' (Some [(''message'', JStr message)])) w"

definition child_close :: "json \<Rightarrow> json \<Rightarrow> pi_worker \<Rightarrow> pi_worker" where
  "child_close exitCode signal w =
     (let event = [(''exitCode'', exitCode), (''signal'', signal)];
          w1 = rejectPending (DaemonError WorkerCrashed ''Pi RPC worker exited'' (Some event))
                 (w\<lparr>pw_exited := True, pw_state := (if pw_state w = Stopped then Stopped else Crashed)\<rparr>) in
      w1\<lparr>pw_emitted := pw_emitted w1 @ [(''exit'', JObj event)]\<rparr>)"

text \<open>\<open>stop\<close> up to its await, and the escalation when the process has not ended in time.\<close>

definition stop_begin :: "pi_worker \<Rightarrow> pi_worker" where
  "stop_begin w =
     (if \<not> pw_child w \<or> pw_state w = Stopped then w
      else w\<lparr>pw_state := Stopped, pw_signals := pw_signals w @ [''SIGTERM'']\<rparr>)"

definition stop_escalate :: "pi_worker \<Rightarrow> pi_worker" where
  "stop_escalate w = (if pw_exited w then w else w\<lparr>pw_signals := pw_signals w @ [''SIGKILL'']\<rparr>)"

section \<open>Steps\<close>

datatype pw_label =
    LStart
  | LProbed "string result"
  | LSpawned
  | LCommand json nat
  | LRaw json
  | LNext
  | LStdout string
  | LTimeout string
  | LWriteFailed string string
  | LResume nat
  | LStdinError string
  | LChildError string
  | LClose json json
  | LStop
  | LEscalate
  | LState worker_state
  | LTick nat

definition settled_phase :: "phase \<Rightarrow> bool" where
  "settled_phase ph \<longleftrightarrow> (case ph of Answered _ \<Rightarrow> True | Refused _ \<Rightarrow> True | _ \<Rightarrow> False)"

inductive pw_step :: "(string \<Rightarrow> string + json) \<Rightarrow> pw_label \<Rightarrow> pi_worker \<Rightarrow> pi_worker \<Rightarrow> bool" for json_parse where
  pw_start: "pw_startup w = NotStarted \<Longrightarrow> pw_step json_parse LStart w (w\<lparr>pw_startup := Probing\<rparr>)"
| pw_probed: "pw_startup w = Probing \<Longrightarrow> pw_step json_parse (LProbed r) w (probed r w)"
| pw_spawned: "pw_startup w = Spawning \<Longrightarrow> pw_step json_parse LSpawned w (spawned w)"
| pw_command: "pw_step json_parse (LCommand cmd timeoutMs) w (call_command cmd timeoutMs w)"
| pw_raw: "sendRaw v w = Inr w' \<Longrightarrow> pw_step json_parse (LRaw v) w w'"
| pw_next: "pw_current w = None \<Longrightarrow> pw_chain w \<noteq> [] \<Longrightarrow> pw_step json_parse LNext w (next_task w)"
| pw_stdout: "pw_child w \<Longrightarrow> pw_step json_parse (LStdout chunk) w (handleStdout json_parse chunk w)"
| pw_timeout: "rid \<in> fst ` set (pw_pending w) \<Longrightarrow> pw_step json_parse (LTimeout rid) w (command_timeout rid w)"
| pw_write_failed: "pw_step json_parse (LWriteFailed rid message) w (write_failed rid message w)"
| pw_resume: "n < length (pw_calls w) \<Longrightarrow> settled_phase (phase_of w n) \<Longrightarrow> pw_step json_parse (LResume n) w (resume_call n w)"
| pw_stdin_error: "pw_child w \<Longrightarrow> pw_step json_parse (LStdinError message) w (stdin_error message w)"
| pw_child_error: "pw_child w \<Longrightarrow> pw_step json_parse (LChildError message) w (child_error message w)"
| pw_close: "pw_child w \<Longrightarrow> \<not> pw_exited w \<Longrightarrow> pw_step json_parse (LClose exitCode signal) w (child_close exitCode signal w)"
| pw_stop: "pw_step json_parse LStop w (stop_begin w)"
| pw_escalate: "pw_state w = Stopped \<Longrightarrow> pw_step json_parse LEscalate w (stop_escalate w)"
| pw_set_state: "pw_step json_parse (LState st) w (w\<lparr>pw_state := st\<rparr>)"
| pw_tick: "pw_step json_parse (LTick t) w (w\<lparr>pw_clock := pw_clock w + t\<rparr>)"

inductive_cases pw_stepE: "pw_step json_parse l w w'"

inductive pw_reach :: "(string \<Rightarrow> string + json) \<Rightarrow> pi_worker \<Rightarrow> pi_worker \<Rightarrow> bool" for json_parse w0 where
  pw_init: "pw_reach json_parse w0 w0"
| pw_more: "pw_reach json_parse w0 w \<Longrightarrow> pw_step json_parse l w w' \<Longrightarrow> pw_reach json_parse w0 w'"

end
