(* ===== verification/Pi_Worker_Props.thy ===== *)
theory Pi_Worker_Props
  imports Pi_Worker
begin

text \<open>
  The commands of one worker: at most one ordinary command is in progress, they are written in the
  order of the calls, every response reaches the call it answers, every call returns, the count of
  pending commands is exact, and the pool's view of a worker is an abstraction of this one.
\<close>

section \<open>Phases\<close>

lemma phase_set_phase [simp]:
  "n < length (pw_calls w) \<Longrightarrow> phase_of (set_phase n ph w) m = (if m = n then ph else phase_of w m)"
  by (simp add: phase_of_def set_phase_def)

lemma bypass_set_phase [simp]: "bypass (set_phase n ph w) m = bypass w m"
  by (cases "n < length (pw_calls w)") (auto simp: bypass_def set_phase_def nth_list_update list_update_beyond)

lemma set_phase_fields [simp]:
  "length (pw_calls (set_phase n ph w)) = length (pw_calls w)" "pw_pending (set_phase n ph w) = pw_pending w"
  "pw_chain (set_phase n ph w) = pw_chain w" "pw_current (set_phase n ph w) = pw_current w"
  "pw_commandCount (set_phase n ph w) = pw_commandCount w" "pw_nextCommandId (set_phase n ph w) = pw_nextCommandId w"
  "pw_sent (set_phase n ph w) = pw_sent w" "pw_state (set_phase n ph w) = pw_state w"
  "pw_child (set_phase n ph w) = pw_child w" "pw_buffer (set_phase n ph w) = pw_buffer w"
  by (simp_all add: set_phase_def)

definition in_progress :: "phase \<Rightarrow> bool" where
  "in_progress ph \<longleftrightarrow> (case ph of Enqueued \<Rightarrow> False | Returned _ \<Rightarrow> False | _ \<Rightarrow> True)"

definition returned :: "phase \<Rightarrow> bool" where
  "returned ph \<longleftrightarrow> (case ph of Returned _ \<Rightarrow> True | _ \<Rightarrow> False)"

lemma phase_tests [simp]:
  "in_progress (Awaiting i)" "in_progress (Answered r)" "in_progress (Refused e)" "\<not> in_progress Enqueued"
  "\<not> in_progress (Returned x)" "\<not> returned (Awaiting i)" "\<not> returned (Answered r)" "\<not> returned (Refused e)"
  "\<not> returned Enqueued" "returned (Returned x)" "settled_phase (Answered r)" "settled_phase (Refused e)"
  "\<not> settled_phase (Awaiting i)" "\<not> settled_phase Enqueued" "\<not> settled_phase (Returned x)"
  by (simp_all add: in_progress_def returned_def settled_phase_def)

lemma settled_tests: "settled_phase ph \<Longrightarrow> in_progress ph \<and> \<not> returned ph \<and> ph \<noteq> Enqueued \<and> ph \<noteq> Awaiting i"
  by (cases ph) simp_all

section \<open>The invariant\<close>

text \<open>The map \<open>pending\<close> holds exactly the calls that wait for a response, under the ids they were written with.\<close>

definition inv_pending :: "pi_worker \<Rightarrow> bool" where
  "inv_pending w \<longleftrightarrow>
     distinct (map fst (pw_pending w)) \<and>
     (\<forall>i n. (i, n) \<in> set (pw_pending w) \<longleftrightarrow> n < length (pw_calls w) \<and> phase_of w n = Awaiting i) \<and>
     (\<forall>i \<in> fst ` set (pw_pending w). \<exists>k < pw_nextCommandId w. i = rpc_id k)"

text \<open>
  The chain holds the calls that have not begun, in order, and the call in progress before them is
  the only ordinary one.
\<close>

definition inv_chain :: "pi_worker \<Rightarrow> bool" where
  "inv_chain w \<longleftrightarrow>
     sorted_wrt (<) (pw_chain w) \<and>
     (\<forall>n. n \<in> set (pw_chain w) \<longleftrightarrow> n < length (pw_calls w) \<and> phase_of w n = Enqueued) \<and>
     (\<forall>n \<in> set (pw_chain w). \<not> bypass w n) \<and>
     (\<forall>n. pw_current w = Some n \<longleftrightarrow> n < length (pw_calls w) \<and> \<not> bypass w n \<and> in_progress (phase_of w n))"

definition inv_count :: "pi_worker \<Rightarrow> bool" where
  "inv_count w \<longleftrightarrow> pw_commandCount w = card {n. n < length (pw_calls w) \<and> \<not> returned (phase_of w n)}"

text \<open>Ordinary commands are written in the order of their calls.\<close>

definition inv_sent :: "pi_worker \<Rightarrow> bool" where
  "inv_sent w \<longleftrightarrow>
     distinct (pw_sent w) \<and> sorted_wrt (<) (filter (\<lambda>n. \<not> bypass w n) (pw_sent w)) \<and>
     (\<forall>n \<in> set (pw_sent w). n < length (pw_calls w) \<and> phase_of w n \<noteq> Enqueued) \<and>
     (\<forall>n \<in> set (pw_sent w). \<not> bypass w n \<longrightarrow> (\<forall>m \<in> set (pw_chain w). n < m))"

definition pw_inv :: "pi_worker \<Rightarrow> bool" where
  "pw_inv w \<longleftrightarrow> inv_pending w \<and> inv_chain w \<and> inv_count w \<and> inv_sent w"

lemmas pw_inv_defs = pw_inv_def inv_pending_def inv_chain_def inv_count_def inv_sent_def

text \<open>The fields that the invariant does not read.\<close>

lemma pw_inv_other [simp]:
  "pw_inv (w\<lparr>pw_state := st\<rparr>) = pw_inv w" "pw_inv (w\<lparr>pw_version := v\<rparr>) = pw_inv w"
  "pw_inv (w\<lparr>pw_lastUsedAt := t\<rparr>) = pw_inv w" "pw_inv (w\<lparr>pw_child := b\<rparr>) = pw_inv w"
  "pw_inv (w\<lparr>pw_buffer := s\<rparr>) = pw_inv w" "pw_inv (w\<lparr>pw_startup := su\<rparr>) = pw_inv w"
  "pw_inv (w\<lparr>pw_exited := b\<rparr>) = pw_inv w" "pw_inv (w\<lparr>pw_clock := t\<rparr>) = pw_inv w"
  "pw_inv (w\<lparr>pw_stdin := ss\<rparr>) = pw_inv w" "pw_inv (w\<lparr>pw_signals := ss\<rparr>) = pw_inv w"
  "pw_inv (w\<lparr>pw_emitted := es\<rparr>) = pw_inv w"
  by (simp_all add: pw_inv_defs phase_of_def bypass_def)

lemma new_pi_worker_inv: "pw_inv (new_pi_worker i cwd now)"
  by (simp add: pw_inv_defs new_pi_worker_def phase_of_def)

section \<open>Settling a call\<close>

text \<open>A pending call is settled: its entry is dropped and its phase set.\<close>

definition settle_call :: "string \<Rightarrow> nat \<Rightarrow> phase \<Rightarrow> pi_worker \<Rightarrow> pi_worker" where
  "settle_call i n ph w = set_phase n ph (drop_pending i w)"

lemma drop_pending_fields [simp]:
  "pw_calls (drop_pending i w) = pw_calls w" "pw_pending (drop_pending i w) = filter (\<lambda>(j, _). j \<noteq> i) (pw_pending w)"
  "pw_chain (drop_pending i w) = pw_chain w" "pw_current (drop_pending i w) = pw_current w"
  "pw_commandCount (drop_pending i w) = pw_commandCount w" "pw_nextCommandId (drop_pending i w) = pw_nextCommandId w"
  "pw_sent (drop_pending i w) = pw_sent w" "pw_state (drop_pending i w) = pw_state w" "pw_child (drop_pending i w) = pw_child w"
  "phase_of (drop_pending i w) m = phase_of w m" "bypass (drop_pending i w) m = bypass w m"
  by (simp_all add: drop_pending_def phase_of_def bypass_def)

lemma pending_unique:
  "inv_pending w \<Longrightarrow> (i, n) \<in> set (pw_pending w) \<Longrightarrow> (i, m) \<in> set (pw_pending w) \<Longrightarrow> m = n"
  by (metis inv_pending_def eq_key_imp_eq_value)

lemma settle_call_inv:
  assumes inv: "pw_inv w" and entry: "(i, n) \<in> set (pw_pending w)" and ph: "settled_phase ph"
  shows "pw_inv (settle_call i n ph w)"
proof -
  have n: "n < length (pw_calls w)" "phase_of w n = Awaiting i"
    using inv entry by (simp_all add: pw_inv_def inv_pending_def)
  note tests = settled_tests [OF ph]
  have "inv_pending (settle_call i n ph w)"
  proof -
    have p: "inv_pending w" using inv by (simp add: pw_inv_def)
    then have "distinct (map fst (filter (\<lambda>(j, _). j \<noteq> i) (pw_pending w)))"
      by (simp add: inv_pending_def distinct_map_filter)
    moreover have "(j, m) \<in> set (pw_pending (settle_call i n ph w)) \<longleftrightarrow>
        m < length (pw_calls (settle_call i n ph w)) \<and> phase_of (settle_call i n ph w) m = Awaiting j" for j m
    proof (cases "m = n")
      case True
      have "(j, n) \<in> set (pw_pending w) \<longleftrightarrow> j = i" using p n by (auto simp: inv_pending_def)
      then show ?thesis using True n tests by (auto simp: settle_call_def)
    next
      case False
      then have "(i, m) \<notin> set (pw_pending w)" using pending_unique [OF p entry] by blast
      moreover have "(j, m) \<in> set (pw_pending w) \<longleftrightarrow> m < length (pw_calls w) \<and> phase_of w m = Awaiting j"
        using p by (simp add: inv_pending_def)
      ultimately show ?thesis using False n by (auto simp: settle_call_def)
    qed
    moreover have "\<forall>j \<in> fst ` set (pw_pending (settle_call i n ph w)). \<exists>k < pw_nextCommandId w. j = rpc_id k"
    proof -
      have "set (pw_pending (settle_call i n ph w)) \<subseteq> set (pw_pending w)" by (auto simp: settle_call_def)
      then show ?thesis using p unfolding inv_pending_def by blast
    qed
    ultimately show ?thesis unfolding inv_pending_def by (simp add: settle_call_def)
  qed
  moreover have "inv_chain (settle_call i n ph w)"
  proof -
    have "inv_chain w" using inv by (simp add: pw_inv_def)
    moreover have "(phase_of (settle_call i n ph w) m = Enqueued) = (phase_of w m = Enqueued)"
      "in_progress (phase_of (settle_call i n ph w) m) = in_progress (phase_of w m)"
      "bypass (settle_call i n ph w) m = bypass w m" for m
      using n tests by (simp_all add: settle_call_def)
    moreover have "pw_chain (settle_call i n ph w) = pw_chain w" "pw_current (settle_call i n ph w) = pw_current w"
      "length (pw_calls (settle_call i n ph w)) = length (pw_calls w)"
      by (simp_all add: settle_call_def)
    ultimately show ?thesis unfolding inv_chain_def by simp
  qed
  moreover have "inv_count (settle_call i n ph w)"
  proof -
    have "returned (phase_of (settle_call i n ph w) m) = returned (phase_of w m)" for m
      using n tests by (simp add: settle_call_def)
    moreover have "pw_commandCount (settle_call i n ph w) = pw_commandCount w"
      "length (pw_calls (settle_call i n ph w)) = length (pw_calls w)"
      by (simp_all add: settle_call_def)
    ultimately show ?thesis using inv by (simp add: pw_inv_def inv_count_def)
  qed
  moreover have "inv_sent (settle_call i n ph w)"
  proof -
    have "inv_sent w" using inv by (simp add: pw_inv_def)
    then show ?thesis using n tests by (simp add: inv_sent_def settle_call_def)
  qed
  ultimately show ?thesis by (simp add: pw_inv_def)
qed

lemma settle_call_pending: "pw_pending (settle_call i n ph w) = filter (\<lambda>(j, _). j \<noteq> i) (pw_pending w)"
  by (simp add: settle_call_def)

lemma set_phase_pending: "set_phase n ph (v\<lparr>pw_pending := rs\<rparr>) = (set_phase n ph v)\<lparr>pw_pending := rs\<rparr>"
  by (simp add: set_phase_def)

lemma rejectPending_step:
  assumes "pw_pending w = (i, n) # ps" "i \<notin> fst ` set ps"
  shows "rejectPending e w = rejectPending e (settle_call i n (Refused e) w)"
proof -
  have ps: "filter (\<lambda>(j, _). j \<noteq> i) (pw_pending w) = ps"
    using assms by (auto simp: filter_id_conv image_iff)
  have fold_comm: "(fold (\<lambda>(_, n). set_phase n (Refused e)) qs (v\<lparr>pw_pending := rs\<rparr>))\<lparr>pw_pending := []\<rparr>
      = (fold (\<lambda>(_, n). set_phase n (Refused e)) qs v)\<lparr>pw_pending := []\<rparr>" for qs rs and v :: pi_worker
    by (induction qs arbitrary: v) (simp_all add: split_beta set_phase_pending)
  show ?thesis
    using ps by (simp add: rejectPending_def settle_call_def assms(1) drop_pending_def set_phase_pending fold_comm)
qed

lemma rejectPending_inv: "pw_inv w \<Longrightarrow> pw_inv (rejectPending e w)"
proof (induction "length (pw_pending w)" arbitrary: w)
  case 0
  then have "rejectPending e w = w" by (cases w) (simp add: rejectPending_def)
  with 0 show ?case by metis
next
  case (Suc k)
  then obtain i n ps where ps: "pw_pending w = (i, n) # ps" by (cases "pw_pending w") auto
  with Suc.prems have dist: "i \<notin> fst ` set ps" by (simp add: pw_inv_defs)
  then have "filter (\<lambda>(j, _). j \<noteq> i) (pw_pending w) = ps"
    using ps by (auto simp: filter_id_conv image_iff)
  with Suc.hyps(2) ps have "k = length (pw_pending (settle_call i n (Refused e) w))"
    by (simp add: settle_call_pending)
  moreover have "pw_inv (settle_call i n (Refused e) w)"
    by (rule settle_call_inv) (use Suc.prems ps in auto)
  ultimately show ?case using Suc.hyps(1) rejectPending_step [OF ps dist] by simp
qed

section \<open>Calls and tasks\<close>

lemma append_phase:
  assumes "pw_calls w' = pw_calls w @ [c]" "m < Suc (length (pw_calls w))"
  shows "phase_of w' m = (if m = length (pw_calls w) then ca_phase c else phase_of w m)"
    "bypass w' m = (if m = length (pw_calls w) then isBypassCommand (jget (ca_command c) ''type'') else bypass w m)"
  using assms by (auto simp: phase_of_def bypass_def nth_append)

text \<open>
  A new call is appended: refused at once, enqueued at the end of the chain, or in progress when it
  bypasses the chain.
\<close>

lemma append_pending:
  assumes inv: "inv_pending w" and calls: "pw_calls w' = pw_calls w @ [c]"
    and pend: "(pw_pending w' = pw_pending w \<and> (\<forall>i. ca_phase c \<noteq> Awaiting i) \<and> pw_nextCommandId w' = pw_nextCommandId w) \<or>
      (let i = rpc_id (pw_nextCommandId w) in pw_pending w' = pw_pending w @ [(i, length (pw_calls w))] \<and>
         ca_phase c = Awaiting i \<and> pw_nextCommandId w' = pw_nextCommandId w + 1)"
  shows "inv_pending w'"
proof -
  have old: "(i, n) \<in> set (pw_pending w) \<longleftrightarrow> n < length (pw_calls w) \<and> phase_of w n = Awaiting i" for i n
    using inv by (simp add: inv_pending_def)
  have fresh: "rpc_id (pw_nextCommandId w) \<notin> fst ` set (pw_pending w)"
    using inv by (auto simp: inv_pending_def rpc_id_def)
  have new: "(i, n) \<in> set (pw_pending w') \<longleftrightarrow> n < length (pw_calls w') \<and> phase_of w' n = Awaiting i" for i n
  proof (cases "n < Suc (length (pw_calls w))")
    case True
    then show ?thesis
      using pend old [of i n] append_phase [OF calls True] by (auto simp: calls Let_def)
  next
    case False
    then show ?thesis using pend old [of i n] by (auto simp: calls Let_def)
  qed
  have "distinct (map fst (pw_pending w'))"
    using pend fresh inv by (auto simp: inv_pending_def Let_def)
  moreover have "\<forall>i \<in> fst ` set (pw_pending w'). \<exists>k < pw_nextCommandId w'. i = rpc_id k"
  proof -
    have "\<forall>i \<in> fst ` set (pw_pending w). \<exists>k < pw_nextCommandId w. i = rpc_id k" using inv by (simp add: inv_pending_def)
    then show ?thesis using pend by (force simp: Let_def less_Suc_eq)
  qed
  ultimately show ?thesis using new unfolding inv_pending_def by blast
qed

lemma append_chain:
  assumes inv: "inv_chain w" and calls: "pw_calls w' = pw_calls w @ [c]" and cur: "pw_current w' = pw_current w"
    and chain: "(pw_chain w' = pw_chain w \<and> ca_phase c \<noteq> Enqueued \<and>
        (in_progress (ca_phase c) \<longrightarrow> isBypassCommand (jget (ca_command c) ''type''))) \<or>
      (pw_chain w' = pw_chain w @ [length (pw_calls w)] \<and> ca_phase c = Enqueued \<and>
         \<not> isBypassCommand (jget (ca_command c) ''type''))"
  shows "inv_chain w'"
proof -
  let ?len = "length (pw_calls w)"
  have old: "n \<in> set (pw_chain w) \<longleftrightarrow> n < ?len \<and> phase_of w n = Enqueued"
    "pw_current w = Some n \<longleftrightarrow> n < ?len \<and> \<not> bypass w n \<and> in_progress (phase_of w n)"
    "n \<in> set (pw_chain w) \<Longrightarrow> \<not> bypass w n" for n
    using inv by (simp_all add: inv_chain_def)
  have "(n \<in> set (pw_chain w') \<longleftrightarrow> n < length (pw_calls w') \<and> phase_of w' n = Enqueued) \<and>
    (n \<in> set (pw_chain w') \<longrightarrow> \<not> bypass w' n) \<and>
    (pw_current w' = Some n \<longleftrightarrow> n < length (pw_calls w') \<and> \<not> bypass w' n \<and> in_progress (phase_of w' n))" for n
  proof (cases "n < Suc ?len")
    case True
    then show ?thesis
      using chain old [of n] append_phase [OF calls True] by (cases "n = ?len") (auto simp: calls cur)
  next
    case False
    then show ?thesis using chain old [of n] by (auto simp: calls cur)
  qed
  moreover have "sorted_wrt (<) (pw_chain w')"
    using chain old(1) inv by (auto simp: inv_chain_def sorted_wrt_append)
  ultimately show ?thesis by (simp add: inv_chain_def)
qed

lemma append_count:
  assumes inv: "inv_count w" and calls: "pw_calls w' = pw_calls w @ [c]"
    and count: "pw_commandCount w' = (if returned (ca_phase c) then pw_commandCount w else pw_commandCount w + 1)"
  shows "inv_count w'"
proof -
  let ?old = "{n. n < length (pw_calls w) \<and> \<not> returned (phase_of w n)}"
  have "{n. n < length (pw_calls w') \<and> \<not> returned (phase_of w' n)}
      = (if returned (ca_phase c) then ?old else insert (length (pw_calls w)) ?old)"
    by (auto simp: calls less_Suc_eq append_phase [OF calls])
  then show ?thesis using inv count by (simp add: inv_count_def)
qed

lemma append_sent:
  assumes inv: "inv_sent w" "inv_chain w" and calls: "pw_calls w' = pw_calls w @ [c]"
    and chain: "pw_chain w' = pw_chain w \<or> pw_chain w' = pw_chain w @ [length (pw_calls w)]"
    and sent: "pw_sent w' = pw_sent w \<or>
      pw_sent w' = pw_sent w @ [length (pw_calls w)] \<and> isBypassCommand (jget (ca_command c) ''type'') \<and> ca_phase c \<noteq> Enqueued"
  shows "inv_sent w'"
proof -
  let ?len = "length (pw_calls w)"
  have old: "\<forall>n \<in> set (pw_sent w). n < ?len \<and> phase_of w n \<noteq> Enqueued"
    "\<forall>n \<in> set (pw_sent w). \<not> bypass w n \<longrightarrow> (\<forall>m \<in> set (pw_chain w). n < m)" "distinct (pw_sent w)"
    "sorted_wrt (<) (filter (\<lambda>n. \<not> bypass w n) (pw_sent w))"
    using inv by (simp_all add: inv_sent_def)
  have same: "bypass w' n = bypass w n" "phase_of w' n = phase_of w n" if "n \<in> set (pw_sent w)" for n
    using that old(1) append_phase [OF calls, of n] by auto
  have new: "bypass w' ?len" "phase_of w' ?len \<noteq> Enqueued" if "isBypassCommand (jget (ca_command c) ''type'')" "ca_phase c \<noteq> Enqueued"
    using that append_phase [OF calls, of ?len] by auto
  have "filter (\<lambda>n. \<not> bypass w' n) (pw_sent w) = filter (\<lambda>n. \<not> bypass w n) (pw_sent w)"
    by (rule filter_cong) (simp_all add: same)
  with old(4) have "sorted_wrt (<) (filter (\<lambda>n. \<not> bypass w' n) (pw_sent w'))" using sent new by auto
  moreover have "distinct (pw_sent w')" using sent old(1,3) by auto
  moreover have "\<forall>n \<in> set (pw_sent w'). n < length (pw_calls w') \<and> phase_of w' n \<noteq> Enqueued"
    using sent old(1) new same by (auto simp: calls less_Suc_eq)
  moreover have "\<forall>n \<in> set (pw_sent w'). \<not> bypass w' n \<longrightarrow> (\<forall>m \<in> set (pw_chain w'). n < m)"
    using sent old(1,2) new same chain by auto
  ultimately show ?thesis by (simp add: inv_sent_def)
qed

lemma call_command_inv:
  assumes "pw_inv w"
  shows "pw_inv (call_command cmd t w)"
proof -
  note inv = assms [unfolded pw_inv_def]
  let ?len = "length (pw_calls w)"
  let ?c = "\<lambda>ph. \<lparr>ca_command = cmd, ca_timeout = t, ca_phase = ph\<rparr>"
  have app: "pw_inv w'" if calls: "pw_calls w' = pw_calls w @ [?c ph]" and cur: "pw_current w' = pw_current w"
    and "pw_commandCount w' = (if returned ph then pw_commandCount w else pw_commandCount w + 1)"
    and "(pw_pending w' = pw_pending w \<and> (\<forall>i. ph \<noteq> Awaiting i) \<and> pw_nextCommandId w' = pw_nextCommandId w) \<or>
      (let i = rpc_id (pw_nextCommandId w) in pw_pending w' = pw_pending w @ [(i, ?len)] \<and>
         ph = Awaiting i \<and> pw_nextCommandId w' = pw_nextCommandId w + 1)"
    and "(pw_chain w' = pw_chain w \<and> ph \<noteq> Enqueued \<and> (in_progress ph \<longrightarrow> isBypassCommand (jget cmd ''type''))) \<or>
      (pw_chain w' = pw_chain w @ [?len] \<and> ph = Enqueued \<and> \<not> isBypassCommand (jget cmd ''type''))"
    and "pw_sent w' = pw_sent w \<or> pw_sent w' = pw_sent w @ [?len] \<and> isBypassCommand (jget cmd ''type'') \<and> ph \<noteq> Enqueued"
    for w' ph
    using that inv append_pending [OF _ calls] append_chain [OF _ calls cur] append_count [OF _ calls]
      append_sent [OF _ _ calls]
    unfolding pw_inv_def by auto
  show ?thesis
  proof (cases "validateCommand cmd")
    case (Inl e)
    show ?thesis by (rule app [of _ "Returned (Inl e)"]) (simp_all add: call_command_def Inl)
  next
    case (Inr u)
    note call = call_command_def Inr Let_def begin_command_def set_phase_def not_running_def list_update_append
    show ?thesis
    proof (cases "isBypassCommand (jget cmd ''type'')")
      case False
      show ?thesis by (rule app [of _ Enqueued]) (simp_all add: call False)
    next
      case bypass: True
      show ?thesis
      proof (cases "not_running w")
        case True
        show ?thesis
          by (rule app [of _ "Refused (not_running_error w)"])
            (use True bypass in \<open>auto simp: call not_running_error_def\<close>)
      next
        case False
        show ?thesis
          by (rule app [of _ "Awaiting (rpc_id (pw_nextCommandId w))"]) (use False bypass in \<open>auto simp: call\<close>)
      qed
    qed
  qed
qed

text \<open>The head of the chain begins: its phase becomes \<open>Awaiting\<close> a fresh id, or \<open>Refused\<close>.\<close>

lemma begin_fields:
  assumes "n < length (pw_calls w)"
  shows "\<exists>ph. in_progress ph \<and> (\<forall>m. phase_of (begin_command n w) m = (if m = n then ph else phase_of w m)) \<and>
    ((pw_pending (begin_command n w) = pw_pending w \<and> pw_nextCommandId (begin_command n w) = pw_nextCommandId w \<and>
      pw_sent (begin_command n w) = pw_sent w \<and> (\<forall>i. ph \<noteq> Awaiting i)) \<or>
     (pw_pending (begin_command n w) = pw_pending w @ [(rpc_id (pw_nextCommandId w), n)] \<and>
      pw_nextCommandId (begin_command n w) = pw_nextCommandId w + 1 \<and> pw_sent (begin_command n w) = pw_sent w @ [n] \<and>
      ph = Awaiting (rpc_id (pw_nextCommandId w))))"
proof (cases "not_running w")
  case True
  then show ?thesis using assms
    by (intro exI [of _ "Refused (not_running_error w)"]) (simp add: begin_command_def)
next
  case False
  have "phase_of (w\<lparr>pw_nextCommandId := a, pw_pending := b, pw_stdin := c, pw_sent := d\<rparr>) m = phase_of w m" for a b c d m
    by (simp add: phase_of_def)
  with False show ?thesis using assms
    by (intro exI [of _ "Awaiting (rpc_id (pw_nextCommandId w))"]) (simp add: begin_command_def Let_def)
qed

lemma begin_other [simp]:
  "pw_chain (begin_command n w) = pw_chain w" "pw_current (begin_command n w) = pw_current w"
  "length (pw_calls (begin_command n w)) = length (pw_calls w)" "pw_commandCount (begin_command n w) = pw_commandCount w"
  "bypass (begin_command n w) m = bypass w m" "pw_state (begin_command n w) = pw_state w"
  "pw_child (begin_command n w) = pw_child w"
proof -
  have "bypass (w\<lparr>pw_nextCommandId := a, pw_pending := b, pw_stdin := c, pw_sent := d\<rparr>) m = bypass w m" for a b c d
    by (simp add: bypass_def)
  then show "bypass (begin_command n w) m = bypass w m" by (simp add: begin_command_def Let_def)
qed (simp_all add: begin_command_def Let_def)

lemma next_task_inv:
  assumes inv: "pw_inv w" and cur: "pw_current w = None" and chain: "pw_chain w \<noteq> []"
  shows "pw_inv (next_task w)"
proof -
  obtain n ns where ns: "pw_chain w = n # ns" using chain by (cases "pw_chain w") auto
  let ?w = "w\<lparr>pw_current := Some n, pw_chain := ns\<rparr>"
  let ?v = "begin_command n ?w"
  have v: "next_task w = ?v" by (simp add: next_task_def cur ns)
  have old: "phase_of ?w m = phase_of w m" "bypass ?w m = bypass w m" for m by (simp_all add: phase_of_def bypass_def)
  have n: "n < length (pw_calls w)" "phase_of w n = Enqueued" "\<not> bypass w n" "n \<notin> set ns" "\<forall>m \<in> set ns. n < m"
    using inv ns unfolding pw_inv_def inv_chain_def by (auto simp: ns)
  obtain ph where ph: "in_progress ph" "\<And>m. phase_of ?v m = (if m = n then ph else phase_of w m)"
    and alt: "(pw_pending ?v = pw_pending w \<and> pw_nextCommandId ?v = pw_nextCommandId w \<and> pw_sent ?v = pw_sent w \<and> (\<forall>i. ph \<noteq> Awaiting i)) \<or>
      (pw_pending ?v = pw_pending w @ [(rpc_id (pw_nextCommandId w), n)] \<and> pw_nextCommandId ?v = pw_nextCommandId w + 1 \<and>
       pw_sent ?v = pw_sent w @ [n] \<and> ph = Awaiting (rpc_id (pw_nextCommandId w)))"
  proof -
    have "\<exists>ph. in_progress ph \<and> (\<forall>m. phase_of ?v m = (if m = n then ph else phase_of w m)) \<and>
      ((pw_pending ?v = pw_pending w \<and> pw_nextCommandId ?v = pw_nextCommandId w \<and> pw_sent ?v = pw_sent w \<and> (\<forall>i. ph \<noteq> Awaiting i)) \<or>
       (pw_pending ?v = pw_pending w @ [(rpc_id (pw_nextCommandId w), n)] \<and> pw_nextCommandId ?v = pw_nextCommandId w + 1 \<and>
        pw_sent ?v = pw_sent w @ [n] \<and> ph = Awaiting (rpc_id (pw_nextCommandId w))))"
      using begin_fields [of n ?w] n(1) unfolding old by simp
    then show thesis using that by blast
  qed
  have not_q: "ph \<noteq> Enqueued" "\<not> returned ph" using ph(1) by (cases ph; simp)+
  have len: "length (pw_calls ?v) = length (pw_calls w)" by simp
  have bp: "bypass ?v m = bypass w m" for m by (simp add: old)
  have "inv_pending ?v"
  proof -
    have p: "inv_pending w" using inv by (simp add: pw_inv_def)
    have fresh: "rpc_id (pw_nextCommandId w) \<notin> fst ` set (pw_pending w)"
      using p by (auto simp: inv_pending_def rpc_id_def)
    have "distinct (map fst (pw_pending ?v))" using alt fresh p by (auto simp: inv_pending_def)
    moreover have "(i, m) \<in> set (pw_pending ?v) \<longleftrightarrow> m < length (pw_calls ?v) \<and> phase_of ?v m = Awaiting i" for i m
    proof -
      have "(i, m) \<in> set (pw_pending w) \<longleftrightarrow> m < length (pw_calls w) \<and> phase_of w m = Awaiting i"
        using p by (simp add: inv_pending_def)
      then show ?thesis using alt n(1,2) by (auto simp: len ph(2))
    qed
    moreover have "\<forall>i \<in> fst ` set (pw_pending ?v). \<exists>k < pw_nextCommandId ?v. i = rpc_id k"
    proof -
      have "\<forall>i \<in> fst ` set (pw_pending w). \<exists>k < pw_nextCommandId w. i = rpc_id k" using p by (simp add: inv_pending_def)
      then show ?thesis using alt by (force simp: less_Suc_eq)
    qed
    ultimately show ?thesis unfolding inv_pending_def by blast
  qed
  moreover have "inv_chain ?v"
  proof -
    have c: "inv_chain w" using inv by (simp add: pw_inv_def)
    have "m \<in> set ns \<longleftrightarrow> m < length (pw_calls w) \<and> phase_of ?v m = Enqueued" for m
    proof -
      have "m \<in> set (pw_chain w) \<longleftrightarrow> m < length (pw_calls w) \<and> phase_of w m = Enqueued" using c by (simp add: inv_chain_def)
      then show ?thesis using n(4) not_q by (auto simp: ns ph(2))
    qed
    moreover have "Some n = Some m \<longleftrightarrow> m < length (pw_calls w) \<and> \<not> bypass w m \<and> in_progress (phase_of ?v m)" for m
    proof -
      have "\<not> (m < length (pw_calls w) \<and> \<not> bypass w m \<and> in_progress (phase_of w m))"
        using c cur unfolding inv_chain_def by (metis option.distinct(1))
      then show ?thesis using n(1,3) ph(1) by (auto simp: ph(2))
    qed
    moreover have "sorted_wrt (<) ns" "\<forall>m \<in> set ns. \<not> bypass w m" using c by (auto simp: inv_chain_def ns)
    ultimately show ?thesis unfolding inv_chain_def by (simp add: old)
  qed
  moreover have "inv_count ?v"
  proof -
    have "returned (phase_of ?v m) = returned (phase_of w m)" for m using not_q n(2) by (simp add: ph(2))
    then show ?thesis using inv by (simp add: pw_inv_def inv_count_def)
  qed
  moreover have "inv_sent ?v"
  proof -
    have st: "inv_sent w" using inv by (simp add: pw_inv_def)
    then have below: "\<forall>m \<in> set (pw_sent w). \<not> bypass w m \<longrightarrow> m < n" "n \<notin> set (pw_sent w)"
      using n(2) by (auto simp: inv_sent_def ns)
    from st have "distinct (pw_sent ?v)" using alt below by (auto simp: inv_sent_def)
    moreover have "sorted_wrt (<) (filter (\<lambda>m. \<not> bypass ?v m) (pw_sent ?v))"
      using alt st below(1) n(3) by (auto simp: inv_sent_def old sorted_wrt_append)
    moreover have "\<forall>m \<in> set (pw_sent ?v). m < length (pw_calls ?v) \<and> phase_of ?v m \<noteq> Enqueued"
    proof -
      have "\<forall>m \<in> set (pw_sent w). m < length (pw_calls w) \<and> phase_of w m \<noteq> Enqueued" using st by (simp add: inv_sent_def)
      then show ?thesis using alt n(1) not_q by (auto simp: len ph(2))
    qed
    moreover have "\<forall>m \<in> set (pw_sent ?v). \<not> bypass ?v m \<longrightarrow> (\<forall>k \<in> set (pw_chain ?v). m < k)"
    proof -
      have "\<forall>m \<in> set (pw_sent w). \<not> bypass w m \<longrightarrow> (\<forall>k \<in> set ns. m < k)" using st by (auto simp: inv_sent_def ns)
      then show ?thesis using alt n(5) by (auto simp: old)
    qed
    ultimately show ?thesis by (simp add: inv_sent_def)
  qed
  ultimately show ?thesis by (simp add: v pw_inv_def)
qed

lemma resume_call_inv:
  assumes inv: "pw_inv w" and n: "n < length (pw_calls w)" and ph: "settled_phase (phase_of w n)"
  shows "pw_inv (resume_call n w)"
proof -
  let ?v = "resume_call n w"
  note tests = settled_tests [OF ph]
  obtain r where phase: "phase_of ?v m = (if m = n then Returned r else phase_of w m)" for m
  proof -
    have "phase_of ?v m = phase_of (set_phase n (Returned (outcome (phase_of w n))) w) m" for m
      by (simp add: resume_call_def phase_of_def)
    then show thesis using n that by simp
  qed
  have fields: "pw_pending ?v = pw_pending w" "pw_chain ?v = pw_chain w" "pw_sent ?v = pw_sent w"
    "pw_nextCommandId ?v = pw_nextCommandId w" "length (pw_calls ?v) = length (pw_calls w)"
    "pw_commandCount ?v = pw_commandCount w - 1"
    "pw_current ?v = (if pw_current w = Some n then None else pw_current w)"
    by (simp_all add: resume_call_def)
  have bp: "bypass ?v m = bypass w m" for m
  proof -
    have "bypass ?v m = bypass (set_phase n (Returned (outcome (phase_of w n))) w) m" by (simp add: resume_call_def bypass_def)
    then show ?thesis by simp
  qed
  have "(phase_of ?v m = Awaiting i) = (phase_of w m = Awaiting i)" "(phase_of ?v m = Enqueued) = (phase_of w m = Enqueued)"
    for m i using tests by (auto simp: phase)
  then have "inv_pending ?v" "inv_sent ?v"
    using inv by (simp_all add: pw_inv_def inv_pending_def inv_sent_def fields bp)
  moreover have "inv_chain ?v"
  proof -
    have c: "inv_chain w" using inv by (simp add: pw_inv_def)
    have "pw_current ?v = Some m \<longleftrightarrow> m < length (pw_calls w) \<and> \<not> bypass w m \<and> in_progress (phase_of ?v m)" for m
    proof -
      have "pw_current w = Some m \<longleftrightarrow> m < length (pw_calls w) \<and> \<not> bypass w m \<and> in_progress (phase_of w m)" for m
        using c by (simp add: inv_chain_def)
      from this [of m] this [of n] show ?thesis by (cases "m = n") (auto simp: phase fields)
    qed
    moreover have "(phase_of ?v m = Enqueued) = (phase_of w m = Enqueued)" for m using tests by (auto simp: phase)
    ultimately show ?thesis using c by (simp add: inv_chain_def fields bp)
  qed
  moreover have "inv_count ?v"
  proof -
    have "{m. m < length (pw_calls w) \<and> \<not> returned (phase_of ?v m)}
        = {m. m < length (pw_calls w) \<and> \<not> returned (phase_of w m)} - {n}"
      by (auto simp: phase)
    moreover have "n \<in> {m. m < length (pw_calls w) \<and> \<not> returned (phase_of w m)}" using n tests by simp
    ultimately show ?thesis using inv by (simp add: pw_inv_def inv_count_def fields)
  qed
  ultimately show ?thesis by (simp add: pw_inv_def)
qed

section \<open>The invariant holds in every reachable state\<close>

lemma handle_message_inv: "pw_inv w \<Longrightarrow> pw_inv (handle_message m w)"
proof -
  assume inv: "pw_inv w"
  have "pw_inv (set_phase n (Answered m) (drop_pending i w))" if "map_of (pw_pending w) i = Some n" for i n
    using settle_call_inv [OF inv map_of_SomeD [OF that], of "Answered m"] by (simp add: settle_call_def)
  with inv show ?thesis by (auto simp: handle_message_def split: json.splits option.splits bool.splits)
qed

lemma fold_inv: "(\<And>x w. pw_inv w \<Longrightarrow> pw_inv (f x w)) \<Longrightarrow> pw_inv w \<Longrightarrow> pw_inv (fold f xs w)"
  by (induction xs arbitrary: w) auto

lemma handleStdout_eq:
  "handleStdout json_parse chunk w =
     (fold (handle_stdout_line json_parse) (lines_of (pw_buffer w @ chunk)) (w\<lparr>pw_buffer := []\<rparr>))
       \<lparr>pw_buffer := rest_of (pw_buffer w @ chunk)\<rparr>"
  by (simp add: handleStdout_def drain_lines_eq)

lemma handleStdout_inv: "pw_inv w \<Longrightarrow> pw_inv (handleStdout json_parse chunk w)"
  unfolding handleStdout_eq pw_inv_other
  by (rule fold_inv) (auto simp: handle_stdout_line_def handle_message_inv split: option.splits)

lemma settled_entry_inv:
  "pw_inv w \<Longrightarrow> map_of (pw_pending w) i = Some n \<Longrightarrow> pw_inv (set_phase n (Refused e) (drop_pending i w))"
  using settle_call_inv [of w i n "Refused e"] by (simp add: settle_call_def map_of_SomeD)

lemma pw_step_inv: "pw_step json_parse l w w' \<Longrightarrow> pw_inv w \<Longrightarrow> pw_inv w'"
proof (induction rule: pw_step.induct)
  case (pw_timeout rid w)
  then show ?case
    by (auto simp: command_timeout_def Let_def settled_entry_inv rejectPending_inv split: option.splits)
qed (auto simp: probed_def spawned_def call_command_inv sendRaw_def next_task_inv handleStdout_inv write_failed_def
    settled_entry_inv resume_call_inv stdin_error_def child_error_def child_close_def stop_begin_def stop_escalate_def
    rejectPending_inv Let_def split: sum.splits if_splits option.splits)

lemma pw_reach_inv: "pw_reach json_parse (new_pi_worker i cwd now) w \<Longrightarrow> pw_inv w"
proof (induction rule: pw_reach.induct)
  case pw_init
  show ?case by (rule new_pi_worker_inv)
next
  case (pw_more w l w')
  then show ?case by (blast intro: pw_step_inv)
qed

end
