(* ===== verification/Pi_Worker_Theorems.thy ===== *)
theory Pi_Worker_Theorems
  imports Pi_Worker_Props
begin

text \<open>
  The properties of one Pi process and its commands, over every reachable state, and the simulation
  that makes the worker of \<open>Worker_Pool\<close> an abstraction of it.
\<close>

section \<open>A sample run\<close>

text \<open>A worker that starts, gets two ordinary commands and an abort, and answers the abort.\<close>

definition sample_parse :: "string \<Rightarrow> string + json" where
  "sample_parse s = (if s = ''a'' then Inr (JObj [(''type'', JStr ''response''), (''id'', JStr ''rpc_2''), (''success'', JBool True)])
     else Inl ''SyntaxError'')"

definition cmd_of :: "string \<Rightarrow> json" where
  "cmd_of t = JObj [(''type'', JStr t)]"

definition worker0 :: pi_worker where
  "worker0 = new_pi_worker ''worker_1'' ''/w'' 0"

definition worker1 :: pi_worker where
  "worker1 = spawned (probed (Inr ''1.0.2'') (worker0\<lparr>pw_startup := Probing\<rparr>))"

definition worker2 :: pi_worker where
  "worker2 = call_command (cmd_of ''get_messages'') 5 (call_command (cmd_of ''prompt'') 5 worker1)"

definition worker3 :: pi_worker where
  "worker3 = call_command (cmd_of ''abort'') 5 (next_task worker2)"

lemma supported_sample: "isSupportedPiVersion ''1.0.2''"
  by code_simp

lemma worker1_reach: "pw_reach sample_parse worker0 worker1" and worker1_child: "pw_startup worker1 = StartDone (Inr ())"
proof -
  have 1: "pw_step sample_parse LStart worker0 (worker0\<lparr>pw_startup := Probing\<rparr>)"
    by (rule pw_start) (simp add: worker0_def new_pi_worker_def)
  have 2: "pw_step sample_parse (LProbed (Inr ''1.0.2'')) (worker0\<lparr>pw_startup := Probing\<rparr>) (probed (Inr ''1.0.2'') (worker0\<lparr>pw_startup := Probing\<rparr>))"
    by (rule pw_probed) simp
  have 3: "pw_step sample_parse LSpawned (probed (Inr ''1.0.2'') (worker0\<lparr>pw_startup := Probing\<rparr>)) worker1"
    unfolding worker1_def by (rule pw_spawned) (simp add: probed_def supported_sample Let_def)
  show "pw_reach sample_parse worker0 worker1"
    by (rule pw_more [OF pw_more [OF pw_more [OF pw_init 1] 2] 3])
  show "pw_startup worker1 = StartDone (Inr ())" by (simp add: worker1_def spawned_def)
qed

lemma worker1_eq: "worker1 = (new_pi_worker ''worker_1'' ''/w'' 0)\<lparr>pw_startup := StartDone (Inr ()), pw_version := Some ''1.0.2'',
    pw_child := True, pw_state := Idle\<rparr>"
  by (simp add: worker1_def worker0_def new_pi_worker_def spawned_def probed_def supported_sample Let_def)

lemma cmd_ok: "t \<noteq> [] \<Longrightarrow> validateCommand (cmd_of t) = Inr ()"
  by (auto simp: validateCommand_def cmd_of_def typed_record_iff isRecord_def)

lemma cmd_type: "jget (cmd_of t) ''type'' = JStr t"
  by (simp add: cmd_of_def)

lemmas worker_eval = call_command_def cmd_ok cmd_type Let_def begin_command_def set_phase_def next_task_def not_running_def
  isBypassCommand_def phase_of_def bypass_def new_pi_worker_def rpc_id_def dec_small digit_char_def

lemma worker2_eq:
  "pw_calls worker2 = [\<lparr>ca_command = cmd_of ''prompt'', ca_timeout = 5, ca_phase = Enqueued\<rparr>,
      \<lparr>ca_command = cmd_of ''get_messages'', ca_timeout = 5, ca_phase = Enqueued\<rparr>] \<and> pw_chain worker2 = [0, 1] \<and>
   pw_current worker2 = None \<and> pw_commandCount worker2 = 2"
  by (simp add: worker2_def worker1_eq worker_eval)

lemma worker3_eq:
  "map ca_phase (pw_calls worker3) = [Awaiting (rpc_id 1), Enqueued, Awaiting (rpc_id 2)] \<and> pw_sent worker3 = [0, 2] \<and>
   map ca_command (pw_calls worker3) = map cmd_of [''prompt'', ''get_messages'', ''abort''] \<and>
   pw_pending worker3 = [(rpc_id 1, 0), (rpc_id 2, 2)] \<and> pw_commandCount worker3 = 3 \<and> pw_buffer worker3 = []"
  by (simp add: worker3_def worker2_def worker1_eq worker_eval numeral_2_eq_2)

lemma worker3_reach: "pw_reach sample_parse (new_pi_worker ''worker_1'' ''/w'' 0) worker3"
proof -
  have "pw_reach sample_parse worker0 worker2"
    unfolding worker2_def using worker1_reach by (meson pw_more pw_command)
  moreover have "pw_step sample_parse LNext worker2 (next_task worker2)"
    by (rule pw_next) (simp_all add: worker2_eq)
  ultimately have "pw_reach sample_parse worker0 worker3"
    unfolding worker3_def by (meson pw_more pw_command)
  then show ?thesis by (simp add: worker0_def)
qed

section \<open>Serialisation\<close>

text \<open>
  C37. At any time at most one ordinary command of a worker is in progress; only aborts may overtake
  it. Ordinary commands reach the process in the order of the calls, each at most once.
\<close>

theorem commands_are_serialised:
  assumes "pw_reach json_parse (new_pi_worker workerId cwd now) w"
  shows "(\<forall>m n. m < length (pw_calls w) \<longrightarrow> n < length (pw_calls w) \<longrightarrow> \<not> bypass w m \<longrightarrow> \<not> bypass w n \<longrightarrow>
      in_progress (phase_of w m) \<longrightarrow> in_progress (phase_of w n) \<longrightarrow> m = n) \<and>
    sorted_wrt (<) (filter (\<lambda>n. \<not> bypass w n) (pw_sent w)) \<and> distinct (pw_sent w)"
proof -
  have "inv_chain w" "inv_sent w" using pw_reach_inv [OF assms] by (simp_all add: pw_inv_def)
  then have "\<forall>n. pw_current w = Some n \<longleftrightarrow> n < length (pw_calls w) \<and> \<not> bypass w n \<and> in_progress (phase_of w n)"
    "sorted_wrt (<) (filter (\<lambda>n. \<not> bypass w n) (pw_sent w))" "distinct (pw_sent w)"
    by (simp_all add: inv_chain_def inv_sent_def)
  then show ?thesis by (metis option.inject)
qed

theorem commands_are_serialised_witness: "distinct (pw_sent worker3) \<and> pw_sent worker3 = [0, 2]"
  using commands_are_serialised [OF worker3_reach] worker3_eq by simp

text \<open>
  The number of pending commands that the pool reads is exactly the number of calls of \<open>command\<close>
  that have been accepted and have not returned.
\<close>

theorem pending_count_is_exact:
  assumes "pw_reach json_parse (new_pi_worker workerId cwd now) w"
  shows "pw_commandCount w = card {n. n < length (pw_calls w) \<and> \<not> returned (phase_of w n)}"
  using pw_reach_inv [OF assms] by (simp add: pw_inv_def inv_count_def)

theorem pending_count_is_exact_witness:
  "card {n. n < length (pw_calls worker3) \<and> \<not> returned (phase_of worker3 n)} = 3"
  using pending_count_is_exact [OF worker3_reach] worker3_eq by simp

section \<open>Every command returns\<close>

definition weight :: "phase \<Rightarrow> nat" where
  "weight ph = (case ph of Enqueued \<Rightarrow> 3 | Awaiting _ \<Rightarrow> 2 | Answered _ \<Rightarrow> 1 | Refused _ \<Rightarrow> 1 | Returned _ \<Rightarrow> 0)"

definition work :: "pi_worker \<Rightarrow> nat" where
  "work w = (\<Sum>n < length (pw_calls w). weight (phase_of w n))"

lemma weight_simps [simp]:
  "weight Enqueued = 3" "weight (Awaiting i) = 2" "weight (Answered r) = 1" "weight (Refused e) = 1" "weight (Returned x) = 0"
  by (simp_all add: weight_def)

lemma work_less:
  assumes "length (pw_calls v) = length (pw_calls w)" "n < length (pw_calls w)"
    "weight (phase_of v n) < weight (phase_of w n)" "\<And>m. weight (phase_of v m) \<le> weight (phase_of w m)"
  shows "work v < work w"
  unfolding work_def assms(1) by (rule sum_strict_mono_ex1) (use assms(2-4) in auto)

lemma length_rejectPending [simp]: "length (pw_calls (rejectPending e w)) = length (pw_calls w)"
proof -
  have "length (pw_calls (fold (\<lambda>(_, n). set_phase n (Refused e)) ps v)) = length (pw_calls v)" for ps and v :: pi_worker
    by (induction ps arbitrary: v) auto
  then show ?thesis by (simp add: rejectPending_def)
qed

lemma weight_settle_call:
  assumes "pw_inv w" "(i, n) \<in> set (pw_pending w)"
  shows "weight (phase_of (settle_call i n (Refused e) w) m) \<le> weight (phase_of w m)"
    "weight (phase_of (settle_call i n (Refused e) w) n) < weight (phase_of w n)" "n < length (pw_calls w)"
proof -
  have "n < length (pw_calls w)" "phase_of w n = Awaiting i" using assms by (simp_all add: pw_inv_def inv_pending_def)
  then show "weight (phase_of (settle_call i n (Refused e) w) m) \<le> weight (phase_of w m)"
    "weight (phase_of (settle_call i n (Refused e) w) n) < weight (phase_of w n)" "n < length (pw_calls w)"
    by (simp_all add: settle_call_def)
qed

lemma weight_rejectPending: "pw_inv w \<Longrightarrow> weight (phase_of (rejectPending e w) m) \<le> weight (phase_of w m)"
proof (induction "length (pw_pending w)" arbitrary: w)
  case 0
  then have "rejectPending e w = w" by (cases w) (simp add: rejectPending_def)
  then show ?case by simp
next
  case (Suc k)
  then obtain i n ps where ps: "pw_pending w = (i, n) # ps" by (cases "pw_pending w") auto
  with Suc.prems have dist: "i \<notin> fst ` set ps" by (simp add: pw_inv_defs)
  then have "filter (\<lambda>(j, _). j \<noteq> i) (pw_pending w) = ps" using ps by (auto simp: filter_id_conv image_iff)
  with Suc.hyps(2) ps have "k = length (pw_pending (settle_call i n (Refused e) w))" by (simp add: settle_call_pending)
  moreover have "pw_inv (settle_call i n (Refused e) w)" by (rule settle_call_inv) (use Suc.prems ps in auto)
  ultimately have "weight (phase_of (rejectPending e w) m) \<le> weight (phase_of (settle_call i n (Refused e) w) m)"
    using Suc.hyps(1) rejectPending_step [OF ps dist] by simp
  also have "\<dots> \<le> weight (phase_of w m)" using weight_settle_call(1) [OF Suc.prems, of i n e m] ps by simp
  finally show ?case .
qed

text \<open>The steps that need nothing from outside: a microtask of the chain or of a settled call, and a timer.\<close>

definition internal_step :: "(string \<Rightarrow> string + json) \<Rightarrow> pi_worker \<Rightarrow> pi_worker \<Rightarrow> bool" where
  "internal_step json_parse w w' \<longleftrightarrow>
     pw_step json_parse LNext w w' \<or> (\<exists>i. pw_step json_parse (LTimeout i) w w') \<or> (\<exists>n. pw_step json_parse (LResume n) w w')"

lemma timeout_work:
  assumes inv: "pw_inv w" and entry: "(i, n) \<in> set (pw_pending w)"
  shows "work (command_timeout i w) < work w" "length (pw_calls (command_timeout i w)) = length (pw_calls w)"
proof -
  have "map_of (pw_pending w) i = Some n"
    using inv entry by (simp add: pw_inv_def inv_pending_def)
  then obtain e e' where t: "\<And>m. phase_of (command_timeout i w) m
      = phase_of (rejectPending e' ((settle_call i n (Refused e) w)\<lparr>pw_state := Crashed\<rparr>)) m"
    and len: "length (pw_calls (command_timeout i w)) = length (pw_calls w)"
    by (auto simp: command_timeout_def Let_def settle_call_def phase_of_def)
  let ?v = "(settle_call i n (Refused e) w)\<lparr>pw_state := Crashed\<rparr>"
  have v: "pw_inv ?v" "phase_of ?v m = phase_of (settle_call i n (Refused e) w) m" for m
    using settle_call_inv [OF inv entry] by (simp_all add: phase_of_def)
  note settle = weight_settle_call [OF inv entry]
  show "work (command_timeout i w) < work w"
  proof (rule work_less [OF len settle(3)])
    show "weight (phase_of (command_timeout i w) n) < weight (phase_of w n)"
      using weight_rejectPending [OF v(1), of e' n] settle(2) [of e] by (simp add: t v(2))
    show "weight (phase_of (command_timeout i w) m) \<le> weight (phase_of w m)" for m
      using weight_rejectPending [OF v(1), of e' m] settle(1) [of e m] by (simp add: t v(2))
  qed
  show "length (pw_calls (command_timeout i w)) = length (pw_calls w)" by (rule len)
qed

lemma progress:
  assumes inv: "pw_inv w" and open_call: "n < length (pw_calls w)" "\<not> returned (phase_of w n)"
  shows "\<exists>w'. internal_step json_parse w w' \<and> work w' < work w \<and> length (pw_calls w') = length (pw_calls w)"
proof -
  have resume: ?thesis if m: "m < length (pw_calls w)" "settled_phase (phase_of w m)" for m
  proof -
    have "phase_of (resume_call m w) k = (if k = m then Returned (outcome (phase_of w m)) else phase_of w k)" for k
      using phase_set_phase [OF m(1), of "Returned (outcome (phase_of w m))" k] by (simp add: resume_call_def phase_of_def)
    moreover have "0 < weight (phase_of w m)" using m(2) by (cases "phase_of w m") simp_all
    moreover have len: "length (pw_calls (resume_call m w)) = length (pw_calls w)" by (simp add: resume_call_def)
    ultimately have "work (resume_call m w) < work w" by (intro work_less [OF len m(1)]) auto
    with len show ?thesis unfolding internal_step_def using pw_resume [OF m] by blast
  qed
  have timeout: ?thesis if m: "m < length (pw_calls w)" "phase_of w m = Awaiting i" for m i
  proof -
    have "(i, m) \<in> set (pw_pending w)" using inv m by (simp add: pw_inv_def inv_pending_def)
    with timeout_work [OF inv this] show ?thesis
      unfolding internal_step_def by (metis pw_timeout image_eqI fst_conv)
  qed
  have busy: ?thesis if "m < length (pw_calls w)" "in_progress (phase_of w m)" for m
    using that resume timeout by (cases "phase_of w m") auto
  show ?thesis
  proof (cases "phase_of w n")
    case Enqueued
    have chain: "n \<in> set (pw_chain w)" using inv open_call Enqueued by (simp add: pw_inv_def inv_chain_def)
    show ?thesis
    proof (cases "pw_current w")
      case (Some m)
      have "\<forall>k. pw_current w = Some k \<longleftrightarrow> k < length (pw_calls w) \<and> \<not> bypass w k \<and> in_progress (phase_of w k)"
        using inv by (simp add: pw_inv_def inv_chain_def)
      then have "m < length (pw_calls w)" "in_progress (phase_of w m)" using Some by blast+
      then show ?thesis by (rule busy)
    next
      case None
      obtain k ns where k: "pw_chain w = k # ns" using chain by (cases "pw_chain w") auto
      then have kq: "k < length (pw_calls w)" "phase_of w k = Enqueued" using inv unfolding pw_inv_def inv_chain_def by auto
      let ?w = "w\<lparr>pw_current := Some k, pw_chain := ns\<rparr>"
      have next_eq: "next_task w = begin_command k ?w" by (simp add: next_task_def None k)
      obtain ph where "in_progress ph" "\<And>m. phase_of (next_task w) m = (if m = k then ph else phase_of ?w m)"
        using begin_fields [of k ?w] kq(1) unfolding next_eq by auto
      moreover have "phase_of ?w m = phase_of w m" for m by (simp add: phase_of_def)
      moreover have "weight ph < 3" using \<open>in_progress ph\<close> by (cases ph) auto
      moreover have len: "length (pw_calls (next_task w)) = length (pw_calls w)" by (simp add: next_eq)
      ultimately have "work (next_task w) < work w" by (intro work_less [OF len kq(1)]) (auto simp: kq(2))
      moreover have "pw_step json_parse LNext w (next_task w)" by (rule pw_next) (simp_all add: None k)
      ultimately show ?thesis using len unfolding internal_step_def by blast
    qed
  qed (use busy [of n] open_call in simp_all)
qed

lemma internal_inv: "internal_step json_parse w w' \<Longrightarrow> pw_inv w \<Longrightarrow> pw_inv w'"
  unfolding internal_step_def using pw_step_inv by blast

lemma all_return:
  "pw_inv w \<Longrightarrow> \<exists>w'. (internal_step json_parse)\<^sup>*\<^sup>* w w' \<and> length (pw_calls w') = length (pw_calls w) \<and>
     (\<forall>n < length (pw_calls w'). returned (phase_of w' n))"
proof (induction "work w" arbitrary: w rule: less_induct)
  case less
  show ?case
  proof (cases "\<forall>n < length (pw_calls w). returned (phase_of w n)")
    case True
    then show ?thesis by blast
  next
    case False
    then obtain w1 where w1: "internal_step json_parse w w1" "work w1 < work w" "length (pw_calls w1) = length (pw_calls w)"
      using progress [OF less.prems] by blast
    with less internal_inv obtain w' where "(internal_step json_parse)\<^sup>*\<^sup>* w1 w'" "length (pw_calls w') = length (pw_calls w1)"
      "\<forall>n < length (pw_calls w'). returned (phase_of w' n)"
      by metis
    with w1 show ?thesis by (metis converse_rtranclp_into_rtranclp)
  qed
qed

text \<open>
  C38. Every call of \<open>command\<close> returns even if the process never answers again: from every reachable
  state the timers and the pending microtasks alone lead to a state in which every call has
  returned or failed, and while a call is open one of them can take place.
\<close>

theorem commands_always_return:
  assumes "pw_reach json_parse (new_pi_worker workerId cwd now) w"
  shows "(\<exists>w'. (internal_step json_parse)\<^sup>*\<^sup>* w w' \<and> length (pw_calls w') = length (pw_calls w) \<and>
      (\<forall>n < length (pw_calls w'). returned (phase_of w' n))) \<and>
    ((\<exists>n < length (pw_calls w). \<not> returned (phase_of w n)) \<longrightarrow> (\<exists>w'. internal_step json_parse w w' \<and> work w' < work w))"
  using all_return [OF pw_reach_inv [OF assms]] progress [OF pw_reach_inv [OF assms]] by blast

theorem commands_always_return_witness:
  "\<exists>w'. (internal_step sample_parse)\<^sup>*\<^sup>* worker3 w' \<and> (\<forall>n < length (pw_calls w'). returned (phase_of w' n))"
  using commands_always_return [OF worker3_reach] by blast

section \<open>Output of the process\<close>

lemma handle_line_buffer:
  "pw_buffer (handle_stdout_line json_parse l w) = pw_buffer w"
  "handle_stdout_line json_parse l (w\<lparr>pw_buffer := b\<rparr>) = (handle_stdout_line json_parse l w)\<lparr>pw_buffer := b\<rparr>"
proof -
  have "pw_buffer (handle_message m w) = pw_buffer w" for m
    by (auto simp: handle_message_def drop_pending_def split: json.splits option.splits bool.splits)
  then show "pw_buffer (handle_stdout_line json_parse l w) = pw_buffer w"
    by (simp add: handle_stdout_line_def split: option.split)
  have "handle_message m (w\<lparr>pw_buffer := b\<rparr>) = (handle_message m w)\<lparr>pw_buffer := b\<rparr>" for m
    by (auto simp: handle_message_def drop_pending_def set_phase_def split: json.splits option.splits bool.splits)
  then show "handle_stdout_line json_parse l (w\<lparr>pw_buffer := b\<rparr>) = (handle_stdout_line json_parse l w)\<lparr>pw_buffer := b\<rparr>"
    by (simp add: handle_stdout_line_def split: option.split)
qed

lemma fold_line_buffer:
  "pw_buffer (fold (handle_stdout_line json_parse) ls w) = pw_buffer w"
  "fold (handle_stdout_line json_parse) ls (w\<lparr>pw_buffer := b\<rparr>) = (fold (handle_stdout_line json_parse) ls w)\<lparr>pw_buffer := b\<rparr>"
  by (induction ls arbitrary: w) (simp_all add: handle_line_buffer)

text \<open>The worker is a line reader; its handler works on the worker without its buffer.\<close>

interpretation worker_output: line_reader "handleStdout json_parse" pw_buffer "\<lambda>_. True" "\<lambda>w. w\<lparr>pw_buffer := []\<rparr>"
    "handle_stdout_line json_parse" for json_parse
  by unfold_locales (simp_all add: handleStdout_eq fold_line_buffer)

text \<open>
  What the process writes is read back exactly: however the lines of a sequence of messages are
  cut into chunks, the worker handles the messages one by one, in order, and nothing is left over.
  (The hypothesis on \<open>JSON.parse\<close> is that it inverts \<open>JSON.stringify\<close> on these messages.)
\<close>

theorem worker_reads_messages:
  assumes "concat chunks = concat (map encodeJsonLine ms)" "pw_buffer w = []"
    and "\<forall>m \<in> set ms. isRecord m \<and> json_parse (stringify m) = Inr m"
  shows "fold (handleStdout json_parse) chunks w = fold handle_message ms w"
proof -
  have "pw_buffer (fold (handleStdout json_parse) chunks w) = []"
    and obs: "(fold (handleStdout json_parse) chunks w)\<lparr>pw_buffer := []\<rparr>
      = fold (handle_stdout_line json_parse) (map stringify ms) (w\<lparr>pw_buffer := []\<rparr>)"
    using worker_output.messages [of w chunks ms "[]" json_parse] assms(1,2)
    by simp_all
  then have "fold (handleStdout json_parse) chunks w = fold (handle_stdout_line json_parse) (map stringify ms) w"
    using assms(2) by (metis pi_worker.surjective pi_worker.update_convs(7) old.unit.exhaust)
  moreover have "handle_stdout_line json_parse (stringify m) = handle_message m" if "m \<in> set ms" for m
    using assms(3) that by (simp add: fun_eq_iff handle_stdout_line_def safeParseWorkerLine_def)
  then have "fold (handle_stdout_line json_parse) (map stringify ms) w = fold handle_message ms w"
    by (simp add: fold_map comp_def cong: fold_cong)
  ultimately show ?thesis by simp
qed

definition sample_messages :: "json list" where
  "sample_messages = [JObj [(''type'', JStr ''agent_start'')], JObj [(''type'', JStr ''response''), (''id'', JStr ''rpc_2'')]]"

theorem worker_reads_messages_witness:
  "fold (handleStdout (\<lambda>s. if s = stringify (sample_messages ! 0) then Inr (sample_messages ! 0) else Inr (sample_messages ! 1)))
     [take 3 (concat (map encodeJsonLine sample_messages)), drop 3 (concat (map encodeJsonLine sample_messages))] worker3
   = fold handle_message sample_messages worker3"
proof (rule worker_reads_messages)
  have "stringify (sample_messages ! 0) \<noteq> stringify (sample_messages ! 1)" by code_simp
  then show "\<forall>m \<in> set sample_messages. isRecord m \<and>
      (if stringify m = stringify (sample_messages ! 0) then Inr (sample_messages ! 0) else Inr (sample_messages ! 1))
        = (Inr m :: string + json)"
    by (auto simp: sample_messages_def isRecord_def)
qed (simp_all add: worker3_eq)

text \<open>
  A response settles exactly the call that was written with its id: that call gets the response
  and no other call changes; a response with an unknown id changes no call.
\<close>

theorem responses_reach_their_call:
  assumes "pw_reach json_parse (new_pi_worker workerId cwd now) w"
    and "jget m ''type'' = JStr ''response''" "jget m ''id'' = JStr rid"
  shows "\<forall>n < length (pw_calls w). phase_of (handle_message m w) n =
      (if phase_of w n = Awaiting rid then Answered m else phase_of w n)"
proof (intro allI impI)
  fix n assume n: "n < length (pw_calls w)"
  have inv: "inv_pending w" using pw_reach_inv [OF assms(1)] by (simp add: pw_inv_def)
  then have entry: "(rid, n) \<in> set (pw_pending w) \<longleftrightarrow> phase_of w n = Awaiting rid" using n by (simp add: inv_pending_def)
  show "phase_of (handle_message m w) n = (if phase_of w n = Awaiting rid then Answered m else phase_of w n)"
  proof (cases "map_of (pw_pending w) rid")
    case None
    then have "(rid, n) \<notin> set (pw_pending w)" by (metis map_of_eq_None_iff image_eqI fst_conv)
    with None entry show ?thesis by (simp add: handle_message_def assms)
  next
    case (Some k)
    then have k: "(rid, k) \<in> set (pw_pending w)" by (rule map_of_SomeD)
    then have "k < length (pw_calls w)" "phase_of w k = Awaiting rid" using inv by (simp_all add: inv_pending_def)
    moreover from this have "phase_of w n = Awaiting rid \<longleftrightarrow> n = k" using entry pending_unique [OF inv k] by blast
    ultimately show ?thesis using Some by (simp add: handle_message_def assms)
  qed
qed

theorem responses_reach_their_call_witness:
  "map (phase_of (handle_message (JObj [(''type'', JStr ''response''), (''id'', JStr (rpc_id 2))]) worker3)) [0, 1, 2]
   = [Awaiting (rpc_id 1), Enqueued, Answered (JObj [(''type'', JStr ''response''), (''id'', JStr (rpc_id 2))])]"
proof -
  let ?m = "JObj [(''type'', JStr ''response''), (''id'', JStr (rpc_id 2))]"
  have phases: "map (phase_of worker3) [0, 1, 2] = [Awaiting (rpc_id 1), Enqueued, Awaiting (rpc_id 2)]" "length (pw_calls worker3) = 3"
  proof -
    have "map ca_phase (pw_calls worker3) = [Awaiting (rpc_id 1), Enqueued, Awaiting (rpc_id 2)]" using worker3_eq by blast
    then obtain a b c where "pw_calls worker3 = [a, b, c]" "ca_phase a = Awaiting (rpc_id 1)" "ca_phase b = Enqueued"
      "ca_phase c = Awaiting (rpc_id 2)" by auto
    then show "map (phase_of worker3) [0, 1, 2] = [Awaiting (rpc_id 1), Enqueued, Awaiting (rpc_id 2)]" "length (pw_calls worker3) = 3"
      by (simp_all add: phase_of_def numeral_2_eq_2)
  qed
  have "rpc_id 1 \<noteq> rpc_id 2" by (simp add: rpc_id_def)
  with phases responses_reach_their_call [OF worker3_reach, of ?m "rpc_id 2"] show ?thesis by simp
qed

section \<open>The pool's view of a worker\<close>

text \<open>The fields that the pool's worker and this one share.\<close>

definition sees :: "pool \<Rightarrow> pi_worker \<Rightarrow> bool" where
  "sees p w \<longleftrightarrow>
     (let u = obj p (pw_id w) in
      w_state u = pw_state w \<and> w_pending u = pw_commandCount w \<and> w_child u = pw_child w \<and>
      w_version u = pw_version w \<and> w_lastUsedAt u = pw_lastUsedAt w \<and> po_clock p = pw_clock w)"










text \<open>The fields of the worker that a settlement of calls does not touch.\<close>

definition view :: "pi_worker \<Rightarrow> string \<times> worker_state \<times> nat \<times> bool \<times> string option \<times> nat \<times> nat" where
  "view w = (pw_id w, pw_state w, pw_commandCount w, pw_child w, pw_version w, pw_lastUsedAt w, pw_clock w)"


lemma view_settle [simp]:
  "view (set_phase n ph w) = view w" "view (drop_pending i w) = view w" "view (rejectPending e w) = view w"
proof -
  show set: "view (set_phase n ph w) = view w" for n ph w by (simp add: view_def set_phase_def)
  show "view (drop_pending i w) = view w" by (simp add: view_def drop_pending_def)
  have "view (fold (\<lambda>(_, n). set_phase n (Refused e)) ps v) = view v" for ps v
    by (induction ps arbitrary: v) (auto simp: set)
  then show "view (rejectPending e w) = view w" by (simp add: rejectPending_def view_def)
qed


lemma view_begin [simp]: "view (begin_command n w) = view w"
  by (simp add: begin_command_def Let_def) (simp add: view_def)











section \<open>Starting\<close>

text \<open>What a step changes of the start, and that the number of a worker never changes.\<close>

lemma startup_fields [simp]:
  "pw_startup (set_phase n ph w) = pw_startup w" "pw_id (set_phase n ph w) = pw_id w"
  "pw_startup (drop_pending i w) = pw_startup w" "pw_id (drop_pending i w) = pw_id w"
  by (simp_all add: set_phase_def drop_pending_def)

lemma startup_reject [simp]: "pw_startup (rejectPending e w) = pw_startup w" "pw_id (rejectPending e w) = pw_id w"
proof -
  have "pw_startup (fold (\<lambda>(_, n). set_phase n (Refused e)) ps v) = pw_startup v \<and> pw_id (fold (\<lambda>(_, n). set_phase n (Refused e)) ps v) = pw_id v"
    for ps v by (induction ps arbitrary: v) auto
  from this [of "pw_pending w" w]
  show "pw_startup (rejectPending e w) = pw_startup w" "pw_id (rejectPending e w) = pw_id w"
    by (simp_all add: rejectPending_def)
qed

lemma startup_begin [simp]: "pw_startup (begin_command n w) = pw_startup w"
  by (simp add: begin_command_def Let_def)

lemma startup_stdout [simp]: "pw_startup (handleStdout json_parse chunk w) = pw_startup w"
proof -
  have "pw_startup (handle_stdout_line json_parse l v) = pw_startup v" for l v
    by (auto simp: handle_stdout_line_def handle_message_def split: option.splits json.splits bool.splits)
  then have "pw_startup (fold (handle_stdout_line json_parse) ls v) = pw_startup v" for ls v
    by (induction ls arbitrary: v) auto
  then show ?thesis by (simp add: handleStdout_eq)
qed















text \<open>The pool's part of \<open>stop\<close> is the one of the process.\<close>

lemma refines_stop: "sees p w \<Longrightarrow> sees (stop_sync (pw_id w) p) (stop_begin w)"
  by (auto simp: stop_begin_def stop_sync_def sees_def set_obj_def Let_def)



end
