(* ===== verification/Catalog.thy ===== *)
theory Catalog
  imports Paths Protocol
begin

text \<open>
  The session catalog of \<open>src/session/catalog.ts\<close>: Pi's session files on disk, their summaries, and
  the baselines that tell whether a file was written by somebody else. The world an operation meets
  is a record: the files, the environment and the clock of the process, and the functions of the
  platform that the source calls on them (\<open>Date.parse\<close>, \<open>toISOString\<close>, \<open>JSON.parse\<close>). A date is its
  number of milliseconds. An asynchronous operation is cut at its awaits, and each part gets the
  world of its moment.
\<close>

section \<open>The world\<close>

text \<open>
  A file or directory: its size and times, its text unless it cannot be read, and the names in it
  with whether they are directories, unless it cannot be listed.
\<close>

record node =
  nd_size :: nat
  nd_mtime :: int
  nd_birth :: int
  nd_text :: "string option"
  nd_entries :: "(string \<times> bool) list option"

record world =
  wo_nodes :: "string \<Rightarrow> node option"
  wo_here :: string
  wo_home :: string
  wo_env :: "string \<Rightarrow> string option"
  wo_now :: int
  wo_date_parse :: "string \<Rightarrow> int option"
  wo_iso :: "int \<Rightarrow> string"
  wo_json_parse :: "string \<Rightarrow> string + json"

definition node_at :: "world \<Rightarrow> string \<Rightarrow> node option" where
  "node_at w path = (if path = [] then None else wo_nodes w (resolve (wo_here w) path))"

definition existsSync :: "world \<Rightarrow> string \<Rightarrow> bool" where
  "existsSync w path \<longleftrightarrow> node_at w path \<noteq> None"

definition statSync :: "world \<Rightarrow> string \<Rightarrow> node result" where
  "statSync w path = (case node_at w path of None \<Rightarrow> Inl (JsError ''ENOENT'') | Some n \<Rightarrow> Inr n)"

definition readFileSync :: "world \<Rightarrow> string \<Rightarrow> string result" where
  "readFileSync w path =
     (case node_at w path of
        None \<Rightarrow> Inl (JsError ''ENOENT'')
      | Some n \<Rightarrow> (case nd_text n of None \<Rightarrow> Inl (JsError ''EISDIR'') | Some t \<Rightarrow> Inr t))"

definition readdir :: "world \<Rightarrow> string \<Rightarrow> (string \<times> bool) list option" where
  "readdir w path = (case node_at w path of None \<Rightarrow> None | Some n \<Rightarrow> nd_entries n)"

section \<open>Entries of a session file\<close>

definition parse_entry :: "(string \<Rightarrow> string + json) \<Rightarrow> string \<Rightarrow> json list" where
  "parse_entry json_parse line = (case json_parse line of Inl _ \<Rightarrow> [] | Inr entry \<Rightarrow> if isRecord entry then [entry] else [])"

definition readSessionEntries :: "world \<Rightarrow> string \<Rightarrow> json list result" where
  "readSessionEntries w path =
     (if \<not> existsSync w path then Inr []
      else case readFileSync w path of
        Inl e \<Rightarrow> Inl e
      | Inr content \<Rightarrow>
          Inr (concat (map (parse_entry (wo_json_parse w)) (filter (\<lambda>line. trim line \<noteq> []) (split_on (CHR 0x0A) content)))))"

definition isSessionHeader :: "json \<Rightarrow> bool" where
  "isSessionHeader entry \<longleftrightarrow> jget entry ''type'' = JStr ''session'' \<and> is_jstr (jget entry ''id'')"

definition isNonHeaderEntry :: "json \<Rightarrow> bool" where
  "isNonHeaderEntry entry \<longleftrightarrow> jget entry ''type'' \<noteq> JStr ''session''"

definition part_text :: "json \<Rightarrow> string" where
  "part_text part =
     (if \<not> isRecord part then []
      else case (jget part ''type'' = JStr ''text'', jget part ''text'') of (True, JStr t) \<Rightarrow> t | _ \<Rightarrow> [])"

definition messageText :: "json \<Rightarrow> string" where
  "messageText message =
     (case jget message ''content'' of
        JStr s \<Rightarrow> s
      | JArr parts \<Rightarrow> join '' '' (filter (\<lambda>t. t \<noteq> []) (map part_text parts))
      | _ \<Rightarrow> [])"

definition is_message :: "json \<Rightarrow> bool" where
  "is_message entry \<longleftrightarrow> jget entry ''type'' = JStr ''message'' \<and> isRecord (jget entry ''message'')"

definition chat_role :: "json \<Rightarrow> bool" where
  "chat_role role \<longleftrightarrow> role = JStr ''user'' \<or> role = JStr ''assistant''"

definition parseDate :: "(string \<Rightarrow> int option) \<Rightarrow> json \<Rightarrow> int \<Rightarrow> int" where
  "parseDate date_parse v fallback =
     (case v of JStr s \<Rightarrow> (case date_parse s of None \<Rightarrow> fallback | Some t \<Rightarrow> t) | _ \<Rightarrow> fallback)"

text \<open>One round of the loop of \<open>sessionModifiedDate\<close>.\<close>

definition activity_step :: "(string \<Rightarrow> int option) \<Rightarrow> json \<Rightarrow> int option \<Rightarrow> int option" where
  "activity_step date_parse entry lastActivityTime =
     (if \<not> is_message entry \<or> \<not> chat_role (jget (jget entry ''message'') ''role'') then lastActivityTime
      else
        let latest = (\<lambda>t. Some (max (case lastActivityTime of None \<Rightarrow> 0 | Some l \<Rightarrow> l) t)) in
        case jget (jget entry ''message'') ''timestamp'' of
          JNum t \<Rightarrow> latest t
        | _ \<Rightarrow>
            (case jget entry ''timestamp'' of
               JStr s \<Rightarrow> (case date_parse s of None \<Rightarrow> lastActivityTime | Some t \<Rightarrow> latest t)
             | _ \<Rightarrow> lastActivityTime))"

definition sessionModifiedDate :: "(string \<Rightarrow> int option) \<Rightarrow> json list \<Rightarrow> json \<Rightarrow> int \<Rightarrow> int" where
  "sessionModifiedDate date_parse entries header fallback =
     (case fold (activity_step date_parse) entries None of
        Some t \<Rightarrow> if t \<noteq> 0 then t else parseDate date_parse (jget header ''timestamp'') fallback
      | None \<Rightarrow> parseDate date_parse (jget header ''timestamp'') fallback)"

section \<open>Session information\<close>

record session_info =
  si_path :: string
  si_id :: string
  si_cwd :: string
  si_name :: "string option"
  si_parent :: "string option"
  si_created :: int
  si_modified :: int
  si_messageCount :: nat
  si_firstMessage :: string
  si_allMessagesText :: string

text \<open>The variables of the loop of \<open>sessionInfoFromEntries\<close>.\<close>

record info_loop =
  il_messageCount :: nat
  il_firstMessage :: string
  il_name :: "string option"
  il_allMessages :: "string list"

definition info_step :: "json \<Rightarrow> info_loop \<Rightarrow> info_loop" where
  "info_step entry s =
     (if jget entry ''type'' = JStr ''session_info'' then
        s\<lparr>il_name := (case jget entry ''name'' of JStr n \<Rightarrow> if trim n \<noteq> [] then Some (trim n) else None | _ \<Rightarrow> None)\<rparr>
      else if \<not> is_message entry then s
      else
        let s = s\<lparr>il_messageCount := il_messageCount s + 1\<rparr>;
            message = jget entry ''message'';
            role = jget message ''role'';
            content = messageText message in
        if \<not> chat_role role then s
        else if content = [] then s
        else
          let s = s\<lparr>il_allMessages := il_allMessages s @ [content]\<rparr> in
          if il_firstMessage s = [] \<and> role = JStr ''user'' then s\<lparr>il_firstMessage := content\<rparr> else s)"

definition info_start :: info_loop where
  "info_start = \<lparr>il_messageCount = 0, il_firstMessage = [], il_name = None, il_allMessages = []\<rparr>"

definition sessionInfoFromEntries :: "world \<Rightarrow> string \<Rightarrow> node \<Rightarrow> json list \<Rightarrow> session_info result" where
  "sessionInfoFromEntries w path st entries =
     (case List.find isSessionHeader entries of
        None \<Rightarrow> Inl (JsError (''Invalid Pi session file: '' @ path))
      | Some header \<Rightarrow>
          let s = fold info_step entries info_start in
          Inr \<lparr>si_path = path, si_id = the (jstr_opt (jget header ''id'')),
               si_cwd = (case jget header ''cwd'' of JStr c \<Rightarrow> c | _ \<Rightarrow> []), si_name = il_name s,
               si_parent = jstr_opt (jget header ''parentSession''),
               si_created = parseDate (wo_date_parse w) (jget header ''timestamp'') (nd_birth st),
               si_modified = sessionModifiedDate (wo_date_parse w) entries header (nd_mtime st),
               si_messageCount = il_messageCount s,
               si_firstMessage = (if il_firstMessage s \<noteq> [] then il_firstMessage s else ''(no messages)''),
               si_allMessagesText = join '' '' (il_allMessages s)\<rparr>)"

definition infoFromPath :: "world \<Rightarrow> string \<Rightarrow> string option \<Rightarrow> string option \<Rightarrow> session_info result" where
  "infoFromPath w path cwdOverride nameOverride =
     (case statSync w path of
        Inl e \<Rightarrow> Inl e
      | Inr st \<Rightarrow>
          (case readSessionEntries w path of
             Inl e \<Rightarrow> Inl e
           | Inr entries \<Rightarrow>
               (case sessionInfoFromEntries w path st entries of
                  Inl e \<Rightarrow> Inl e
                | Inr info \<Rightarrow>
                    Inr (info\<lparr>si_id := (if si_id info \<noteq> [] then si_id info else path),
                              si_cwd := (case cwdOverride of None \<Rightarrow> si_cwd info | Some c \<Rightarrow> c),
                              si_name := orElse nameOverride (si_name info)\<rparr>))))"

definition sessionInfoFromPath :: "world \<Rightarrow> string \<Rightarrow> session_info option" where
  "sessionInfoFromPath w path =
     (case statSync w path of
        Inl _ \<Rightarrow> None
      | Inr st \<Rightarrow>
          (case readSessionEntries w path of
             Inl _ \<Rightarrow> None
           | Inr entries \<Rightarrow>
               (case sessionInfoFromEntries w path st entries of Inl _ \<Rightarrow> None | Inr info \<Rightarrow> Some info)))"

definition toSummary :: "world \<Rightarrow> session_info \<Rightarrow> thread_summary" where
  "toSummary w session =
     \<lparr>th_threadId = si_id session, th_path = Some (si_path session), th_cwd = si_cwd session, th_name = si_name session,
      th_parent = si_parent session, th_created = Some (wo_iso w (si_created session)),
      th_modified = Some (wo_iso w (si_modified session)), th_messageCount = si_messageCount session,
      th_firstMessage = Some (si_firstMessage session), th_status = ''idle''\<rparr>"

section \<open>Where the sessions are\<close>

definition resolvePiPath :: "world \<Rightarrow> string \<Rightarrow> string" where
  "resolvePiPath w path = resolve (wo_here w)
     (if path = ''~'' then wo_home w
      else if starts_with ''~/'' path then path_join [wo_home w, drop 2 path]
      else path)"

definition configuredSessionDir :: "world \<Rightarrow> string option" where
  "configuredSessionDir w =
     (case wo_env w ''PI_CODING_AGENT_SESSION_DIR'' of
        None \<Rightarrow> None | Some d \<Rightarrow> if d = [] then None else Some (resolvePiPath w d))"

definition sessionsRoot :: "world \<Rightarrow> string" where
  "sessionsRoot w =
     (let agentDir = (case wo_env w ''PI_CODING_AGENT_DIR'' of
            None \<Rightarrow> path_join [wo_home w, ''.pi'', ''agent'']
          | Some d \<Rightarrow> if d = [] then path_join [wo_home w, ''.pi'', ''agent''] else resolvePiPath w d) in
      path_join [agentDir, ''sessions''])"

definition separator_char :: "char \<Rightarrow> bool" where
  "separator_char c \<longleftrightarrow> c = CHR ''/'' \<or> c = CHR 0x5C"

definition safe_path :: "string \<Rightarrow> string" where
  "safe_path path =
     (let body = (if path \<noteq> [] \<and> separator_char (hd path) then tl path else path) in
      ''--'' @ map (\<lambda>c. if separator_char c \<or> c = CHR '':'' then CHR ''-'' else c) body @ ''--'')"

definition defaultSessionDirForCwd :: "world \<Rightarrow> string \<Rightarrow> string" where
  "defaultSessionDirForCwd w cwd = path_join [sessionsRoot w, safe_path (resolve (wo_here w) cwd)]"

definition sessionCwdMatches :: "world \<Rightarrow> string \<Rightarrow> string \<Rightarrow> bool" where
  "sessionCwdMatches w sessionCwd cwd \<longleftrightarrow> sessionCwd \<noteq> [] \<and> resolve (wo_here w) sessionCwd = resolve (wo_here w) cwd"

section \<open>Listing\<close>

text \<open>
  The directory is looked up in the world \<open>w0\<close> of the call and read in the world \<open>w1\<close> in which
  \<open>readdir\<close> completes; then the files are read without another await.
\<close>

definition listSessionsFromDir :: "world \<Rightarrow> world \<Rightarrow> string \<Rightarrow> session_info list" where
  "listSessionsFromDir w0 w1 dir =
     (if \<not> existsSync w0 dir then []
      else case readdir w1 dir of
        None \<Rightarrow> []
      | Some entries \<Rightarrow>
          List.map_filter (\<lambda>name. sessionInfoFromPath w1 (path_join [dir, name]))
            (filter (\<lambda>name. suffix ''.jsonl'' name) (map fst entries)))"

definition by_modified :: "session_info list \<Rightarrow> session_info list" where
  "by_modified sessions = js_sort (\<lambda>left right. si_modified right - si_modified left) sessions"

definition listSessionsForCwd :: "world \<Rightarrow> world \<Rightarrow> string \<Rightarrow> session_info list" where
  "listSessionsForCwd w0 w1 cwd =
     (let customDir = configuredSessionDir w0;
          dir = (case customDir of None \<Rightarrow> defaultSessionDirForCwd w0 cwd | Some d \<Rightarrow> d) in
      by_modified (filter (\<lambda>s. \<not> truthy customDir \<or> sessionCwdMatches w1 (si_cwd s) cwd) (listSessionsFromDir w0 w1 dir)))"

text \<open>\<open>wd\<close> gives, for each directory under the root, the world in which its \<open>readdir\<close> completes.\<close>

definition listAllSessions :: "world \<Rightarrow> world \<Rightarrow> (string \<Rightarrow> world) \<Rightarrow> session_info list" where
  "listAllSessions w0 w1 wd =
     (case configuredSessionDir w0 of
        Some d \<Rightarrow> by_modified (listSessionsFromDir w0 w1 d)
      | None \<Rightarrow>
          let root = sessionsRoot w0 in
          if \<not> existsSync w0 root then []
          else case readdir w1 root of
            None \<Rightarrow> []
          | Some entries \<Rightarrow>
              by_modified (concat (map (\<lambda>(name, _). listSessionsFromDir w1 (wd name) (path_join [root, name]))
                (filter snd entries))))"

definition list_sessions :: "world \<Rightarrow> world \<Rightarrow> (string \<Rightarrow> world) \<Rightarrow> string option \<Rightarrow> session_info list" where
  "list_sessions w0 w1 wd cwd =
     (if truthy cwd then listSessionsForCwd w0 w1 (resolve (wo_here w0) (the cwd)) else listAllSessions w0 w1 wd)"

section \<open>The catalog\<close>

record baseline =
  bl_path :: string
  bl_size :: nat
  bl_mtime :: int
  bl_lastEntryHash :: "string option"

record catalog =
  ct_byId :: "string \<Rightarrow> session_info option"
  ct_baselines :: "string \<Rightarrow> baseline option"
  ct_unpersisted :: "string set"

definition new_catalog :: catalog where
  "new_catalog = \<lparr>ct_byId = Map.empty, ct_baselines = Map.empty, ct_unpersisted = {}\<rparr>"

definition cache :: "session_info list \<Rightarrow> catalog \<Rightarrow> catalog" where
  "cache sessions c = c\<lparr>ct_byId := fold (\<lambda>s m. m(si_id s \<mapsto> s)) sessions (ct_byId c)\<rparr>"

text \<open>\<open>list\<close> and \<open>search\<close> once the sessions have been read.\<close>

definition catalog_list :: "world \<Rightarrow> session_info list \<Rightarrow> catalog \<Rightarrow> thread_summary list \<times> catalog" where
  "catalog_list w sessions c = (map (toSummary w) sessions, cache sessions c)"

fun str_includes :: "string \<Rightarrow> string \<Rightarrow> bool" where
  "str_includes needle [] = (needle = [])"
| "str_includes needle (x # xs) = (starts_with needle (x # xs) \<or> str_includes needle xs)"

definition search_match :: "string \<Rightarrow> thread_summary \<Rightarrow> bool" where
  "search_match lower t \<longleftrightarrow>
     list_ex (\<lambda>v. str_includes lower (to_lower v))
       (filter (\<lambda>v. v \<noteq> []) (List.map_filter (\<lambda>v. v) [Some (th_threadId t), th_name t, th_firstMessage t, Some (th_cwd t)]))"

definition catalog_search ::
  "world \<Rightarrow> session_info list \<Rightarrow> string \<Rightarrow> int option \<Rightarrow> catalog \<Rightarrow> thread_summary list \<times> catalog" where
  "catalog_search w sessions q limit c =
     (let (summaries, c1) = catalog_list w sessions c;
          results = filter (search_match (to_lower q)) summaries in
      (case limit of None \<Rightarrow> results | Some l \<Rightarrow> slice results 0 l, c1))"

text \<open>
  \<open>resolveThread\<close> up to its await: the session, an error, or \<open>None\<close> when the sessions have to be
  listed first; and its end, after the listing has been cached.
\<close>

definition resolve_begin :: "world \<Rightarrow> string \<Rightarrow> catalog \<Rightarrow> session_info result option \<times> catalog" where
  "resolve_begin w t c =
     (if existsSync w t then
        (case infoFromPath w (resolve (wo_here w) t) None None of
           Inl e \<Rightarrow> (Some (Inl e), c)
         | Inr session \<Rightarrow> (Some (Inr session), cache [session] c))
      else
        let forget = (\<lambda>c. c\<lparr>ct_byId := (ct_byId c)(t := None)\<rparr>) in
        case ct_byId c t of
          None \<Rightarrow> (None, forget c)
        | Some cached \<Rightarrow>
            if existsSync w (si_path cached) then
              (case infoFromPath w (si_path cached) None None of
                 Inl e \<Rightarrow> (Some (Inl e), c)
               | Inr session \<Rightarrow>
                   let c1 = cache [session] (forget (c\<lparr>ct_unpersisted := ct_unpersisted c - {t}\<rparr>)) in
                   if si_id session = t then (Some (Inr session), c1) else (None, forget c1))
            else if t \<in> ct_unpersisted c then (Some (Inr cached), c)
            else (None, forget c))"

definition resolve_end :: "string \<Rightarrow> catalog \<Rightarrow> session_info result" where
  "resolve_end t c =
     (case ct_byId c t of
        None \<Rightarrow> Inl (DaemonError NotFound ''Thread not found'' (Some [(''threadId'', JStr t)]))
      | Some refreshed \<Rightarrow> Inr refreshed)"

text \<open>\<open>read\<close> and \<open>messages\<close> once the thread is resolved.\<close>

definition catalog_read :: "world \<Rightarrow> session_info \<Rightarrow> (thread_summary \<times> json list) result" where
  "catalog_read w session =
     (case readSessionEntries w (si_path session) of
        Inl e \<Rightarrow> Inl e
      | Inr entries \<Rightarrow> Inr (toSummary w session, filter isNonHeaderEntry entries))"

definition entry_message :: "json \<Rightarrow> json" where
  "entry_message entry =
     JObj (case jget entry ''message'' of
             JObj kvs \<Rightarrow> fold (\<lambda>(k, v). jset k v) kvs [(''entryId'', jget entry ''id'')]
           | _ \<Rightarrow> [(''entryId'', jget entry ''id'')])"

definition catalog_messages :: "world \<Rightarrow> session_info \<Rightarrow> int option \<Rightarrow> string option \<Rightarrow> (string \<times> json list) result" where
  "catalog_messages w session lastN role =
     (case readSessionEntries w (si_path session) of
        Inl e \<Rightarrow> Inl e
      | Inr entries \<Rightarrow>
          let messages = map entry_message (filter is_message entries);
              messages = (if truthy role then filter (\<lambda>m. jget m ''role'' = jopt role) messages else messages);
              messages = (case lastN of None \<Rightarrow> messages | Some n \<Rightarrow> if n \<le> 0 then [] else slice_from messages (- n)) in
          Inr (si_id session, messages))"

section \<open>Baselines\<close>

definition sampleBaseline :: "world \<Rightarrow> string \<Rightarrow> baseline option result" where
  "sampleBaseline w path =
     (if \<not> existsSync w path then Inr None
      else case statSync w path of
        Inl e \<Rightarrow> Inl e
      | Inr st \<Rightarrow>
          (case readSessionEntries w path of
             Inl e \<Rightarrow> Inl e
           | Inr entries \<Rightarrow>
               let rest = filter isNonHeaderEntry entries in
               Inr (Some \<lparr>bl_path = path, bl_size = nd_size st, bl_mtime = nd_mtime st,
                 bl_lastEntryHash = (if rest = [] then None
                   else Some (js_string (jget (last rest) ''id'') @ '':'' @ js_string (jget (last rest) ''type'')
                              @ '':'' @ js_string (jget (last rest) ''timestamp'')))\<rparr>)))"

definition recordBaseline :: "world \<Rightarrow> string \<Rightarrow> string \<Rightarrow> catalog \<Rightarrow> catalog result" where
  "recordBaseline w threadId path c =
     (case sampleBaseline w path of
        Inl e \<Rightarrow> Inl e
      | Inr None \<Rightarrow> Inr c
      | Inr (Some b) \<Rightarrow> Inr (c\<lparr>ct_baselines := (ct_baselines c)(threadId \<mapsto> b)\<rparr>))"

definition isPersisted :: "world \<Rightarrow> string \<Rightarrow> catalog \<Rightarrow> bool" where
  "isPersisted w threadId c \<longleftrightarrow> (case ct_byId c threadId of None \<Rightarrow> False | Some s \<Rightarrow> existsSync w (si_path s))"

definition external_writer :: "string \<Rightarrow> string \<Rightarrow> string \<Rightarrow> thrown" where
  "external_writer message threadId path =
     DaemonError ExternalWriterDetected message (Some [(''threadId'', JStr threadId), (''path'', JStr path)])"

definition assertUnchanged :: "world \<Rightarrow> string \<Rightarrow> catalog \<Rightarrow> unit result" where
  "assertUnchanged w threadId c =
     (case ct_baselines c threadId of
        None \<Rightarrow> Inr ()
      | Some b \<Rightarrow>
          (case sampleBaseline w (bl_path b) of
             Inl e \<Rightarrow> Inl e
           | Inr None \<Rightarrow> Inl (external_writer ''Session file disappeared'' threadId (bl_path b))
           | Inr (Some current) \<Rightarrow>
               if bl_size current \<noteq> bl_size b \<or> bl_mtime current \<noteq> bl_mtime b \<or>
                  bl_lastEntryHash current \<noteq> bl_lastEntryHash b
               then Inl (external_writer ''Session changed outside daemon ownership'' threadId (bl_path b))
               else Inr ()))"

text \<open>What a worker says of its session: its id, file, directory and name.\<close>

record worker_session =
  wn_sessionId :: "string option"
  wn_sessionFile :: "string option"
  wn_cwd :: "string option"
  wn_sessionName :: "string option"

definition updateFromWorkerState :: "world \<Rightarrow> worker_session \<Rightarrow> catalog \<Rightarrow> catalog result" where
  "updateFromWorkerState w state c =
     (if \<not> truthy (wn_sessionId state) \<or> \<not> truthy (wn_sessionFile state) then Inr c
      else
        let file = the (wn_sessionFile state) in
        case (if existsSync w file then infoFromPath w file (wn_cwd state) (wn_sessionName state)
              else Inr \<lparr>si_path = file, si_id = the (wn_sessionId state),
                        si_cwd = (case wn_cwd state of None \<Rightarrow> [] | Some d \<Rightarrow> d), si_name = wn_sessionName state,
                        si_parent = None, si_created = wo_now w, si_modified = wo_now w, si_messageCount = 0,
                        si_firstMessage = [], si_allMessagesText = []\<rparr>) of
          Inl e \<Rightarrow> Inl e
        | Inr session \<Rightarrow>
            let c1 = cache [session] c in
            if existsSync w (si_path session) then
              recordBaseline w (si_id session) (si_path session)
                (c1\<lparr>ct_unpersisted := ct_unpersisted c1 - {si_id session}\<rparr>)
            else if ct_baselines c1 (si_id session) = None then
              Inr (c1\<lparr>ct_unpersisted := insert (si_id session) (ct_unpersisted c1)\<rparr>)
            else Inr c1)"

end
