(* ===== verification/Catalog_Props.thy ===== *)
theory Catalog_Props
  imports Catalog Line_Framing
begin

text \<open>
  What the catalog promises: sessions are filed under their own ids, a resolved thread is the one
  asked for, writes by others are detected, a session file is read back entry by entry even with a
  torn last line, and the summary of a session is what its entries say.
\<close>

section \<open>Reachable catalogs\<close>

text \<open>Every operation of the catalog, each in any world.\<close>

inductive catalog_reach :: "catalog \<Rightarrow> bool" where
  cr_new: "catalog_reach new_catalog"
| cr_list: "catalog_reach c \<Longrightarrow> catalog_reach (cache sessions c)"
| cr_resolve: "catalog_reach c \<Longrightarrow> resolve_begin w t c = (r, c') \<Longrightarrow> catalog_reach c'"
| cr_update: "catalog_reach c \<Longrightarrow> updateFromWorkerState w st c = Inr c' \<Longrightarrow> catalog_reach c'"

definition keys_are_ids :: "(string \<Rightarrow> session_info option) \<Rightarrow> bool" where
  "keys_are_ids m \<longleftrightarrow> (\<forall>k s. m k = Some s \<longrightarrow> si_id s = k)"

text \<open>
  Sessions are filed under their ids; a thread that is not yet on disk is known, and has no baseline.
\<close>

definition catalog_inv :: "catalog \<Rightarrow> bool" where
  "catalog_inv c \<longleftrightarrow> keys_are_ids (ct_byId c) \<and>
     (\<forall>t \<in> ct_unpersisted c. ct_byId c t \<noteq> None \<and> ct_baselines c t = None)"

lemma cache_keys: "keys_are_ids m \<Longrightarrow> keys_are_ids (fold (\<lambda>s m. m(si_id s \<mapsto> s)) sessions m)"
proof (induction sessions arbitrary: m)
  case (Cons s sessions)
  from Cons.prems have "keys_are_ids (m(si_id s \<mapsto> s))" by (simp add: keys_are_ids_def)
  with Cons.IH [of "m(si_id s \<mapsto> s)"] show ?case by (simp only: fold.simps comp_apply simp_thms)
qed simp

lemma cache_dom: "m k \<noteq> None \<Longrightarrow> fold (\<lambda>s m. m(si_id s \<mapsto> s)) sessions m k \<noteq> None"
proof (induction sessions arbitrary: m)
  case (Cons s sessions)
  from Cons.prems have "(m(si_id s \<mapsto> s)) k \<noteq> None" by simp
  with Cons.IH [of "m(si_id s \<mapsto> s)"] show ?case by (simp only: fold.simps comp_apply simp_thms)
qed simp

lemma cache_has: "k \<in> si_id ` set ss \<Longrightarrow> fold (\<lambda>s m. m(si_id s \<mapsto> s)) ss m k \<noteq> None"
proof (induction ss arbitrary: m)
  case (Cons s ss)
  show ?case
  proof (cases "k = si_id s")
    case True
    then have "(m(si_id s \<mapsto> s)) k \<noteq> None" by simp
    from cache_dom [where m = "m(si_id s \<mapsto> s)", OF this] show ?thesis by (simp only: fold.simps comp_apply simp_thms)
  next
    case False
    with Cons.prems have "k \<in> si_id ` set ss" by auto
    from Cons.IH [OF this, of "m(si_id s \<mapsto> s)"] show ?thesis by (simp only: fold.simps comp_apply simp_thms)
  qed
qed simp

lemma cache_inv: assumes "catalog_inv c" shows "catalog_inv (cache sessions c)"
proof -
  have "keys_are_ids (ct_byId (cache sessions c))"
    using assms cache_keys by (simp add: catalog_inv_def cache_def)
  moreover have "ct_byId (cache sessions c) t \<noteq> None \<and> ct_baselines (cache sessions c) t = None"
    if "t \<in> ct_unpersisted (cache sessions c)" for t
  proof -
    have "ct_byId c t \<noteq> None" "ct_baselines c t = None" using assms that by (simp_all add: catalog_inv_def cache_def)
    with cache_dom [of "ct_byId c" t sessions] show ?thesis by (simp add: cache_def)
  qed
  ultimately show ?thesis unfolding catalog_inv_def by blast
qed

lemma cache_one: "ct_byId (cache [s] c) = (ct_byId c)(si_id s \<mapsto> s)" "ct_baselines (cache ss c) = ct_baselines c"
  "ct_unpersisted (cache ss c) = ct_unpersisted c"
  by (simp_all add: cache_def)

lemma forget_inv: "catalog_inv c \<Longrightarrow> t \<notin> ct_unpersisted c \<Longrightarrow> catalog_inv (c\<lparr>ct_byId := (ct_byId c)(t := None)\<rparr>)"
  by (auto simp: catalog_inv_def keys_are_ids_def)

lemma unknown_not_unpersisted: "catalog_inv c \<Longrightarrow> ct_byId c t = None \<Longrightarrow> t \<notin> ct_unpersisted c"
  by (auto simp: catalog_inv_def)

lemma persist_inv: "catalog_inv c \<Longrightarrow> catalog_inv (c\<lparr>ct_unpersisted := ct_unpersisted c - S\<rparr>)"
  by (auto simp: catalog_inv_def)

lemma recover_inv:
  assumes "catalog_inv c"
  shows "catalog_inv (cache [s] (c\<lparr>ct_unpersisted := ct_unpersisted c - {t}, ct_byId := (ct_byId c)(t := None)\<rparr>))"
  using assms by (auto simp: catalog_inv_def keys_are_ids_def cache_def)

lemma resolve_begin_inv:
  assumes inv: "catalog_inv c" and res: "resolve_begin w t c = (r, c')"
  shows "catalog_inv c'"
proof (cases "existsSync w t")
  case True
  with inv res show ?thesis by (auto simp: resolve_begin_def cache_inv split: sum.splits)
next
  case False
  show ?thesis
  proof (cases "ct_byId c t")
    case None
    with inv res False show ?thesis
      using forget_inv [OF inv unknown_not_unpersisted [OF inv None]] by (auto simp: resolve_begin_def Let_def)
  next
    case (Some cached)
    show ?thesis
    proof (cases "existsSync w (si_path cached)")
      case exists: True
      show ?thesis
      proof (cases "infoFromPath w (si_path cached) None None")
        case (Inl e)
        with inv res False Some exists show ?thesis by (auto simp: resolve_begin_def Let_def)
      next
        case (Inr s)
        let ?c = "cache [s] (c\<lparr>ct_unpersisted := ct_unpersisted c - {t}, ct_byId := (ct_byId c)(t := None)\<rparr>)"
        have c: "catalog_inv ?c" by (rule recover_inv [OF inv])
        have "t \<notin> ct_unpersisted ?c" by (simp add: cache_one)
        with c forget_inv [OF c this] inv res False Some exists Inr show ?thesis
          by (auto simp: resolve_begin_def Let_def split: if_splits)
      qed
    next
      case gone: False
      with inv res False Some show ?thesis
        by (auto simp: resolve_begin_def Let_def forget_inv split: if_splits)
    qed
  qed
qed

lemma recordBaseline_cases:
  assumes "recordBaseline w t path c = Inr c'"
  shows "c' = c \<or> (\<exists>b. c' = c\<lparr>ct_baselines := (ct_baselines c)(t \<mapsto> b)\<rparr>)"
  using assms by (auto simp: recordBaseline_def split: sum.splits option.splits)

lemma baseline_inv:
  "catalog_inv c \<Longrightarrow> t \<notin> ct_unpersisted c \<Longrightarrow> recordBaseline w t path c = Inr c' \<Longrightarrow> catalog_inv c'"
  using recordBaseline_cases [of w t path c c'] by (auto simp: catalog_inv_def)

lemma update_inv:
  assumes inv: "catalog_inv c" and upd: "updateFromWorkerState w st c = Inr c'"
  shows "catalog_inv c'"
proof (cases "truthy (wn_sessionId st) \<and> truthy (wn_sessionFile st)")
  case True
  then obtain s where c': "(let c1 = cache [s] c in
      if existsSync w (si_path s) then recordBaseline w (si_id s) (si_path s) (c1\<lparr>ct_unpersisted := ct_unpersisted c1 - {si_id s}\<rparr>)
      else if ct_baselines c1 (si_id s) = None then Inr (c1\<lparr>ct_unpersisted := insert (si_id s) (ct_unpersisted c1)\<rparr>)
      else Inr c1) = Inr c'"
    using upd unfolding updateFromWorkerState_def Let_def by (auto split: sum.splits)
  have c1: "catalog_inv (cache [s] c)" by (rule cache_inv [OF inv])
  show ?thesis
  proof (cases "existsSync w (si_path s)")
    case True
    with c' have "recordBaseline w (si_id s) (si_path s) ((cache [s] c)\<lparr>ct_unpersisted := ct_unpersisted (cache [s] c) - {si_id s}\<rparr>) = Inr c'"
      by (simp add: Let_def)
    then show ?thesis by (rule baseline_inv [rotated 2]) (use persist_inv [OF c1] in auto)
  next
    case False
    with c' c1 show ?thesis by (auto simp: Let_def catalog_inv_def cache_one split: if_splits)
  qed
next
  case False
  with upd inv show ?thesis by (auto simp: updateFromWorkerState_def)
qed

lemma catalog_reach_inv: "catalog_reach c \<Longrightarrow> catalog_inv c"
proof (induction rule: catalog_reach.induct)
  case cr_new
  show ?case by (simp add: catalog_inv_def keys_are_ids_def new_catalog_def)
qed (auto intro: cache_inv resolve_begin_inv update_inv)

section \<open>Resolving a thread\<close>

text \<open>
  A thread that is resolved by its id is the thread with that id, at once or after the listing;
  only an existing path resolves to a session of another name. A thread that cannot be found is
  reported as not found, and only when the listing has no session with that id.
\<close>

theorem resolved_thread_is_requested:
  assumes "catalog_reach c" "resolve_begin w t c = (r, c')"
  shows "(\<forall>s. r = Some (Inr s) \<longrightarrow> \<not> existsSync w t \<longrightarrow> si_id s = t) \<and>
    (\<forall>s. resolve_end t (cache sessions c') = Inr s \<longrightarrow> si_id s = t) \<and>
    (\<forall>e. r = None \<longrightarrow> resolve_end t (cache sessions c') = Inl e \<longrightarrow>
       e = DaemonError NotFound ''Thread not found'' (Some [(''threadId'', JStr t)]) \<and> t \<notin> si_id ` set sessions)"
proof -
  have inv: "catalog_inv c" "catalog_inv c'"
    using catalog_reach_inv [OF assms(1)] resolve_begin_inv [OF _ assms(2)] by simp_all
  have keys: "ct_byId c t = Some s \<Longrightarrow> si_id s = t" for s using inv(1) by (simp add: catalog_inv_def keys_are_ids_def)
  have "si_id s = t" if "r = Some (Inr s)" "\<not> existsSync w t" for s
    using assms(2) that keys by (auto simp: resolve_begin_def Let_def split: option.splits sum.splits if_splits)
  moreover have "si_id s = t" if "resolve_end t (cache sessions c') = Inr s" for s
    using that cache_inv [OF inv(2), of sessions]
    by (auto simp: resolve_end_def catalog_inv_def keys_are_ids_def split: option.splits)
  moreover have "e = DaemonError NotFound ''Thread not found'' (Some [(''threadId'', JStr t)]) \<and> t \<notin> si_id ` set sessions"
    if "resolve_end t (cache sessions c') = Inl e" for e
  proof -
    have none: "ct_byId (cache sessions c') t = None" using that by (auto simp: resolve_end_def split: option.splits)
    have "ct_byId (cache sessions c') = fold (\<lambda>s m. m(si_id s \<mapsto> s)) sessions (ct_byId c')" by (simp add: cache_def)
    with none have "t \<notin> si_id ` set sessions" using cache_has [of t sessions "ct_byId c'"] by metis
    with that none show ?thesis by (simp add: resolve_end_def)
  qed
  ultimately show ?thesis by blast
qed

section \<open>Writes by others\<close>

lemma baseline_path: "sampleBaseline w path = Inr (Some b) \<Longrightarrow> bl_path b = path"
  by (auto simp: sampleBaseline_def Let_def split: if_splits sum.splits)

lemma record_and_assert:
  assumes "recordBaseline w t path c = Inr c'" "sampleBaseline w path = Inr (Some b)"
  shows "ct_baselines c' t = Some b"
  using assms by (auto simp: recordBaseline_def)

text \<open>
  After the daemon has recorded a session file, the check of the session accepts the file exactly while
  its size, its modification time and its last entry are those recorded.
\<close>

lemma recorded_baseline:
  assumes "updateFromWorkerState w st c = Inr c'" "wn_sessionId st = Some i" "i \<noteq> []"
    and "wn_sessionFile st = Some path" "path \<noteq> []" "existsSync w path"
    and "infoFromPath w path (wn_cwd st) (wn_sessionName st) = Inr s"
  obtains b where "sampleBaseline w path = Inr (Some b)" "bl_path b = path" "ct_baselines c' (si_id s) = Some b"
proof -
  have upd: "(let c1 = cache [s] c in if existsSync w (si_path s)
        then recordBaseline w (si_id s) (si_path s) (c1\<lparr>ct_unpersisted := ct_unpersisted c1 - {si_id s}\<rparr>)
        else if ct_baselines c1 (si_id s) = None then Inr (c1\<lparr>ct_unpersisted := insert (si_id s) (ct_unpersisted c1)\<rparr>)
        else Inr c1) = Inr c'"
    using assms by (auto simp: updateFromWorkerState_def split: sum.splits)
  have path: "si_path s = path"
    using assms(7) by (auto simp: infoFromPath_def sessionInfoFromEntries_def Let_def split: sum.splits option.splits)
  have rec: "recordBaseline w (si_id s) path ((cache [s] c)\<lparr>ct_unpersisted := ct_unpersisted (cache [s] c) - {si_id s}\<rparr>) = Inr c'"
    using upd assms(6) by (simp add: path Let_def)
  have "statSync w path \<noteq> Inl e" for e using assms(6) by (auto simp: statSync_def existsSync_def split: option.splits)
  then obtain x where "statSync w path = Inr x" by (cases "statSync w path") auto
  then obtain b where b: "sampleBaseline w path = Inr (Some b)"
    using rec assms(6) by (auto simp: recordBaseline_def sampleBaseline_def Let_def split: sum.splits)
  show thesis by (rule that [OF b baseline_path [OF b] record_and_assert [OF rec b]])
qed

lemma assertUnchanged_recorded:
  assumes "ct_baselines c t = Some b" "bl_path b = path" "sampleBaseline w path = Inr current"
  shows "assertUnchanged w t c =
    (if current = Some b then Inr ()
     else Inl (external_writer (if current = None then ''Session file disappeared''
       else ''Session changed outside daemon ownership'') t path))"
proof (cases current)
  case None
  with assms show ?thesis by (simp add: assertUnchanged_def)
next
  case (Some a)
  with assms(3) have "bl_path a = path" using baseline_path by metis
  with assms(2) have "a = b \<longleftrightarrow> \<not> (bl_size a \<noteq> bl_size b \<or> bl_mtime a \<noteq> bl_mtime b \<or> bl_lastEntryHash a \<noteq> bl_lastEntryHash b)"
    by (cases a; cases b) auto
  with assms Some show ?thesis by (auto simp: assertUnchanged_def)
qed

section \<open>Session files\<close>

lemma filter_split_lines:
  assumes "\<forall>e \<in> set es. isRecord e" "CHR 0x0A \<notin> set torn"
  shows "filter (\<lambda>l. trim l \<noteq> []) (split_on (CHR 0x0A) (concat (map encodeJsonLine es) @ torn))
    = map stringify es @ (if trim torn \<noteq> [] then [torn] else [])"
  using assms(1)
proof (induction es)
  case Nil
  then show ?case using assms(2) by (simp add: split_on_absent)
next
  case (Cons e es)
  have nl: "CHR 0x0A \<notin> set (stringify e)" using printable_line [OF printable_stringify_all(1), of e] by (simp add: newline_def)
  have "trim (stringify e) \<noteq> []"
  proof -
    obtain kvs where e: "e = JObj kvs" using Cons.prems by (cases e) (auto simp: isRecord_def)
    then obtain body where "stringify e = CHR ''{'' # body" by simp
    moreover have "\<not> is_space (CHR ''{'')" by (simp add: is_space_def)
    ultimately show ?thesis by (simp add: trim_def)
  qed
  moreover have "encodeJsonLine e @ rest = stringify e @ CHR 0x0A # rest" for rest by (simp add: encodeJsonLine_def)
  ultimately show ?case using Cons by (simp add: split_on_append [OF nl])
qed

lemma read_entries:
  assumes "node_at w path = Some nd" "nd_text nd = Some (concat (map encodeJsonLine es) @ torn)"
    and "\<forall>e \<in> set es. isRecord e \<and> wo_json_parse w (stringify e) = Inr e"
    and "CHR 0x0A \<notin> set torn" "wo_json_parse w torn = Inl message"
  shows "readSessionEntries w path = Inr es"
proof -
  have "concat (map (parse_entry (wo_json_parse w)) (map stringify es)) = es"
    using assms(3) by (induction es) (auto simp: parse_entry_def)
  moreover have "parse_entry (wo_json_parse w) torn = []" by (simp add: parse_entry_def assms(5))
  ultimately show ?thesis
    using assms filter_split_lines [of es torn] by (simp add: readSessionEntries_def existsSync_def readFileSync_def)
qed

text \<open>
  A session file is read back entry by entry: for a file to which Pi has written entries line by
  line, possibly ending in a line that was torn while it was written, the entries read are exactly
  the ones written. (The hypotheses on \<open>JSON.parse\<close> are that it inverts \<open>JSON.stringify\<close> on these
  entries and rejects the torn line.)
\<close>

theorem session_file_read_back:
  assumes "node_at w path = Some nd" "nd_text nd = Some (concat (map encodeJsonLine es) @ torn)"
    and "\<forall>e \<in> set es. isRecord e \<and> wo_json_parse w (stringify e) = Inr e"
    and "CHR 0x0A \<notin> set torn" "wo_json_parse w torn = Inl message"
  shows "readSessionEntries w path = Inr es"
  by (rule read_entries [OF assms])

section \<open>Summaries\<close>

text \<open>The texts of the chat messages of a session, and those of the user.\<close>

definition chat_texts :: "json list \<Rightarrow> string list" where
  "chat_texts entries = filter (\<lambda>t. t \<noteq> []) (map (\<lambda>e. messageText (jget e ''message''))
     (filter (\<lambda>e. is_message e \<and> chat_role (jget (jget e ''message'') ''role'')) entries))"

definition user_texts :: "json list \<Rightarrow> string list" where
  "user_texts entries = filter (\<lambda>t. t \<noteq> []) (map (\<lambda>e. messageText (jget e ''message''))
     (filter (\<lambda>e. is_message e \<and> jget (jget e ''message'') ''role'' = JStr ''user'') entries))"

definition names_given :: "json list \<Rightarrow> string option list" where
  "names_given entries = map (\<lambda>e. case jget e ''name'' of JStr n \<Rightarrow> if trim n \<noteq> [] then Some (trim n) else None | _ \<Rightarrow> None)
     (filter (\<lambda>e. jget e ''type'' = JStr ''session_info'') entries)"

lemma texts_Cons:
  "user_texts (e # es) = user_texts [e] @ user_texts es" "chat_texts (e # es) = chat_texts [e] @ chat_texts es"
  "names_given (e # es) = names_given [e] @ names_given es"
  by (simp_all add: user_texts_def chat_texts_def names_given_def)

text \<open>What the loop adds for a list of entries.\<close>

definition info_after :: "json list \<Rightarrow> info_loop \<Rightarrow> info_loop" where
  "info_after entries s =
     s\<lparr>il_messageCount := il_messageCount s + length (filter is_message entries),
       il_firstMessage := (if il_firstMessage s \<noteq> [] then il_firstMessage s
         else case user_texts entries of [] \<Rightarrow> [] | t # _ \<Rightarrow> t),
       il_name := (if names_given entries = [] then il_name s else last (names_given entries)),
       il_allMessages := il_allMessages s @ chat_texts entries\<rparr>"

lemma info_step_after: "info_step e s = info_after [e] s"
proof -
  have other: "is_message e \<Longrightarrow> jget e ''type'' \<noteq> JStr ''session_info''" by (simp add: is_message_def)
  have user: "jget (jget e ''message'') ''role'' = JStr ''user'' \<Longrightarrow> chat_role (jget (jget e ''message'') ''role'')"
    by (simp add: chat_role_def)
  show ?thesis
    using other user
    by (cases "is_message e"; cases "chat_role (jget (jget e ''message'') ''role'')";
        cases "messageText (jget e ''message'') = []"; cases "jget (jget e ''message'') ''role'' = JStr ''user''")
      (simp_all add: info_after_def info_step_def Let_def user_texts_def names_given_def chat_texts_def del: jget.simps)
qed

lemma user_texts_nonempty: "t # ts = user_texts es \<Longrightarrow> t \<noteq> []"
proof -
  assume "t # ts = user_texts es"
  then have "t \<in> set (user_texts es)" by (metis list.set_intros(1))
  then show ?thesis by (simp add: user_texts_def)
qed

lemma info_after_Cons: "info_after (e # es) s = info_after es (info_after [e] s)"
  using user_texts_nonempty [of _ _ "[e]"]
  by (cases "user_texts [e]") (simp_all add: info_after_def texts_Cons [of e es] del: jget.simps)

lemma info_fold: "fold info_step entries s = info_after entries s"
proof (induction entries arbitrary: s)
  case Nil
  show ?case by (simp add: info_after_def user_texts_def names_given_def chat_texts_def)
next
  case (Cons e entries)
  have "fold info_step (e # entries) s = fold info_step entries (info_step e s)" by simp
  also have "\<dots> = info_after entries (info_step e s)" by (rule Cons.IH)
  also have "\<dots> = info_after entries (info_after [e] s)" by (rule arg_cong [OF info_step_after])
  finally show ?case by (simp only: info_after_Cons [of e entries])
qed

text \<open>
  The summary of a session is what its entries say: the number of messages, the first user text,
  the last name given (none when the last one is blank), and all chat texts in order.
\<close>

theorem summary_is_what_entries_say:
  assumes "sessionInfoFromEntries w path st entries = Inr info"
  shows "si_messageCount info = length (filter is_message entries) \<and>
    si_firstMessage info = (case user_texts entries of [] \<Rightarrow> ''(no messages)'' | t # _ \<Rightarrow> t) \<and>
    si_name info = (if names_given entries = [] then None else last (names_given entries)) \<and>
    si_allMessagesText info = join '' '' (chat_texts entries)"
proof -
  have "t \<noteq> []" if "user_texts entries = t # ts" for t ts using user_texts_nonempty [of t ts entries] that by simp
  then show ?thesis
    using assms
    by (auto simp: sessionInfoFromEntries_def Let_def info_fold info_after_def info_start_def split: option.splits list.splits)
qed

section \<open>A sample catalog\<close>

definition sample_header :: json where
  "sample_header = JObj [(''type'', JStr ''session''), (''id'', JStr ''t1''), (''cwd'', JStr ''/w'')]"

definition sample_message :: json where
  "sample_message = JObj [(''type'', JStr ''message''), (''id'', JStr ''e1''), (''timestamp'', JStr ''d''),
     (''message'', JObj [(''role'', JStr ''user''), (''content'', JStr ''hi'')])]"

definition sample_node :: node where
  "sample_node = \<lparr>nd_size = 9, nd_mtime = 5, nd_birth = 1,
     nd_text = Some (concat (map encodeJsonLine [sample_header, sample_message]) @ ''{''), nd_entries = None\<rparr>"

definition sample_world :: world where
  "sample_world = \<lparr>wo_nodes = (\<lambda>p. if p = ''/s/a.jsonl'' then Some sample_node else None), wo_here = ''/'', wo_home = ''/h'',
     wo_env = (\<lambda>_. None), wo_now = 7, wo_date_parse = (\<lambda>s. if s = ''d'' then Some 3 else None), wo_iso = (\<lambda>_. ''iso''),
     wo_json_parse = (\<lambda>s. if s = stringify sample_header then Inr sample_header
       else if s = stringify sample_message then Inr sample_message else Inl ''SyntaxError'')\<rparr>"

lemma catalog_sample_path: "resolve ''/'' ''/s/a.jsonl'' = ''/s/a.jsonl''"
  by code_simp

lemma catalog_sample_texts: "stringify sample_header \<noteq> stringify sample_message" "''{'' \<noteq> stringify sample_header"
  "''{'' \<noteq> stringify sample_message"
  by code_simp+

lemma catalog_sample_at: "node_at sample_world ''/s/a.jsonl'' = Some sample_node"
  by (simp add: node_at_def sample_world_def catalog_sample_path)

lemma catalog_sample_read_facts:
  "nd_text sample_node = Some (concat (map encodeJsonLine [sample_header, sample_message]) @ ''{'')"
  "\<forall>e \<in> set [sample_header, sample_message]. isRecord e \<and> wo_json_parse sample_world (stringify e) = Inr e"
  "CHR 0x0A \<notin> set ''{''" "wo_json_parse sample_world ''{'' = Inl ''SyntaxError''"
  using catalog_sample_texts by (simp_all add: sample_node_def sample_world_def isRecord_def) (simp_all add: sample_header_def sample_message_def)

theorem session_file_read_back_witness:
  "readSessionEntries sample_world ''/s/a.jsonl'' = Inr [sample_header, sample_message]"
  by (rule session_file_read_back [OF catalog_sample_at catalog_sample_read_facts])

lemma catalog_sample_entries: "readSessionEntries sample_world ''/s/a.jsonl'' = Inr [sample_header, sample_message]"
  by (rule read_entries [OF catalog_sample_at catalog_sample_read_facts])

definition sample_info :: session_info where
  "sample_info = \<lparr>si_path = ''/s/a.jsonl'', si_id = ''t1'', si_cwd = ''/w'', si_name = None, si_parent = None, si_created = 1,
     si_modified = 3, si_messageCount = 1, si_firstMessage = ''hi'', si_allMessagesText = ''hi''\<rparr>"

lemma catalog_sample_info_eq:
  "sessionInfoFromEntries sample_world ''/s/a.jsonl'' sample_node [sample_header, sample_message] = Inr sample_info"
  by (simp add: sessionInfoFromEntries_def sample_header_def sample_message_def isSessionHeader_def info_step_def info_start_def
      is_message_def isRecord_def chat_role_def messageText_def parseDate_def sessionModifiedDate_def activity_step_def
      sample_world_def sample_node_def sample_info_def Let_def)

theorem summary_is_what_entries_say_witness: "si_messageCount sample_info = 1 \<and> si_firstMessage sample_info = ''hi''"
  using summary_is_what_entries_say [OF catalog_sample_info_eq] by (simp add: sample_info_def)

definition sample_session :: worker_session where
  "sample_session = \<lparr>wn_sessionId = Some ''t1'', wn_sessionFile = Some ''/s/a.jsonl'', wn_cwd = Some ''/w'', wn_sessionName = None\<rparr>"

theorem resolved_thread_is_requested_witness:
  "\<exists>c'. resolve_begin sample_world ''t1'' new_catalog = (None, c') \<and>
     resolve_end ''t1'' (cache [sample_info] c') = Inr sample_info \<and> si_id sample_info = ''t1''"
proof -
  have "resolve ''/'' ''t1'' = ''/t1''" by code_simp
  then have gone: "\<not> existsSync sample_world ''t1''" by (simp add: existsSync_def node_at_def sample_world_def)
  obtain c' where c': "resolve_begin sample_world ''t1'' new_catalog = (None, c')"
    using gone by (simp add: resolve_begin_def new_catalog_def Let_def)
  have "resolve_end ''t1'' (cache [sample_info] c') = Inr sample_info"
    by (simp add: resolve_end_def cache_def sample_info_def)
  with c' resolved_thread_is_requested [OF cr_new c', of "[sample_info]"] show ?thesis by blast
qed

end
