(* ===== verification/Service_State.thy ===== *)
theory Service_State
  imports Thread_Queries Configuration Catalog
begin

text \<open>
  The state of \<open>PiThreadsService\<close> (\<open>src/service/pi-threads-service.ts\<close>) and what its operations
  are made of: the listener for its own events, the awaits, worker commands, and the calls of the
  asynchronous methods of the pool and of the catalog.

  An operation is a procedure of \<open>Async\<close> over the service's state. What other code does at its
  awaits is a list of \<open>ostep\<close>s: the atomic parts of the other operations of the service, each with
  the guard that its code has. \<open>OPool\<close> stands for any change that other code makes to the pool.
  \<open>sv_nextTurn\<close> numbers the turn ids, which the source draws as random UUIDs; \<open>sv_nextCleanup\<close>
  numbers the promises in \<open>turnCleanups\<close>; \<open>sv_started\<close> and \<open>sv_launched\<close> list what has been set going
  and not awaited, \<open>run_cleanup\<close> and \<open>run_launched\<close> are what it then does. The events emitted are in \<open>po_log\<close> of the pool, in order.
\<close>

section \<open>State\<close>

record active_turn =
  at_turnId :: string
  at_workerId :: "string option"
  at_hasAgentRun :: bool

text \<open>
  A cleanup that has been started: of a thread without a worker, with what the call of
  \<open>resolveThread\<close> came to before its await, or of a worker and its thread.
\<close>

datatype cleanup = CleanOwned string "session_info result option" | CleanWorker string string

text \<open>
  What a method has set going without awaiting it: the reply to a prompt, or the completion of a turn
  without a prompt, each with its thread, turn and worker.
\<close>

datatype launched = PromptReply string string string | PromptlessTurn string string string

record service =
  sv_pool :: pool
  sv_catalog :: catalog
  sv_world :: world
  sv_defaults :: "string option \<times> string option"
  sv_reuseAcrossThreads :: bool
  sv_startedAt :: int
  sv_active :: "string \<Rightarrow> active_turn option"
  sv_cleanups :: "string \<Rightarrow> nat option"
  sv_mutations :: "string set"
  sv_transports :: "string list"
  sv_shuttingDown :: bool
  sv_nextTurn :: nat
  sv_nextCleanup :: nat
  sv_started :: "(nat \<times> cleanup) list"
  sv_launched :: "launched list"

definition new_service :: "json \<Rightarrow> world \<Rightarrow> nat \<Rightarrow> service" where
  "new_service config w now =
     (let defaults = jget config ''defaults'' in
      \<lparr>sv_pool = new_pool (pool_options_of config (wo_here w))
          (Some (\<lambda>u. \<not> truthy (w_threadId u) \<or> isPersisted w (the (w_threadId u)) new_catalog)) now,
       sv_catalog = new_catalog, sv_world = w,
       sv_defaults = (jstr_opt (jget defaults ''model''), jstr_opt (jget defaults ''thinking'')),
       sv_reuseAcrossThreads = (jget (jget (jget config ''daemon'') ''worker'') ''reuseAcrossThreads'' = JBool True),
       sv_startedAt = wo_now w, sv_active = Map.empty, sv_cleanups = Map.empty, sv_mutations = {}, sv_transports = [],
       sv_shuttingDown = False, sv_nextTurn = 1, sv_nextCleanup = 1, sv_started = [], sv_launched = []\<rparr>)"

definition upd_pool :: "(pool \<Rightarrow> pool) \<Rightarrow> service \<Rightarrow> service" where
  "upd_pool f s = s\<lparr>sv_pool := f (sv_pool s)\<rparr>"

definition set_active :: "string \<Rightarrow> active_turn option \<Rightarrow> service \<Rightarrow> service" where
  "set_active t a s = s\<lparr>sv_active := (sv_active s)(t := a)\<rparr>"

section \<open>The listener for the service's events\<close>

text \<open>The part of a terminal event that concerns the maps and the catalog: the turn ends and its cleanup starts.\<close>

definition end_turn :: "string \<Rightarrow> string option \<Rightarrow> service \<Rightarrow> service" where
  "end_turn t worker s =
     (let s1 = set_active t None s;
          (c, s2) = (case worker of
             Some w \<Rightarrow> (CleanWorker w t, s1)
           | None \<Rightarrow>
               (case resolve_begin (sv_world s1) t (sv_catalog s1) of
                  (r, cat) \<Rightarrow> (CleanOwned t r, s1\<lparr>sv_catalog := cat\<rparr>))) in
      s2\<lparr>sv_cleanups := (sv_cleanups s2)(t \<mapsto> sv_nextCleanup s2), sv_nextCleanup := sv_nextCleanup s2 + 1,
         sv_started := sv_started s2 @ [(sv_nextCleanup s2, c)]\<rparr>)"

text \<open>The turn that an event belongs to, when it is the active one.\<close>

definition event_turn :: "draft \<Rightarrow> service \<Rightarrow> (string \<times> active_turn \<times> string) option" where
  "event_turn d s =
     (case (dr_threadId d, dr_turnId d) of
        (Some t, Some turn) \<Rightarrow>
          if t = [] \<or> turn = [] then None
          else (case sv_active s t of
                  None \<Rightarrow> None
                | Some a \<Rightarrow>
                    (case at_workerId a of
                       None \<Rightarrow> None
                     | Some w \<Rightarrow> if w = [] \<or> at_turnId a \<noteq> turn then None else Some (t, a, w)))
      | _ \<Rightarrow> None)"

text \<open>\<open>handleDaemonEvent\<close> up to its await.\<close>

definition handleDaemonEvent :: "draft \<Rightarrow> service \<Rightarrow> service" where
  "handleDaemonEvent d s =
     (if sv_shuttingDown s then s
      else case event_turn d s of
        None \<Rightarrow> s
      | Some (t, a, w) \<Rightarrow>
          if dr_type d = TurnStarted then set_active t (Some (a\<lparr>at_hasAgentRun := True\<rparr>)) s
          else if \<not> isTerminalEventType (event_type_name (dr_type d)) then s
          else
            let found = findByThread t (sv_pool s);
                s1 = (if found = Some w then upd_pool (set_obj w (\<lambda>u. u\<lparr>w_activeTurnId := None\<rparr>)) s else s) in
            if found \<noteq> Some w \<or> isUnavailableWorker (obj (sv_pool s1) w) then end_turn t None s1
            else end_turn t (Some w)
                   (upd_pool (send_command w (JObj [(''type'', JStr ''get_state'')])) s1))"

text \<open>\<open>this.events.emit\<close>: the service's own subscription is called before \<open>emit\<close> returns.\<close>

definition emit_daemon :: "draft \<Rightarrow> service \<Rightarrow> service" where
  "emit_daemon d s = handleDaemonEvent d (upd_pool (emit_event d) s)"

section \<open>What other code does meanwhile\<close>

datatype ostep =
    OPool "pool \<Rightarrow> pool"
  | OReserve string string
  | OActivate string string string
  | OCancel string string
  | OStartTurn string string string
  | OAgentRun string string
  | OTerminal string string "string option"
  | OCleanupDone string nat
  | OMutate string
  | OMutated string
  | OSessions "session_info list"
  | OResolve string
  | OUpdate worker_session
  | OWorld world
  | OShutdown

text \<open>
  The predicate \<open>canReclaim\<close> that the service gives the pool reads the catalog of the moment; in the
  schedule of a method of the pool it changes by the pool's own step \<open>SCanReclaim\<close>.

  The steps: a reservation and its activation or cancellation by another \<open>threadSend\<close>; a turn set by
  \<open>threadStart\<close>; the listener for an event of another turn's worker; the end of a cleanup; the
  beginning and the end of a mutation; the catalog's operations; the passing of time.
\<close>

fun run_ostep :: "ostep \<Rightarrow> service \<Rightarrow> service" where
  "run_ostep (OPool f) s = upd_pool f s"
| "run_ostep (OReserve t turn) s =
     (if sv_active s t \<noteq> None \<or> t \<in> sv_mutations s then s
      else set_active t (Some \<lparr>at_turnId = turn, at_workerId = None, at_hasAgentRun = False\<rparr>) s)"
| "run_ostep (OActivate t turn w) s =
     (case sv_active s t of
        Some a \<Rightarrow> if at_turnId a = turn
                   then set_active t (Some \<lparr>at_turnId = turn, at_workerId = Some w, at_hasAgentRun = False\<rparr>) s else s
      | None \<Rightarrow> s)"
| "run_ostep (OCancel t turn) s =
     (case sv_active s t of Some a \<Rightarrow> if at_turnId a = turn then set_active t None s else s | None \<Rightarrow> s)"
| "run_ostep (OStartTurn t turn w) s =
     set_active t (Some \<lparr>at_turnId = turn, at_workerId = Some w, at_hasAgentRun = False\<rparr>) s"
| "run_ostep (OAgentRun t turn) s =
     (case sv_active s t of
        Some a \<Rightarrow> if at_turnId a = turn then set_active t (Some (a\<lparr>at_hasAgentRun := True\<rparr>)) s else s
      | None \<Rightarrow> s)"
| "run_ostep (OTerminal t turn c) s =
     (case sv_active s t of
        Some a \<Rightarrow> if at_turnId a = turn \<and> truthy (at_workerId a) \<and> \<not> sv_shuttingDown s then end_turn t c s else s
      | None \<Rightarrow> s)"
| "run_ostep (OCleanupDone t n) s =
     (if sv_cleanups s t = Some n then s\<lparr>sv_cleanups := (sv_cleanups s)(t := None)\<rparr> else s)"
| "run_ostep (OMutate t) s =
     (if sv_active s t \<noteq> None \<or> t \<in> sv_mutations s then s else s\<lparr>sv_mutations := insert t (sv_mutations s)\<rparr>)"
| "run_ostep (OMutated t) s = s\<lparr>sv_mutations := sv_mutations s - {t}\<rparr>"
| "run_ostep (OSessions sessions) s = s\<lparr>sv_catalog := cache sessions (sv_catalog s)\<rparr>"
| "run_ostep (OResolve t) s = s\<lparr>sv_catalog := snd (resolve_begin (sv_world s) t (sv_catalog s))\<rparr>"
| "run_ostep (OUpdate st) s =
     (case updateFromWorkerState (sv_world s) st (sv_catalog s) of Inl _ \<Rightarrow> s | Inr c \<Rightarrow> s\<lparr>sv_catalog := c\<rparr>)"
| "run_ostep (OWorld w) s = s\<lparr>sv_world := w\<rparr>"
| "run_ostep OShutdown s = s\<lparr>sv_shuttingDown := True\<rparr>"

text \<open>
  How an awaited promise settles: with nothing, an error, the data of a worker's response, the
  sessions that were listed, or, for a method of the pool, what other lifecycle methods did to the
  pool before it began and the schedule that it met.
\<close>

datatype sreply =
    SvOk
  | SvError thrown
  | SvData json
  | SvSessions "session_info list"
  | SvPool "pool \<Rightarrow> pool" "(istep, reply) schedule"

type_synonym 'a sop = "(service, ostep, sreply, 'a) proc"

section \<open>Statements and awaits\<close>

definition stmt :: "(service \<Rightarrow> 'a result \<times> service) \<Rightarrow> 'a sop" where
  "stmt f s sch = (case f s of (r, s') \<Rightarrow> Finished r s' sch)"

definition throwing :: "(service \<Rightarrow> 'a result) \<Rightarrow> 'a sop" where
  "throwing f s sch = Finished (f s) s sch"

text \<open>An await of a promise that has settled: only other microtasks run.\<close>

definition pause :: "unit sop" where
  "pause = seq (await run_ostep) (\<lambda>_. ret ())"

definition await_reply :: "unit sop" where
  "await_reply = seq (await run_ostep) (\<lambda>r. case r of SvError e \<Rightarrow> raise e | _ \<Rightarrow> ret ())"

text \<open>\<open>await this.turnCleanups.get(threadId)\<close>.\<close>

definition await_cleanup :: "string \<Rightarrow> unit sop" where
  "await_cleanup t = seq (query (\<lambda>s. sv_cleanups s t)) (\<lambda>c. if c = None then pause else await_reply)"

text \<open>\<open>worker.command(...)\<close> and \<open>worker.getState()\<close>; \<open>command_rest\<close> is what follows the sending.\<close>

definition command_rest :: "string \<Rightarrow> json sop" where
  "command_rest w =
     seq (await run_ostep) (\<lambda>r.
     seq (update (upd_pool (command_done w))) (\<lambda>_.
       case r of SvError e \<Rightarrow> raise e | SvData data \<Rightarrow> ret data | _ \<Rightarrow> ret JUndefined))"

definition worker_command :: "string \<Rightarrow> json \<Rightarrow> json sop" where
  "worker_command w cmd = seq (update (upd_pool (send_command w cmd))) (\<lambda>_. command_rest w)"

definition state_of :: "json \<Rightarrow> json" where
  "state_of data = (if nullish data then JObj [] else data)"

definition worker_state_read :: "string \<Rightarrow> json sop" where
  "worker_state_read w = seq (worker_command w (JObj [(''type'', JStr ''get_state'')])) (\<lambda>data. ret (state_of data))"

text \<open>
  An asynchronous method of the pool. Its run on the pool is that of \<open>Worker_Pool\<close>, from the pool as
  it is when the pool's lock is granted and under the schedule it meets; the other fields change by
  the steps of other code.
\<close>

fun lift_pool :: "'a op \<Rightarrow> 'a sop" where
  "lift_pool m s [] = Waiting s"
| "lift_pool m s ((is, Some (SvPool before psch)) # sch) =
     (let s1 = interfere run_ostep is s in
      case m (before (sv_pool s)) psch of
        Waiting p \<Rightarrow> Waiting (s1\<lparr>sv_pool := p\<rparr>)
      | Finished r p _ \<Rightarrow> Finished r (s1\<lparr>sv_pool := p\<rparr>) sch)"
| "lift_pool m s ((is, _) # sch) = Waiting (interfere run_ostep is s)"

text \<open>\<open>await this.catalog.list(cwd)\<close>: the listing itself never fails.\<close>

definition list_catalog :: "thread_summary list sop" where
  "list_catalog =
     seq (await run_ostep) (\<lambda>r.
       stmt (\<lambda>s. let (ts, c) = catalog_list (sv_world s) (case r of SvSessions ss \<Rightarrow> ss | _ \<Rightarrow> []) (sv_catalog s) in
         (Inr ts, s\<lparr>sv_catalog := c\<rparr>)))"

definition search_catalog :: "string \<Rightarrow> thread_summary list sop" where
  "search_catalog q =
     seq (await run_ostep) (\<lambda>r.
       stmt (\<lambda>s. let (ts, c) = catalog_search (sv_world s) (case r of SvSessions ss \<Rightarrow> ss | _ \<Rightarrow> []) q None (sv_catalog s) in
         (Inr ts, s\<lparr>sv_catalog := c\<rparr>)))"

text \<open>\<open>await this.catalog.resolveThread(threadId)\<close>: its call, and what follows the call.\<close>

definition resolve_rest :: "string \<Rightarrow> session_info result option \<Rightarrow> session_info sop" where
  "resolve_rest t begun =
     (case begun of
        Some r \<Rightarrow> seq pause (\<lambda>_. throwing (\<lambda>_. r))
      | None \<Rightarrow> seq list_catalog (\<lambda>_. throwing (\<lambda>s. resolve_end t (sv_catalog s))))"

definition resolveThread :: "string \<Rightarrow> session_info sop" where
  "resolveThread t =
     seq (stmt (\<lambda>s. case resolve_begin (sv_world s) t (sv_catalog s) of (r, c) \<Rightarrow> (Inr r, s\<lparr>sv_catalog := c\<rparr>)))
       (resolve_rest t)"

definition update_catalog :: "worker_session \<Rightarrow> unit sop" where
  "update_catalog st =
     call (\<lambda>s. case updateFromWorkerState (sv_world s) st (sv_catalog s) of Inl e \<Rightarrow> Inl e | Inr c \<Rightarrow> Inr (s\<lparr>sv_catalog := c\<rparr>))"

text \<open>Calls of the pool that do not await.\<close>

definition retain_worker :: "string \<Rightarrow> unit sop" where
  "retain_worker w = call (\<lambda>s. case retain w (sv_pool s) of Inl e \<Rightarrow> Inl e | Inr p \<Rightarrow> Inr (s\<lparr>sv_pool := p\<rparr>))"

definition release_worker :: "string \<Rightarrow> string option \<Rightarrow> unit sop" where
  "release_worker w t = update (upd_pool (release w t))"

definition set_worker :: "string \<Rightarrow> (worker \<Rightarrow> worker) \<Rightarrow> unit sop" where
  "set_worker w f = update (upd_pool (set_obj w f))"

definition newTurnId :: "string sop" where
  "newTurnId = stmt (\<lambda>s. (Inr (''turn_'' @ dec (sv_nextTurn s)), s\<lparr>sv_nextTurn := sv_nextTurn s + 1\<rparr>))"

text \<open>\<open>try { m } finally { this.workers.release(worker); }\<close>.\<close>

definition finally_release :: "'a sop \<Rightarrow> string \<Rightarrow> 'a sop" where
  "finally_release m w = try_finally m (release_worker w None)"

end
