(* ===== verification/Service.thy ===== *)
theory Service
  imports Service_State
begin

text \<open>
  The operations of \<open>PiThreadsService\<close> (\<open>src/service/pi-threads-service.ts\<close>), each written like the
  source's \<open>async\<close> method over the statements of \<open>Service_State\<close>, and \<open>dispatch\<close>, which calls them by
  the names of the protocol. The arguments have the types that the source declares for them.
\<close>

section \<open>Values on the wire\<close>

definition cmd_json :: "string \<Rightarrow> (string \<times> json) list \<Rightarrow> json" where
  "cmd_json type rest = JObj ((''type'', JStr type) # rest)"

definition daemon_draft :: "event_type \<Rightarrow> string \<Rightarrow> string \<Rightarrow> string \<Rightarrow> (string \<times> json) list \<Rightarrow> draft" where
  "daemon_draft type t turn w payload = draft_of type (Some w) (Some t) (Some turn) (JObj payload)"

definition summary_json :: "thread_summary \<Rightarrow> json" where
  "summary_json t = JObj
     [(''threadId'', JStr (th_threadId t)), (''path'', jopt (th_path t)), (''cwd'', JStr (th_cwd t)), (''name'', jopt (th_name t)),
      (''parentSessionPath'', jopt (th_parent t)), (''created'', jopt (th_created t)), (''modified'', jopt (th_modified t)),
      (''messageCount'', JNum (int (th_messageCount t))), (''firstMessage'', jopt (th_firstMessage t)), (''status'', JStr (th_status t))]"

definition worker_json :: "worker_status \<Rightarrow> json" where
  "worker_json w = JObj
     [(''workerId'', JStr (ws_workerId w)), (''pid'', case ws_pid w of None \<Rightarrow> JUndefined | Some n \<Rightarrow> JNum (int n)),
      (''cwd'', JStr (ws_cwd w)), (''state'', JStr (ws_state w)), (''threadId'', jopt (ws_threadId w)),
      (''version'', jopt (ws_version w)), (''startedAt'', JStr (ws_startedAt w)), (''lastUsedAt'', JStr (ws_lastUsedAt w))]"

definition page_json :: "thread_summary list \<times> string option \<Rightarrow> json" where
  "page_json page = JObj [(''threads'', JArr (map summary_json (fst page))), (''cursor'', jopt (snd page))]"

definition workers_of :: "service \<Rightarrow> worker_status list" where
  "workers_of s = list_workers (\<lambda>t. wo_iso (sv_world s) (int t)) (sv_pool s)"

section \<open>The server and its workers\<close>

definition serverStatus :: "service \<Rightarrow> json" where
  "serverStatus s = JObj
     [(''version'', JStr ''0.1.0''),
      (''piCompatibility'', JObj [(''testedRange'', JStr ''1.0.x''), (''minimum'', JStr ''1.0.0''), (''maximumExclusive'', JStr ''1.1.0''),
         (''tested'', JArr [JStr ''1.0.2''])]),
      (''uptimeMs'', JNum (wo_now (sv_world s) - sv_startedAt s)), (''workers'', JArr (map worker_json (workers_of s))),
      (''transports'', JArr (map JStr (sv_transports s)))]"

definition setTransports :: "string list \<Rightarrow> service \<Rightarrow> service" where
  "setTransports ts s = s\<lparr>sv_transports := ts\<rparr>"

definition start_service :: "unit sop" where
  "start_service = lift_pool start"

definition shutdown :: "json sop" where
  "shutdown =
     seq (update (\<lambda>s. s\<lparr>sv_shuttingDown := True\<rparr>)) (\<lambda>_.
     seq (lift_pool stopAll) (\<lambda>_.
       ret (JObj [(''ok'', JBool True)])))"

definition workerList :: "json sop" where
  "workerList = query (\<lambda>s. JObj [(''workers'', JArr (map worker_json (workers_of s)))])"

definition workerRead :: "string \<Rightarrow> json sop" where
  "workerRead w =
     throwing (\<lambda>s. case read_worker w (sv_pool s) of
        Inl e \<Rightarrow> Inl e
      | Inr found \<Rightarrow> Inr (JObj [(''worker'',
          case List.find (\<lambda>item. ws_workerId item = found) (workers_of s) of None \<Rightarrow> JUndefined | Some item \<Rightarrow> worker_json item)]))"

section \<open>Reading threads\<close>

definition page_of :: "thread_list_params \<Rightarrow> thread_summary list \<Rightarrow> json sop" where
  "page_of q summaries =
     throwing (\<lambda>s. case filterThreads (wo_date_parse (sv_world s)) (wo_now (sv_world s))
         (overlayWorkerThreadStatuses (wo_here (sv_world s)) summaries (workers_of s) (\<lambda>t. sv_active s t \<noteq> None) (tl_cwd q)) q of
        Inl e \<Rightarrow> Inl e | Inr threads \<Rightarrow> Inr (page_json (pageThreads threads q)))"

definition threadList :: "thread_list_params \<Rightarrow> json sop" where
  "threadList q = seq list_catalog (page_of q)"

definition threadSearch :: "string \<Rightarrow> thread_list_params \<Rightarrow> json sop" where
  "threadSearch text_query q = seq (search_catalog text_query) (page_of q)"

definition threadRead :: "string \<Rightarrow> int option \<Rightarrow> bool option \<Rightarrow> json sop" where
  "threadRead t lastN asc =
     seq (resolveThread t) (\<lambda>session.
     seq (throwing (\<lambda>s. catalog_read (sv_world s) session)) (\<lambda>(thread, entries).
       query (\<lambda>s. JObj
         [(''thread'', summary_json (thread\<lparr>th_status :=
             (if sv_active s (th_threadId thread) \<noteq> None then ''running'' else ''idle'')\<rparr>)),
          (''entries'', case limitEntries (Some entries) lastN asc of None \<Rightarrow> JUndefined | Some es \<Rightarrow> JArr es)])))"

definition messages_json :: "string \<Rightarrow> json list \<Rightarrow> json" where
  "messages_json t ms = JObj [(''threadId'', JStr t), (''messages'', JArr ms)]"

definition filtered :: "json list \<Rightarrow> message_query \<Rightarrow> json list sop" where
  "filtered messages q = throwing (\<lambda>s. filterMessages (wo_date_parse (sv_world s)) (wo_now (sv_world s)) messages q)"

definition json_list :: "json \<Rightarrow> json list" where
  "json_list v = (case v of JArr vs \<Rightarrow> vs | _ \<Rightarrow> [])"

definition threadMessages :: "string \<Rightarrow> message_query \<Rightarrow> json sop" where
  "threadMessages t q =
     seq (query (\<lambda>s. findByThread t (sv_pool s))) (\<lambda>found.
       case found of
         Some w \<Rightarrow>
           seq (retain_worker w) (\<lambda>_.
             finally_release
               (seq (worker_command w (cmd_json ''get_messages'' [])) (\<lambda>data.
                seq (filtered (json_list (jget_opt data ''messages'')) q) (\<lambda>ms.
                  ret (messages_json t ms)))) w)
       | None \<Rightarrow>
           seq (resolveThread t) (\<lambda>session.
           seq (throwing (\<lambda>s. catalog_messages (sv_world s) session None None)) (\<lambda>(i, messages).
           seq (filtered messages q) (\<lambda>ms.
             ret (messages_json i ms)))))"

section \<open>Models and settings\<close>

text \<open>The provider and the model of a text with a slash, and whether a listed model matches.\<close>

definition explicit_model :: "string \<Rightarrow> (string \<times> string) option result" where
  "explicit_model model =
     (if slash \<in> set model then
        let provider = takeWhile (\<lambda>c. c \<noteq> slash) model; modelId = tl (dropWhile (\<lambda>c. c \<noteq> slash) model) in
        if provider = [] \<or> modelId = [] then
          Inl (DaemonError InvalidParams ''Model must be provider/modelId'' (Some [(''model'', JStr model)]))
        else Inr (Some (provider, modelId))
      else Inr None)"

definition model_matches :: "(string \<times> string) option \<Rightarrow> string \<Rightarrow> json \<Rightarrow> bool" where
  "model_matches explicit model candidate =
     (case explicit of
        None \<Rightarrow> jget candidate ''id'' = JStr model \<or> jget candidate ''name'' = JStr model
      | Some (provider, modelId) \<Rightarrow>
          jget candidate ''provider'' = JStr provider \<and>
          (jget candidate ''id'' = JStr modelId \<or> jget candidate ''name'' = JStr modelId))"

definition select_model :: "(string \<times> string) option \<Rightarrow> string \<Rightarrow> json list \<Rightarrow> (string \<times> string) result" where
  "select_model explicit model models =
     (case (case List.find (model_matches explicit model) models of
              None \<Rightarrow> None
            | Some m \<Rightarrow> (case (jget m ''provider'', jget m ''id'') of (JStr p, JStr i) \<Rightarrow> Some (p, i) | _ \<Rightarrow> None)) of
        Some selected \<Rightarrow> Inr selected
      | None \<Rightarrow>
          (case explicit of
             Some (provider, modelId) \<Rightarrow>
               if slash \<notin> set modelId then Inr (provider, modelId)
               else Inl (DaemonError InvalidParams ''Model must be provider/modelId or match a configured Pi model id''
                      (Some [(''model'', JStr model)]))
           | None \<Rightarrow> Inl (DaemonError InvalidParams ''Model must be provider/modelId or match a configured Pi model id''
                      (Some [(''model'', JStr model)]))))"

definition resolveModelSelection :: "string \<Rightarrow> string \<Rightarrow> (string \<times> string) sop" where
  "resolveModelSelection w model =
     seq (throwing (\<lambda>_. explicit_model model)) (\<lambda>explicit.
     seq (worker_command w (cmd_json ''get_available_models'' [])) (\<lambda>data.
       throwing (\<lambda>_. select_model explicit model (json_list (jget_opt data ''models'')))))"

definition applyResolvedSettings :: "string \<Rightarrow> (string \<times> string) option \<Rightarrow> string option \<Rightarrow> unit sop" where
  "applyResolvedSettings w model thinking =
     seq (case model of
            None \<Rightarrow> ret ()
          | Some (provider, modelId) \<Rightarrow>
              seq (worker_command w (cmd_json ''set_model'' [(''provider'', JStr provider), (''modelId'', JStr modelId)])) (\<lambda>_. ret ())) (\<lambda>_.
       if truthy thinking
       then seq (worker_command w (cmd_json ''set_thinking_level'' [(''level'', jopt thinking)])) (\<lambda>_. ret ())
       else ret ())"

definition applySettings :: "string \<Rightarrow> string option \<Rightarrow> string option \<Rightarrow> unit sop" where
  "applySettings w model thinking =
     seq (if truthy model
          then seq (resolveModelSelection w (the model)) (\<lambda>selected. applyResolvedSettings w (Some selected) None)
          else ret ()) (\<lambda>_.
       if truthy thinking then applyResolvedSettings w None thinking else ret ())"

section \<open>Turns\<close>

definition busy_error :: "string \<Rightarrow> thrown" where
  "busy_error t = DaemonError Busy ''Thread already has active daemon work'' (Some [(''threadId'', JStr t)])"

definition reserveTurn :: "string \<Rightarrow> string \<Rightarrow> unit sop" where
  "reserveTurn t turn =
     call (\<lambda>s. if sv_active s t \<noteq> None \<or> t \<in> sv_mutations s then Inl (busy_error t)
               else Inr (set_active t (Some \<lparr>at_turnId = turn, at_workerId = None, at_hasAgentRun = False\<rparr>) s))"

definition requireActive :: "string \<Rightarrow> (string \<times> string) sop" where
  "requireActive t =
     throwing (\<lambda>s. case sv_active s t of
        Some a \<Rightarrow> if truthy (at_workerId a) then Inr (at_turnId a, the (at_workerId a))
                   else Inl (DaemonError Busy ''Thread does not have a running daemon turn'' (Some [(''threadId'', JStr t)]))
      | None \<Rightarrow> Inl (DaemonError Busy ''Thread does not have a running daemon turn'' (Some [(''threadId'', JStr t)])))"

definition read_worker_op :: "string \<Rightarrow> string sop" where
  "read_worker_op w = throwing (\<lambda>s. read_worker w (sv_pool s))"

definition assertResumable :: "string \<Rightarrow> unit sop" where
  "assertResumable t =
     throwing (\<lambda>s. if findByThread t (sv_pool s) = None \<and> \<not> isPersisted (sv_world s) t (sv_catalog s)
       then Inl (DaemonError NotFound ''Thread has no saved session and its worker is unavailable'' (Some [(''threadId'', JStr t)]))
       else Inr ())"

definition assert_unchanged :: "string \<Rightarrow> unit sop" where
  "assert_unchanged t = throwing (\<lambda>s. assertUnchanged (sv_world s) t (sv_catalog s))"

definition acquireSessionWorker :: "session_info \<Rightarrow> string sop" where
  "acquireSessionWorker session =
     seq (query (\<lambda>s. (sv_pool s, findByThread (si_id session) (sv_pool s)))) (\<lambda>(p, found).
       case found of
         Some w \<Rightarrow>
           if w_cwd (obj p w) = si_cwd session then
             (if truthy (w_activeTurnId (obj p w)) \<or> w_state (obj p w) = Running then raise (busy_error (si_id session))
              else seq (retain_worker w) (\<lambda>_. ret w))
           else lift_pool (acquireForSession (si_id session) (si_cwd session) (si_path session))
       | None \<Rightarrow> lift_pool (acquireForSession (si_id session) (si_cwd session) (si_path session)))"

text \<open>\<open>submitPrompt\<close>: the prompt is sent at once; what follows runs on its own.\<close>

definition launch :: "launched \<Rightarrow> unit sop" where
  "launch l = update (\<lambda>s. s\<lparr>sv_launched := sv_launched s @ [l]\<rparr>)"

definition submitPrompt :: "string \<Rightarrow> string \<Rightarrow> string \<Rightarrow> string \<Rightarrow> unit sop" where
  "submitPrompt t turn w message =
     seq (update (upd_pool (send_command w (cmd_json ''prompt'' [(''message'', JStr message)])))) (\<lambda>_.
       launch (PromptReply t turn w))"

definition failTurn :: "string \<Rightarrow> string \<Rightarrow> string \<Rightarrow> thrown \<Rightarrow> service \<Rightarrow> service" where
  "failTurn t turn w e s =
     (case sv_active s t of
        Some a \<Rightarrow>
          if at_turnId a \<noteq> turn then s
          else emit_daemon (daemon_draft TurnFailed t turn w
                 [(''errorCode'', JStr ''piRpcError''), (''message'', JStr (thrown_message e))]) s
      | None \<Rightarrow> s)"

definition prompt_replied :: "string \<Rightarrow> string \<Rightarrow> string \<Rightarrow> string \<Rightarrow> service \<Rightarrow> service" where
  "prompt_replied t turn w disposition s =
     (case sv_active s t of
        Some a \<Rightarrow>
          if at_turnId a \<noteq> turn \<or> disposition \<noteq> ''handled'' \<or> at_hasAgentRun a then s
          else emit_daemon (daemon_draft TurnCompleted t turn w
                 [(''status'', JStr ''completed''), (''disposition'', JStr disposition)]) s
      | None \<Rightarrow> s)"

definition prompt_rest :: "string \<Rightarrow> string \<Rightarrow> string \<Rightarrow> unit sop" where
  "prompt_rest t turn w =
     try_catch
       (seq (command_rest w) (\<lambda>data.
        seq (throwing (\<lambda>_. promptDisposition data (JStr ''prompt''))) (\<lambda>disposition.
          update (prompt_replied t turn w disposition))))
       (\<lambda>e. update (failTurn t turn w e))"

definition completePromptlessTurn :: "string \<Rightarrow> string \<Rightarrow> string \<Rightarrow> service \<Rightarrow> service" where
  "completePromptlessTurn t turn w s =
     (case sv_active s t of
        Some a \<Rightarrow>
          if at_turnId a \<noteq> turn then s
          else emit_daemon (daemon_draft TurnCompleted t turn w [(''status'', JStr ''completed''), (''promptless'', JBool True)]) s
      | None \<Rightarrow> s)"

definition run_launched :: "launched \<Rightarrow> unit sop" where
  "run_launched l =
     (case l of
        PromptReply t turn w \<Rightarrow> prompt_rest t turn w
      | PromptlessTurn t turn w \<Rightarrow> seq pause (\<lambda>_. update (completePromptlessTurn t turn w)))"

definition accepted :: "string \<Rightarrow> string \<Rightarrow> string \<Rightarrow> string \<Rightarrow> string option \<Rightarrow> accepted_turn" where
  "accepted t turn w status disposition =
     \<lparr>ac_threadId = t, ac_turnId = turn, ac_workerId = w, ac_status = status, ac_disposition = disposition\<rparr>"

definition not_cancelled :: "json \<Rightarrow> string \<Rightarrow> unit sop" where
  "not_cancelled data cmd =
     (if record_like data \<and> jget data ''cancelled'' = JBool True
      then raise (DaemonError PiRpcError ''Pi RPC command was cancelled'' (Some [(''command'', JStr cmd)]))
      else ret ())"

text \<open>\<open>threadStart\<close>: the body of its \<open>try\<close>, with the acquired worker \<open>w\<close>.\<close>

definition activate_turn :: "string \<Rightarrow> string \<Rightarrow> string \<Rightarrow> (string \<times> json) list \<Rightarrow> service \<Rightarrow> service" where
  "activate_turn t turn w payload s =
     emit_daemon (daemon_draft TurnAccepted t turn w payload)
       (set_active t (Some \<lparr>at_turnId = turn, at_workerId = Some w, at_hasAgentRun = False\<rparr>) s)"

definition start_with :: "string \<Rightarrow> string \<Rightarrow> string option \<Rightarrow> string option \<Rightarrow> string option \<Rightarrow> string option \<Rightarrow> accepted_turn sop" where
  "start_with w cwd prompt name model thinking =
     seq (query (\<lambda>s. withDefaults (model, thinking) (sv_defaults s))) (\<lambda>(model, thinking).
     seq (case model of None \<Rightarrow> ret None | Some m \<Rightarrow> seq (resolveModelSelection w m) (\<lambda>selected. ret (Some selected))) (\<lambda>selected.
     seq (worker_command w (cmd_json ''new_session'' [])) (\<lambda>data.
     seq (not_cancelled data ''new_session'') (\<lambda>_.
     seq (worker_state_read w) (\<lambda>_.
     seq (if truthy name then seq (worker_command w (cmd_json ''set_session_name'' [(''name'', jopt name)])) (\<lambda>_. ret ()) else ret ()) (\<lambda>_.
     seq (applyResolvedSettings w selected thinking) (\<lambda>_.
     seq (worker_state_read w) (\<lambda>state.
     let t = js_string (jget state ''sessionId'') in
     seq (set_worker w (\<lambda>u. u\<lparr>w_threadId := Some t\<rparr>)) (\<lambda>_.
     seq (update_catalog \<lparr>wn_sessionId = Some t, wn_sessionFile = Some (string_or (jget state ''sessionFile'') []),
            wn_cwd = Some cwd, wn_sessionName = name\<rparr>) (\<lambda>_.
     seq newTurnId (\<lambda>turn.
     seq (set_worker w (\<lambda>u. u\<lparr>w_activeTurnId := Some turn\<rparr>)) (\<lambda>_.
     seq (update (activate_turn t turn w [(''promptPreview'', jopt (preview prompt)), (''cwd'', JStr cwd)])) (\<lambda>_.
     seq (if truthy prompt
          then seq (set_worker w (\<lambda>u. u\<lparr>w_state := Running\<rparr>)) (\<lambda>_. submitPrompt t turn w (the prompt))
          else launch (PromptlessTurn t turn w)) (\<lambda>_.
       ret (accepted t turn w ''accepted'' None)))))))))))))))"

definition threadStart :: "string \<Rightarrow> string option \<Rightarrow> string option \<Rightarrow> string option \<Rightarrow> string option \<Rightarrow> accepted_turn sop" where
  "threadStart cwd0 prompt name model thinking =
     seq (query (\<lambda>s. resolve (wo_here (sv_world s)) cwd0)) (\<lambda>cwd.
     seq (lift_pool (acquireForNew cwd)) (\<lambda>w.
       try_catch (start_with w cwd prompt name model thinking) (\<lambda>e.
         seq (set_worker w (\<lambda>u. u\<lparr>w_activeTurnId := None\<rparr>)) (\<lambda>_.
         seq (release_worker w None) (\<lambda>_.
           raise e)))))"

text \<open>\<open>threadSend\<close>: with the acquired worker, with the reserved turn, and as a whole.\<close>

definition send_with :: "string \<Rightarrow> string \<Rightarrow> string \<Rightarrow> string \<Rightarrow> string option \<Rightarrow> string option \<Rightarrow> accepted_turn sop" where
  "send_with w t turn prompt model thinking =
     seq (applySettings w model thinking) (\<lambda>_.
     seq (set_worker w (\<lambda>u. u\<lparr>w_activeTurnId := Some turn, w_threadId := Some t, w_state := Running\<rparr>)) (\<lambda>_.
     seq (update (activate_turn t turn w [(''promptPreview'', jopt (preview (Some prompt)))])) (\<lambda>_.
     seq (submitPrompt t turn w prompt) (\<lambda>_.
       ret (accepted t turn w ''accepted'' None)))))"

definition cancel_turn :: "string \<Rightarrow> unit sop" where
  "cancel_turn t = update (set_active t None)"

definition send_reserved :: "session_info \<Rightarrow> string \<Rightarrow> string \<Rightarrow> string option \<Rightarrow> string option \<Rightarrow> accepted_turn sop" where
  "send_reserved session turn prompt model thinking =
     seq (try_catch (acquireSessionWorker session) (\<lambda>e. seq (cancel_turn (si_id session)) (\<lambda>_. raise e))) (\<lambda>w.
       try_catch (send_with w (si_id session) turn prompt model thinking) (\<lambda>e.
         seq (cancel_turn (si_id session)) (\<lambda>_.
         seq (release_worker w None) (\<lambda>_.
           raise e))))"

definition threadSend :: "string \<Rightarrow> string \<Rightarrow> string option \<Rightarrow> string option \<Rightarrow> accepted_turn sop" where
  "threadSend t prompt model thinking =
     seq (await_cleanup t) (\<lambda>_.
     seq (resolveThread t) (\<lambda>session.
     seq (await_cleanup (si_id session)) (\<lambda>_.
     seq (assert_unchanged (si_id session)) (\<lambda>_.
     seq (assertResumable (si_id session)) (\<lambda>_.
     seq newTurnId (\<lambda>turn.
     seq (reserveTurn (si_id session) turn) (\<lambda>_.
       send_reserved session turn prompt model thinking)))))))"

definition threadSteer :: "string \<Rightarrow> string \<Rightarrow> accepted_turn sop" where
  "threadSteer t prompt =
     seq (requireActive t) (\<lambda>(turn, workerId).
     seq (read_worker_op workerId) (\<lambda>w.
     seq (worker_command w (cmd_json ''steer'' [(''message'', JStr prompt)])) (\<lambda>data.
     seq (throwing (\<lambda>_. queueDisposition data (JStr ''steer''))) (\<lambda>disposition.
       ret (accepted t turn w ''running'' (Some disposition))))))"

definition threadFollowUp :: "string \<Rightarrow> string \<Rightarrow> json sop" where
  "threadFollowUp t prompt =
     seq (requireActive t) (\<lambda>(turn, workerId).
     seq (read_worker_op workerId) (\<lambda>w.
     seq (worker_command w (cmd_json ''follow_up'' [(''message'', JStr prompt)])) (\<lambda>data.
     seq (throwing (\<lambda>_. queueDisposition data (JStr ''follow_up''))) (\<lambda>disposition.
       ret (JObj ([(''threadId'', JStr t)] @ (if disposition = ''queued'' then [(''queuedForTurnId'', JStr turn)] else []) @
                  [(''status'', JStr disposition)]))))))"

definition abort_emit :: "string \<Rightarrow> string \<Rightarrow> string \<Rightarrow> service \<Rightarrow> service" where
  "abort_emit t turn w s =
     (case sv_active s t of
        Some a \<Rightarrow> if at_turnId a = turn
          then emit_daemon (daemon_draft TurnAborted t turn w [(''reason'', JStr ''client''), (''finalState'', JStr ''aborted'')]) s else s
      | None \<Rightarrow> s)"

definition threadAbort :: "string \<Rightarrow> json sop" where
  "threadAbort t =
     seq (requireActive t) (\<lambda>(turn, workerId).
     seq (read_worker_op workerId) (\<lambda>w.
     seq (set_worker w (\<lambda>u. u\<lparr>w_abortingTurnId := Some turn\<rparr>)) (\<lambda>_.
     seq (try_finally
            (seq (worker_command w (cmd_json ''abort'' [])) (\<lambda>_.
             seq (update (abort_emit t turn w)) (\<lambda>_.
               await_cleanup t)))
            (set_worker w (\<lambda>u. if w_abortingTurnId u = Some turn then u\<lparr>w_abortingTurnId := None\<rparr> else u))) (\<lambda>_.
       ret (JObj [(''threadId'', JStr t), (''turnId'', JStr turn), (''status'', JStr ''aborted'')])))))"

section \<open>The cleanup after a turn\<close>

definition update_owned :: "session_info \<Rightarrow> unit sop" where
  "update_owned session =
     update_catalog \<lparr>wn_sessionId = Some (si_id session), wn_sessionFile = Some (si_path session),
       wn_cwd = Some (si_cwd session), wn_sessionName = si_name session\<rparr>"

definition refreshOwnedSession :: "string \<Rightarrow> unit sop" where
  "refreshOwnedSession t = seq (resolveThread t) update_owned"

text \<open>\<open>refreshWorkerSession\<close> after \<open>worker.getState()\<close> has been called; its failure is ignored.\<close>

definition refreshWorkerSession :: "string \<Rightarrow> string \<Rightarrow> unit sop" where
  "refreshWorkerSession w t =
     seq (try_catch (seq (command_rest w) (\<lambda>data. ret (Some (state_of data)))) (\<lambda>_. ret None)) (\<lambda>state.
     seq (query (\<lambda>s. obj (sv_pool s) w)) (\<lambda>u.
       case state of
         None \<Rightarrow> ret ()
       | Some st \<Rightarrow>
           if w_threadId u = Some t \<and> \<not> truthy (w_activeTurnId u)
           then update_catalog \<lparr>wn_sessionId = Some (string_or (jget st ''sessionId'') t),
                  wn_sessionFile = Some (string_or (jget st ''sessionFile'') []), wn_cwd = Some (w_cwd u),
                  wn_sessionName = jstr_opt (jget st ''sessionName'')\<rparr>
           else ret ()))"

definition internal_error :: "event_type \<Rightarrow> string option \<Rightarrow> string option \<Rightarrow> string option \<Rightarrow> thrown \<Rightarrow> service \<Rightarrow> service" where
  "internal_error source t turn w e =
     emit_daemon (draft_of ThreadUpdated w t turn
       (JObj [(''internalError'', JStr (thrown_message e)), (''sourceEvent'', JStr (event_type_name source))]))"

text \<open>
  The \<open>n\<close>-th cleanup after its start, and the handler of its failure in the constructor.
\<close>

definition cleanup_work :: "cleanup \<Rightarrow> unit sop" where
  "cleanup_work c =
     (case c of
        CleanOwned t begun \<Rightarrow> seq (resolve_rest t begun) update_owned
      | CleanWorker w t \<Rightarrow> try_finally (refreshWorkerSession w t) (release_worker w (Some t)))"

definition run_cleanup :: "event_type \<Rightarrow> string \<Rightarrow> string \<Rightarrow> string option \<Rightarrow> nat \<Rightarrow> cleanup \<Rightarrow> unit sop" where
  "run_cleanup source t turn w n c =
     try_catch
       (try_finally (cleanup_work c) (update (run_ostep (OCleanupDone t n))))
       (\<lambda>e. update (internal_error source (Some t) (Some turn) w e))"

section \<open>Mutations of a session\<close>

definition begin_mutation :: "string \<Rightarrow> unit sop" where
  "begin_mutation t = update (\<lambda>s. s\<lparr>sv_mutations := insert t (sv_mutations s)\<rparr>)"

definition end_mutation :: "string \<Rightarrow> unit sop" where
  "end_mutation t = update (\<lambda>s. s\<lparr>sv_mutations := sv_mutations s - {t}\<rparr>)"

definition refresh_mutated :: "session_info \<Rightarrow> string \<Rightarrow> unit sop" where
  "refresh_mutated session w =
     seq (query (\<lambda>s. isUnavailableWorker (obj (sv_pool s) w))) (\<lambda>gone.
       if gone then refreshOwnedSession (si_id session)
       else
         seq (worker_state_read w) (\<lambda>state.
         let t = string_or (jget state ''sessionId'') (si_id session) in
         seq (set_worker w (\<lambda>u. u\<lparr>w_threadId := Some t\<rparr>)) (\<lambda>_.
         seq (query (\<lambda>s. w_cwd (obj (sv_pool s) w))) (\<lambda>cwd.
           update_catalog \<lparr>wn_sessionId = Some t, wn_sessionFile = Some (string_or (jget state ''sessionFile'') []),
             wn_cwd = Some cwd, wn_sessionName = jstr_opt (jget state ''sessionName'')\<rparr>))))"

definition refresh_failed :: "session_info \<Rightarrow> string \<Rightarrow> thrown \<Rightarrow> service \<Rightarrow> service" where
  "refresh_failed session w e s =
     emit_daemon (draft_of ThreadUpdated (Some w) (orElse (w_threadId (obj (sv_pool s) w)) (Some (si_id session))) None
       (JObj [(''internalError'', JStr (thrown_message e)), (''operation'', JStr ''session.refresh'')])) s"

definition mutation_cleanup :: "session_info \<Rightarrow> string \<Rightarrow> unit sop" where
  "mutation_cleanup session w =
     try_finally
       (try_catch (refresh_mutated session w) (\<lambda>e. update (refresh_failed session w e)))
       (seq (end_mutation (si_id session)) (\<lambda>_. release_worker w None))"

definition mutate_session :: "session_info \<Rightarrow> (string \<Rightarrow> string \<Rightarrow> json sop) \<Rightarrow> json sop" where
  "mutate_session session mutate =
     seq (try_catch (acquireSessionWorker session) (\<lambda>e. seq (end_mutation (si_id session)) (\<lambda>_. raise e))) (\<lambda>w.
       try_finally
         (seq (set_worker w (\<lambda>u. u\<lparr>w_state := Running\<rparr>)) (\<lambda>_. mutate w (si_id session)))
         (mutation_cleanup session w))"

definition assert_not_busy :: "string \<Rightarrow> unit sop" where
  "assert_not_busy t = throwing (\<lambda>s. if sv_active s t \<noteq> None \<or> t \<in> sv_mutations s then Inl (busy_error t) else Inr ())"

definition withSessionMutation :: "string \<Rightarrow> (string \<Rightarrow> string \<Rightarrow> json sop) \<Rightarrow> json sop" where
  "withSessionMutation t mutate =
     seq (await_cleanup t) (\<lambda>_.
     seq (resolveThread t) (\<lambda>session.
     seq (await_cleanup (si_id session)) (\<lambda>_.
     seq (assert_not_busy (si_id session)) (\<lambda>_.
     seq (assert_unchanged (si_id session)) (\<lambda>_.
     seq (assertResumable (si_id session)) (\<lambda>_.
     seq (begin_mutation (si_id session)) (\<lambda>_.
       mutate_session session mutate)))))))"

end
