(* ===== verification/Service_Dispatch.thy ===== *)
theory Service_Dispatch
  imports Service
begin

text \<open>
  The operations of \<open>PiThreadsService\<close> that work on one session or read from its worker, and
  \<open>dispatch\<close>. The promise of \<open>operation\<close> in \<open>withRequiredWorker\<close> and of \<open>mutate\<close> in
  \<open>withSessionMutation\<close> is the argument of those definitions.
\<close>

section \<open>Access to the worker of a thread\<close>

definition workerForRequiredMethod :: "string \<Rightarrow> string sop" where
  "workerForRequiredMethod t =
     seq (await_cleanup t) (\<lambda>_.
     seq (query (\<lambda>s. findByThread t (sv_pool s))) (\<lambda>found.
       case found of
         Some assigned \<Rightarrow> seq (retain_worker assigned) (\<lambda>_. ret assigned)
       | None \<Rightarrow>
           seq (resolveThread t) (\<lambda>session.
           seq (await_cleanup (si_id session)) (\<lambda>_.
           seq (assertResumable (si_id session)) (\<lambda>_.
             lift_pool (acquireForSession (si_id session) (si_cwd session) (si_path session)))))))"

definition withRequiredWorker :: "string \<Rightarrow> (string \<Rightarrow> json sop) \<Rightarrow> json sop" where
  "withRequiredWorker t operation = seq (workerForRequiredMethod t) (\<lambda>w. finally_release (operation w) w)"

definition requireCrossThreadReuse :: "string \<Rightarrow> unit sop" where
  "requireCrossThreadReuse operation =
     throwing (\<lambda>s. if sv_reuseAcrossThreads s then Inr () else
       Inl (DaemonError InvalidParams
         (operation @ '' requires daemon.worker.reuseAcrossThreads=true because Pi changes the worker's session in place'') None))"

section \<open>Operations on a session\<close>

definition threadStatus :: "string option \<Rightarrow> json sop" where
  "threadStatus threadId =
     (case threadId of
        None \<Rightarrow> query serverStatus
      | Some t \<Rightarrow>
          if t = [] then query serverStatus
          else
            seq (query (\<lambda>s. findByThread t (sv_pool s))) (\<lambda>found.
              case found of
                None \<Rightarrow>
                  seq (resolveThread t) (\<lambda>session.
                    ret (JObj [(''threadId'', JStr (si_id session)), (''status'', JStr ''idle''), (''path'', JStr (si_path session)),
                               (''cwd'', JStr (si_cwd session))]))
              | Some w \<Rightarrow>
                  seq (retain_worker w) (\<lambda>_.
                    finally_release
                      (seq (worker_state_read w) (\<lambda>state.
                       query (\<lambda>s. JObj [(''threadId'', JStr t),
                         (''status'', JStr (if w_state (obj (sv_pool s) w) = Running \<or> jtruthy (jget state ''isStreaming'')
                            then ''running'' else ''idle'')),
                         (''workerId'', JStr w), (''state'', state)]))) w)))"

text \<open>\<open>if (params.name) await worker.command(\{ type: "set_session_name", ... \})\<close>.\<close>

definition name_session :: "string \<Rightarrow> string option \<Rightarrow> unit sop" where
  "name_session w name =
     (if truthy name then seq (worker_command w (cmd_json ''set_session_name'' [(''name'', jopt name)])) (\<lambda>_. ret ()) else ret ())"

text \<open>The worker now holds another session: its thread is the session it reports.\<close>

definition adopt_session :: "string \<Rightarrow> string sop" where
  "adopt_session w =
     seq (worker_state_read w) (\<lambda>state.
     let t = js_string (jget state ''sessionId'') in
     seq (set_worker w (\<lambda>u. u\<lparr>w_threadId := Some t\<rparr>)) (\<lambda>_. ret t))"

definition threadFork :: "string \<Rightarrow> string \<Rightarrow> string option \<Rightarrow> json sop" where
  "threadFork t entryId name =
     seq (requireCrossThreadReuse ''fork'') (\<lambda>_.
     withSessionMutation t (\<lambda>w sourceThreadId.
       seq (worker_command w (cmd_json ''fork'' [(''entryId'', JStr entryId)])) (\<lambda>data.
       seq (not_cancelled data ''fork'') (\<lambda>_.
       seq (name_session w name) (\<lambda>_.
       seq (adopt_session w) (\<lambda>forked.
         ret (JObj [(''threadId'', JStr forked), (''sourceThreadId'', JStr sourceThreadId), (''data'', data)])))))))"

definition threadClone :: "string \<Rightarrow> string option \<Rightarrow> json sop" where
  "threadClone t name =
     seq (requireCrossThreadReuse ''clone'') (\<lambda>_.
     withSessionMutation t (\<lambda>w sourceThreadId.
       seq (worker_command w (cmd_json ''clone'' [])) (\<lambda>data.
       seq (not_cancelled data ''clone'') (\<lambda>_.
       seq (name_session w name) (\<lambda>_.
       seq (adopt_session w) (\<lambda>cloned.
         ret (JObj [(''threadId'', JStr cloned), (''sourceThreadId'', JStr sourceThreadId)])))))))"

definition threadNameSet :: "string \<Rightarrow> string \<Rightarrow> json sop" where
  "threadNameSet t name =
     withSessionMutation t (\<lambda>w threadId.
       seq (worker_command w (cmd_json ''set_session_name'' [(''name'', JStr name)])) (\<lambda>_.
         ret (JObj [(''threadId'', JStr threadId), (''name'', JStr name)])))"

definition threadSettingsRead :: "string \<Rightarrow> json sop" where
  "threadSettingsRead t =
     withRequiredWorker t (\<lambda>w.
       seq (worker_state_read w) (\<lambda>state.
         ret (JObj [(''threadId'', JStr t), (''settings'', state)])))"

text \<open>The settings of \<open>threadSettingsUpdate\<close>.\<close>

record settings_update =
  su_model :: "string option"
  su_thinking :: "string option"
  su_steeringMode :: "string option"
  su_followUpMode :: "string option"
  su_autoCompaction :: "bool option"
  su_autoRetry :: "bool option"

definition send_when :: "bool \<Rightarrow> string \<Rightarrow> json \<Rightarrow> unit sop" where
  "send_when c w cmd = (if c then seq (worker_command w cmd) (\<lambda>_. ret ()) else ret ())"

definition threadSettingsUpdate :: "string \<Rightarrow> settings_update \<Rightarrow> json sop" where
  "threadSettingsUpdate t u =
     withSessionMutation t (\<lambda>w threadId.
       seq (applySettings w (su_model u) (su_thinking u)) (\<lambda>_.
       seq (send_when (truthy (su_steeringMode u)) w (cmd_json ''set_steering_mode'' [(''mode'', jopt (su_steeringMode u))])) (\<lambda>_.
       seq (send_when (truthy (su_followUpMode u)) w (cmd_json ''set_follow_up_mode'' [(''mode'', jopt (su_followUpMode u))])) (\<lambda>_.
       seq (send_when (su_autoCompaction u \<noteq> None) w
              (cmd_json ''set_auto_compaction'' [(''enabled'', JBool (su_autoCompaction u = Some True))])) (\<lambda>_.
       seq (send_when (su_autoRetry u \<noteq> None) w (cmd_json ''set_auto_retry'' [(''enabled'', JBool (su_autoRetry u = Some True))])) (\<lambda>_.
       seq (worker_state_read w) (\<lambda>state.
         ret (JObj [(''threadId'', JStr threadId), (''settings'', state)]))))))))"

definition threadCompact :: "string \<Rightarrow> string option \<Rightarrow> json sop" where
  "threadCompact t prompt =
     withSessionMutation t (\<lambda>w threadId.
       seq (worker_command w (cmd_json ''compact'' [(''customInstructions'', jopt prompt)])) (\<lambda>data.
         ret (JObj [(''threadId'', JStr threadId), (''result'', data)])))"

text \<open>\<open>mkdtempSync\<close> makes the directory \<open>temp\<close>; \<open>rmSync\<close> removes it and everything below it.\<close>

definition make_dir :: "string \<Rightarrow> world \<Rightarrow> world" where
  "make_dir temp w = w\<lparr>wo_nodes := (wo_nodes w)(temp \<mapsto>
     \<lparr>nd_size = 0, nd_mtime = wo_now w, nd_birth = wo_now w, nd_text = None, nd_entries = Some []\<rparr>)\<rparr>"

definition remove_dir :: "string \<Rightarrow> world \<Rightarrow> world" where
  "remove_dir temp w = w\<lparr>wo_nodes := (\<lambda>p. if p = temp \<or> starts_with (temp @ [slash]) p then None else wo_nodes w p)\<rparr>"

definition threadExportHtml :: "string \<Rightarrow> string \<Rightarrow> json sop" where
  "threadExportHtml temp t =
     withRequiredWorker t (\<lambda>w.
       let outputPath = path_join [temp, ''session.html''] in
       seq (update (\<lambda>s. s\<lparr>sv_world := make_dir temp (sv_world s)\<rparr>)) (\<lambda>_.
       try_finally
         (seq (worker_command w (cmd_json ''export_html'' [(''outputPath'', JStr outputPath)])) (\<lambda>data.
          let path = string_or (jget_opt data ''path'') outputPath in
          seq (throwing (\<lambda>s. readFileSync (sv_world s) path)) (\<lambda>html.
            ret (JObj [(''threadId'', JStr t), (''html'', JStr html)]))))
         (update (\<lambda>s. s\<lparr>sv_world := remove_dir temp (sv_world s)\<rparr>))))"

definition threadBashRun :: "string \<Rightarrow> string \<Rightarrow> json sop" where
  "threadBashRun t cmd =
     withSessionMutation t (\<lambda>w threadId.
       seq (worker_command w (cmd_json ''bash'' [(''command'', JStr cmd)])) (\<lambda>data.
         ret (JObj [(''threadId'', JStr threadId), (''result'', data)])))"

definition threadBashAbort :: "string \<Rightarrow> json sop" where
  "threadBashAbort t =
     withRequiredWorker t (\<lambda>w.
       seq (worker_command w (cmd_json ''abort_bash'' [])) (\<lambda>_.
         ret (JObj [(''threadId'', JStr t), (''status'', JStr ''aborted'')])))"

definition threadCommandsList :: "string \<Rightarrow> json sop" where
  "threadCommandsList t =
     withRequiredWorker t (\<lambda>w.
       seq (worker_command w (cmd_json ''get_commands'' [])) (\<lambda>data.
         ret (JObj (overwrite [(''threadId'', JStr t)] (spread data)))))"

definition threadContextStats :: "string \<Rightarrow> json sop" where
  "threadContextStats t =
     withRequiredWorker t (\<lambda>w.
       seq (worker_command w (cmd_json ''get_session_stats'' [])) (\<lambda>data.
         ret (JObj [(''threadId'', JStr t), (''stats'', data)])))"

text \<open>\<open>worker.sendRaw\<close> for a message that has a type.\<close>

definition send_raw :: "string \<Rightarrow> json \<Rightarrow> unit sop" where
  "send_raw w v =
     call (\<lambda>s. let u = obj (sv_pool s) w in
       if \<not> w_child u \<or> isUnavailableWorker u
       then Inl (DaemonError WorkerCrashed ''Worker is not running'' (Some [(''workerId'', JStr w)]))
       else Inr (upd_pool (\<lambda>p. p\<lparr>po_sent := po_sent p @ [(w, v)]\<rparr>) s))"

definition threadExtensionUiRespond :: "string \<Rightarrow> string \<Rightarrow> json \<Rightarrow> json sop" where
  "threadExtensionUiRespond t requestId response =
     withRequiredWorker t (\<lambda>w.
       let fields = (if isRecord response then spread response else [(''value'', response)]) in
       seq (send_raw w (JObj (overwrite fields [(''id'', JStr requestId), (''type'', JStr ''extension_ui_response'')]))) (\<lambda>_.
       seq (update (emit_daemon (draft_of ExtensionUiCompleted (Some w) (Some t) None
              (JObj [(''requestId'', JStr requestId), (''status'', JStr ''responded'')])))) (\<lambda>_.
         ret (JObj [(''threadId'', JStr t), (''requestId'', JStr requestId), (''status'', JStr ''responded'')]))))"

section \<open>Models and usage\<close>

definition modelsList :: "string option \<Rightarrow> json sop" where
  "modelsList provider =
     seq (query (\<lambda>s. wo_here (sv_world s))) (\<lambda>cwd.
     seq (lift_pool (acquireForNew cwd)) (\<lambda>w.
       finally_release
         (seq (worker_command w (cmd_json ''get_available_models'' [])) (\<lambda>response.
          let data = (if nullish response then JObj [(''models'', JArr [])] else response) in
          ret (case jget data ''models'' of
                 JArr models \<Rightarrow>
                   if truthy provider
                   then JObj (overwrite (spread data)
                     [(''models'', JArr (filter (\<lambda>m. record_like m \<and> jget m ''provider'' = jopt provider) models))])
                   else data
               | _ \<Rightarrow> data))) w))"

definition usageRead :: "string option \<Rightarrow> json sop" where
  "usageRead threadId =
     (if truthy threadId then threadContextStats (the threadId)
      else query (\<lambda>s. JObj [(''usage'', JObj [(''scope'', JStr ''daemon''), (''bestEffort'', JBool True),
             (''workers'', JNum (int (length (workers_of s))))])]))"

section \<open>Dispatch\<close>

text \<open>The parameters of a request, with the types that the methods declare.\<close>

definition text_param :: "json \<Rightarrow> string \<Rightarrow> string" where
  "text_param params k = (case jget params k of JStr s \<Rightarrow> s | _ \<Rightarrow> [])"

definition opt_param :: "json \<Rightarrow> string \<Rightarrow> string option" where
  "opt_param params k = jstr_opt (jget params k)"

text \<open>
  A client sends a number that is none as null. \<open>params.limit ?? 50\<close> takes null for absent, but the
  uses of \<open>last\<close>, \<open>last !== undefined\<close> and \<open>last <= 0\<close>, take it for zero.
\<close>

definition limit_param :: "json \<Rightarrow> string \<Rightarrow> int option" where
  "limit_param params k = (case jget params k of JNum n \<Rightarrow> Some n | _ \<Rightarrow> None)"

definition last_param :: "json \<Rightarrow> string \<Rightarrow> int option" where
  "last_param params k = (case jget params k of JNum n \<Rightarrow> Some n | JNull \<Rightarrow> Some 0 | _ \<Rightarrow> None)"

definition bool_param :: "json \<Rightarrow> string \<Rightarrow> bool option" where
  "bool_param params k = (case jget params k of JBool b \<Rightarrow> Some b | _ \<Rightarrow> None)"

definition list_params :: "json \<Rightarrow> thread_list_params" where
  "list_params params =
     \<lparr>tl_cwd = opt_param params ''cwd'', tl_limit = limit_param params ''limit'', tl_cursor = opt_param params ''cursor'',
      tl_since = opt_param params ''since'', tl_archived = (bool_param params ''archived'' = Some True),
      tl_sort = opt_param params ''sort'', tl_asc = bool_param params ''asc''\<rparr>"

definition query_params :: "json \<Rightarrow> message_query" where
  "query_params params = \<lparr>mq_last = last_param params ''last'', mq_role = opt_param params ''role'', mq_since = opt_param params ''since''\<rparr>"

definition settings_params :: "json \<Rightarrow> settings_update" where
  "settings_params params =
     \<lparr>su_model = opt_param params ''model'', su_thinking = opt_param params ''thinking'',
      su_steeringMode = opt_param params ''steeringMode'', su_followUpMode = opt_param params ''followUpMode'',
      su_autoCompaction = bool_param params ''autoCompaction'', su_autoRetry = bool_param params ''autoRetry''\<rparr>"

definition turn_result :: "accepted_turn sop \<Rightarrow> json sop" where
  "turn_result m = seq m (\<lambda>a. ret (accepted_json a))"

text \<open>The methods of the protocol; \<open>temp\<close> is the directory that \<open>mkdtempSync\<close> makes for an export.\<close>

definition methods :: "string \<Rightarrow> json \<Rightarrow> (string \<times> json sop) list" where
  "methods temp params =
     (let t = text_param params ''threadId''; prompt = text_param params ''prompt''; name = opt_param params ''name'';
          model = opt_param params ''model''; thinking = opt_param params ''thinking'' in
      [(''server/status'', query serverStatus),
       (''server/shutdown'', shutdown),
       (''worker/list'', workerList),
       (''worker/read'', workerRead (text_param params ''workerId'')),
       (''thread/list'', threadList (list_params params)),
       (''thread/search'', threadSearch (text_param params ''query'') (list_params params)),
       (''thread/read'', threadRead t (last_param params ''last'') (bool_param params ''asc'')),
       (''thread/messages'', threadMessages t (query_params params)),
       (''thread/start'', turn_result (threadStart (text_param params ''cwd'') (opt_param params ''prompt'') name model thinking)),
       (''thread/send'', turn_result (threadSend t prompt model thinking)),
       (''thread/steer'', turn_result (threadSteer t prompt)),
       (''thread/follow_up'', threadFollowUp t prompt),
       (''thread/abort'', threadAbort t),
       (''thread/status'', threadStatus (opt_param params ''threadId'')),
       (''thread/fork'', threadFork t (text_param params ''entryId'') name),
       (''thread/clone'', threadClone t name),
       (''thread/name/set'', threadNameSet t (text_param params ''name'')),
       (''thread/settings/read'', threadSettingsRead t),
       (''thread/settings/update'', threadSettingsUpdate t (settings_params params)),
       (''thread/compact'', threadCompact t (opt_param params ''prompt'')),
       (''thread/export/html'', threadExportHtml temp t),
       (''thread/bash/run'', threadBashRun t (text_param params ''command'')),
       (''thread/bash/abort'', threadBashAbort t),
       (''thread/commands/list'', threadCommandsList t),
       (''thread/context/stats'', threadContextStats t),
       (''thread/extension-ui/respond'', threadExtensionUiRespond t (text_param params ''requestId'') (jget params ''response'')),
       (''models/list'', modelsList (opt_param params ''provider'')),
       (''usage/read'', usageRead (opt_param params ''threadId''))])"

definition dispatch :: "string \<Rightarrow> string \<Rightarrow> json \<Rightarrow> json sop" where
  "dispatch temp method params =
     (case map_of (methods temp params) method of
        Some operation \<Rightarrow> operation
      | None \<Rightarrow> raise (DaemonError NotFound ''Unknown method'' (Some [(''method'', JStr method)])))"

end
