(* ===== verification/Service_Props.thy ===== *)
theory Service_Props
  imports Service_Dispatch
begin

text \<open>
  Reasoning about the operations of the service under interference. \<open>run_meets A W F\<close> says of a run
  that \<open>W\<close> holds wherever it is suspended and \<open>F\<close> where it has finished, provided the steps of other
  code satisfy \<open>A\<close>. The maps of active turns and of mutations are the \<^emph>\<open>core\<close> of the state; most
  statements are quiet: they leave the core to other code.
\<close>

section \<open>Runs\<close>

fun run_meets :: "('i \<Rightarrow> bool) \<Rightarrow> ('s \<Rightarrow> bool) \<Rightarrow> ('a result \<Rightarrow> 's \<Rightarrow> bool) \<Rightarrow> ('s, 'i, 'r, 'a) run \<Rightarrow> bool" where
  "run_meets A W F (Waiting s) = W s"
| "run_meets A W F (Finished r s sch) = (F r s \<and> sch_ok A sch)"

lemma meets_mono:
  "run_meets A W F r \<Longrightarrow> (\<And>s. W s \<Longrightarrow> W' s) \<Longrightarrow> (\<And>x s. F x s \<Longrightarrow> F' x s) \<Longrightarrow> run_meets A W' F' r"
  by (cases r) auto

lemma meets_seq:
  assumes "run_meets A W R (m s sch)" "\<And>e s. R (Inl e) s \<Longrightarrow> F (Inl e) s"
    and "\<And>x s sch. R (Inr x) s \<Longrightarrow> sch_ok A sch \<Longrightarrow> run_meets A W F (f x s sch)"
  shows "run_meets A W F (seq m f s sch)"
  using assms by (auto simp: seq_def split: run.splits sum.splits)

lemma meets_try:
  assumes "run_meets A W R (m s sch)" "\<And>x s. R (Inr x) s \<Longrightarrow> F (Inr x) s"
    and "\<And>e s sch. R (Inl e) s \<Longrightarrow> sch_ok A sch \<Longrightarrow> run_meets A W F (h e s sch)"
  shows "run_meets A W F (try_catch m h s sch)"
  using assms by (auto simp: try_catch_def split: run.splits sum.splits)

lemma meets_finally:
  assumes "run_meets A W R (m s sch)"
    and "\<And>x s sch. R x s \<Longrightarrow> sch_ok A sch \<Longrightarrow>
      run_meets A W (\<lambda>y s. case y of Inl e \<Rightarrow> F (Inl e) s | Inr _ \<Rightarrow> F x s) (g s sch)"
  shows "run_meets A W F (try_finally m g s sch)"
proof (cases "m s sch")
  case (Waiting s1)
  with assms(1) show ?thesis by (simp add: try_finally_def)
next
  case (Finished x s1 sch1)
  with assms(1) have "R x s1" "sch_ok A sch1" by simp_all
  from assms(2) [OF this] show ?thesis
    by (cases "g s1 sch1") (auto simp: try_finally_def Finished split: sum.splits)
qed

section \<open>Quiet statements\<close>

definition core :: "service \<Rightarrow> (string \<Rightarrow> active_turn option) \<times> string set" where
  "core s = (sv_active s, sv_mutations s)"

definition stable :: "(ostep \<Rightarrow> bool) \<Rightarrow> ((string \<Rightarrow> active_turn option) \<times> string set \<Rightarrow> bool) \<Rightarrow> bool" where
  "stable A P \<longleftrightarrow> (\<forall>i s. A i \<longrightarrow> P (core s) \<longrightarrow> P (core (run_ostep i s)))"

text \<open>What other code keeps, a quiet statement keeps, while it is suspended and when it has finished.\<close>

definition quiet :: "'a sop \<Rightarrow> bool" where
  "quiet m \<longleftrightarrow> (\<forall>A P s sch. stable A P \<longrightarrow> P (core s) \<longrightarrow> sch_ok A sch \<longrightarrow>
     run_meets A (\<lambda>s. P (core s)) (\<lambda>_ s. P (core s)) (m s sch))"

named_theorems quiet_rules "statements that are quiet"

lemma quietI:
  "(\<And>A P s sch. stable A P \<Longrightarrow> P (core s) \<Longrightarrow> sch_ok A sch \<Longrightarrow>
     run_meets A (\<lambda>s. P (core s)) (\<lambda>_ s. P (core s)) (m s sch)) \<Longrightarrow> quiet m"
  by (simp add: quiet_def)

lemma quietD:
  "quiet m \<Longrightarrow> stable A P \<Longrightarrow> P (core s) \<Longrightarrow> sch_ok A sch \<Longrightarrow>
     run_meets A (\<lambda>s. P (core s)) (\<lambda>_ s. P (core s)) (m s sch)"
  by (simp add: quiet_def)

lemma quiet_seq [quiet_rules]: "quiet m \<Longrightarrow> (\<And>x. quiet (f x)) \<Longrightarrow> quiet (seq m f)"
  by (rule quietI, rule meets_seq, erule (3) quietD) (auto intro: quietD)

lemma quiet_try [quiet_rules]: "quiet m \<Longrightarrow> (\<And>e. quiet (h e)) \<Longrightarrow> quiet (try_catch m h)"
  by (rule quietI, rule meets_try, erule (3) quietD) (auto intro: quietD)

lemma quiet_finally [quiet_rules]:
  assumes "quiet m" "quiet g"
  shows "quiet (try_finally m g)"
proof (rule quietI, rule meets_finally)
  fix A P s and sch :: "(ostep, sreply) schedule"
  assume P: "stable A P" "P (core s)" "sch_ok A sch"
  show "run_meets A (\<lambda>s. P (core s)) (\<lambda>_ s. P (core s)) (m s sch)" by (rule quietD [OF assms(1) P])
  fix x :: "'a result" and s and sch :: "(ostep, sreply) schedule"
  assume "P (core s)" "sch_ok A sch"
  with P(1) have "run_meets A (\<lambda>s. P (core s)) (\<lambda>_ s. P (core s)) (g s sch)" by (intro quietD [OF assms(2)])
  then show "run_meets A (\<lambda>s. P (core s)) (\<lambda>y s. case y of Inl e \<Rightarrow> P (core s) | Inr _ \<Rightarrow> P (core s)) (g s sch)"
    by (rule meets_mono) (auto split: sum.splits)
qed

lemma quiet_sync [quiet_rules]:
  "quiet (ret x)" "quiet (raise e)" "quiet (query q)" "quiet (throwing f)"
  by (simp_all add: quiet_def ret_def raise_def query_def throwing_def)

lemma quiet_update [quiet_rules]: "(\<And>s. core (f s) = core s) \<Longrightarrow> quiet (update f)"
  by (simp add: quiet_def update_def)

lemma quiet_call [quiet_rules]: "(\<And>s s'. f s = Inr s' \<Longrightarrow> core s' = core s) \<Longrightarrow> quiet (call f)"
  by (auto simp: quiet_def call_def split: sum.splits)

lemma quiet_stmt [quiet_rules]: "(\<And>s. core (snd (f s)) = core s) \<Longrightarrow> quiet (stmt f)"
  by (auto simp: quiet_def stmt_def split: prod.splits) (metis snd_conv)

lemma stable_step: "stable A P \<Longrightarrow> A i \<Longrightarrow> P (core s) \<Longrightarrow> P (core (run_ostep i s))"
  by (simp add: stable_def)

lemma stable_interfere:
  assumes "stable A P"
  shows "P (core s) \<Longrightarrow> \<forall>i \<in> set is. A i \<Longrightarrow> P (core (interfere run_ostep is s))"
  unfolding interfere_def by (induction "is" arbitrary: s) (simp_all add: stable_step [OF assms])

lemma quiet_await [quiet_rules]: "quiet (await run_ostep)"
proof (rule quietI)
  fix A P s and sch :: "(ostep, sreply) schedule"
  assume "stable A P" "P (core s)" "sch_ok A sch"
  then show "run_meets A (\<lambda>s. P (core s)) (\<lambda>_ s. P (core s)) (await run_ostep s sch)"
    by (cases "(run_ostep, s, sch)" rule: await.cases) (auto simp: sch_ok_def stable_interfere)
qed

lemma quiet_lift_pool [quiet_rules]: "quiet (lift_pool m)"
proof (rule quietI)
  fix A P s and sch :: "(ostep, sreply) schedule"
  assume P: "stable A P" "P (core s)" "sch_ok A sch"
  show "run_meets A (\<lambda>s. P (core s)) (\<lambda>_ s. P (core s)) (lift_pool m s sch)"
  proof (cases sch)
    case Nil
    with P show ?thesis by simp
  next
    case (Cons x rest)
    obtain "is" r where x: "x = (is, r)" by fastforce
    have "\<forall>i \<in> set is. A i" using P(3) by (simp add: sch_ok_def Cons x)
    then have s1: "P (core (interfere run_ostep is s))" by (rule stable_interfere [OF P(1, 2)])
    have pool: "core (s1\<lparr>sv_pool := p\<rparr>) = core s1" for s1 p by (simp add: core_def)
    have rest: "sch_ok A rest" using P(3) by (simp add: sch_ok_def Cons)
    show ?thesis
    proof (cases "\<exists>before psch. r = Some (SvPool before psch)")
      case True
      then show ?thesis
        using s1 rest by (auto simp: Cons x Let_def pool split: run.splits)
    next
      case False
      then have "lift_pool m s ((is, r) # rest) = Waiting (interfere run_ostep is s)"
        by (cases r; cases "the r") auto
      with s1 show ?thesis by (simp add: Cons x)
    qed
  qed
qed

lemma core_pool [simp]: "core (upd_pool f s) = core s" "core (s\<lparr>sv_pool := p\<rparr>) = core s" "core (s\<lparr>sv_catalog := c\<rparr>) = core s"
  "core (s\<lparr>sv_world := w\<rparr>) = core s" "core (s\<lparr>sv_nextTurn := n\<rparr>) = core s" "core (s\<lparr>sv_cleanups := cl\<rparr>) = core s"
  "core (s\<lparr>sv_shuttingDown := b\<rparr>) = core s"
  by (simp_all add: core_def upd_pool_def)

lemma quiet_if [quiet_rules]: "quiet m \<Longrightarrow> quiet n \<Longrightarrow> quiet (if b then m else n)"
  by simp

lemma quiet_case_option [quiet_rules]: "quiet m \<Longrightarrow> (\<And>x. quiet (f x)) \<Longrightarrow> quiet (case z of None \<Rightarrow> m | Some x \<Rightarrow> f x)"
  by (cases z) auto

lemma quiet_case_prod [quiet_rules]: "(\<And>x y. quiet (f x y)) \<Longrightarrow> quiet (case z of (x, y) \<Rightarrow> f x y)"
  by (cases z) auto

lemma quiet_case_reply [quiet_rules]:
  "(\<And>e. quiet (f e)) \<Longrightarrow> quiet m \<Longrightarrow> quiet (case r of SvError e \<Rightarrow> f e | _ \<Rightarrow> m)"
  "(\<And>e. quiet (f e)) \<Longrightarrow> (\<And>d. quiet (g d)) \<Longrightarrow> quiet m \<Longrightarrow> quiet (case r of SvError e \<Rightarrow> f e | SvData d \<Rightarrow> g d | _ \<Rightarrow> m)"
  by (cases r; simp)+

lemma quiet_Let [quiet_rules]: "(\<And>x. quiet (f x)) \<Longrightarrow> quiet (let x = y in f x)"
  by simp

text \<open>The statements of the service.\<close>

lemma quiet_statements [quiet_rules]:
  "quiet pause" "quiet await_reply" "quiet (await_cleanup t)" "quiet (command_rest w)" "quiet (release_worker w th)"
  "quiet (set_worker w f)" "quiet newTurnId"
  unfolding pause_def await_reply_def await_cleanup_def command_rest_def release_worker_def set_worker_def newTurnId_def
  by (intro quiet_rules; simp)+

lemma quiet_commands [quiet_rules]:
  "quiet (worker_command w cmd)" "quiet (worker_state_read w)"
  unfolding worker_command_def worker_state_read_def by (intro quiet_rules; simp)+

lemma quiet_catalog [quiet_rules]:
  "quiet list_catalog" "quiet (update_catalog st)" "quiet (retain_worker w)"
  unfolding list_catalog_def update_catalog_def retain_worker_def
  by (intro quiet_rules; auto simp: Let_def split: sum.splits prod.splits)+

lemma quiet_resolve [quiet_rules]: "quiet (resolve_rest t r)" "quiet (resolveThread t)"
  unfolding resolve_rest_def resolveThread_def
  by (intro quiet_rules; auto split: prod.splits)+

lemma quiet_settings [quiet_rules]:
  "quiet (resolveModelSelection w model)" "quiet (applyResolvedSettings w sel thinking)" "quiet (applySettings w m thinking)"
  "quiet (not_cancelled data c)" "quiet (submitPrompt t turn w message)" "quiet (launch l)" "quiet (acquireSessionWorker session)"
proof -
  show resolve: "quiet (resolveModelSelection w model)" for w model
    unfolding resolveModelSelection_def by (intro quiet_rules)
  show apply_resolved: "quiet (applyResolvedSettings w sel thinking)" for w sel thinking
    unfolding applyResolvedSettings_def by (intro quiet_rules)
  show "quiet (applySettings w m thinking)"
    unfolding applySettings_def by (intro quiet_rules resolve apply_resolved)
  show "quiet (not_cancelled data c)" unfolding not_cancelled_def by (intro quiet_rules)
  show launch: "quiet (launch l)" for l unfolding launch_def by (intro quiet_rules) (simp add: core_def)
  show "quiet (submitPrompt t turn w message)" unfolding submitPrompt_def by (intro quiet_rules launch) simp
  show "quiet (acquireSessionWorker session)" unfolding acquireSessionWorker_def by (intro quiet_rules)
qed

section \<open>Dispatch\<close>

text \<open>The methods by name.\<close>

lemma dispatch_at:
  "dispatch temp ''thread/send'' p = turn_result (threadSend (text_param p ''threadId'') (text_param p ''prompt'')
     (opt_param p ''model'') (opt_param p ''thinking''))"
  "dispatch temp ''thread/start'' p = turn_result (threadStart (text_param p ''cwd'') (opt_param p ''prompt'')
     (opt_param p ''name'') (opt_param p ''model'') (opt_param p ''thinking''))"
  "dispatch temp ''thread/steer'' p = turn_result (threadSteer (text_param p ''threadId'') (text_param p ''prompt''))"
  "dispatch temp ''thread/follow_up'' p = threadFollowUp (text_param p ''threadId'') (text_param p ''prompt'')"
  "dispatch temp ''thread/abort'' p = threadAbort (text_param p ''threadId'')"
  "dispatch temp ''thread/status'' p = threadStatus (opt_param p ''threadId'')"
  "dispatch temp ''thread/fork'' p = threadFork (text_param p ''threadId'') (text_param p ''entryId'') (opt_param p ''name'')"
  "dispatch temp ''thread/clone'' p = threadClone (text_param p ''threadId'') (opt_param p ''name'')"
  "dispatch temp ''thread/name/set'' p = threadNameSet (text_param p ''threadId'') (text_param p ''name'')"
  "dispatch temp ''thread/list'' p = threadList (list_params p)"
  "dispatch temp ''thread/search'' p = threadSearch (text_param p ''query'') (list_params p)"
  "dispatch temp ''thread/read'' p = threadRead (text_param p ''threadId'') (last_param p ''last'') (bool_param p ''asc'')"
  "dispatch temp ''thread/messages'' p = threadMessages (text_param p ''threadId'') (query_params p)"
  "dispatch temp ''thread/settings/read'' p = threadSettingsRead (text_param p ''threadId'')"
  "dispatch temp ''thread/settings/update'' p = threadSettingsUpdate (text_param p ''threadId'') (settings_params p)"
  "dispatch temp ''thread/compact'' p = threadCompact (text_param p ''threadId'') (opt_param p ''prompt'')"
  "dispatch temp ''thread/bash/run'' p = threadBashRun (text_param p ''threadId'') (text_param p ''command'')"
  "dispatch temp ''thread/export/html'' p = threadExportHtml temp (text_param p ''threadId'')"
  "dispatch temp ''models/list'' p = modelsList (opt_param p ''provider'')"
  "dispatch temp ''usage/read'' p = usageRead (opt_param p ''threadId'')"
  "dispatch temp ''thread/commands/list'' p = threadCommandsList (text_param p ''threadId'')"
  "dispatch temp ''thread/context/stats'' p = threadContextStats (text_param p ''threadId'')"
  "dispatch temp ''server/status'' p = query serverStatus"
  "dispatch temp ''server/shutdown'' p = shutdown"
  unfolding dispatch_def methods_def Let_def by simp_all

end
