(* ===== verification/Service_Contract.thy ===== *)
theory Service_Contract
  imports Service_Props
begin

text \<open>
  The contract of a predicate on the maps of active turns and of mutations with the operations of the
  service: which changes of the maps it allows at the beginning and at the end of a mutation, of a
  reservation and of a turn. Inside the locale every method of \<open>dispatch\<close> is shown to keep it.
\<close>

section \<open>Quiet operations\<close>

lemma quiet_release [quiet_rules]: "quiet m \<Longrightarrow> quiet (finally_release m w)"
  unfolding finally_release_def by (intro quiet_rules)

lemma quiet_access [quiet_rules]:
  "quiet (workerForRequiredMethod t)" "(\<And>w. quiet (f w)) \<Longrightarrow> quiet (withRequiredWorker t f)" "quiet (requireCrossThreadReuse c)"
proof -
  have assert: "quiet (assertResumable i)" for i unfolding assertResumable_def by (intro quiet_rules)
  show w: "quiet (workerForRequiredMethod t)" unfolding workerForRequiredMethod_def by (intro quiet_rules assert)
  show "(\<And>w. quiet (f w)) \<Longrightarrow> quiet (withRequiredWorker t f)" unfolding withRequiredWorker_def by (intro quiet_rules w)
  show "quiet (requireCrossThreadReuse c)" unfolding requireCrossThreadReuse_def by (intro quiet_rules)
qed

lemma quiet_asserts [quiet_rules]:
  "quiet (assertResumable t)" "quiet (assert_unchanged t)" "quiet (requireActive t)" "quiet (read_worker_op w)" "quiet (filtered ms q)"
  unfolding assertResumable_def assert_unchanged_def requireActive_def read_worker_op_def filtered_def by (intro quiet_rules)+

lemma quiet_send_when [quiet_rules]: "quiet (send_when c w cmd)" "quiet (name_session w name)" "quiet (adopt_session w)"
  unfolding send_when_def name_session_def adopt_session_def by (intro quiet_rules)+

lemma quiet_send_raw [quiet_rules]: "quiet (send_raw w v)"
  unfolding send_raw_def by (intro quiet_rules) (auto simp: Let_def split: if_splits)

lemma quiet_page [quiet_rules]: "quiet (page_of q ts)" "quiet (search_catalog text)"
  unfolding page_of_def search_catalog_def by (intro quiet_rules; simp split: prod.splits)+

lemma core_no_turn: "event_turn d s = None \<Longrightarrow> core (handleDaemonEvent d s) = core s"
  by (simp add: handleDaemonEvent_def)

lemma event_turn_none [simp]: "dr_turnId d = None \<Longrightarrow> event_turn d s = None"
  by (simp add: event_turn_def split: option.splits)

lemma quiet_emit [quiet_rules]: "dr_turnId d = None \<Longrightarrow> quiet (update (emit_daemon d))"
  by (rule quiet_update) (simp add: emit_daemon_def core_no_turn)

lemma quiet_session: "quiet (refresh_mutated session w)" "quiet (refreshOwnedSession t)" "quiet (update_owned session)"
proof -
  show u: "quiet (update_owned session)" for session unfolding update_owned_def by (intro quiet_rules)
  show r: "quiet (refreshOwnedSession t)" for t unfolding refreshOwnedSession_def by (intro quiet_rules u)
  show "quiet (refresh_mutated session w)" unfolding refresh_mutated_def by (intro quiet_rules r)
qed

lemma quiet_refresh: "quiet (try_catch (refresh_mutated session w) (\<lambda>e. update (refresh_failed session w e)))"
proof (rule quiet_try [OF quiet_session(1) quiet_update])
  show "core (refresh_failed session w e s) = core s" for e s
    by (simp add: refresh_failed_def emit_daemon_def core_no_turn draft_of_def)
qed

section \<open>The contract\<close>

definition turn_name :: "nat \<Rightarrow> string" where
  "turn_name n = ''turn_'' @ dec n"

lemma newTurnId_run:
  "seq newTurnId f s sch = f (turn_name (sv_nextTurn s)) (s\<lparr>sv_nextTurn := sv_nextTurn s + 1\<rparr>) sch"
  by (simp add: newTurnId_def turn_name_def stmt_def seq_def)

abbreviation reservation :: "string \<Rightarrow> active_turn" where
  "reservation turn \<equiv> \<lparr>at_turnId = turn, at_workerId = None, at_hasAgentRun = False\<rparr>"

abbreviation turn_on :: "string \<Rightarrow> string \<Rightarrow> active_turn" where
  "turn_on turn w \<equiv> \<lparr>at_turnId = turn, at_workerId = Some w, at_hasAgentRun = False\<rparr>"

lemma handle_other:
  "dr_type d \<notin> {TurnStarted, TurnCompleted, TurnFailed, TurnAborted} \<Longrightarrow> handleDaemonEvent d s = s"
  by (auto simp: handleDaemonEvent_def split: option.splits)

lemma core_activate: "core (activate_turn t turn w payload s) = ((sv_active s)(t \<mapsto> turn_on turn w), sv_mutations s)"
  unfolding activate_turn_def emit_daemon_def
  by (subst handle_other) (simp_all add: daemon_draft_def draft_of_def core_def set_active_def upd_pool_def)

lemma core_launch: "core (s\<lparr>sv_launched := l\<rparr>) = core s"
  by (simp add: core_def)

lemma core_cancel: "core (set_active t None s) = ((sv_active s)(t := None), sv_mutations s)"
  by (simp add: core_def set_active_def)

lemma core_fields: "core s = c \<longleftrightarrow> sv_active s = fst c \<and> sv_mutations s = snd c"
  by (auto simp: core_def)

text \<open>While it is suspended a send holds its reservation \<open>S\<close>; at the end the turn is active or cancelled.\<close>

lemma reserved_meets:
  assumes S: "stable A S" "S (core s)" and sch: "sch_ok A sch"
    and cancel: "\<And>a m e. S (a, m) \<Longrightarrow> F (Inl e) (a(si_id session := None), m)"
    and act: "\<And>a m w. S (a, m) \<Longrightarrow> F (Inr (accepted (si_id session) turn w ''accepted'' None)) (a(si_id session \<mapsto> turn_on turn w), m)"
  shows "run_meets A (\<lambda>s. S (core s)) (\<lambda>r s. F r (core s)) (send_reserved session turn prompt model thinking s sch)"
proof -
  let ?t = "si_id session"
  have pair: "S (core s) \<Longrightarrow> S (sv_active s, sv_mutations s)" for s by (simp add: core_def)
  have acquire: "run_meets A (\<lambda>s. S (core s)) (\<lambda>r s. case r of Inl e \<Rightarrow> F (Inl e) (core s) | Inr w \<Rightarrow> S (core s))
      (try_catch (acquireSessionWorker session) (\<lambda>e. seq (cancel_turn ?t) (\<lambda>_. raise e)) s sch)"
    by (rule meets_try, rule quietD [OF _ S sch])
      (simp_all add: quiet_settings cancel_turn_def async_simps core_cancel cancel pair)
  have sending: "run_meets A (\<lambda>s. S (core s)) (\<lambda>r s. case r of Inl e \<Rightarrow> S (core s) | Inr a \<Rightarrow> F (Inr a) (core s))
      (send_with w ?t turn prompt model thinking s1 sch1)"
    if "S (core s1)" "sch_ok A sch1" for w s1 sch1
    unfolding send_with_def
    by (rule meets_seq, rule quietD [OF _ S(1) that])
      (simp_all add: quiet_settings set_worker_def submitPrompt_def launch_def async_simps seq_assoc core_launch core_activate act pair upd_pool_def)
  have work: "run_meets A (\<lambda>s. S (core s)) (\<lambda>r s. F r (core s))
      (try_catch (send_with w ?t turn prompt model thinking)
        (\<lambda>e. seq (cancel_turn ?t) (\<lambda>_. seq (release_worker w None) (\<lambda>_. raise e))) s1 sch1)"
    if "S (core s1)" "sch_ok A sch1" for w s1 sch1
    by (rule meets_try, rule sending [OF that]) (simp_all add: cancel_turn_def release_worker_def async_simps core_cancel cancel pair)
  show ?thesis unfolding send_reserved_def
    by (rule meets_seq, rule acquire) (simp_all add: work)
qed

locale session_contract =
  fixes A :: "ostep \<Rightarrow> bool" and P :: "(string \<Rightarrow> active_turn option) \<times> string set \<Rightarrow> bool"
    and Q :: "string \<Rightarrow> (string \<Rightarrow> active_turn option) \<times> string set \<Rightarrow> bool"
    and R :: "string \<Rightarrow> string \<Rightarrow> (string \<Rightarrow> active_turn option) \<times> string set \<Rightarrow> bool"
  assumes idle: "stable A P" and ended: "P (a, m) \<Longrightarrow> P (a(t := None), m)"
    and mutating: "stable A (Q t)"
    and begun: "P (a, m) \<Longrightarrow> a t = None \<Longrightarrow> t \<notin> m \<Longrightarrow> Q t (a, insert t m)"
    and mutated: "Q t (a, m) \<Longrightarrow> P (a, m - {t})"
    and reserving: "stable A (R t (turn_name n))"
    and reserved: "P (a, m) \<Longrightarrow> a t = None \<Longrightarrow> t \<notin> m \<Longrightarrow> R t turn (a(t \<mapsto> reservation turn), m)"
    and cancelled: "R t turn (a, m) \<Longrightarrow> P (a(t := None), m)"
    and activated: "R t turn (a, m) \<Longrightarrow> P (a(t \<mapsto> turn_on turn w), m)"
begin

definition suspended :: "service \<Rightarrow> bool" where
  "suspended s \<longleftrightarrow> P (core s) \<or> (\<exists>t. Q t (core s)) \<or> (\<exists>t n. R t (turn_name n) (core s))"

definition meets :: "'a sop \<Rightarrow> bool" where
  "meets m \<longleftrightarrow> (\<forall>s sch. P (core s) \<longrightarrow> sch_ok A sch \<longrightarrow> run_meets A suspended (\<lambda>_ s. P (core s)) (m s sch))"

lemma meetsI: "(\<And>s sch. P (core s) \<Longrightarrow> sch_ok A sch \<Longrightarrow> run_meets A suspended (\<lambda>_ s. P (core s)) (m s sch)) \<Longrightarrow> meets m"
  by (simp add: meets_def)

lemma meetsD: "meets m \<Longrightarrow> P (core s) \<Longrightarrow> sch_ok A sch \<Longrightarrow> run_meets A suspended (\<lambda>_ s. P (core s)) (m s sch)"
  by (simp add: meets_def)

lemma meets_quiet: "quiet m \<Longrightarrow> meets m"
  by (rule meetsI, rule meets_mono, rule quietD [OF _ idle]) (auto simp: suspended_def)

lemma quiet_in:
  assumes "quiet m" "stable A S" "S (core s)" "sch_ok A sch" "\<And>s. S (core s) \<Longrightarrow> suspended s"
  shows "run_meets A suspended (\<lambda>_ s. S (core s)) (m s sch)"
  by (rule meets_mono [OF quietD [OF assms(1-4)]]) (use assms(5) in auto)

lemma meets_bind: "meets m \<Longrightarrow> (\<And>x. meets (f x)) \<Longrightarrow> meets (seq m f)"
  by (rule meetsI, rule meets_seq, erule (2) meetsD) (auto intro: meetsD)

lemma meets_last: "meets m \<Longrightarrow> meets g \<Longrightarrow> meets (try_finally m g)"
proof (rule meetsI, rule meets_finally)
  fix s and sch :: "(ostep, sreply) schedule"
  assume "meets m" "P (core s)" "sch_ok A sch"
  then show "run_meets A suspended (\<lambda>_ s. P (core s)) (m s sch)" by (rule meetsD)
next
  fix x :: "'a result" and s and sch :: "(ostep, sreply) schedule"
  assume "meets g" "P (core s)" "sch_ok A sch"
  then have "run_meets A suspended (\<lambda>_ s. P (core s)) (g s sch)" by (rule meetsD)
  then show "run_meets A suspended (\<lambda>y s. case y of Inl e \<Rightarrow> P (core s) | Inr _ \<Rightarrow> P (core s)) (g s sch)"
    by (rule meets_mono) (auto split: sum.splits)
qed

lemma emit_keeps: "P (core s) \<Longrightarrow> dr_type d \<noteq> TurnStarted \<Longrightarrow> P (core (emit_daemon d s))"
proof -
  assume P: "P (core s)" and d: "dr_type d \<noteq> TurnStarted"
  have ended': "P (core s1) \<Longrightarrow> P (core (end_turn t w s1))" for t w s1
    using ended by (auto simp: end_turn_def core_def Let_def set_active_def split: option.splits prod.splits)
  have sent: "core (upd_pool f s1) = core s1" for f s1 by simp
  let ?s = "upd_pool (emit_event d) s"
  have "P (core ?s)" using P by simp
  then have "P (core (handleDaemonEvent d ?s))" using d ended' unfolding handleDaemonEvent_def
    by (auto simp: Let_def split: option.splits)
  then show ?thesis by (simp add: emit_daemon_def)
qed

text \<open>A mutation: \<open>Q\<close> holds from its beginning to its end.\<close>

lemma meets_mutation:
  assumes m: "\<And>w th. quiet (mutate w th)" and Q: "Q (si_id session) (core s)" and sch: "sch_ok A sch"
  shows "run_meets A suspended (\<lambda>_ s. P (core s)) (mutate_session session mutate s sch)"
proof -
  let ?t = "si_id session"
  have susp: "Q ?t (core s) \<Longrightarrow> suspended s" for s by (auto simp: suspended_def)
  have drop: "Q ?t (core s) \<Longrightarrow> P (core (s\<lparr>sv_mutations := sv_mutations s - {?t}\<rparr>))" for s
    using mutated by (simp add: core_def)
  have acquire: "run_meets A suspended (\<lambda>r s. case r of Inl e \<Rightarrow> P (core s) | Inr w \<Rightarrow> Q ?t (core s))
      (try_catch (acquireSessionWorker session) (\<lambda>e. seq (end_mutation ?t) (\<lambda>_. raise e)) s sch)"
    by (rule meets_try, rule quiet_in [OF _ mutating Q sch susp])
      (simp_all add: quiet_settings end_mutation_def async_simps drop)
  have clean: "run_meets A suspended (\<lambda>_ s. P (core s)) (mutation_cleanup session w s1 sch1)"
    if "Q ?t (core s1)" "sch_ok A sch1" for w s1 sch1
    unfolding mutation_cleanup_def
  proof (rule meets_finally, rule quiet_in [OF quiet_refresh mutating that susp])
    fix s2 and sch2 :: "(ostep, sreply) schedule"
    assume "Q ?t (core s2)" "sch_ok A sch2"
    then show "run_meets A suspended (\<lambda>y s. case y of Inl e \<Rightarrow> P (core s) | Inr _ \<Rightarrow> P (core s))
        (seq (end_mutation ?t) (\<lambda>_. release_worker w None) s2 sch2)"
      by (simp add: end_mutation_def release_worker_def async_simps drop)
  qed
  have work: "run_meets A suspended (\<lambda>_ s. P (core s))
      (try_finally (seq (set_worker w (\<lambda>u. u\<lparr>w_state := Running\<rparr>)) (\<lambda>_. mutate w ?t)) (mutation_cleanup session w) s1 sch1)"
    if "Q ?t (core s1)" "sch_ok A sch1" for w s1 sch1
  proof (rule meets_finally, rule quiet_in [OF _ mutating that susp])
    show "quiet (seq (set_worker w (\<lambda>u. u\<lparr>w_state := Running\<rparr>)) (\<lambda>_. mutate w ?t))" by (intro quiet_rules m)
    show "run_meets A suspended (\<lambda>y s. case y of Inl e \<Rightarrow> P (core s) | Inr _ \<Rightarrow> P (core s)) (mutation_cleanup session w s2 sch2)"
      if "Q ?t (core s2)" "sch_ok A sch2" for s2 sch2
      by (rule meets_mono [OF clean [OF that]]) (auto split: sum.splits)
  qed
  show ?thesis unfolding mutate_session_def
    by (rule meets_seq, rule acquire) (simp_all add: work)
qed

lemma meets_with_mutation:
  assumes m: "\<And>w th. quiet (mutate w th)"
  shows "meets (withSessionMutation t mutate)"
proof -
  have begin_it: "meets (seq (assert_not_busy i) (\<lambda>_. seq (assert_unchanged i) (\<lambda>_. seq (assertResumable i) (\<lambda>_.
      seq (begin_mutation i) (\<lambda>_. mutate_session session mutate)))))" if i: "i = si_id session" for i session
  proof (rule meetsI)
    fix s and sch :: "(ostep, sreply) schedule"
    assume P: "P (core s)" and sch: "sch_ok A sch"
    have Q: "sv_active s i = None \<Longrightarrow> i \<notin> sv_mutations s \<Longrightarrow> Q i (core (s\<lparr>sv_mutations := insert i (sv_mutations s)\<rparr>))"
      using P begun by (simp add: core_def)
    show "run_meets A suspended (\<lambda>_ s. P (core s)) (seq (assert_not_busy i) (\<lambda>_. seq (assert_unchanged i) (\<lambda>_.
        seq (assertResumable i) (\<lambda>_. seq (begin_mutation i) (\<lambda>_. mutate_session session mutate)))) s sch)"
      using P sch Q meets_mutation [OF m, of session _ sch] i
      by (auto simp: assert_not_busy_def assert_unchanged_def assertResumable_def throwing_def begin_mutation_def
          seq_def update_def split: sum.splits)
  qed
  show ?thesis unfolding withSessionMutation_def
    by (intro meets_bind begin_it meets_quiet quiet_rules refl)
qed

text \<open>A send: \<open>R\<close> holds from its reservation until the turn is active or the reservation is cancelled.\<close>

lemma meets_reserved:
  assumes R: "R (si_id session) (turn_name n) (core s)" and sch: "sch_ok A sch"
  shows "run_meets A suspended (\<lambda>_ s. P (core s)) (send_reserved session (turn_name n) prompt model thinking s sch)"
  by (rule meets_mono [OF reserved_meets [OF reserving R sch, where F = "\<lambda>_. P"]])
    (auto simp: suspended_def cancelled activated)

lemma meets_send: "meets (threadSend t prompt model thinking)"
proof -
  have reserve: "meets (seq newTurnId (\<lambda>turn. seq (reserveTurn (si_id session) turn) (\<lambda>_.
      send_reserved session turn prompt model thinking)))" for session
  proof (rule meetsI)
    fix s and sch :: "(ostep, sreply) schedule"
    assume P: "P (core s)" and sch: "sch_ok A sch"
    let ?t = "si_id session" and ?turn = "turn_name (sv_nextTurn s)" and ?s = "s\<lparr>sv_nextTurn := sv_nextTurn s + 1\<rparr>"
    have R: "sv_active s ?t = None \<Longrightarrow> ?t \<notin> sv_mutations s \<Longrightarrow> R ?t ?turn (core (set_active ?t (Some (reservation ?turn)) ?s))"
      using P reserved by (simp add: core_def set_active_def)
    show "run_meets A suspended (\<lambda>_ s. P (core s)) (seq newTurnId (\<lambda>turn. seq (reserveTurn ?t turn) (\<lambda>_.
      send_reserved session turn prompt model thinking)) s sch)"
    proof (cases "sv_active s ?t = None \<and> ?t \<notin> sv_mutations s")
      case True
      then show ?thesis using meets_reserved [OF R sch]
        by (simp add: newTurnId_run reserveTurn_def async_simps)
    next
      case False
      then show ?thesis using P sch
        by (simp add: newTurnId_run reserveTurn_def async_simps)
    qed
  qed
  show ?thesis unfolding threadSend_def
    by (intro meets_bind reserve meets_quiet quiet_rules)
qed

lemma meets_abort: "meets (threadAbort t)"
proof -
  have emit: "meets (update (abort_emit t turn w))" for turn w
  proof (rule meetsI)
    fix s and sch :: "(ostep, sreply) schedule"
    assume P: "P (core s)" and sch: "sch_ok A sch"
    have "P (core (abort_emit t turn w s))" unfolding abort_emit_def
      using P by (auto simp: daemon_draft_def draft_of_def intro!: emit_keeps split: option.splits)
    with sch show "run_meets A suspended (\<lambda>_ s. P (core s)) (update (abort_emit t turn w) s sch)"
      by (simp add: update_def)
  qed
  have pair: "(\<And>x y. meets (f x y)) \<Longrightarrow> meets (case z of (x, y) \<Rightarrow> f x y)" for f z by (cases z) auto
  show ?thesis unfolding threadAbort_def
    by (intro meets_bind meets_last pair emit; intro meets_quiet quiet_rules; simp)
qed

text \<open>Every method of \<open>dispatch\<close> but \<open>thread/start\<close> is quiet, a mutation, a send or an abort.\<close>

lemma quiet_methods:
  "quiet shutdown" "quiet workerList" "quiet (workerRead w)" "quiet (threadList q)" "quiet (threadSearch text q)"
  "quiet (threadRead t l asc)" "quiet (threadMessages t mq)" "quiet (threadStatus th)" "quiet (threadSettingsRead t)"
  "quiet (threadBashAbort t)" "quiet (threadCommandsList t)" "quiet (threadContextStats t)" "quiet (modelsList provider)"
  "quiet (usageRead th)" "quiet (threadSteer t prompt)" "quiet (threadFollowUp t prompt)"
  "quiet (threadExportHtml temp t)" "quiet (threadExtensionUiRespond t rid resp)"
  unfolding shutdown_def workerList_def workerRead_def threadList_def threadSearch_def threadRead_def threadMessages_def
    threadStatus_def threadSettingsRead_def threadBashAbort_def threadCommandsList_def threadContextStats_def modelsList_def
    usageRead_def threadSteer_def threadFollowUp_def threadExportHtml_def threadExtensionUiRespond_def Let_def
  by (intro quiet_rules; simp add: draft_of_def)+

lemma meets_mutations:
  "meets (threadFork t entry name)" "meets (threadClone t name)" "meets (threadNameSet t n)" "meets (threadSettingsUpdate t u)"
  "meets (threadCompact t p)" "meets (threadBashRun t c)"
  unfolding threadFork_def threadClone_def threadNameSet_def threadSettingsUpdate_def threadCompact_def threadBashRun_def
  by (intro meets_bind meets_with_mutation meets_quiet [OF quiet_access(3)] quiet_rules)+

lemma meets_methods: "\<forall>(method, operation) \<in> set (methods temp params). method = ''thread/start'' \<or> meets operation"
proof -
  have turn: "meets m \<Longrightarrow> meets (turn_result m)" for m
    unfolding turn_result_def by (rule meets_bind, assumption) (intro meets_quiet quiet_rules)
  show ?thesis
    by (simp add: methods_def Let_def meets_quiet quiet_sync quiet_methods meets_mutations meets_send meets_abort turn)
qed

lemma meets_dispatch: "method \<noteq> ''thread/start'' \<Longrightarrow> meets (dispatch temp method params)"
proof -
  assume "method \<noteq> ''thread/start''"
  moreover note meets_methods [of temp params]
  ultimately show "meets (dispatch temp method params)"
    unfolding dispatch_def using meets_quiet [OF quiet_sync(2)] by (fastforce split: option.splits dest: map_of_SomeD)
qed

end

text \<open>A predicate that any turn may start in is kept by \<open>thread/start\<close> too.\<close>

lemma quiet_new_session [quiet_rules]: "quiet (set_worker w f)" "quiet newTurnId" "quiet (not_cancelled data c)"
  by (intro quiet_rules quiet_settings)+

locale start_contract = session_contract +
  assumes started: "P (a, m) \<Longrightarrow> P (a(t \<mapsto> turn_on turn w), m)"
begin

lemma meets_start: "meets (threadStart cwd prompt name model thinking)"
proof -
  have act: "meets (update (activate_turn t turn w payload))" for t turn w payload
    using started by (intro meetsI) (simp add: update_def core_activate, simp add: core_def)
  have cond: "meets m \<Longrightarrow> meets n \<Longrightarrow> meets (if b then m else n)" for m n :: "'x sop" and b by simp
  have pair: "(\<And>x y. meets (f x y)) \<Longrightarrow> meets (case z of (x, y) \<Rightarrow> f x y)" for f :: "'x \<Rightarrow> 'y \<Rightarrow> 'z sop" and z by (cases z) auto
  have start: "meets (start_with w c prompt name model thinking)" for w c
    unfolding start_with_def Let_def
    by (intro meets_bind act pair; (intro meets_quiet quiet_rules quiet_settings)?)
  have handler: "meets m \<Longrightarrow> (\<And>e. meets (h e)) \<Longrightarrow> meets (try_catch m h)" for m h
    by (rule meetsI, rule meets_try, erule (2) meetsD) (auto intro: meetsD)
  show ?thesis unfolding threadStart_def
    by (intro meets_bind handler start; (intro meets_quiet quiet_rules)?)
qed

lemma meets_any: "meets (dispatch temp method params)"
proof (cases "method = ''thread/start''")
  case True
  then show ?thesis
    by (simp add: dispatch_def methods_def Let_def turn_result_def) (intro meets_bind meets_start meets_quiet quiet_rules)
qed (rule meets_dispatch)

end

end
