(* ===== verification/Service_Theorems.thy ===== *)
theory Service_Theorems
  imports Service_Contract Worker_Pool_Theorems Catalog_Props
begin

text \<open>
  The properties of \<open>PiThreadsService\<close>: the two instances of the contract (exclusion of turns and
  mutations, release of mutations), the reservation of a send, the end of a turn and its cleanup, and
  the selection of models.
\<close>

section \<open>Instances of the contract\<close>

text \<open>Other code that takes neither a turn that this operation drew nor a thread that is being mutated.\<close>

fun foreign :: "ostep \<Rightarrow> bool" where
  "foreign (OStartTurn _ _ _) = False"
| "foreign (OActivate _ turn _) = (turn \<notin> range turn_name)"
| "foreign (OCancel _ turn) = (turn \<notin> range turn_name)"
| "foreign (OAgentRun _ turn) = (turn \<notin> range turn_name)"
| "foreign _ = True"

fun exclusive :: "(string \<Rightarrow> active_turn option) \<times> string set \<Rightarrow> bool" where
  "exclusive (active, mutations) = (\<forall>t \<in> mutations. active t = None)"

fun reserving :: "string \<Rightarrow> string \<Rightarrow> (string \<Rightarrow> active_turn option) \<times> string set \<Rightarrow> bool" where
  "reserving t turn (active, mutations) = (active t = Some (reservation turn) \<and> t \<notin> mutations)"

lemma end_turn_maps [simp]:
  "sv_active (end_turn t w s) = (sv_active s)(t := None)" "sv_mutations (end_turn t w s) = sv_mutations s"
  by (auto simp: end_turn_def Let_def set_active_def split: option.splits prod.splits)

lemma set_active_maps [simp]:
  "sv_active (set_active t a s) = (sv_active s)(t := a)" "sv_mutations (set_active t a s) = sv_mutations s"
  by (simp_all add: set_active_def)

lemma upd_pool_maps [simp]:
  "sv_active (upd_pool f s) = sv_active s" "sv_mutations (upd_pool f s) = sv_mutations s"
  "sv_shuttingDown (upd_pool f s) = sv_shuttingDown s"
  by (simp_all add: upd_pool_def)

lemma exclusive_stable: "stable foreign exclusive"
proof -
  have "exclusive (core (run_ostep i s))" if "foreign i" "exclusive (core s)" for i s
    using that by (cases i) (auto simp: core_def split: option.splits sum.splits)
  then show ?thesis by (simp add: stable_def)
qed

text \<open>A reservation is kept by other code, whatever its invariant.\<close>

fun keeps_turn :: "string \<Rightarrow> string \<Rightarrow> ostep \<Rightarrow> bool" where
  "keeps_turn t turn (OStartTurn t' _ _) = (t' \<noteq> t)"
| "keeps_turn t turn (OActivate _ turn' _) = (turn' \<noteq> turn)"
| "keeps_turn t turn (OCancel _ turn') = (turn' \<noteq> turn)"
| "keeps_turn t turn (OAgentRun _ turn') = (turn' \<noteq> turn)"
| "keeps_turn t turn _ = True"

lemma reserving_step: "keeps_turn t turn i \<Longrightarrow> reserving t turn (core s) \<Longrightarrow> reserving t turn (core (run_ostep i s))"
  by (cases i) (auto simp: core_def split: option.splits sum.splits)

lemma foreign_keeps_turn: "foreign i \<Longrightarrow> keeps_turn t (turn_name n) i"
  by (cases i) auto

lemma reserving_stable: "stable (keeps_turn t turn) (reserving t turn)"
  by (simp add: stable_def reserving_step)

lemma stable_both: "stable A P \<Longrightarrow> stable B S \<Longrightarrow> (\<And>i. A i \<Longrightarrow> B i) \<Longrightarrow> stable A (\<lambda>c. P c \<and> S c)"
  by (simp add: stable_def)

interpretation exclusion: session_contract foreign exclusive "\<lambda>t. exclusive" "\<lambda>t turn c. exclusive c \<and> reserving t turn c"
proof unfold_locales
  show "stable foreign (\<lambda>c. exclusive c \<and> reserving t (turn_name n) c)" for t n
    by (rule stable_both [OF exclusive_stable reserving_stable]) (rule foreign_keeps_turn)
qed (auto intro: exclusive_stable)

text \<open>Other code that does not mutate sessions.\<close>

fun not_mutating :: "ostep \<Rightarrow> bool" where
  "not_mutating (OMutate _) = False"
| "not_mutating (OMutated _) = False"
| "not_mutating _ = True"

lemma mutations_stable: "stable not_mutating (\<lambda>c. S (snd c))"
proof -
  have "snd (core (run_ostep i s)) = snd (core s)" if "not_mutating i" for i s
    using that by (cases i) (auto simp: core_def split: option.splits sum.splits)
  then show ?thesis by (simp add: stable_def)
qed

interpretation release_mutations: start_contract not_mutating "\<lambda>c. snd c = M" "\<lambda>t c. snd c = insert t M \<and> t \<notin> M" "\<lambda>t turn c. snd c = M"
  for M
  by unfold_locales (auto intro: mutations_stable [of "\<lambda>m. m = M" for M] mutations_stable [of "\<lambda>m. m = insert t M \<and> t \<notin> M" for t M])

section \<open>Properties\<close>

text \<open>
  C1. No thread has a turn and a mutation at once: every method of the protocol except
  \<open>thread/start\<close>, from a state in which no mutated thread has an active turn, keeps it so wherever
  it is suspended and when it has finished, whatever the schedule of other code is, as long as no
  turn is started in a thread of an existing session and nobody else uses the turn ids it draws.
\<close>

theorem turns_and_mutations_exclude:
  assumes "\<forall>t \<in> sv_mutations s. sv_active s t = None" "sch_ok foreign sch" "meth \<noteq> ''thread/start''"
  shows "case dispatch temp meth args s sch of
      Waiting s' \<Rightarrow> \<forall>t \<in> sv_mutations s'. sv_active s' t = None
    | Finished r s' sch' \<Rightarrow> \<forall>t \<in> sv_mutations s'. sv_active s' t = None"
  using exclusion.meetsD [OF exclusion.meets_dispatch [OF assms(3), of temp args], of s sch] assms(1, 2)
  by (auto simp: exclusion.suspended_def core_def split: run.splits)

text \<open>
  C2. A mutation is never left behind: whatever a method of the protocol does and however it ends,
  when it has finished, the set of threads being mutated is the one it found, and while it is
  suspended at most one more thread is in it, unless other code mutates meanwhile.
\<close>

theorem mutations_are_released:
  assumes "sch_ok not_mutating sch"
  shows "case dispatch temp meth args s sch of
      Waiting s' \<Rightarrow> sv_mutations s' = sv_mutations s \<or> (\<exists>t. t \<notin> sv_mutations s \<and> sv_mutations s' = insert t (sv_mutations s))
    | Finished r s' sch' \<Rightarrow> sv_mutations s' = sv_mutations s"
  using release_mutations.meetsD [OF release_mutations.meets_any [of "sv_mutations s" temp meth args], of s sch] assms
  by (auto simp: release_mutations.suspended_def core_def split: run.splits)

text \<open>
  C3. A send holds its reservation and gives it up. While it is suspended the thread has the reserved
  turn without a worker, and another send or mutation of the thread is refused as busy; when it has
  failed the thread has no active turn; when it has succeeded the turn is active on the worker that
  the answer names.
\<close>

theorem send_holds_its_reservation:
  assumes "sv_active s t = Some (reservation turn)" "t \<notin> sv_mutations s" "t = si_id session" "sch_ok (keeps_turn t turn) sch"
  shows "case send_reserved session turn prompt model thinking s sch of
      Waiting s' \<Rightarrow> sv_active s' t = Some (reservation turn) \<and> reserveTurn t other s' [] = Finished (Inl (busy_error t)) s' [] \<and>
        assert_not_busy t s' [] = Finished (Inl (busy_error t)) s' []
    | Finished (Inl e) s' sch' \<Rightarrow> sv_active s' t = None \<and> t \<notin> sv_mutations s'
    | Finished (Inr a) s' sch' \<Rightarrow> ac_threadId a = t \<and> ac_turnId a = turn \<and> ac_status a = ''accepted'' \<and>
        sv_active s' t = Some (turn_on turn (ac_workerId a)) \<and> t \<notin> sv_mutations s'"
proof -
  let ?F = "\<lambda>r c. case r of Inl e \<Rightarrow> fst c t = None \<and> t \<notin> snd c
    | Inr a \<Rightarrow> ac_threadId a = t \<and> ac_turnId a = turn \<and> ac_status a = ''accepted'' \<and>
        fst c t = Some (turn_on turn (ac_workerId a)) \<and> t \<notin> snd c"
  have "run_meets (keeps_turn t turn) (\<lambda>s. reserving t turn (core s)) (\<lambda>r s. ?F r (core s))
      (send_reserved session turn prompt model thinking s sch)"
    by (rule reserved_meets) (use assms reserving_stable in \<open>auto simp: core_def accepted_def\<close>)
  then show ?thesis
    by (auto simp: core_def reserveTurn_def call_def assert_not_busy_def throwing_def split: run.splits sum.splits)
qed

text \<open>
  C4. A terminal event ends its turn once. Emitted for the active turn of a thread, with the turn's id,
  it removes the entry of that thread and no other, starts one cleanup and registers it for the thread; when the turn's worker still holds the
  thread and is available, the worker loses its turn and the cleanup is the worker's. Emitted again,
  the event changes none of the maps.
\<close>

theorem terminal_event_ends_turn_once:
  assumes "sv_active s t = Some a" "at_workerId a = Some w" "at_turnId a = turn" "w \<noteq> []" "t \<noteq> []" "turn \<noteq> []" "\<not> sv_shuttingDown s"
    and "dr_threadId d = Some t" "dr_turnId d = Some turn" "dr_type d \<in> {TurnCompleted, TurnFailed, TurnAborted}"
  shows "\<exists>c. let s' = emit_daemon d s; s'' = emit_daemon d s'; held = (findByThread t (sv_pool s) = Some w) in
    sv_active s' = (sv_active s)(t := None) \<and> sv_cleanups s' = (sv_cleanups s)(t \<mapsto> sv_nextCleanup s) \<and>
    sv_started s' = sv_started s @ [(sv_nextCleanup s, c)] \<and>
    (if held then c = CleanWorker w t \<and> w_activeTurnId (obj (sv_pool s') w) = None
     else c = CleanOwned t (fst (resolve_begin (sv_world s) t (sv_catalog s)))) \<and>
    sv_active s'' = sv_active s' \<and> sv_cleanups s'' = sv_cleanups s' \<and> sv_started s'' = sv_started s'"
proof -
  have again: "sv_active r t = None \<Longrightarrow> handleDaemonEvent d (upd_pool f r) = upd_pool f r" for r f
    using assms(8, 9) by (auto simp: handleDaemonEvent_def event_turn_def)
  have turn: "event_turn d (upd_pool (emit_event d) s) = Some (t, a, w)"
    using assms by (simp add: event_turn_def)
  have available: "findByThread t (sv_pool s) = Some w \<Longrightarrow> \<not> isUnavailableWorker (obj (sv_pool s) w)"
    by (auto simp: findByThread_def find_Some_iff)
  have found: "findByThread t (sv_pool (upd_pool (emit_event d) s)) = findByThread t (sv_pool s)"
    by (simp add: findByThread_def upd_pool_def emit_event_def)
  show ?thesis
  proof (cases "findByThread t (sv_pool s) = Some w")
    case True
    have "emit_daemon d s = end_turn t (Some w) (upd_pool (send_command w (JObj [(''type'', JStr ''get_state'')]))
        (upd_pool (set_obj w (\<lambda>u. u\<lparr>w_activeTurnId := None\<rparr>)) (upd_pool (emit_event d) s)))"
      using assms(7, 10) available [OF True] turn found True
      by (auto simp: emit_daemon_def handleDaemonEvent_def Let_def upd_pool_def set_obj_def emit_event_def isUnavailableWorker_def)
    then show ?thesis using True again
      by (simp add: Let_def emit_daemon_def) (simp add: end_turn_def Let_def set_active_def upd_pool_def send_command_def set_obj_def emit_event_def)
  next
    case False
    have "emit_daemon d s = end_turn t None (upd_pool (emit_event d) s)"
      using assms(7, 10) turn found False
      by (auto simp: emit_daemon_def handleDaemonEvent_def Let_def)
    then show ?thesis using False again
      by (simp add: Let_def emit_daemon_def) (auto simp: end_turn_def Let_def set_active_def upd_pool_def emit_event_def split: prod.splits)
  qed
qed

text \<open>
  C5. The cleanup of a turn returns. When the promise it awaits has settled, with a value or an error, it
  finishes without an error, its entry in \<open>turnCleanups\<close> is gone, so that the sends and mutations that
  wait for it go on, and the worker of the turn has been released.
\<close>

theorem cleanup_returns:
  "\<exists>s'. run_cleanup source t turn w n c s ((is, Some r) # sch) = Finished (Inr ()) s' sch \<and> sv_cleanups s' t \<noteq> Some n \<and>
     (\<forall>v. c = CleanWorker v t \<longrightarrow> (\<exists>p log. sv_pool s' = (release v (Some t) p)\<lparr>po_log := log\<rparr>))"
proof -
  have emit: "emit_daemon d s1 = upd_pool (emit_event d) s1" if "dr_type d = ThreadUpdated" for d s1
    unfolding emit_daemon_def using that by (intro handle_other) simp
  have error: "sv_cleanups (internal_error source x y z e s1) = sv_cleanups s1 \<and>
      (\<exists>log. sv_pool (internal_error source x y z e s1) = (sv_pool s1)\<lparr>po_log := log\<rparr>)" for x y z e s1
    unfolding internal_error_def by (subst (1 2) emit) (auto simp: draft_of_def upd_pool_def emit_event_def)
  have refl: "\<exists>log. p = p\<lparr>po_log := log\<rparr>" for p :: pool by (intro exI [of _ "po_log p"]) simp
  have work: "\<exists>x s1. cleanup_work c s ((is, Some r) # sch) = Finished x s1 sch \<and>
      (\<forall>v. c = CleanWorker v t \<longrightarrow> (\<exists>p. sv_pool s1 = release v (Some t) p))"
  proof (cases c)
    case (CleanOwned u begun)
    then show ?thesis
      by (cases begun; cases r)
        (auto simp: cleanup_work_def resolve_rest_def pause_def list_catalog_def stmt_def throwing_def seq_def ret_def update_owned_def
          update_catalog_def call_def Let_def split: sum.splits prod.splits)
  next
    case (CleanWorker v u)
    then show ?thesis
      by (cases r) (auto simp: cleanup_work_def refreshWorkerSession_def command_rest_def update_def try_catch_def try_finally_def seq_def
          ret_def raise_def query_def release_worker_def update_catalog_def call_def upd_pool_def Let_def split: sum.splits)
  qed
  then obtain x s1 where w: "cleanup_work c s ((is, Some r) # sch) = Finished x s1 sch"
      "\<And>v. c = CleanWorker v t \<Longrightarrow> \<exists>p. sv_pool s1 = release v (Some t) p" by blast
  let ?s = "run_ostep (OCleanupDone t n) s1"
  have after: "sv_cleanups ?s t \<noteq> Some n" "sv_pool ?s = sv_pool s1" by simp_all
  have run: "run_cleanup source t turn w n c s ((is, Some r) # sch) =
      Finished (Inr ()) (case x of Inl e \<Rightarrow> internal_error source (Some t) (Some turn) w e ?s | Inr _ \<Rightarrow> ?s) sch" for w
    by (cases x) (simp_all add: run_cleanup_def try_catch_def try_finally_def w(1) update_def del: run_ostep.simps)
  show ?thesis
  proof (cases x)
    case (Inl e)
    then show ?thesis using run after w(2) error [of "Some t" "Some turn" w e ?s]
      by (auto simp del: run_ostep.simps) metis
  next
    case (Inr y)
    have "\<forall>v. c = CleanWorker v t \<longrightarrow> (\<exists>p log. sv_pool ?s = (release v (Some t) p)\<lparr>po_log := log\<rparr>)"
      using w(2) after(2) refl by metis
    with Inr show ?thesis using run after(1) by (auto simp del: run_ostep.simps)
  qed
qed

text \<open>
  C6. What is announced is what has been started: when \<open>thread/start\<close> answers, the turn it names is active on the
  worker it names, the worker holds that thread and that turn, the last event is the acceptance of the
  turn, and a prompt, when there is one, is the last command that was sent; without a prompt the
  completion of the turn has been queued.
\<close>

theorem start_announces_its_turn:
  "case threadStart cwd prompt name model thinking s sch of
      Waiting s' \<Rightarrow> True
    | Finished (Inl e) s' sch' \<Rightarrow> True
    | Finished (Inr a) s' sch' \<Rightarrow>
        let t = ac_threadId a; turn = ac_turnId a; w = ac_workerId a; u = obj (sv_pool s') w in
        sv_active s' t = Some (turn_on turn w) \<and> w_threadId u = Some t \<and> w_activeTurnId u = Some turn \<and>
        (\<exists>log payload. po_log (sv_pool s') = log @ [daemon_draft TurnAccepted t turn w payload]) \<and>
        (if truthy prompt then w_state u = Running \<and> last (sv_launched s') = PromptReply t turn w \<and>
          (\<exists>sent. po_sent (sv_pool s') = sent @ [(w, cmd_json ''prompt'' [(''message'', JStr (the prompt))])])
         else last (sv_launched s') = PromptlessTurn t turn w)"
proof -
  define F :: "accepted_turn result \<Rightarrow> service \<Rightarrow> bool" where "F = (\<lambda>r s'. case r of Inl e \<Rightarrow> True | Inr a \<Rightarrow>
        let t = ac_threadId a; turn = ac_turnId a; w = ac_workerId a; u = obj (sv_pool s') w in
        sv_active s' t = Some (turn_on turn w) \<and> w_threadId u = Some t \<and> w_activeTurnId u = Some turn \<and>
        (\<exists>log payload. po_log (sv_pool s') = log @ [daemon_draft TurnAccepted t turn w payload]) \<and>
        (if truthy prompt then w_state u = Running \<and> last (sv_launched s') = PromptReply t turn w \<and>
          (\<exists>sent. po_sent (sv_pool s') = sent @ [(w, cmd_json ''prompt'' [(''message'', JStr (the prompt))])])
         else last (sv_launched s') = PromptlessTurn t turn w))"
  have any: "run_meets (\<lambda>_. True) (\<lambda>_. True) (\<lambda>_ _. True) r" for r :: "(service, ostep, sreply, 'x) run"
    by (cases r) simp_all
  have step: "(\<And>x s sch. run_meets (\<lambda>_. True) (\<lambda>_. True) F (f x s sch)) \<Longrightarrow>
      run_meets (\<lambda>_. True) (\<lambda>_. True) F (seq m f s sch)" for m :: "'x sop" and f s sch
    by (rule meets_seq, rule any) (simp_all add: F_def)
  have activate: "activate_turn t turn w payload s1 = upd_pool (emit_event (daemon_draft TurnAccepted t turn w payload))
      (set_active t (Some (turn_on turn w)) s1)" for t turn w payload s1
    unfolding activate_turn_def emit_daemon_def by (intro handle_other) (simp add: daemon_draft_def draft_of_def)
  have tail: "run_meets (\<lambda>_. True) (\<lambda>_. True) F (seq (set_worker w (\<lambda>u. u\<lparr>w_threadId := Some t\<rparr>)) (\<lambda>_.
     seq (update_catalog st) (\<lambda>_. seq newTurnId (\<lambda>turn.
     seq (set_worker w (\<lambda>u. u\<lparr>w_activeTurnId := Some turn\<rparr>)) (\<lambda>_.
     seq (update (activate_turn t turn w payload)) (\<lambda>_.
     seq (if truthy prompt then seq (set_worker w (\<lambda>u. u\<lparr>w_state := Running\<rparr>)) (\<lambda>_. submitPrompt t turn w (the prompt)) else launch (PromptlessTurn t turn w)) (\<lambda>_.
       ret (accepted t turn w ''accepted'' None)))))))  s sch)" for w t st payload s sch
    by (auto simp: set_worker_def async_simps seq_assoc update_catalog_def newTurnId_run activate submitPrompt_def launch_def accepted_def F_def Let_def
        upd_pool_def set_active_def set_obj_def emit_event_def send_command_def split: sum.splits)
  have start: "run_meets (\<lambda>_. True) (\<lambda>_. True) F (start_with w c prompt name model thinking s sch)" for w c s sch
    unfolding start_with_def prod.case_eq_if Let_def
    by (rule tail step)+
  have "run_meets (\<lambda>_. True) (\<lambda>_. True) F (threadStart cwd prompt name model thinking s sch)"
    unfolding threadStart_def
    by (intro step, rule meets_try, rule start) (simp_all add: set_worker_def release_worker_def async_simps F_def)
  then show ?thesis by (cases "threadStart cwd prompt name model thinking s sch") (auto simp: F_def split: sum.splits)
qed


section \<open>External writers\<close>






section \<open>Witnesses\<close>

definition witness_world :: world where
  "witness_world = \<lparr>wo_nodes = (\<lambda>_. None), wo_here = ''/'', wo_home = ''/h'', wo_env = (\<lambda>_. None), wo_now = 7,
     wo_date_parse = (\<lambda>_. None), wo_iso = (\<lambda>_. ''iso''), wo_json_parse = (\<lambda>_. Inl ''SyntaxError'')\<rparr>"

definition witness_info :: session_info where
  "witness_info = \<lparr>si_path = ''/s/t'', si_id = ''t'', si_cwd = ''/w'', si_name = None, si_parent = None, si_created = 1,
     si_modified = 3, si_messageCount = 0, si_firstMessage = [], si_allMessagesText = []\<rparr>"

definition witness_pool :: pool where
  "witness_pool = (new_pool \<lparr>op_minWorkers = 0, op_maxWorkers = 1, op_idleTtlMs = 1000, op_reuseAcrossThreads = None,
      op_prewarmCwd = ''/'', op_reapIntervalMs = None\<rparr> None 0)
     \<lparr>po_objs := (\<lambda>_. no_worker)(''w1'' := no_worker\<lparr>w_cwd := ''/w'', w_state := Assigned, w_threadId := Some ''t'', w_child := True\<rparr>),
      po_workers := [''w1'']\<rparr>"

definition witness_service :: service where
  "witness_service = \<lparr>sv_pool = witness_pool,
     sv_catalog = \<lparr>ct_byId = [''t'' \<mapsto> witness_info], ct_baselines = Map.empty, ct_unpersisted = {''t''}\<rparr>,
     sv_world = witness_world, sv_defaults = (None, None), sv_reuseAcrossThreads = False, sv_startedAt = 0,
     sv_active = Map.empty, sv_cleanups = Map.empty, sv_mutations = {''other''}, sv_transports = [], sv_shuttingDown = False,
     sv_nextTurn = 1, sv_nextCleanup = 1, sv_started = [], sv_launched = []\<rparr>"

lemmas service_eval = seq_def pause_def await_reply_def await_cleanup_def stmt_def throwing_def query_def ret_def raise_def update_def
  call_def try_catch_def try_finally_def command_rest_def worker_command_def worker_state_read_def resolveThread_def resolve_rest_def
  upd_pool_def retain_worker_def release_worker_def set_worker_def update_catalog_def acquireSessionWorker_def assertResumable_def
  assert_unchanged_def assert_not_busy_def begin_mutation_def end_mutation_def mutate_session_def mutation_cleanup_def
  refresh_mutated_def withSessionMutation_def interfere_def Let_def resolve_begin_def existsSync_def node_at_def assertUnchanged_def
  findByThread_def isUnavailableWorker_def retain_def assertRunning_def set_obj_def send_command_def command_done_def set_active_def
  release_def emit_event_def

lemmas witness_eval = witness_service_def witness_pool_def witness_info_def witness_world_def new_pool_def no_worker_def

text \<open>A run of \<open>thread/name/set\<close>, suspended in the worker's command and, with two more replies, finished.\<close>

definition name_params :: json where
  "name_params = JObj [(''threadId'', JStr ''t''), (''name'', JStr ''n'')]"

abbreviation resolved_schedule :: "(ostep, sreply) schedule" where
  "resolved_schedule \<equiv> [([OReserve ''u'' ''x''], Some SvOk), ([], Some SvOk), ([], Some SvOk)]"

lemma name_set_suspended:
  "\<exists>s'. dispatch ''/tmp'' ''thread/name/set'' name_params witness_service (resolved_schedule @ [([OMutate ''v''], None)]) = Waiting s' \<and>
     sv_mutations s' = {''t'', ''v'', ''other''} \<and> sv_active s' = [''u'' \<mapsto> reservation ''x'']"
  by (auto simp: dispatch_def methods_def text_param_def name_params_def threadNameSet_def service_eval witness_eval)

lemma name_set_finished:
  "\<exists>s'. dispatch ''/tmp'' ''thread/name/set'' name_params witness_service (resolved_schedule @
       [([], Some (SvData JUndefined)), ([], Some (SvData (JObj [])))]) =
       Finished (Inr (JObj [(''threadId'', JStr ''t''), (''name'', JStr ''n'')])) s' [] \<and> sv_mutations s' = {''other''}"
  by (auto simp: dispatch_def methods_def text_param_def name_params_def threadNameSet_def service_eval witness_eval
      command_done_def Service_State.state_of_def string_or_def updateFromWorkerState_def)

theorem turns_and_mutations_exclude_witness:
  "\<exists>s'. dispatch ''/tmp'' ''thread/name/set'' name_params witness_service (resolved_schedule @ [([OMutate ''v''], None)]) = Waiting s' \<and>
     sv_mutations s' = {''t'', ''v'', ''other''} \<and> (\<forall>t \<in> sv_mutations s'. sv_active s' t = None)"
proof -
  have start: "\<forall>t \<in> sv_mutations witness_service. sv_active witness_service t = None" by (simp add: witness_service_def)
  have others: "sch_ok foreign (resolved_schedule @ [([OMutate ''v''], None)])" by (simp add: sch_ok_def)
  obtain s' where run: "dispatch ''/tmp'' ''thread/name/set'' name_params witness_service
      (resolved_schedule @ [([OMutate ''v''], None)]) = Waiting s'" "sv_mutations s' = {''t'', ''v'', ''other''}"
    using name_set_suspended by blast
  have "''thread/name/set'' \<noteq> ''thread/start''" by simp
  from turns_and_mutations_exclude [OF start others this, where temp = "''/tmp''" and args = name_params] run show ?thesis by simp
qed

theorem mutations_are_released_witness:
  "\<exists>s'. dispatch ''/tmp'' ''thread/name/set'' name_params witness_service (resolved_schedule @
       [([], Some (SvData JUndefined)), ([], Some (SvData (JObj [])))]) =
       Finished (Inr (JObj [(''threadId'', JStr ''t''), (''name'', JStr ''n'')])) s' [] \<and>
     sv_mutations s' = sv_mutations witness_service"
proof -
  let ?sch = "resolved_schedule @ [([], Some (SvData JUndefined)), ([], Some (SvData (JObj [])))]"
  have others: "sch_ok not_mutating ?sch" by (simp add: sch_ok_def)
  obtain s' where run: "dispatch ''/tmp'' ''thread/name/set'' name_params witness_service ?sch =
      Finished (Inr (JObj [(''threadId'', JStr ''t''), (''name'', JStr ''n'')])) s' []"
    using name_set_finished by blast
  from mutations_are_released [OF others, where temp = "''/tmp''" and meth = "''thread/name/set''" and args = name_params and s = witness_service] run
  show ?thesis by simp
qed

definition reserved_service :: service where
  "reserved_service = set_active ''t'' (Some (reservation ''turn_1'')) witness_service"

theorem send_holds_its_reservation_witness:
  "\<exists>a s'. send_reserved witness_info ''turn_1'' ''hi'' None None reserved_service [] = Finished (Inr a) s' [] \<and>
     ac_threadId a = ''t'' \<and> sv_active s' ''t'' = Some (turn_on ''turn_1'' (ac_workerId a))"
proof -
  have state: "sv_active reserved_service ''t'' = Some (reservation ''turn_1'')" "''t'' \<notin> sv_mutations reserved_service"
    "''t'' = si_id witness_info" "sch_ok (keeps_turn ''t'' ''turn_1'') []"
    by (simp_all add: reserved_service_def witness_service_def witness_info_def sch_ok_def)
  obtain a s' where run: "send_reserved witness_info ''turn_1'' ''hi'' None None reserved_service [] = Finished (Inr a) s' []"
    by (simp add: send_reserved_def reserved_service_def send_with_def applySettings_def submitPrompt_def launch_def service_eval witness_eval)
  from send_holds_its_reservation [OF state, where prompt = "''hi''" and model = None and thinking = None] run show ?thesis by auto
qed

definition active_service :: service where
  "active_service = set_active ''t'' (Some (turn_on ''x'' ''w1'')) witness_service"

theorem terminal_event_ends_turn_once_witness:
  "let s' = emit_daemon (daemon_draft TurnCompleted ''t'' ''x'' ''w1'' []) active_service in
     sv_active s' = (sv_active active_service)(''t'' := None) \<and> sv_started s' = [(1, CleanWorker ''w1'' ''t'')]"
proof -
  let ?d = "daemon_draft TurnCompleted ''t'' ''x'' ''w1'' []"
  have held: "findByThread ''t'' (sv_pool active_service) = Some ''w1''"
    by (simp add: active_service_def set_active_def findByThread_def isUnavailableWorker_def witness_eval)
  have fields: "sv_nextCleanup active_service = 1" "sv_started active_service = []"
    by (simp_all add: active_service_def set_active_def witness_service_def)
  have "sv_active active_service ''t'' = Some (turn_on ''x'' ''w1'')" "\<not> sv_shuttingDown active_service"
    by (simp_all add: active_service_def set_active_def witness_service_def)
  from terminal_event_ends_turn_once [OF this(1) _ _ _ _ _ this(2), of "''w1''" "''x''" ?d] held fields
  show ?thesis by (auto simp: daemon_draft_def draft_of_def Let_def)
qed

theorem cleanup_returns_witness:
  "\<exists>s'. run_cleanup TurnCompleted ''t'' ''x'' (Some ''w1'') 1 (CleanWorker ''w1'' ''t'') witness_service
       [([OShutdown], Some (SvError (JsError ''closed'')))] = Finished (Inr ()) s' [] \<and>
     (\<exists>p log. sv_pool s' = (release ''w1'' (Some ''t'') p)\<lparr>po_log := log\<rparr>)"
  using cleanup_returns [of TurnCompleted "''t''" "''x''" "Some ''w1''" 1 "CleanWorker ''w1'' ''t''" witness_service "[OShutdown]"
    "SvError (JsError ''closed'')" "[]"] by auto

abbreviation start_schedule :: "(ostep, sreply) schedule" where
  "start_schedule \<equiv> [([], Some (SvPool (\<lambda>p. p) [([], Some (RVersion ''1.0.2'')), ([], Some ROk)])), ([], Some (SvData JUndefined)), ([], Some (SvData JUndefined)),
     ([], Some (SvData (JObj [(''sessionId'', JStr ''n'')])))]"

theorem start_announces_its_turn_witness:
  "\<exists>a s'. threadStart ''/w'' (Some ''hi'') None None None (witness_service\<lparr>sv_pool := sample_pool\<rparr>) start_schedule =
       Finished (Inr a) s' [] \<and> ac_threadId a = ''n'' \<and> sv_active s' ''n'' = Some (turn_on (ac_turnId a) (ac_workerId a)) \<and>
     w_state (obj (sv_pool s') (ac_workerId a)) = Running"
proof -
  have here: "resolve ''/'' ''/w'' = ''/w''" by code_simp
  obtain a s' where run: "threadStart ''/w'' (Some ''hi'') None None None (witness_service\<lparr>sv_pool := sample_pool\<rparr>) start_schedule =
      Finished (Inr a) s' []" "ac_threadId a = ''n''"
    by (simp add: threadStart_def start_with_def witness_service_def witness_world_def here sample_held withDefaults_def
        applyResolvedSettings_def not_cancelled_def activate_turn_def submitPrompt_def launch_def newTurnId_def accepted_def service_eval
        Service_State.state_of_def string_or_def updateFromWorkerState_def)
  from start_announces_its_turn [where cwd = "''/w''" and prompt = "Some ''hi''" and name = None and model = None and thinking = None
    and s = "witness_service\<lparr>sv_pool := sample_pool\<rparr>" and sch = start_schedule] run
  show ?thesis by (auto simp: Let_def)
qed





end
