(* ===== verification/Cli_Completion.thy ===== *)
theory Cli_Completion
  imports Configuration
begin

text \<open>
  \<open>src/cli/completion.ts\<close> and the commands that \<open>src/cli/commands.ts\<close> declares: the tree of commands
  with their options and arguments, the words already typed read along that tree, and the words
  that may come next. The parsing of a command line itself is the library's.
\<close>

section \<open>Commands\<close>

text \<open>
  An option has a long and a short flag, takes a value or not, and may restrict its values; an
  argument may restrict its values too.
\<close>

record cli_option =
  oc_long :: "string option"
  oc_short :: "string option"
  oc_required :: bool
  oc_optional :: bool
  oc_hidden :: bool
  oc_choices :: "string list option"

datatype cli_command =
  Command (cm_name: string) (cm_options: "cli_option list") (cm_arguments: "string list option list")
    (cm_hidden: bool) (cm_commands: "cli_command list")

text \<open>What a value is completed for: \<open>Option | Argument\<close>.\<close>

datatype value_target = OptionValue cli_option | ArgumentValue "string list option"

definition takes_value :: "cli_option \<Rightarrow> bool" where
  "takes_value opt = (oc_required opt \<or> oc_optional opt)"

fun unique :: "'a list \<Rightarrow> 'a list" where
  "unique [] = []"
| "unique (x # xs) = x # filter (\<lambda>y. y \<noteq> x) (unique xs)"

definition optionsForCommand :: "cli_command \<Rightarrow> cli_command \<Rightarrow> cli_option list" where
  "optionsForCommand c prog = (if c = prog then cm_options c else cm_options c @ cm_options prog)"

definition subcommandCandidates :: "cli_command \<Rightarrow> string list" where
  "subcommandCandidates c = map cm_name (filter (\<lambda>d. \<not> cm_hidden d) (cm_commands c))"

definition visibleSubcommand :: "cli_command \<Rightarrow> string \<Rightarrow> cli_command option" where
  "visibleSubcommand c name = find (\<lambda>d. \<not> cm_hidden d \<and> cm_name d = name) (cm_commands c)"

definition optionCandidates :: "cli_command \<Rightarrow> cli_command \<Rightarrow> string list" where
  "optionCandidates c prog =
     unique (List.map_filter id (map oc_long (filter (\<lambda>opt. \<not> oc_hidden opt) (optionsForCommand c prog))))"

section \<open>Flags\<close>

definition equals_sign :: char where
  "equals_sign = CHR ''=''"

text \<open>\<open>text.slice(0, text.indexOf("="))\<close> and \<open>text.slice(text.indexOf("=") + 1)\<close> for a text with the sign.\<close>

definition flag_of :: "string \<Rightarrow> string" where
  "flag_of s = takeWhile (\<lambda>c. c \<noteq> equals_sign) s"

definition value_of :: "string \<Rightarrow> string" where
  "value_of s = drop (Suc (length (flag_of s))) s"

definition optionForToken :: "cli_command \<Rightarrow> cli_command \<Rightarrow> string \<Rightarrow> cli_option option" where
  "optionForToken c prog token =
     (if \<not> starts_with ''-'' token then None
      else let flag = (if equals_sign \<in> set token then flag_of token else token) in
        find (\<lambda>opt. oc_long opt = Some flag \<or> oc_short opt = Some flag) (optionsForCommand c prog))"

text \<open>The result is the flag, the option and the value typed so far.\<close>

definition optionValuePrefix :: "cli_command \<Rightarrow> cli_command \<Rightarrow> string \<Rightarrow> (string \<times> cli_option \<times> string) option" where
  "optionValuePrefix c prog cur =
     (if \<not> starts_with ''--'' cur \<or> equals_sign \<notin> set cur then None
      else case find (\<lambda>opt. oc_long opt = Some (flag_of cur)) (optionsForCommand c prog) of
        None \<Rightarrow> None
      | Some opt \<Rightarrow> if takes_value opt then Some (flag_of cur, opt, value_of cur) else None)"

section \<open>The words already typed\<close>

record completion_context =
  cx_command :: cli_command
  cx_operands :: "string list"
  cx_values :: "string \<Rightarrow> string list option"
  cx_pending :: "cli_option option"

definition recordOptionValue :: "cli_option \<Rightarrow> string \<Rightarrow> completion_context \<Rightarrow> completion_context" where
  "recordOptionValue opt v cx =
     (case oc_long opt of
        None \<Rightarrow> cx
      | Some flag \<Rightarrow> if flag = [] then cx
          else cx\<lparr>cx_values := (cx_values cx)(flag \<mapsto> (case cx_values cx flag of None \<Rightarrow> [] | Some vs \<Rightarrow> vs) @ [v])\<rparr>)"

definition latestOptionValue :: "(string \<Rightarrow> string list option) \<Rightarrow> string \<Rightarrow> string option" where
  "latestOptionValue vs flag = (case vs flag of None \<Rightarrow> None | Some [] \<Rightarrow> None | Some xs \<Rightarrow> Some (last xs))"

text \<open>One iteration of the loop for a word that is not \<open>--\<close>.\<close>

definition read_word :: "cli_command \<Rightarrow> string \<Rightarrow> completion_context \<Rightarrow> completion_context" where
  "read_word prog w cx =
     (case (if cx_operands cx = [] then visibleSubcommand (cx_command cx) w else None) of
        Some c \<Rightarrow> cx\<lparr>cx_command := c\<rparr>
      | None \<Rightarrow>
          (case optionForToken (cx_command cx) prog w of
             Some opt \<Rightarrow>
               if takes_value opt \<and> equals_sign \<in> set w then recordOptionValue opt (value_of w) cx
               else if takes_value opt then cx\<lparr>cx_pending := Some opt\<rparr>
               else cx
           | None \<Rightarrow> cx\<lparr>cx_operands := cx_operands cx @ [w]\<rparr>))"

fun read_words :: "cli_command \<Rightarrow> string list \<Rightarrow> completion_context \<Rightarrow> completion_context" where
  "read_words prog [] cx = cx"
| "read_words prog (w # ws) cx =
     (case cx_pending cx of
        Some opt \<Rightarrow> read_words prog ws ((recordOptionValue opt w cx)\<lparr>cx_pending := None\<rparr>)
      | None \<Rightarrow>
          if w = ''--'' then cx\<lparr>cx_operands := cx_operands cx @ ws\<rparr>
          else read_words prog ws (read_word prog w cx))"

definition completionContext :: "cli_command \<Rightarrow> string list \<Rightarrow> completion_context" where
  "completionContext prog words =
     read_words prog words \<lparr>cx_command = prog, cx_operands = [], cx_values = Map.empty, cx_pending = None\<rparr>"

section \<open>The words that may come next\<close>

text \<open>\<open>servers path\<close> is the outcome of \<open>serverNameCandidates(path)\<close> for the files of this machine.\<close>

definition safeServerCandidates :: "(string option \<Rightarrow> string list result) \<Rightarrow> string option \<Rightarrow> string list" where
  "safeServerCandidates servers path = (case servers path of Inl _ \<Rightarrow> [] | Inr names \<Rightarrow> names)"

definition valueCandidates ::
  "(string option \<Rightarrow> string list result) \<Rightarrow> value_target \<Rightarrow> (string \<Rightarrow> string list option) \<Rightarrow> string list" where
  "valueCandidates servers target vs =
     (case target of
        ArgumentValue choices \<Rightarrow> (case choices of Some cs \<Rightarrow> cs | None \<Rightarrow> [])
      | OptionValue opt \<Rightarrow>
          (case oc_choices opt of
             Some cs \<Rightarrow> cs
           | None \<Rightarrow>
               if oc_long opt = Some ''--server'' then
                 (if truthy (latestOptionValue vs ''--connect'') then []
                  else safeServerCandidates servers (latestOptionValue vs ''--config''))
               else []))"

definition resolveCompletionCandidates ::
  "(string option \<Rightarrow> string list result) \<Rightarrow> cli_command \<Rightarrow> string \<Rightarrow> string list \<Rightarrow> string list" where
  "resolveCompletionCandidates servers prog cur words =
     (let cx = completionContext prog words; c = cx_command cx in
      case optionValuePrefix c prog cur of
        Some (flag, opt, _) \<Rightarrow> map (\<lambda>v. flag @ ''='' @ v) (valueCandidates servers (OptionValue opt) (cx_values cx))
      | None \<Rightarrow>
          (case cx_pending cx of
             Some opt \<Rightarrow> valueCandidates servers (OptionValue opt) (cx_values cx)
           | None \<Rightarrow>
               if starts_with ''-'' cur then optionCandidates c prog
               else
                 let names = (if cx_operands cx = [] then subcommandCandidates c else []);
                     operands = (if length (cx_operands cx) < length (cm_arguments c)
                       then valueCandidates servers (ArgumentValue (cm_arguments c ! length (cx_operands cx))) (cx_values cx) else []);
                     found = unique (names @ operands) in
                 if found \<noteq> [] then found else optionCandidates c prog))"

definition completion_matches ::
  "(string option \<Rightarrow> string list result) \<Rightarrow> cli_command \<Rightarrow> string \<Rightarrow> string list \<Rightarrow> string list" where
  "completion_matches servers prog cur words =
     filter (starts_with cur) (resolveCompletionCandidates servers prog cur words)"

definition completionCandidates ::
  "(string option \<Rightarrow> string list result) \<Rightarrow> cli_command \<Rightarrow> string \<Rightarrow> string list \<Rightarrow> string" where
  "completionCandidates servers prog cur words =
     (let found = completion_matches servers prog cur words in
      if found \<noteq> [] then join [CHR 0x0A] found @ [CHR 0x0A] else [])"

section \<open>The completion command\<close>

text \<open>\<open>basename(path)\<close> of \<open>node:path\<close>.\<close>

definition basename :: "string \<Rightarrow> string" where
  "basename path = (case filter (\<lambda>s. s \<noteq> []) (split_on slash path) of [] \<Rightarrow> [] | segments \<Rightarrow> last segments)"

definition COMPLETION_SHELLS :: "string list" where
  "COMPLETION_SHELLS = [''bash'', ''zsh'', ''fish'']"

text \<open>\<open>shell\<close> is the value of the variable \<open>SHELL\<close>.\<close>

definition normalizeShell :: "string option \<Rightarrow> json \<Rightarrow> string result" where
  "normalizeShell shell v =
     (if v \<in> JStr ` set COMPLETION_SHELLS then Inr (js_string v)
      else if v = JUndefined then
        (let detected = basename (case shell of None \<Rightarrow> [] | Some s \<Rightarrow> s) in
         if detected \<in> set COMPLETION_SHELLS then Inr detected
         else Inl (JsError (''could not detect shell from SHELL='' @ (if detected \<noteq> [] then detected else ''(unset)'') @
           ''; pass bash, zsh, or fish'')))
      else Inl (JsError (''unsupported shell: '' @ js_string v @ ''; expected bash, zsh, or fish'')))"

definition permanentCompletionCommands :: "string \<Rightarrow> string list" where
  "permanentCompletionCommands shell =
     (if shell = ''bash'' then
        [''mkdir -p ~/.local/share/pi-threads'',
         ''pi-threads completion script bash > ~/.local/share/pi-threads/completion.bash'',
         ''printf '' @ [CHR 0x27, CHR 0x5C] @ ''nsource ~/.local/share/pi-threads/completion.bash'' @ [CHR 0x5C] @ ''n'' @ [CHR 0x27] @ '' >> ~/.bashrc'']
      else if shell = ''zsh'' then
        [''mkdir -p ~/.local/share/pi-threads'',
         ''pi-threads completion script zsh > ~/.local/share/pi-threads/completion.zsh'',
         ''printf '' @ [CHR 0x27, CHR 0x5C] @ ''nsource ~/.local/share/pi-threads/completion.zsh'' @ [CHR 0x5C] @ ''n'' @ [CHR 0x27] @ '' >> ~/.zshrc'']
      else
        [''mkdir -p ~/.config/fish/completions'',
         ''pi-threads completion script fish > ~/.config/fish/completions/pi-threads.fish''])"

definition completionInstructions :: "string \<Rightarrow> string" where
  "completionInstructions shell =
     (let currentShellCommand = (if shell = ''fish'' then ''pi-threads completion script fish | source''
        else ''source <(pi-threads completion script '' @ shell @ '')'') in
      join [CHR 0x0A]
        ([''Detected shell: '' @ shell, [], ''For this shell only:'', ''  '' @ currentShellCommand, [],
          ''To enable permanently, generate a completion file once:''] @
         map (\<lambda>c. ''  '' @ c) (permanentCompletionCommands shell) @
         [[], ''Regenerate that file after upgrading pi-threads.'', []]))"

section \<open>What the commands of a program look like\<close>









section \<open>Lemmas\<close>

lemma set_unique [simp]: "set (unique xs) = set xs"
  by (induction xs) auto

lemma distinct_unique [simp]: "distinct (unique xs)"
  by (induction xs) auto









section \<open>Reading words\<close>

lemma record_fields [simp]:
  "cx_command (recordOptionValue opt v cx) = cx_command cx" "cx_operands (recordOptionValue opt v cx) = cx_operands cx"
  "cx_pending (recordOptionValue opt v cx) = cx_pending cx"
  by (auto simp: recordOptionValue_def split: option.split)





section \<open>What is suggested, and how it is read\<close>









end
