(* ===== verification/Sse.thy ===== *)
theory Sse
  imports Line_Framing Buffered_Stream
begin

text \<open>
  Server-sent events: what the daemon writes (\<open>src/transport/sse.ts\<close>) and what the client reads
  (\<open>src/client/sse-reader.ts\<close>).

  The incremental \<open>TextDecoder\<close> is the standard library's: a chunk of the input is what the decoder
  makes of it, a text, or the error that it throws; so is its last call, which rejects a truncated
  character. The generator \<open>readSse\<close> is modelled by the frames it yields and how it ends. A
  character stands for a code point below 256, whose UTF-8 form has one or two bytes.
\<close>

section \<open>Writing\<close>

definition char_bytes :: "char \<Rightarrow> nat" where
  "char_bytes c = (if of_char c < (128 :: nat) then 1 else 2)"

definition byteLength :: "string \<Rightarrow> nat" where
  "byteLength s = sum_list (map char_bytes s)"

definition sse_overflow :: thrown where
  "sse_overflow = DaemonError StreamOverflow ''SSE frame exceeds its byte limit'' None"

definition sse_text :: "string \<Rightarrow> json \<Rightarrow> string option \<Rightarrow> string" where
  "sse_text event data i =
     (if truthy i then ''id: '' @ the i @ [newline] else []) @
     ''event: '' @ event @ [newline] @ ''data: '' @ stringify data @ [newline] @ [newline]"

definition encodeSse :: "string \<Rightarrow> json \<Rightarrow> string option \<Rightarrow> string result" where
  "encodeSse event data i =
     (if byteLength (sse_text event data i) > MAX_STREAM_BYTES then Inl sse_overflow else Inr (sse_text event data i))"

text \<open>The response as far as the writers look at it.\<close>

record http_response =
  hr_destroyed :: bool
  hr_ended :: bool
  hr_needDrain :: bool
  hr_headers :: "(string \<times> string) list"
  hr_status :: "nat option"
  hr_body :: string

definition heartbeat_text :: string where
  "heartbeat_text = '': heartbeat'' @ [newline, newline]"

definition sse_headers :: "(string \<times> string) list" where
  "sse_headers = [(''Content-Type'', ''text/event-stream; charset=utf-8''), (''Cache-Control'', ''no-cache, no-transform''),
     (''X-Accel-Buffering'', ''no'')]"

definition beginSse :: "http_response \<Rightarrow> http_response" where
  "beginSse r = r\<lparr>hr_status := Some 200, hr_headers := hr_headers r @ sse_headers\<rparr>"

text \<open>The timer of \<open>beginSse\<close>.\<close>

definition heartbeat :: "http_response \<Rightarrow> http_response" where
  "heartbeat r =
     (if \<not> hr_destroyed r \<and> \<not> hr_ended r \<and> \<not> hr_needDrain r then r\<lparr>hr_body := hr_body r @ heartbeat_text\<rparr> else r)"

text \<open>
  \<open>writeSse\<close> in two parts. The write: \<open>flushed\<close> is what \<open>response.write\<close> answers, and then the outcome is known
  at once. Otherwise the first of four events settles the promise; a response that has closed is destroyed,
  and the server destroys one that fails. As a whole it is these two with nothing else between them.
\<close>

datatype drain_event = Drained | ResponseClosed | ResponseError thrown | DrainTimeout

definition interrupted :: thrown where
  "interrupted = DaemonError StreamInterrupted ''HTTP response closed'' None"

definition write_begin :: "string \<Rightarrow> bool \<Rightarrow> http_response \<Rightarrow> unit result option \<times> http_response" where
  "write_begin frame flushed r =
     (if hr_destroyed r \<or> hr_ended r then (Some (Inl interrupted), r)
      else if byteLength frame > MAX_STREAM_BYTES then (Some (Inl sse_overflow), r)
      else if flushed then (Some (Inr ()), r\<lparr>hr_body := hr_body r @ frame\<rparr>)
      else (None, r\<lparr>hr_body := hr_body r @ frame, hr_needDrain := True\<rparr>))"

definition write_settled :: "drain_event \<Rightarrow> http_response \<Rightarrow> unit result \<times> http_response" where
  "write_settled first r =
     (case first of
        Drained \<Rightarrow> (Inr (), r\<lparr>hr_needDrain := False\<rparr>)
      | ResponseClosed \<Rightarrow> (Inl interrupted, r\<lparr>hr_destroyed := True\<rparr>)
      | ResponseError e \<Rightarrow> (Inl e, r\<lparr>hr_destroyed := True\<rparr>)
      | DrainTimeout \<Rightarrow> (Inl (DaemonError StreamOverflow ''SSE reader did not drain in time'' None), r\<lparr>hr_destroyed := True\<rparr>))"

definition writeSse :: "string \<Rightarrow> bool \<Rightarrow> drain_event \<Rightarrow> http_response \<Rightarrow> unit result \<times> http_response" where
  "writeSse frame flushed first r =
     (case write_begin frame flushed r of
        (Some outcome, r1) \<Rightarrow> (outcome, r1)
      | (None, r1) \<Rightarrow> write_settled first r1)"

section \<open>Reading\<close>

record sse_frame =
  sf_event :: string
  sf_data :: string
  sf_id :: "string option"

record sse_state =
  ss_event :: string
  ss_id :: "string option"
  ss_data :: "string list"
  ss_bytes :: nat

definition sse_start :: sse_state where
  "sse_start = \<lparr>ss_event = ''message'', ss_id = None, ss_data = [], ss_bytes = 0\<rparr>"

text \<open>The field and the value of a line, and a line of a frame.\<close>

definition field_of :: "string \<Rightarrow> string \<times> string" where
  "field_of line =
     (if CHR '':'' \<in> set line then
        let value = tl (dropWhile (\<lambda>c. c \<noteq> CHR '':'') line) in
        (takeWhile (\<lambda>c. c \<noteq> CHR '':'') line, if value \<noteq> [] \<and> hd value = CHR '' '' then tl value else value)
      else (line, []))"

definition sse_field :: "string \<times> string \<Rightarrow> sse_state \<Rightarrow> sse_state" where
  "sse_field fv st =
     (case fv of (field, value) \<Rightarrow>
        let st1 = (if field = ''event'' then st\<lparr>ss_event := value\<rparr> else st);
            st2 = (if field = ''id'' \<and> CHR 0x00 \<notin> set value then st1\<lparr>ss_id := Some value\<rparr> else st1) in
        if field = ''data'' then st2\<lparr>ss_data := ss_data st2 @ [value]\<rparr> else st2)"

definition sse_line :: "string \<Rightarrow> sse_state \<Rightarrow> sse_frame list \<times> sse_state" where
  "sse_line line st =
     (if line = [] then
        ((if ss_data st = [] then [] else [\<lparr>sf_event = ss_event st, sf_data = join [newline] (ss_data st), sf_id = ss_id st\<rparr>]),
         sse_start)
      else if hd line = CHR '':'' then ([], st)
      else ([], sse_field (field_of line) st))"

text \<open>The loop over the lines of the buffer: the frames it yields, and the error or what is left.\<close>

function sse_drain :: "string \<Rightarrow> sse_state \<Rightarrow> sse_frame list \<times> (sse_state \<times> string) result" where
  "sse_drain buffer st =
     (case next_line buffer of
        None \<Rightarrow> ([], Inr (st, buffer))
      | Some (raw, rest) \<Rightarrow>
          let st1 = st\<lparr>ss_bytes := ss_bytes st + byteLength raw + 1\<rparr> in
          if ss_bytes st1 > MAX_STREAM_BYTES then ([], Inl sse_overflow)
          else
            let (out, st2) = sse_line (strip_cr raw) st1; (frames, r) = sse_drain rest st2 in (out @ frames, r))"
  by pat_completeness auto
termination by (relation "measure (\<lambda>(b, _). length b)") (auto simp: next_line_Some)

declare sse_drain.simps [simp del]

definition sse_chunk :: "string \<Rightarrow> sse_state \<times> string \<Rightarrow> sse_frame list \<times> (sse_state \<times> string) result" where
  "sse_chunk chunk sb =
     (case sb of (st, buffer) \<Rightarrow>
        case sse_drain (buffer @ chunk) st of
          (frames, Inl e) \<Rightarrow> (frames, Inl e)
        | (frames, Inr (st1, buffer1)) \<Rightarrow>
            if ss_bytes st1 + byteLength buffer1 > MAX_STREAM_BYTES then (frames, Inl sse_overflow)
            else (frames, Inr (st1, buffer1)))"

fun sse_loop :: "string result list \<Rightarrow> sse_state \<times> string \<Rightarrow> sse_frame list \<times> (sse_state \<times> string) result" where
  "sse_loop [] sb = ([], Inr sb)"
| "sse_loop (Inl e # _) sb = ([], Inl e)"
| "sse_loop (Inr chunk # chunks) sb =
     (case sse_chunk chunk sb of
        (frames, Inl e) \<Rightarrow> (frames, Inl e)
      | (frames, Inr sb1) \<Rightarrow> (case sse_loop chunks sb1 of (later, r) \<Rightarrow> (frames @ later, r)))"

text \<open>\<open>readSse\<close>: the frames it yields, and its end; \<open>last_decode\<close> is the decoder's last call.\<close>

definition readSse :: "string result list \<Rightarrow> unit result \<Rightarrow> sse_frame list \<times> unit result" where
  "readSse chunks last_decode =
     (case sse_loop chunks (sse_start, []) of
        (frames, Inl e) \<Rightarrow> (frames, Inl e)
      | (frames, Inr _) \<Rightarrow> (frames, last_decode))"

end
