(* ===== verification/Http_Server.thy ===== *)
theory Http_Server
  imports Sse Turn_Stream Configuration Event_Bus
begin

text \<open>
  The HTTP transport (\<open>src/transport/http.ts\<close>): how a request is admitted, what format the answer
  has, the body and its limit, the event filter of a subscription, and what is written to the
  response. What the classes of Node make of a request is a record: the method, the \<open>URL\<close> and the
  headers with their names in lower case. The service's methods are those of \<open>Service_Dispatch\<close> and
  the turn stream is that of \<open>Turn_Stream\<close>; here their outcomes are the arguments.
\<close>

section \<open>Requests and errors\<close>

record http_request =
  hq_method :: string
  hq_pathname :: string
  hq_search :: string
  hq_query :: "(string \<times> string) list"
  hq_headers :: "string \<Rightarrow> string option"

datatype http_error = HttpError nat thrown json

definition httpError :: "nat \<Rightarrow> error_code \<Rightarrow> string \<Rightarrow> http_error" where
  "httpError status code message = HttpError status (DaemonError code message None) JUndefined"

section \<open>Content negotiation\<close>

text \<open>
  \<open>Number(text)\<close> of a text in lower case: blanks around it, a sign, digits with a decimal point, an
  exponent, or a whole number in another base; \<open>None\<close> is \<open>NaN\<close> or an infinity. The value is exact here.
\<close>

definition number_digits :: "string \<Rightarrow> rat option" where
  "number_digits s =
     (let whole = takeWhile is_digit s; rest = dropWhile is_digit s;
          part = (case rest of c # ds \<Rightarrow> if c = CHR ''.'' then ds else [] | [] \<Rightarrow> []);
          point_ok = (rest = [] \<or> hd rest = CHR ''.'') in
      if \<not> point_ok \<or> \<not> list_all is_digit part \<or> (whole = [] \<and> part = []) then None
      else Some (of_nat (if whole = [] then 0 else undec whole) + (if part = [] then 0 else of_nat (undec part) / 10 ^ length part)))"

definition signed_text :: "string \<Rightarrow> bool \<times> string" where
  "signed_text s =
     (case s of [] \<Rightarrow> (False, []) | c # cs \<Rightarrow> if c = CHR ''-'' then (True, cs) else if c = CHR ''+'' then (False, cs) else (False, s))"

definition hex_val :: "char \<Rightarrow> nat" where
  "hex_val c = (if is_digit c then digit_val c else of_char c - 87)"

definition based_number :: "string \<Rightarrow> nat option" where
  "based_number t =
     (let ds = drop 2 t;
          base = (if take 2 t = ''0x'' then 16 else if take 2 t = ''0o'' then 8 else if take 2 t = ''0b'' then 2 else 0) in
      if ds \<noteq> [] \<and> list_all (\<lambda>c. is_hex c \<and> hex_val c < base) ds
      then Some (foldl (\<lambda>n c. n * base + hex_val c) 0 ds) else None)"

definition js_number :: "string \<Rightarrow> rat option" where
  "js_number text_read =
     (let t = trim text_read; (negative, u) = signed_text t;
          mantissa = takeWhile (\<lambda>c. c \<noteq> CHR ''e'') u; tail = dropWhile (\<lambda>c. c \<noteq> CHR ''e'') u in
      if t = [] then Some 0
      else if based_number t \<noteq> None then map_option of_nat (based_number t)
      else case number_digits mantissa of
        None \<Rightarrow> None
      | Some m \<Rightarrow>
          let v = (if negative then - m else m) in
          (case tail of
             [] \<Rightarrow> Some v
           | _ # ex \<Rightarrow>
               let (down, ds) = signed_text ex in
               if ds = [] \<or> \<not> list_all is_digit ds then None
               else Some (if down then v / 10 ^ undec ds else v * 10 ^ undec ds)))"

text \<open>One entry of the \<open>Accept\<close> header, folded over the specificity and the quality found so far.\<close>

definition accept_match :: "string \<Rightarrow> string \<Rightarrow> int" where
  "accept_match type media =
     (if media = type then 2
      else if media = takeWhile (\<lambda>c. c \<noteq> slash) type @ ''/*'' then 1
      else if media = ''*/*'' then 0 else -1)"

definition entry_quality :: "string list \<Rightarrow> rat" where
  "entry_quality params =
     (case List.find (\<lambda>p. starts_with ''q='' p) (map trim params) of
        None \<Rightarrow> 1
      | Some q \<Rightarrow> (case js_number (drop 2 q) of Some v \<Rightarrow> if 0 \<le> v \<and> v \<le> 1 then v else 0 | None \<Rightarrow> 0))"

definition accept_entry :: "string \<Rightarrow> string \<Rightarrow> int \<times> rat \<Rightarrow> int \<times> rat" where
  "accept_entry type entry sq =
     (let (specificity, quality) = sq; parts = split_on (CHR '';'') (trim entry);
          m = accept_match type (hd parts); valid = entry_quality (tl parts) in
      if m < 0 \<or> m < specificity then sq
      else (m, if m = specificity then max quality valid else valid))"

definition acceptQuality :: "string option \<Rightarrow> string \<Rightarrow> rat" where
  "acceptQuality accept type =
     (if \<not> truthy accept then 1
      else snd (fold (accept_entry type) (split_on (CHR '','') (to_lower (the accept))) (-1, 0)))"

definition accepts :: "string option \<Rightarrow> string \<Rightarrow> bool" where
  "accepts accept type = (acceptQuality accept type > 0)"

definition event_stream :: string where
  "event_stream = ''text/event-stream''"

definition application_json :: string where
  "application_json = ''application/json''"

fun includes_text :: "string \<Rightarrow> string \<Rightarrow> bool" where
  "includes_text needle [] = (needle = [])"
| "includes_text needle (c # cs) = (starts_with needle (c # cs) \<or> includes_text needle cs)"

definition wants_stream :: "string option \<Rightarrow> bool" where
  "wants_stream accept =
     (let jsonQuality = acceptQuality accept application_json; eventQuality = acceptQuality accept event_stream in
      eventQuality > 0 \<and>
      (eventQuality > jsonQuality \<or>
       (eventQuality = jsonQuality \<and>
        includes_text event_stream (to_lower (case accept of None \<Rightarrow> [] | Some a \<Rightarrow> a)))))"

section \<open>Admission\<close>

text \<open>What a request that is admitted asks for.\<close>

datatype route =
    Preflight string
  | Subscription
  | Call bool

definition allowed_headers :: "string list" where
  "allowed_headers = [''authorization'', ''content-type'', ''accept'', ''last-event-id'']"

definition preflight :: "string \<Rightarrow> http_request \<Rightarrow> http_error + route" where
  "preflight expected q =
     (if hq_headers q ''access-control-request-method'' \<noteq> Some expected
      then Inl (httpError 405 InvalidParams ''Unsupported preflight method'')
      else
        let headers = filter (\<lambda>h. h \<noteq> []) (map trim (split_on (CHR '','')
              (to_lower (case hq_headers q ''access-control-request-headers'' of None \<Rightarrow> [] | Some h \<Rightarrow> h)))) in
        if list_ex (\<lambda>h. h \<notin> set allowed_headers) headers
        then Inl (httpError 403 Forbidden ''Unsupported preflight header'')
        else Inr (Preflight expected))"

definition media_type :: "string option \<Rightarrow> string option" where
  "media_type content_type =
     (case content_type of None \<Rightarrow> None | Some c \<Rightarrow> Some (to_lower (trim (hd (split_on (CHR '';'') c)))))"

definition admit_call :: "http_request \<Rightarrow> http_error + route" where
  "admit_call q =
     (let accept = hq_headers q ''accept''; streaming = wants_stream accept in
      if hq_search q \<noteq> [] then Inl (httpError 400 InvalidParams ''RPC endpoint does not accept query parameters'')
      else if media_type (hq_headers q ''content-type'') \<noteq> Some application_json
      then Inl (httpError 415 InvalidParams ''Content-Type must be application/json'')
      else if \<not> streaming \<and> \<not> accepts accept application_json
      then Inl (httpError 406 InvalidParams ''Unsupported response format'')
      else Inr (Call streaming))"

text \<open>\<open>handleRequest\<close> up to the body, in the order of the source.\<close>

definition expected_method :: "string \<Rightarrow> string" where
  "expected_method pathname = (if pathname = ''/rpc'' then ''POST'' else ''GET'')"

definition admit :: "(string \<Rightarrow> string option) \<Rightarrow> auth_config \<Rightarrow> http_request \<Rightarrow> http_error + route" where
  "admit env auth q =
     (case assertOriginAllowed (au_allowedOrigins auth) (hq_headers q ''origin'') of
        Inl e \<Rightarrow> Inl (HttpError 403 (toDaemonError e) JUndefined)
      | Inr _ \<Rightarrow>
          if hq_pathname q \<noteq> ''/rpc'' \<and> hq_pathname q \<noteq> ''/events''
          then Inl (httpError 404 NotFound ''Unknown HTTP route'')
          else let expected = expected_method (hq_pathname q) in
            if hq_method q = ''OPTIONS'' then preflight expected q
            else case assertBearerToken env auth (hq_headers q ''authorization'') of
              Inl e \<Rightarrow> Inl (HttpError (if thrown_code e = Unauthorized then 401 else 403) (toDaemonError e) JUndefined)
            | Inr _ \<Rightarrow>
                if hq_method q \<noteq> expected then Inl (httpError 405 InvalidParams ''Unsupported HTTP method'')
                else if expected = ''GET'' then
                  (if accepts (hq_headers q ''accept'') event_stream then Inr Subscription
                   else Inl (httpError 406 InvalidParams ''Accept text/event-stream for subscriptions''))
                else admit_call q)"

text \<open>The headers that are set before the answer is written.\<close>

definition admission_headers :: "(string \<Rightarrow> string option) \<Rightarrow> auth_config \<Rightarrow> http_request \<Rightarrow> (string \<times> string) list" where
  "admission_headers env auth q =
     (case assertOriginAllowed (au_allowedOrigins auth) (hq_headers q ''origin'') of
        Inl e \<Rightarrow> []
      | Inr _ \<Rightarrow>
          (if truthy (hq_headers q ''origin'')
           then [(''Access-Control-Allow-Origin'', the (hq_headers q ''origin'')), (''Vary'', ''Origin'')] else []) @
          (case admit env auth q of
             Inl (HttpError status e i) \<Rightarrow>
               if status = 405 \<and> hq_method q \<noteq> ''OPTIONS''
               then [(''Allow'', expected_method (hq_pathname q) @ '', OPTIONS'')] else []
           | Inr (Preflight expected) \<Rightarrow>
               [(''Access-Control-Allow-Methods'', expected),
                (''Access-Control-Allow-Headers'', ''Authorization, Content-Type, Accept, Last-Event-ID'')]
           | _ \<Rightarrow> []))"

section \<open>The body\<close>

definition MAX_REQUEST_BYTES :: nat where
  "MAX_REQUEST_BYTES = 1024 * 1024"

text \<open>
  The events of the request, in order; a chunk is the list of its bytes, and \<open>decode\<close> is
  \<open>Buffer.toString("utf8")\<close>. The promise settles with the first outcome.
\<close>

datatype body_event = BodyData string | BodyEnd | BodyError thrown | BodyAborted

fun readBody :: "(string \<Rightarrow> string) \<Rightarrow> string \<Rightarrow> body_event list \<Rightarrow> (http_error + string) option" where
  "readBody decode received [] = None"
| "readBody decode received (BodyData chunk # rest) =
     (if length received + length chunk > MAX_REQUEST_BYTES
      then Some (Inl (httpError 413 InvalidParams ''Request exceeds 1 MiB''))
      else readBody decode (received @ chunk) rest)"
| "readBody decode received (BodyEnd # rest) = Some (Inr (decode received))"
| "readBody decode received (BodyError e # rest) = Some (Inl (HttpError 400 (toDaemonError e) JUndefined))"
| "readBody decode received (BodyAborted # rest) =
     Some (Inl (HttpError 400 (DaemonError StreamInterrupted ''Request body interrupted'' None) JUndefined))"

definition rpc_of_body :: "(string \<Rightarrow> string + json) \<Rightarrow> bool \<Rightarrow> string \<Rightarrow> http_error + (json \<times> json)" where
  "rpc_of_body json_parse streaming body =
     (case parseJsonRpcLine json_parse body of
        Inl e \<Rightarrow> Inl (HttpError 400 (toDaemonError e) JUndefined)
      | Inr rpc \<Rightarrow>
          let bad = (\<lambda>e. Inl (HttpError 400 (toDaemonError e) (jget rpc ''id''))); name = js_string (jget rpc ''method'') in
          case normalizeParams (jget rpc ''params'') of
            Inl e \<Rightarrow> bad e
          | Inr params \<Rightarrow>
              if starts_with ''subscribe/'' name \<or> starts_with ''unsubscribe/'' name
              then bad (DaemonError InvalidParams ''Use GET /events to own an HTTP subscription'' None)
              else if streaming then
                (case assertTurnMethod name of Inl e \<Rightarrow> bad e | Inr _ \<Rightarrow> Inr (rpc, params))
              else Inr (rpc, params))"

section \<open>Subscriptions\<close>

definition duplicate_keys :: "(string \<times> string) list \<Rightarrow> bool" where
  "duplicate_keys kvs = (\<not> distinct (map fst kvs))"

definition raw_filter :: "http_request \<Rightarrow> http_error + json" where
  "raw_filter q =
     (if duplicate_keys (hq_query q) then Inl (httpError 400 InvalidParams ''Duplicate event filter'')
      else
        let raw = map (\<lambda>(k, v). (k, if k = ''eventTypes'' then JArr (map JStr (split_on (CHR '','') v)) else JStr v)) (hq_query q) in
        case hq_headers q ''last-event-id'' of
          None \<Rightarrow> Inr (JObj raw)
        | Some cursor \<Rightarrow>
            if jget (JObj raw) ''sinceEventId'' \<noteq> JUndefined \<and> jget (JObj raw) ''sinceEventId'' \<noteq> JStr cursor
            then Inl (httpError 400 InvalidParams ''Conflicting event cursors'')
            else Inr (JObj (jset ''sinceEventId'' (JStr cursor) raw)))"

definition subscription_error :: "thrown \<Rightarrow> http_error" where
  "subscription_error e = HttpError (if thrown_code e = EventHistoryLost then 409 else 400) (toDaemonError e) JUndefined"

text \<open>\<open>subscribe_to\<close> is the bus's answer to a checked filter.\<close>

definition open_subscription :: "(json \<Rightarrow> 'a result) \<Rightarrow> http_request \<Rightarrow> http_error + 'a" where
  "open_subscription subscribe_to q =
     (case raw_filter q of
        Inl e \<Rightarrow> Inl e
      | Inr raw \<Rightarrow>
          (case (case validateEventFilter raw of Inl e \<Rightarrow> Inl e | Inr flt \<Rightarrow> subscribe_to flt) of
             Inl e \<Rightarrow> Inl (subscription_error e)
           | Inr a \<Rightarrow> Inr a))"

section \<open>Answers\<close>

definition sendError :: "nat \<Rightarrow> thrown \<Rightarrow> json \<Rightarrow> http_response \<Rightarrow> http_response" where
  "sendError status e i r =
     (if hr_destroyed r \<or> hr_ended r then r
      else r\<lparr>hr_status := Some status, hr_headers := hr_headers r @ [(''Content-Type'', application_json), (''Connection'', ''close'')],
             hr_body := hr_body r @ stringify (failure i e), hr_ended := True\<rparr>)"

definition error_frame :: "bool \<Rightarrow> json \<Rightarrow> thrown \<Rightarrow> string result" where
  "error_frame as_response i e =
     (if as_response then encodeSse ''response'' (failure i e) None
      else case toDaemonError e of
        DaemonError c m d \<Rightarrow> encodeSse ''stream/error''
          (JObj [(''jsonrpc'', JStr ''2.0''), (''method'', JStr ''stream/error''),
                 (''params'', JObj [(''code'', JStr (error_code_name c)), (''message'', JStr m)])]) None
      | _ \<Rightarrow> Inl e)"

text \<open>
  \<open>finishSseError\<close> in two parts, like \<open>writeSse\<close>: up to its \<open>await\<close>, with the outcome of the write if it is
  known by then (\<open>None\<close> when the function has returned), and what follows when the write has settled. As
  a whole it is both with nothing else between them.
\<close>

definition finish_begin :: "bool \<Rightarrow> thrown \<Rightarrow> json \<Rightarrow> bool \<Rightarrow> http_response \<Rightarrow> unit result option option \<times> http_response" where
  "finish_begin as_response e i flushed r =
     (if hr_destroyed r \<or> hr_ended r then (None, r)
      else
        let encoded = (case error_frame as_response i e of
              Inr t \<Rightarrow> Inr t
            | Inl _ \<Rightarrow> error_frame as_response i (DaemonError StreamOverflow ''SSE error frame exceeds its byte limit'' None)) in
        case encoded of
          Inl _ \<Rightarrow> (None, r)
        | Inr t \<Rightarrow> (case write_begin t flushed r of (outcome, r1) \<Rightarrow> (Some outcome, r1)))"

definition finish_settled :: "unit result option \<Rightarrow> drain_event \<Rightarrow> http_response \<Rightarrow> http_response" where
  "finish_settled known first r =
     (case (case known of Some outcome \<Rightarrow> (outcome, r) | None \<Rightarrow> write_settled first r) of
        (Inr _, r1) \<Rightarrow> r1\<lparr>hr_ended := True\<rparr>
      | (Inl _, r1) \<Rightarrow> r1\<lparr>hr_destroyed := True\<rparr>)"

definition finishSseError :: "bool \<Rightarrow> thrown \<Rightarrow> json \<Rightarrow> bool \<Rightarrow> drain_event \<Rightarrow> http_response \<Rightarrow> http_response" where
  "finishSseError as_response e i flushed first r =
     (case finish_begin as_response e i flushed r of
        (None, r1) \<Rightarrow> r1
      | (Some known, r1) \<Rightarrow> finish_settled known first r1)"

text \<open>\<open>sendStreamError\<close> does not wait: its own effect is the first part.\<close>

definition sendStreamError :: "thrown \<Rightarrow> bool \<Rightarrow> http_response \<Rightarrow> unit result option option \<times> http_response" where
  "sendStreamError e flushed r = finish_begin False e JUndefined flushed r"

text \<open>The frames of a turn and of a subscription as they are written.\<close>

definition event_message :: "daemon_event \<Rightarrow> json" where
  "event_message e = JObj [(''jsonrpc'', JStr ''2.0''), (''method'', JStr ''thread/event''), (''params'', event_json e)]"

definition encode_event :: "daemon_event \<Rightarrow> string result" where
  "encode_event e = encodeSse ''thread/event'' (event_message e) (Some (ev_eventId e))"

fun encode_frame :: "json \<Rightarrow> frame \<Rightarrow> string result" where
  "encode_frame i (Accepted a) = encodeSse ''response'' (success i (accepted_json a)) None"
| "encode_frame i (Event e) = encode_event e"

text \<open>
  The loop over the stream. Of each write the environment says how many heartbeats the timer writes
  before it, whether the peer has gone by then, whether it is flushed at once, and what settles it
  otherwise; a write that it says nothing of is flushed.
\<close>

record write_env =
  we_beats :: nat
  we_gone :: bool
  we_flushed :: bool
  we_first :: drain_event

definition calm :: write_env where
  "calm = \<lparr>we_beats = 0, we_gone = False, we_flushed = True, we_first = Drained\<rparr>"

definition meanwhile :: "write_env \<Rightarrow> http_response \<Rightarrow> http_response" where
  "meanwhile w r = (let r1 = (heartbeat ^^ we_beats w) r in if we_gone w then r1\<lparr>hr_destroyed := True\<rparr> else r1)"

fun write_frames :: "('a \<Rightarrow> string result) \<Rightarrow> 'a list \<Rightarrow> write_env list \<Rightarrow> http_response \<Rightarrow>
    'a list \<times> unit result \<times> http_response" where
  "write_frames encode [] outs r = ([], Inr (), r)"
| "write_frames encode (f # fs) outs r =
     (let w = (case outs of [] \<Rightarrow> calm | x # _ \<Rightarrow> x) in
      case encode f of
        Inl e \<Rightarrow> ([], Inl e, r)
      | Inr t \<Rightarrow>
          (case writeSse t (we_flushed w) (we_first w) (meanwhile w r) of
             (Inl e, r1) \<Rightarrow> ([], Inl e, r1)
           | (Inr _, r1) \<Rightarrow> (case write_frames encode fs (tl outs) r1 of (written, x, r2) \<Rightarrow> (f # written, x, r2))))"

definition is_accepted :: "frame \<Rightarrow> bool" where
  "is_accepted f = (case f of Accepted _ \<Rightarrow> True | Event _ \<Rightarrow> False)"

definition stream_turn :: "json \<Rightarrow> frame list \<Rightarrow> unit result \<Rightarrow> write_env list \<Rightarrow> write_env \<Rightarrow>
    http_response \<Rightarrow> http_response" where
  "stream_turn i frames ending outs final r =
     (let (written, x, r1) = write_frames (encode_frame i) frames outs (beginSse r);
          outcome = (case x of Inl e \<Rightarrow> Inl e | Inr _ \<Rightarrow> ending);
          r2 = meanwhile final r1 in
      case outcome of
        Inr _ \<Rightarrow> r2\<lparr>hr_ended := True\<rparr>
      | Inl e \<Rightarrow>
          if \<not> list_ex is_accepted written \<and> \<not> hr_destroyed r2 \<and> \<not> hr_ended r2
          then finishSseError True e i (we_flushed final) (we_first final) r2
          else finishSseError False e JUndefined (we_flushed final) (we_first final) r2)"

definition stream_events :: "daemon_event list \<Rightarrow> unit result \<Rightarrow> write_env list \<Rightarrow> write_env \<Rightarrow>
    http_response \<Rightarrow> http_response" where
  "stream_events es ending outs final r =
     (let (written, x, r1) = write_frames encode_event es outs (beginSse r); r2 = meanwhile final r1 in
      case (case x of Inl e \<Rightarrow> Inl e | Inr _ \<Rightarrow> ending) of
        Inr _ \<Rightarrow> r2
      | Inl e \<Rightarrow> finishSseError False e JUndefined (we_flushed final) (we_first final) r2)"

text \<open>The answer to a call that is not streamed, and whether it shuts the daemon down.\<close>

definition call_result :: "json \<Rightarrow> json result \<Rightarrow> json" where
  "call_result i outcome = (case outcome of Inr v \<Rightarrow> success i v | Inl e \<Rightarrow> failure i e)"

definition shuts_down :: "string \<Rightarrow> json result \<Rightarrow> bool" where
  "shuts_down name outcome = (name = ''server/shutdown'' \<and> (case outcome of Inr _ \<Rightarrow> True | Inl _ \<Rightarrow> False))"

definition answer_call :: "json \<Rightarrow> json result \<Rightarrow> http_response \<Rightarrow> http_response" where
  "answer_call i outcome r =
     (if hr_destroyed r \<or> hr_ended r then r
      else r\<lparr>hr_status := Some 200, hr_headers := hr_headers r @ [(''Content-Type'', application_json)],
             hr_body := hr_body r @ stringify (call_result i outcome), hr_ended := True\<rparr>)"

section \<open>The server\<close>

text \<open>The guards of \<open>startNetworkServer\<close> and the names of the transport.\<close>

definition network_guard :: "(string \<Rightarrow> string option) \<Rightarrow> string \<Rightarrow> tls_config option \<Rightarrow> auth_config \<Rightarrow> unit result" where
  "network_guard env bind tls auth =
     (case assertTlsAllowedForBind bind tls of
        Inl e \<Rightarrow> Inl e
      | Inr _ \<Rightarrow> assertAuthConfiguredForBind env bind auth)"

definition network_names :: "string \<Rightarrow> nat \<Rightarrow> bool \<Rightarrow> string list" where
  "network_names bind port tls =
     (let host = (if CHR '':'' \<in> set bind then ''['' @ bind @ '']'' else bind) in
      [(if tls then ''https'' else ''http'') @ ''://'' @ host @ '':'' @ dec port,
       (if tls then ''wss'' else ''ws'') @ ''://'' @ host @ '':'' @ dec port])"

definition stopping_error :: thrown where
  "stopping_error = DaemonError StreamInterrupted ''Daemon is stopping'' None"

definition headers_sent :: "http_response \<Rightarrow> bool" where
  "headers_sent r = (hr_status r \<noteq> None)"

text \<open>
  The loop of \<open>close\<close> over the open responses, and the handler's answer to what \<open>handleRequest\<close> throws: the
  response, and whether it now waits for the write of an error frame.
\<close>

definition stop_response :: "bool \<Rightarrow> http_response \<Rightarrow> unit result option option \<times> http_response" where
  "stop_response flushed r =
     (if hr_ended r then (None, r)
      else if headers_sent r then sendStreamError stopping_error flushed r
      else (None, sendError 503 stopping_error JNull r))"

definition handle_failure :: "http_error + thrown \<Rightarrow> bool \<Rightarrow> http_response \<Rightarrow> unit result option option \<times> http_response" where
  "handle_failure failed flushed r =
     (case failed of
        Inl (HttpError status e i) \<Rightarrow>
          if headers_sent r then sendStreamError e flushed r else (None, sendError status e i r)
      | Inr e \<Rightarrow>
          if headers_sent r then sendStreamError e flushed r else (None, sendError 500 e JNull r))"

end
