(* ===== verification/Wire.thy ===== *)
theory Wire
  imports Line_Framing
begin

text \<open>
  What both clients (\<open>src/client/http-client.ts\<close> and \<open>src/client/socket-client.ts\<close>) make of the errors that
  the daemon sends, and the value that \<open>JSON.parse\<close> makes of the text of \<open>JSON.stringify\<close>: the
  properties that are undefined are gone.
\<close>

section \<open>Errors of a client\<close>

text \<open>An error of the daemon keeps the code it was sent with, whatever that is.\<close>

datatype client_error = Local thrown | Remote string string "(string \<times> json) list option"

definition protocolError :: "string \<Rightarrow> client_error" where
  "protocolError message = Local (DaemonError StreamInterrupted message None)"

definition remoteError :: "json \<Rightarrow> client_error" where
  "remoteError v = Remote (string_or (jget v ''code'') ''internal'') (string_or (jget v ''message'') ''Daemon returned an error'')
     (case jget v ''data'' of JObj kvs \<Rightarrow> Some kvs | _ \<Rightarrow> None)"

section \<open>A value on the wire\<close>

fun wire :: "json \<Rightarrow> json"
  and wire_elems :: "json list \<Rightarrow> json list"
  and wire_props :: "(string \<times> json) list \<Rightarrow> (string \<times> json) list" where
  "wire JUndefined = JNull"
| "wire JNull = JNull"
| "wire (JBool b) = JBool b"
| "wire (JNum n) = JNum n"
| "wire (JStr s) = JStr s"
| "wire (JArr vs) = JArr (wire_elems vs)"
| "wire (JObj kvs) = JObj (wire_props kvs)"
| "wire_elems [] = []"
| "wire_elems (v # vs) = wire v # wire_elems vs"
| "wire_props [] = []"
| "wire_props ((k, v) # kvs) = (if v = JUndefined then wire_props kvs else (k, wire v) # wire_props kvs)"

text \<open>\<open>JSON.parse\<close> reads the text of a value.\<close>

definition reads_back :: "(string \<Rightarrow> string + json) \<Rightarrow> json \<Rightarrow> bool" where
  "reads_back json_parse v \<longleftrightarrow> json_parse (stringify v) = Inr (wire v)"

lemma reads_backD [simp]: "reads_back json_parse v \<Longrightarrow> json_parse (stringify v) = Inr (wire v)"
  by (simp add: reads_back_def)

lemma isRecord_simps [simp]:
  "isRecord (JObj kvs)" "\<not> isRecord JUndefined" "\<not> isRecord JNull" "\<not> isRecord (JStr s)" "\<not> isRecord (JArr vs)"
  by (simp_all add: isRecord_def)

lemma isRecord_obj: "isRecord v \<longleftrightarrow> (\<exists>kvs. v = JObj kvs)"
  by (cases v) (auto simp: isRecord_def)

lemma isRecord_wire [simp]: "isRecord (wire v) = isRecord v"
  by (cases v) (simp_all add: isRecord_def)

lemma is_jstr_wire [simp]: "is_jstr (wire v) = is_jstr v"
  by (cases v) simp_all

text \<open>An error as the client knows it.\<close>

definition remote_of :: "thrown \<Rightarrow> client_error" where
  "remote_of e = (case toDaemonError e of
       DaemonError c m d \<Rightarrow> Remote (error_code_name c) m (map_option wire_props d)
     | JsError m \<Rightarrow> Remote ''internal'' m None
     | ThrownValue s \<Rightarrow> Remote ''internal'' s None)"

definition without_data :: "client_error \<Rightarrow> client_error" where
  "without_data e = (case e of Remote c m d \<Rightarrow> Remote c m None | Local t \<Rightarrow> Local t)"

lemma string_or_JStr [simp]: "string_or (JStr s) fallback = s"
  by (simp add: string_or_def)

lemma remoteError_wire: "remoteError (wire (error_object (toDaemonError e))) = remote_of e"
  by (cases e) (auto simp: remoteError_def remote_of_def split: option.splits)

lemma error_object_record [simp]: "isRecord (error_object e)"
  by (cases e) simp_all

lemma error_object_defined [simp]: "error_object e \<noteq> JUndefined"
  by (cases e) simp_all

lemma request_id_JStr [simp]: "request_id (JStr s) = JStr s"
  by simp

lemma request_id_defined [simp]: "request_id i \<noteq> JUndefined"
  by (cases i) simp_all

lemma failure_wire [simp]:
  "isRecord (wire (failure i e))" "jget (wire (failure i e)) ''error'' = wire (error_object (toDaemonError e))"
  "jget (wire (failure i e)) ''id'' = wire (request_id i)" "jget (wire (failure i e)) ''method'' = JUndefined"
  by (simp_all add: failure_def)

lemma success_wire [simp]:
  "isRecord (wire (success i v))" "jget (wire (success i v)) ''error'' = JUndefined"
  "jget (wire (success i v)) ''jsonrpc'' = JStr ''2.0''" "jget (wire (success i v)) ''id'' = wire (request_id i)"
  "jget (wire (success i v)) ''result'' = (if v = JUndefined then JUndefined else wire v)"
  "jget (wire (success i v)) ''method'' = JUndefined"
  by (simp_all add: success_def)

text \<open>A parser that knows the texts of some values.\<close>

definition parse_of :: "json list \<Rightarrow> string \<Rightarrow> string + json" where
  "parse_of vs t = (case List.find (\<lambda>v. stringify v = t) vs of Some v \<Rightarrow> Inr (wire v) | None \<Rightarrow> Inl ''Unexpected token'')"

lemma parse_of_first [simp]: "reads_back (parse_of (v # vs)) v"
  by (simp add: reads_back_def parse_of_def)

end
