(* ===== verification/Http_Client.thy ===== *)
theory Http_Client
  imports Http_Server Wire
begin

text \<open>
  The HTTP client (\<open>src/client/http-client.ts\<close>): the requests it sends, how it reads an answer, and
  what it does to the stream of a turn or of a subscription for each frame that \<open>readSse\<close> yields.
\<close>

section \<open>Requests\<close>

text \<open>The options of the client, and the endpoint as \<open>URL\<close> reads it.\<close>

record client_config =
  cc_endpoint :: string
  cc_authToken :: "string option"
  cc_authTokenEnv :: "string option"
  cc_tlsCa :: "string option"

record endpoint_url =
  ep_protocol :: string
  ep_username :: string
  ep_password :: string
  ep_search :: string
  ep_hash :: string

definition base_endpoint :: "string \<Rightarrow> string" where
  "base_endpoint endpoint = (if endpoint \<noteq> [] \<and> last endpoint = slash then endpoint else endpoint @ [slash])"

definition check_endpoint :: "endpoint_url \<Rightarrow> unit result" where
  "check_endpoint u =
     (if ep_protocol u \<notin> {''http:'', ''https:''} \<or> ep_username u \<noteq> [] \<or> ep_password u \<noteq> [] \<or> ep_search u \<noteq> [] \<or> ep_hash u \<noteq> []
      then Inl (DaemonError InvalidParams ''Expected an HTTP(S) base endpoint without credentials, query or fragment'' None)
      else Inr ())"

definition client_token :: "(string \<Rightarrow> string option) \<Rightarrow> client_config \<Rightarrow> string option" where
  "client_token env c =
     (case cc_authToken c of
        Some t \<Rightarrow> Some t
      | None \<Rightarrow> (if truthy (cc_authTokenEnv c) then env (the (cc_authTokenEnv c)) else None))"

definition request_headers :: "string \<Rightarrow> string option \<Rightarrow> string option \<Rightarrow> string \<Rightarrow> string option" where
  "request_headers accept body token =
     ((\<lambda>_. None)(''accept'' := Some accept))
       (''content-type'' := (case body of None \<Rightarrow> None | Some _ \<Rightarrow> Some ''application/json''),
        ''content-length'' := (case body of None \<Rightarrow> None | Some b \<Rightarrow> Some (dec (byteLength b))),
        ''authorization'' := (if truthy token then Some (''Bearer '' @ the token) else None))"

text \<open>\<open>open\<close>, for a path under an endpoint whose own path is \<open>/\<close>; \<open>kvs\<close> is the query.\<close>

definition open_request :: "bool \<Rightarrow> (string \<Rightarrow> string option) \<Rightarrow> client_config \<Rightarrow> string \<Rightarrow> string \<Rightarrow> (string \<times> string) list \<Rightarrow>
    string \<Rightarrow> string option \<Rightarrow> client_error + http_request" where
  "open_request shut env c meth path kvs accept body =
     (if shut then Inl (protocolError ''HTTP client closed'')
      else Inr \<lparr>hq_method = meth, hq_pathname = slash # path,
        hq_search = (if kvs = [] then [] else ''?'' @ join ''&'' (map (\<lambda>(k, v). k @ ''='' @ v) kvs)),
        hq_query = kvs, hq_headers = request_headers accept body (client_token env c)\<rparr>)"

definition rpc_message :: "string \<Rightarrow> string \<Rightarrow> json \<Rightarrow> json" where
  "rpc_message i meth params =
     JObj [(''jsonrpc'', JStr ''2.0''), (''id'', JStr i), (''method'', JStr meth), (''params'', params)]"

definition rpc_request :: "bool \<Rightarrow> (string \<Rightarrow> string option) \<Rightarrow> client_config \<Rightarrow> string \<Rightarrow> string \<Rightarrow> string \<Rightarrow> json \<Rightarrow> client_error + http_request" where
  "rpc_request shut env c accept i meth params =
     open_request shut env c ''POST'' ''rpc'' [] accept (Some (stringify (rpc_message i meth params)))"

text \<open>The query of a subscription: what is defined and not an empty array.\<close>

definition subscription_query :: "json \<Rightarrow> (string \<times> string) list" where
  "subscription_query checked =
     List.map_filter (\<lambda>(k, v). case v of
         JUndefined \<Rightarrow> None
       | JArr [] \<Rightarrow> None
       | JArr vs \<Rightarrow> Some (k, join '','' (map js_string vs))
       | _ \<Rightarrow> Some (k, js_string v)) (spread checked)"

definition subscribe_request :: "bool \<Rightarrow> (string \<Rightarrow> string option) \<Rightarrow> client_config \<Rightarrow> json \<Rightarrow> client_error + http_request" where
  "subscribe_request shut env c flt =
     (case validateEventFilter flt of
        Inl e \<Rightarrow> Inl (Local e)
      | Inr checked \<Rightarrow> open_request shut env c ''GET'' ''events'' (subscription_query checked) event_stream None)"

section \<open>Answers\<close>

definition jsonBody :: "(string \<Rightarrow> string + json) \<Rightarrow> nat \<Rightarrow> string \<Rightarrow> client_error + json" where
  "jsonBody json_parse status body =
     (let bad = protocolError (''Expected a JSON response object, received HTTP '' @ dec status) in
      case json_parse body of
        Inl _ \<Rightarrow> Inl bad
      | Inr v \<Rightarrow> if isRecord v then Inr v else Inl bad)"

definition has_property :: "json \<Rightarrow> string \<Rightarrow> bool" where
  "has_property v k = (case v of JObj kvs \<Rightarrow> k \<in> set (map fst kvs) | _ \<Rightarrow> False)"

definition read_reply :: "(string \<Rightarrow> string + json) \<Rightarrow> string \<Rightarrow> nat \<Rightarrow> string \<Rightarrow> client_error + json" where
  "read_reply json_parse i status body =
     (case jsonBody json_parse status body of
        Inl e \<Rightarrow> Inl e
      | Inr payload \<Rightarrow>
          if isRecord (jget payload ''error'') then Inl (remoteError (jget payload ''error''))
          else if status \<noteq> 200 \<or> jget payload ''jsonrpc'' \<noteq> JStr ''2.0'' \<or> jget payload ''id'' \<noteq> JStr i \<or> \<not> has_property payload ''result''
          then Inl (protocolError ''Invalid HTTP RPC response'')
          else Inr (jget payload ''result''))"

definition assertSse :: "(string \<Rightarrow> string + json) \<Rightarrow> nat \<Rightarrow> string option \<Rightarrow> string \<Rightarrow> client_error + unit" where
  "assertSse json_parse status content_type body =
     (if status = 200 \<and> (case content_type of None \<Rightarrow> False | Some c \<Rightarrow> hd (split_on (CHR '';'') c) = event_stream) then Inr ()
      else case jsonBody json_parse status body of
        Inl e \<Rightarrow> Inl e
      | Inr payload \<Rightarrow>
          if isRecord (jget payload ''error'') then Inl (remoteError (jget payload ''error''))
          else Inl (protocolError (''Expected SSE response, received HTTP '' @ dec status)))"

section \<open>Frames\<close>

definition parseFrame :: "(string \<Rightarrow> string + json) \<Rightarrow> sse_frame \<Rightarrow> client_error + json" where
  "parseFrame json_parse f =
     (case json_parse (sf_data f) of
        Inl message \<Rightarrow> Inl (Local (JsError message))
      | Inr payload \<Rightarrow>
          if \<not> isRecord payload then Inl (protocolError ''Invalid SSE JSON payload'')
          else if sf_event f = ''stream/error'' then
            (if jget payload ''method'' \<noteq> JStr ''stream/error'' \<or> \<not> isRecord (jget payload ''params'')
             then Inl (protocolError ''Invalid stream error'')
             else Inl (remoteError (jget payload ''params'')))
          else Inr payload)"

definition parseEvent :: "sse_frame \<Rightarrow> json \<Rightarrow> client_error + json" where
  "parseEvent f payload =
     (let event = jget payload ''params'' in
      if sf_event f \<noteq> ''thread/event'' \<or> jget payload ''jsonrpc'' \<noteq> JStr ''2.0'' \<or> jget payload ''method'' \<noteq> JStr ''thread/event'' \<or>
         \<not> isRecord event \<or> \<not> is_jstr (jget event ''eventId'') \<or> \<not> is_jstr (jget event ''timestamp'') \<or>
         jget event ''type'' \<notin> JStr ` set DAEMON_EVENT_TYPES \<or> \<not> isRecord (jget event ''payload'') \<or>
         (sf_id f \<noteq> None \<and> jopt (sf_id f) \<noteq> jget event ''eventId'')
      then Inl (protocolError ''Invalid daemon event frame'')
      else Inr event)"

definition nonempty_jstr :: "json \<Rightarrow> bool" where
  "nonempty_jstr v = (case v of JStr s \<Rightarrow> s \<noteq> [] | _ \<Rightarrow> False)"

definition parseAccepted :: "json \<Rightarrow> client_error + json" where
  "parseAccepted v =
     (if \<not> isRecord v \<or> \<not> nonempty_jstr (jget v ''threadId'') \<or> \<not> nonempty_jstr (jget v ''turnId'') \<or>
         \<not> is_jstr (jget v ''workerId'') \<or> jget v ''status'' \<noteq> JStr ''accepted''
      then Inl (protocolError ''Invalid turn acceptance'')
      else Inr v)"

section \<open>Streams\<close>

text \<open>What the reader of a response does to the buffered stream.\<close>

datatype 'f stream_action = PushItem 'f | FinishStream | FailStream client_error

datatype client_frame = ClientAccepted json | ClientEvent json

definition terminal_json :: "json \<Rightarrow> bool" where
  "terminal_json event = (case jget event ''type'' of JStr t \<Rightarrow> isTerminalEventType t | _ \<Rightarrow> False)"

text \<open>
  The loop of \<open>streamTurn\<close>: \<open>shut n\<close> says whether the stream is closed after the \<open>n\<close>-th push, by its
  consumer or by its limit; \<open>ending\<close> is the end of \<open>readSse\<close>.
\<close>

fun turn_actions :: "(string \<Rightarrow> string + json) \<Rightarrow> string \<Rightarrow> (nat \<Rightarrow> bool) \<Rightarrow> unit result \<Rightarrow> nat \<Rightarrow> json option \<Rightarrow> sse_frame list \<Rightarrow>
    client_frame stream_action list" where
  "turn_actions json_parse i shut ending n acc [] =
     (case ending of
        Inl e \<Rightarrow> [FailStream (Local e)]
      | Inr _ \<Rightarrow> [FailStream (protocolError ''HTTP stream ended before a terminal turn event'')])"
| "turn_actions json_parse i shut ending n acc (f # fs) =
     (case parseFrame json_parse f of
        Inl e \<Rightarrow> [FailStream e]
      | Inr payload \<Rightarrow>
          if sf_event f = ''response'' then
            (if acc \<noteq> None \<or> jget payload ''jsonrpc'' \<noteq> JStr ''2.0'' \<or> jget payload ''id'' \<noteq> JStr i
             then [FailStream (protocolError ''Unexpected turn acknowledgement'')]
             else if isRecord (jget payload ''error'') then [FailStream (remoteError (jget payload ''error''))]
             else case parseAccepted (jget payload ''result'') of
               Inl e \<Rightarrow> [FailStream e]
             | Inr a \<Rightarrow> PushItem (ClientAccepted a) #
                 (if shut (Suc n) then [] else turn_actions json_parse i shut ending (Suc n) (Some a) fs))
          else
            (case parseEvent f payload of
               Inl e \<Rightarrow> [FailStream e]
             | Inr event \<Rightarrow>
                 if (case acc of
                       None \<Rightarrow> True
                     | Some a \<Rightarrow> jget event ''turnId'' \<noteq> jget a ''turnId'' \<or> jget event ''threadId'' \<noteq> jget a ''threadId'')
                 then [FailStream (protocolError ''Unexpected event outside the accepted turn'')]
                 else PushItem (ClientEvent event) #
                   (if terminal_json event then [FinishStream]
                    else if shut (Suc n) then [] else turn_actions json_parse i shut ending (Suc n) acc fs)))"

fun subscription_actions :: "(string \<Rightarrow> string + json) \<Rightarrow> (nat \<Rightarrow> bool) \<Rightarrow> unit result \<Rightarrow> nat \<Rightarrow> sse_frame list \<Rightarrow>
    json stream_action list" where
  "subscription_actions json_parse shut ending n [] =
     (case ending of
        Inl e \<Rightarrow> [FailStream (Local e)]
      | Inr _ \<Rightarrow> [FailStream (protocolError ''HTTP event subscription ended'')])"
| "subscription_actions json_parse shut ending n (f # fs) =
     (case (case parseFrame json_parse f of Inl e \<Rightarrow> Inl e | Inr payload \<Rightarrow> parseEvent f payload) of
        Inl e \<Rightarrow> [FailStream e]
      | Inr event \<Rightarrow> PushItem event #
          (if shut (Suc n) then [] else subscription_actions json_parse shut ending (Suc n) fs))"

end
