(* ===== verification/Cli_Commands.thy ===== *)
theory Cli_Commands
  imports Cli_Completion Service_Dispatch Http_Client
begin

text \<open>
  \<open>src/cli/commands.ts\<close>: the tree of commands that the program declares, and the action of each
  command, for the arguments and options that the parser of command lines hands to it.
\<close>

section \<open>Options of actions\<close>

text \<open>A parameter of a request: a value, or a number as \<open>Number\<close> reads it (\<open>None\<close> is \<open>NaN\<close> or an infinity).\<close>

datatype cli_value = Given json | Numeric "rat option"

definition numberOpt :: "json \<Rightarrow> cli_value" where
  "numberOpt v = (if v = JUndefined then Given JUndefined else Numeric (js_number (to_lower (js_string v))))"

definition boolOpt :: "json \<Rightarrow> json" where
  "boolOpt v = (if v = JUndefined then JUndefined else JBool (v = JStr ''on'' \<or> v = JStr ''true'' \<or> v = JStr ''1''))"

definition sortAscending :: "json \<Rightarrow> json" where
  "sortAscending options =
     (if jtruthy (jget options ''asc'') then JBool True
      else if jtruthy (jget options ''desc'') then JBool False else JUndefined)"

text \<open>\<open>parts.join(" ")\<close> and \<open>parts.join(" ") || undefined\<close>.\<close>

definition joined :: "json \<Rightarrow> json" where
  "joined parts = (case parts of JArr vs \<Rightarrow> JStr (join '' '' (map js_string vs)) | v \<Rightarrow> v)"

definition joined_or_none :: "json \<Rightarrow> json" where
  "joined_or_none parts = (if jtruthy (joined parts) then joined parts else JUndefined)"

section \<open>Actions\<close>

text \<open>
  What an action asks of the runtime: a request whose result is rendered, a turn, or one of its
  other methods. The arguments are those of the command, a list of words being an array.
\<close>

type_synonym cli_params = "(string \<times> cli_value) list"

datatype cli_action =
    Rendered string cli_params
  | Worked string cli_params
  | ShownThread json cli_value json json
  | ExportedHtml json json
  | ShownServers
  | StartedDaemon json

type_synonym cli_handler = "json list \<Rightarrow> json \<Rightarrow> cli_action"

definition arg :: "json list \<Rightarrow> nat \<Rightarrow> json" where
  "arg args n = (if n < length args then args ! n else JUndefined)"

definition list_fields :: "json \<Rightarrow> cli_params" where
  "list_fields options =
     [(''cwd'', Given (jget options ''cwd'')), (''limit'', numberOpt (jget options ''limit'')),
      (''cursor'', Given (jget options ''cursor'')), (''since'', Given (jget options ''since'')),
      (''archived'', Given (jget options ''archived'')), (''sort'', Given (jget options ''sort'')),
      (''asc'', Given (sortAscending options))]"

definition server_actions :: "(string list \<times> cli_handler) list" where
  "server_actions =
     [([''daemon'', ''start''], \<lambda>args options. StartedDaemon (jget options ''stdio'')),
      ([''daemon'', ''status''], \<lambda>args options. Rendered ''server/status'' []),
      ([''daemon'', ''stop''], \<lambda>args options. Rendered ''server/shutdown'' []),
      ([''servers''], \<lambda>args options. ShownServers),
      ([''servers'', ''ping''], \<lambda>args options. Rendered ''server/status'' [])]"

definition reading_actions :: "(string list \<times> cli_handler) list" where
  "reading_actions =
     [([''list''], \<lambda>args options. Rendered ''thread/list'' (list_fields options)),
      ([''search''], \<lambda>args options. Rendered ''thread/search'' ((''query'', Given (arg args 0)) # list_fields options)),
      ([''show''], \<lambda>args options.
         ShownThread (arg args 0) (numberOpt (jget options ''last'')) (sortAscending options) (jget options ''items'')),
      ([''messages''], \<lambda>args options. Rendered ''thread/messages''
         [(''threadId'', Given (arg args 0)), (''last'', numberOpt (jget options ''last'')),
          (''since'', Given (jget options ''since'')), (''role'', Given (jget options ''role''))])]"

definition turn_commands :: "(string list \<times> cli_handler) list" where
  "turn_commands =
     [([''new''], \<lambda>args options. Worked ''thread/start''
         [(''cwd'', Given (jget options ''cwd'')), (''name'', Given (jget options ''name'')),
          (''model'', Given (jget options ''model'')), (''thinking'', Given (jget options ''thinking'')),
          (''prompt'', Given (joined_or_none (arg args 0)))]),
      ([''send''], \<lambda>args options. Worked ''thread/send''
         [(''threadId'', Given (arg args 0)), (''model'', Given (jget options ''model'')),
          (''thinking'', Given (jget options ''thinking'')), (''prompt'', Given (joined (arg args 1)))]),
      ([''steer''], \<lambda>args options. Rendered ''thread/steer''
         [(''threadId'', Given (arg args 0)), (''prompt'', Given (joined (arg args 1)))]),
      ([''follow-up''], \<lambda>args options. Rendered ''thread/follow_up''
         [(''threadId'', Given (arg args 0)), (''prompt'', Given (joined (arg args 1)))]),
      ([''abort''], \<lambda>args options. Rendered ''thread/abort'' [(''threadId'', Given (arg args 0))]),
      ([''status''], \<lambda>args options. Rendered ''thread/status'' [(''threadId'', Given (arg args 0))])]"

definition copying_actions :: "(string list \<times> cli_handler) list" where
  "copying_actions =
     [([''fork''], \<lambda>args options. Rendered ''thread/fork''
         [(''threadId'', Given (arg args 0)), (''entryId'', Given (jget options ''entryId'')), (''name'', Given (jget options ''name''))]),
      ([''clone''], \<lambda>args options. Rendered ''thread/clone''
         [(''threadId'', Given (arg args 0)), (''name'', Given (jget options ''name''))]),
      ([''name''], \<lambda>args options. Rendered ''thread/name/set''
         [(''threadId'', Given (arg args 0)), (''name'', Given (arg args 1))])]"

definition settings_actions :: "(string list \<times> cli_handler) list" where
  "settings_actions =
     [([''settings'', ''show''], \<lambda>args options. Rendered ''thread/settings/read'' [(''threadId'', Given (arg args 0))]),
      ([''settings'', ''set''], \<lambda>args options. Rendered ''thread/settings/update''
         [(''threadId'', Given (arg args 0)), (''model'', Given (jget options ''model'')),
          (''thinking'', Given (jget options ''thinking'')), (''steeringMode'', Given (jget options ''steeringMode'')),
          (''followUpMode'', Given (jget options ''followUpMode'')),
          (''autoCompaction'', Given (boolOpt (jget options ''autoCompaction''))),
          (''autoRetry'', Given (boolOpt (jget options ''autoRetry'')))])]"

definition other_actions :: "(string list \<times> cli_handler) list" where
  "other_actions =
     [([''models''], \<lambda>args options. Rendered ''models/list'' [(''provider'', Given (jget options ''provider''))]),
      ([''usage''], \<lambda>args options. Rendered ''usage/read'' [(''threadId'', Given (arg args 0))]),
      ([''commands''], \<lambda>args options. Rendered ''thread/commands/list'' [(''threadId'', Given (arg args 0))]),
      ([''stats''], \<lambda>args options. Rendered ''thread/context/stats'' [(''threadId'', Given (arg args 0))]),
      ([''compact''], \<lambda>args options. Rendered ''thread/compact''
         [(''threadId'', Given (arg args 0)), (''prompt'', Given (joined_or_none (arg args 1)))]),
      ([''bash''], \<lambda>args options. Rendered ''thread/bash/run''
         [(''threadId'', Given (arg args 0)), (''command'', Given (joined (arg args 1)))]),
      ([''export-html''], \<lambda>args options. ExportedHtml (arg args 0) (arg args 1))]"

definition cli_actions :: "(string list \<times> cli_handler) list" where
  "cli_actions = server_actions @ reading_actions @ turn_commands @ copying_actions @ settings_actions @ other_actions"

text \<open>The action of the command with a path of names.\<close>

definition cli_action :: "string list \<Rightarrow> json list \<Rightarrow> json \<Rightarrow> cli_action option" where
  "cli_action path args options = map_option (\<lambda>f. f args options) (map_of cli_actions path)"

section \<open>The tree of commands\<close>

text \<open>\<open>.option("--name")\<close>, \<open>.option("--name <value>")\<close> and an option with \<open>.choices\<close>.\<close>

definition switch :: "string \<Rightarrow> cli_option" where
  "switch flag = \<lparr>oc_long = Some flag, oc_short = None, oc_required = False, oc_optional = False, oc_hidden = False, oc_choices = None\<rparr>"

definition valued :: "string \<Rightarrow> cli_option" where
  "valued flag = (switch flag)\<lparr>oc_required := True\<rparr>"

definition limited :: "string \<Rightarrow> string list \<Rightarrow> cli_option" where
  "limited flag choices = (valued flag)\<lparr>oc_choices := Some choices\<rparr>"

text \<open>A command without commands of its own, and one with them; \<open>free\<close> is an argument without choices.\<close>

abbreviation leaf :: "string \<Rightarrow> cli_option list \<Rightarrow> string list option list \<Rightarrow> cli_command" where
  "leaf name opts args \<equiv> Command name opts args False []"

abbreviation free :: "string list option" where
  "free \<equiv> None"

definition global_options :: "cli_option list" where
  "global_options =
     [(switch ''--version'')\<lparr>oc_short := Some ''-V''\<rparr>, valued ''--config'', valued ''--connect'', valued ''--server'', switch ''--json'',
      switch ''--stream'', switch ''--no-wait'', valued ''--auth-token'', valued ''--auth-token-env'', valued ''--tls-ca'']"

definition sort_option :: cli_option where
  "sort_option = limited ''--sort'' [''updated'', ''created'']"

definition list_options :: "cli_option list" where
  "list_options = [valued ''--cwd'', valued ''--limit'', valued ''--cursor'', valued ''--since'', switch ''--archived'', sort_option,
     switch ''--asc'', switch ''--desc'']"

definition thinking_option :: cli_option where
  "thinking_option = limited ''--thinking'' THINKING_LEVELS"

definition completion_commands :: "cli_command list" where
  "completion_commands =
     [Command ''completion'' [] [Some COMPLETION_SHELLS] False [leaf ''script'' [] [Some COMPLETION_SHELLS]],
      Command ''__complete'' [] [free, free] True []]"

definition server_commands :: "cli_command list" where
  "server_commands =
     [Command ''daemon'' [] [] False [leaf ''start'' [switch ''--stdio''] [], leaf ''status'' [] [], leaf ''stop'' [] []],
      Command ''servers'' [] [] False [leaf ''ping'' [] []]]"

definition reading_commands :: "cli_command list" where
  "reading_commands =
     [leaf ''list'' list_options [], leaf ''search'' list_options [free],
      leaf ''show'' [valued ''--last'', switch ''--asc'', switch ''--desc'', limited ''--items'' [''summary'', ''full'', ''none'']] [free],
      leaf ''messages'' [valued ''--last'', valued ''--since'',
        limited ''--role'' [''user'', ''assistant'', ''tool'', ''bash'', ''custom'']] [free]]"

definition working_commands :: "cli_command list" where
  "working_commands =
     [leaf ''new'' [valued ''--cwd'', valued ''--name'', valued ''--model'', thinking_option] [free],
      leaf ''send'' [valued ''--model'', thinking_option] [free, free], leaf ''steer'' [] [free, free],
      leaf ''follow-up'' [] [free, free], leaf ''abort'' [] [free], leaf ''status'' [] [free]]"

definition copying_commands :: "cli_command list" where
  "copying_commands =
     [leaf ''fork'' [valued ''--entry-id'', valued ''--name''] [free], leaf ''clone'' [valued ''--name''] [free],
      leaf ''name'' [] [free, free]]"

definition settings_commands :: "cli_command list" where
  "settings_commands =
     [Command ''settings'' [] [] False
        [leaf ''show'' [] [free],
         leaf ''set'' [valued ''--model'', thinking_option, limited ''--steering-mode'' [''all'', ''one-at-a-time''],
           limited ''--follow-up-mode'' [''all'', ''one-at-a-time''],
           limited ''--auto-compaction'' [''on'', ''off'', ''true'', ''false'', ''1'', ''0''],
           limited ''--auto-retry'' [''on'', ''off'', ''true'', ''false'', ''1'', ''0'']] [free]]]"

definition other_commands :: "cli_command list" where
  "other_commands =
     [leaf ''models'' [valued ''--provider''] [], leaf ''usage'' [] [free], leaf ''commands'' [] [free], leaf ''stats'' [] [free],
      leaf ''compact'' [] [free, free], leaf ''bash'' [] [free, free], leaf ''export-html'' [] [free, free]]"

definition program :: cli_command where
  "program = Command ''pi-threads'' global_options [] False
     (completion_commands @ server_commands @ reading_commands @ working_commands @ copying_commands @ settings_commands @ other_commands)"

end
