(* ===== verification/Cli_Render.thy ===== *)
theory Cli_Render
  imports Http_Client Cli_Completion
begin

text \<open>
  \<open>src/cli/render.ts\<close>: what the program writes on its standard output for a result or an event, as
  JSON, as a table, or as lines of keys and values. Each function returns the text it writes. A
  width is a number of characters, which for the bytes of \<open>Prelude\<close> is that of ASCII text.
\<close>

section \<open>JSON\<close>

definition indent :: "nat \<Rightarrow> string" where
  "indent n = replicate n CHR '' ''"

text \<open>\<open>JSON.stringify(value, null, 2)\<close>, at a depth of \<open>n\<close> blanks.\<close>

fun pretty :: "nat \<Rightarrow> json \<Rightarrow> string"
  and pretty_elems :: "nat \<Rightarrow> json list \<Rightarrow> string list"
  and pretty_props :: "nat \<Rightarrow> (string \<times> json) list \<Rightarrow> string list" where
  "pretty n JUndefined = ''null''"
| "pretty n JNull = ''null''"
| "pretty n (JBool b) = (if b then ''true'' else ''false'')"
| "pretty n (JNum i) = int_string i"
| "pretty n (JStr s) = quote s"
| "pretty n (JArr vs) =
     (case pretty_elems (n + 2) vs of
        [] \<Rightarrow> ''[]''
      | es \<Rightarrow> ''['' @ newline # join ('','' @ [newline]) es @ newline # indent n @ '']'')"
| "pretty n (JObj kvs) =
     (case pretty_props (n + 2) kvs of
        [] \<Rightarrow> ''{}''
      | es \<Rightarrow> ''{'' @ newline # join ('','' @ [newline]) es @ newline # indent n @ ''}'')"
| "pretty_elems n [] = []"
| "pretty_elems n (v # vs) = (indent n @ pretty n v) # pretty_elems n vs"
| "pretty_props n [] = []"
| "pretty_props n ((k, v) # kvs) =
     (if v = JUndefined then pretty_props n kvs
      else (indent n @ quote k @ '': '' @ pretty n v) # pretty_props n kvs)"

definition printJson :: "json \<Rightarrow> string" where
  "printJson v = (if v = JUndefined then ''undefined'' else pretty 0 v) @ [newline]"

definition printNdjson :: "json \<Rightarrow> string" where
  "printNdjson v = (if v = JUndefined then ''undefined'' else stringify v) @ [newline]"

section \<open>Cells\<close>

text \<open>\<open>text.replace(/\s+/g, " ")\<close>.\<close>

function collapse :: "string \<Rightarrow> string" where
  "collapse [] = []"
| "collapse (c # cs) = (if is_space c then CHR '' '' # collapse (dropWhile is_space cs) else c # collapse cs)"
  by pat_completeness auto
termination
  by (relation "measure length") (auto simp: length_dropWhile_le le_imp_less_Suc)

definition sanitizeCell :: "json \<Rightarrow> string" where
  "sanitizeCell v = (if nullish v then [] else trim (collapse (js_string v)))"

definition padEnd :: "string \<Rightarrow> nat \<Rightarrow> string" where
  "padEnd s width = s @ replicate (width - length s) CHR '' ''"

definition formatValue :: "json \<Rightarrow> json" where
  "formatValue v = (if record_like v then JStr (stringify v) else v)"

section \<open>Tables\<close>

text \<open>The widths after a row: the loop \<open>row.forEach\<close>.\<close>

fun widen :: "nat list \<Rightarrow> string list \<Rightarrow> nat list" where
  "widen ws [] = ws"
| "widen [] (c # cs) = length c # widen [] cs"
| "widen (w # ws) (c # cs) = max w (length c) # widen ws cs"

definition column_widths :: "string list \<Rightarrow> string list list \<Rightarrow> nat list" where
  "column_widths headers rows = fold (\<lambda>row ws. widen ws row) rows (map length headers)"

definition cell_at :: "string list \<Rightarrow> nat \<Rightarrow> string" where
  "cell_at row i = (if i < length row then row ! i else [])"

definition table_row :: "nat list \<Rightarrow> string list \<Rightarrow> string" where
  "table_row widths row =
     join ''  '' (map (\<lambda>i. if i + 1 = length widths then cell_at row i else padEnd (cell_at row i) (widths ! i)) [0..<length widths])"

definition printTableRow :: "nat list \<Rightarrow> string list \<Rightarrow> string" where
  "printTableRow widths row = table_row widths row @ [newline]"

definition no_results :: string where
  "no_results = ''No results'' @ [newline]"

definition printTable :: "string list \<Rightarrow> json list list \<Rightarrow> string" where
  "printTable headers rows =
     (if rows = [] then no_results
      else let rendered = map (map sanitizeCell) rows; widths = column_widths headers rendered in
        printTableRow widths headers @ concat (map (printTableRow widths) rendered))"

text \<open>The rows of a table of records.\<close>

definition columns_of :: "string list \<Rightarrow> json list \<Rightarrow> json list list" where
  "columns_of keys rows = map (\<lambda>row. map (jget row) keys) rows"

definition printThreads :: "json list \<Rightarrow> string" where
  "printThreads rows = printTable [''THREAD'', ''STATUS'', ''CWD'', ''NAME'', ''MESSAGES'', ''MODIFIED'']
     (columns_of [''threadId'', ''status'', ''cwd'', ''name'', ''messageCount'', ''modified''] rows)"

definition printWorkers :: "json list \<Rightarrow> string" where
  "printWorkers rows = printTable [''WORKER'', ''STATE'', ''THREAD'', ''CWD'', ''PID'', ''VERSION'', ''LAST USED'']
     (columns_of [''workerId'', ''state'', ''threadId'', ''cwd'', ''pid'', ''version'', ''lastUsedAt''] rows)"

definition printModels :: "json list \<Rightarrow> string" where
  "printModels rows = printTable [''MODEL'', ''PROVIDER'', ''NAME'', ''CONTEXT'', ''INPUT'']
     (map (\<lambda>row. map (jget row) [''id'', ''provider'', ''name'', ''contextWindow''] @
        [case jget row ''input'' of JArr vs \<Rightarrow> JStr (js_string (JArr vs)) | v \<Rightarrow> v]) rows)"

definition printCommands :: "json list \<Rightarrow> string" where
  "printCommands rows = printTable [''COMMAND'', ''SOURCE'', ''DESCRIPTION''] (columns_of [''name'', ''source'', ''description''] rows)"

definition to_upper :: "string \<Rightarrow> string" where
  "to_upper s = map (\<lambda>c. if 97 \<le> (of_char c :: nat) \<and> (of_char c :: nat) \<le> 122 then char_of ((of_char c :: nat) - 32) else c) s"

definition printRecords :: "json list \<Rightarrow> string" where
  "printRecords rows =
     (if rows = [] then no_results
      else let columns = unique (concat (map (\<lambda>row. map fst (spread row)) rows)) in
        printTable (map to_upper columns) (columns_of columns rows))"

section \<open>Keys and values\<close>

definition printKeyValues :: "(string \<times> json) list \<Rightarrow> string" where
  "printKeyValues rows =
     (let width = fold max (map (\<lambda>(k, _). length k) rows) 0 in
      concat (map (\<lambda>(k, v). padEnd k width @ ''  '' @ sanitizeCell (formatValue v) @ [newline]) rows))"

section \<open>Messages\<close>

definition messagePartText :: "json \<Rightarrow> string" where
  "messagePartText part =
     (if \<not> record_like part then sanitizeCell part
      else case (jget part ''text'', jget part ''thinking'') of
        (JStr t, _) \<Rightarrow> trim t
      | (_, JStr t) \<Rightarrow> trim t
      | _ \<Rightarrow> sanitizeCell (JStr (stringify part)))"

definition cli_messageText :: "json \<Rightarrow> string" where
  "cli_messageText message =
     (case coalesce (coalesce (jget message ''content'') (jget message ''text'')) (jget message ''message'') of
        JArr parts \<Rightarrow> join [newline] (filter (\<lambda>t. t \<noteq> []) (map messagePartText parts))
      | JStr s \<Rightarrow> trim s
      | JUndefined \<Rightarrow> sanitizeCell (JStr (stringify message))
      | content \<Rightarrow> sanitizeCell (JStr (stringify content)))"

definition message_lines :: "json \<Rightarrow> string" where
  "message_lines message =
     (let role = sanitizeCell (coalesce (jget message ''role'') (JStr ''message''));
          stamp = coalesce (jget message ''createdAt'') (jget message ''timestamp'') in
      ''['' @ role @ (if jtruthy stamp then '' '' @ sanitizeCell stamp else []) @ '']'' @ newline # cli_messageText message @ [newline])"

definition printMessages :: "json list \<Rightarrow> string" where
  "printMessages rows = (if rows = [] then no_results else join [newline] (map message_lines rows))"

definition entryToMessage :: "json \<Rightarrow> bool \<Rightarrow> json list" where
  "entryToMessage entry full =
     (if \<not> record_like entry \<or> jget entry ''type'' \<noteq> JStr ''message'' \<or> \<not> record_like (jget entry ''message'') then []
      else let message = jget entry ''message'' in
        [JObj [(''role'', coalesce (jget message ''role'') (JStr ''message'')),
           (''createdAt'', coalesce (coalesce (jget message ''createdAt'') (jget message ''timestamp'')) (jget entry ''timestamp'')),
           (''text'', JStr (if full then pretty 0 entry else cli_messageText message))]])"

text \<open>\<open>view\<close> is \<open>None\<close> when the parameter is left out.\<close>

definition renderThreadRead :: "json \<Rightarrow> string option \<Rightarrow> string" where
  "renderThreadRead v view =
     (let itemView = (case view of None \<Rightarrow> ''summary'' | Some m \<Rightarrow> m);
          head = printKeyValues (spread (if record_like (jget v ''thread'') then jget v ''thread'' else v)) in
      case jget v ''entries'' of
        JArr entries \<Rightarrow>
          if itemView = ''none'' then head
          else let messages = concat (map (\<lambda>e. entryToMessage e (itemView = ''full'')) entries) in
            if messages = [] then head else head @ newline # printMessages messages
      | _ \<Rightarrow> head)"

section \<open>Results and events\<close>

definition isServerMap :: "json \<Rightarrow> bool" where
  "isServerMap v =
     (let vs = map snd (spread v) in vs \<noteq> [] \<and> list_all (\<lambda>x. record_like x \<and> has_property x ''endpoint'') vs)"

text \<open>The rows of a property that is an array.\<close>

definition array_at :: "json \<Rightarrow> string \<Rightarrow> json list option" where
  "array_at v k = (case jget v k of JArr rows \<Rightarrow> Some rows | _ \<Rightarrow> None)"

definition render_record :: "(string \<times> json) list \<Rightarrow> string" where
  "render_record kvs =
     (let v = JObj kvs in
      if isServerMap v then
        printTable [''SERVER'', ''ENDPOINT''] (map (\<lambda>(k, server). [JStr k, jget server ''endpoint'']) kvs)
      else if record_like (jget v ''thread'') then renderThreadRead v None
      else if record_like (jget v ''worker'') then printWorkers [jget v ''worker'']
      else printKeyValues kvs)"

definition renderHuman :: "json \<Rightarrow> string" where
  "renderHuman v =
     (case v of
        JArr rows \<Rightarrow> printRecords rows
      | JObj kvs \<Rightarrow>
          (if array_at v ''threads'' \<noteq> None then
             printThreads (the (array_at v ''threads'')) @
             (if jtruthy (jget v ''cursor'') then printKeyValues [(''cursor'', jget v ''cursor'')] else [])
           else if array_at v ''workers'' \<noteq> None then printWorkers (the (array_at v ''workers''))
           else if array_at v ''models'' \<noteq> None then printModels (the (array_at v ''models''))
           else if array_at v ''commands'' \<noteq> None then printCommands (the (array_at v ''commands''))
           else if array_at v ''messages'' \<noteq> None then printMessages (the (array_at v ''messages''))
           else render_record kvs)
      | _ \<Rightarrow> js_string v @ [newline])"

definition renderEvent :: "json \<Rightarrow> bool \<Rightarrow> string" where
  "renderEvent event as_json =
     (if as_json then printNdjson event
      else let scope = join '' '' (map js_string (filter jtruthy (map (jget event) [''threadId'', ''turnId'', ''workerId'']))) in
        js_string (jget event ''type'') @ (if scope \<noteq> [] then '' '' @ scope else []) @ [newline])"

end
