(* ===== verification/Cli_Runtime.thy ===== *)
theory Cli_Runtime
  imports Cli_Commands Cli_Render
begin

text \<open>
  \<open>src/cli/runtime.ts\<close> and \<open>src/index.ts\<close>: what an action asks of the daemon, what the program writes
  for the answer or for the frames of a turn, and how it ends. The effects of a run are listed in
  order; what the daemon answers is a parameter.
\<close>

section \<open>Options and parameters\<close>

record global_flags =
  go_json :: bool
  go_stream :: bool
  go_wait :: "bool option"

text \<open>
  A parameter as the daemon reads it: \<open>JSON.stringify\<close> writes \<open>NaN\<close> and the infinities as \<open>null\<close>. A
  number that is not whole is no value of the type \<open>json\<close>.
\<close>

definition wire_value :: "cli_value \<Rightarrow> json option" where
  "wire_value v =
     (case v of
        Given g \<Rightarrow> Some g
      | Numeric None \<Rightarrow> Some JNull
      | Numeric (Some q) \<Rightarrow> if snd (quotient_of q) = 1 then Some (JNum (fst (quotient_of q))) else None)"

fun wire_params :: "cli_params \<Rightarrow> (string \<times> json) list option" where
  "wire_params [] = Some []"
| "wire_params ((k, v) # ps) =
     (case (wire_value v, wire_params ps) of (Some j, Some kvs) \<Rightarrow> Some ((k, j) # kvs) | _ \<Rightarrow> None)"

definition sent_params :: "cli_params \<Rightarrow> json option" where
  "sent_params ps = map_option (\<lambda>kvs. wire (JObj kvs)) (wire_params ps)"

definition hasPrompt :: "cli_params \<Rightarrow> bool" where
  "hasPrompt ps = (case map_of ps ''prompt'' of Some (Given (JStr s)) \<Rightarrow> trim s \<noteq> [] | _ \<Rightarrow> False)"

section \<open>Requests\<close>

text \<open>The request of an action.\<close>

definition asks :: "cli_action \<Rightarrow> (string \<times> cli_params) option" where
  "asks a =
     (case a of
        Rendered meth ps \<Rightarrow> Some (meth, ps)
      | Worked meth ps \<Rightarrow> Some (meth, ps)
      | ShownThread t count asc mode \<Rightarrow> Some (''thread/read'', [(''threadId'', Given t), (''last'', count), (''asc'', Given asc)])
      | ExportedHtml t output \<Rightarrow> Some (''thread/export/html'', [(''threadId'', Given t)])
      | ShownServers \<Rightarrow> None
      | StartedDaemon stdio \<Rightarrow> None)"

text \<open>Whether a turn is waited for.\<close>

definition follows_turn :: "global_flags \<Rightarrow> cli_params \<Rightarrow> bool" where
  "follows_turn g ps \<longleftrightarrow> go_wait g \<noteq> Some False \<and> hasPrompt ps"

section \<open>Effects\<close>

datatype cli_effect = Wrote string | WroteFile string string | ClosedStream | ClosedClient

type_synonym cli_outcome = "client_error + unit"

definition render_text :: "global_flags \<Rightarrow> json \<Rightarrow> string" where
  "render_text g v = (if go_json g then printJson v else renderHuman v)"

definition renderAcceptance :: "global_flags \<Rightarrow> json \<Rightarrow> string" where
  "renderAcceptance g v = (if go_json g \<and> go_stream g then printNdjson v else render_text g v)"

text \<open>A request on a client of its own, and what is written for its result.\<close>

definition with_request :: "client_error + json \<Rightarrow> (json \<Rightarrow> cli_effect list) \<Rightarrow> cli_effect list \<times> cli_outcome" where
  "with_request got effects =
     (case got of Inl e \<Rightarrow> ([ClosedClient], Inl e) | Inr v \<Rightarrow> (ClosedClient # effects v, Inr ()))"

definition show_effects :: "global_flags \<Rightarrow> json \<Rightarrow> json \<Rightarrow> cli_effect list" where
  "show_effects g mode v = [Wrote (if go_json g then printJson v else renderThreadRead v (jstr_opt mode))]"

definition export_effects :: "global_flags \<Rightarrow> json \<Rightarrow> json \<Rightarrow> json \<Rightarrow> cli_effect list" where
  "export_effects g t output v =
     (if jtruthy output
      then [WroteFile (js_string output) (js_string (jget v ''html'')),
            Wrote (render_text g (JObj [(''threadId'', t), (''output'', output)]))]
      else if go_json g then [Wrote (printJson v)]
      else [Wrote (js_string (jget v ''html''))])"

section \<open>Turns\<close>

text \<open>The error for a turn that failed or was aborted.\<close>

definition turn_error :: "json \<Rightarrow> client_error" where
  "turn_error event =
     Local (DaemonError PiRpcError
       (string_or (jget (jget event ''payload'') ''message'')
          (if jget event ''type'' = JStr ''turn.aborted'' then ''Pi turn aborted'' else ''Pi turn failed''))
       (case jget event ''payload'' of JObj kvs \<Rightarrow> Some kvs | _ \<Rightarrow> None))"

definition ended_badly :: "json \<Rightarrow> bool" where
  "ended_badly event \<longleftrightarrow> jget event ''type'' = JStr ''turn.failed'' \<or> jget event ''type'' = JStr ''turn.aborted''"

text \<open>The loop over the frames of a stream that ends with \<open>ending\<close>.\<close>

fun follow :: "global_flags \<Rightarrow> client_frame list \<Rightarrow> cli_outcome \<Rightarrow> cli_effect list \<times> cli_outcome" where
  "follow g [] ending = ([], ending)"
| "follow g (ClientAccepted a # fs) ending =
     (let (es, r) = follow g fs ending in (Wrote (renderAcceptance g a) # es, r))"
| "follow g (ClientEvent ev # fs) ending =
     (let written = (if go_stream g then [Wrote (renderEvent ev (go_json g))] else []) in
      if ended_badly ev then (written, Inl (turn_error ev))
      else let (es, r) = follow g fs ending in (written @ es, r))"

text \<open>What a consumer of the client's stream gets: its mode in order, then its end.\<close>

fun delivered :: "client_frame stream_action list \<Rightarrow> client_frame list \<times> cli_outcome option" where
  "delivered [] = ([], None)"
| "delivered (PushItem f # as) = (let (fs, r) = delivered as in (f # fs, r))"
| "delivered (FinishStream # as) = ([], Some (Inr ()))"
| "delivered (FailStream e # as) = ([], Some (Inl e))"

text \<open>
  \<open>work\<close>: the answer to a plain request, or the outcome of \<open>streamTurn\<close> with the frames of its stream.
\<close>

definition work_turn :: "global_flags \<Rightarrow> cli_params \<Rightarrow> client_error + json \<Rightarrow>
    client_error + (client_frame list \<times> cli_outcome) \<Rightarrow> cli_effect list \<times> cli_outcome" where
  "work_turn g ps got stream =
     (if \<not> follows_turn g ps then
        (case got of
           Inl e \<Rightarrow> ([ClosedClient], Inl e)
         | Inr v \<Rightarrow> ([Wrote (renderAcceptance g v), ClosedClient], Inr ()))
      else
        (case stream of
           Inl e \<Rightarrow> ([ClosedClient], Inl e)
         | Inr (fs, ending) \<Rightarrow>
             (let (es, r) = follow g fs ending in (es @ [ClosedStream, ClosedClient], r))))"

section \<open>The program\<close>

definition daemon_banner :: "bool \<Rightarrow> string list \<Rightarrow> string" where
  "daemon_banner stdio names = (if stdio then [] else concat (map (\<lambda>name. ''listening '' @ name @ [newline]) names))"

text \<open>An action that does not start a daemon: \<open>config\<close> is the outcome of loading the configuration.\<close>

definition run_action :: "global_flags \<Rightarrow> json result \<Rightarrow> cli_action \<Rightarrow> client_error + json \<Rightarrow>
    client_error + (client_frame list \<times> cli_outcome) \<Rightarrow> cli_effect list \<times> cli_outcome" where
  "run_action g config a got stream =
     (case config of
        Inl e \<Rightarrow> ([], Inl (Local e))
      | Inr c \<Rightarrow>
          (case a of
             Rendered meth ps \<Rightarrow> with_request got (\<lambda>v. [Wrote (render_text g v)])
           | Worked meth ps \<Rightarrow> work_turn g ps got stream
           | ShownThread t count asc mode \<Rightarrow> with_request got (show_effects g mode)
           | ExportedHtml t output \<Rightarrow> with_request got (export_effects g t output)
           | ShownServers \<Rightarrow> ([Wrote (render_text g (jget c ''servers''))], Inr ())
           | StartedDaemon stdio \<Rightarrow> ([], Inr ())))"

text \<open>\<open>runCli().catch\<close>: the text on the error output and the exit code, when the program ends by an error.\<close>

definition client_message :: "client_error \<Rightarrow> string" where
  "client_message e = (case e of Local t \<Rightarrow> thrown_message t | Remote c m d \<Rightarrow> m)"

definition exit_of :: "cli_outcome \<Rightarrow> (string \<times> nat) option" where
  "exit_of r = (case r of Inl e \<Rightarrow> Some (client_message e @ [newline], 1) | Inr _ \<Rightarrow> None)"

text \<open>\<open>client()\<close>: the configuration of the client of a command.\<close>

definition client_of :: "json \<Rightarrow> client_options \<Rightarrow> client_config" where
  "client_of config opts =
     (let (endpoint, token, tokenEnv, ca) = resolveClientConfig config opts in
      \<lparr>cc_endpoint = js_string endpoint, cc_authToken = jstr_opt token, cc_authTokenEnv = jstr_opt tokenEnv, cc_tlsCa = jstr_opt ca\<rparr>)"

end
