(* ===== verification/Sse_Props.thy ===== *)
theory Sse_Props
  imports Sse
begin

text \<open>
  What is written as server-sent events is read back frame by frame, however the text is cut into
  chunks and with heartbeats in between, and an unfinished frame is never delivered.
\<close>

section \<open>Reading a text at once\<close>

lemma byteLength_simps [simp]: "byteLength [] = 0" "byteLength (c # s) = char_bytes c + byteLength s"
  "byteLength (s @ t) = byteLength s + byteLength t"
  by (simp_all add: byteLength_def)

lemma char_bytes_newline [simp]: "char_bytes newline = 1"
  by (simp add: char_bytes_def newline_def)

lemma sse_drain_None: "next_line b = None \<Longrightarrow> sse_drain b st = ([], Inr (st, b))"
  by (subst sse_drain.simps) simp

lemma sse_drain_next:
  "newline \<notin> set raw \<Longrightarrow> sse_drain (raw @ newline # rest) st =
     (let st1 = st\<lparr>ss_bytes := ss_bytes st + byteLength raw + 1\<rparr> in
      if ss_bytes st1 > MAX_STREAM_BYTES then ([], Inl sse_overflow)
      else let (out, st2) = sse_line (strip_cr raw) st1; (frames, r) = sse_drain rest st2 in (out @ frames, r))"
  by (subst sse_drain.simps) (simp add: next_line_append)

text \<open>Reading on after more text has arrived.\<close>

definition continue :: "sse_frame list \<times> (sse_state \<times> string) result \<Rightarrow> string \<Rightarrow> sse_frame list \<times> (sse_state \<times> string) result" where
  "continue x t =
     (case x of
        (frames, Inl e) \<Rightarrow> (frames, Inl e)
      | (frames, Inr (st, b)) \<Rightarrow> (case sse_drain (b @ t) st of (later, r) \<Rightarrow> (frames @ later, r)))"

lemma sse_drain_append: "sse_drain (b @ t) st = continue (sse_drain b st) t"
proof (induction "length b" arbitrary: b st rule: less_induct)
  case less
  show ?case
  proof (cases "next_line b")
    case None
    then show ?thesis by (simp add: continue_def sse_drain_None)
  next
    case (Some lr)
    obtain raw rest where lr: "lr = (raw, rest)" by fastforce
    with Some have b: "b = raw @ newline # rest" "newline \<notin> set raw" by (simp_all add: next_line_Some)
    then have IH: "sse_drain (rest @ t) st' = continue (sse_drain rest st') t" for st' by (intro less) simp
    show ?thesis
      by (simp add: b sse_drain_next [OF b(2)] IH Let_def continue_def split: prod.splits sum.splits)
  qed
qed

text \<open>Only a finished frame takes bytes off the count.\<close>

lemma sse_start_fields [simp]:
  "ss_bytes sse_start = 0" "ss_data sse_start = []" "ss_event sse_start = ''message''" "ss_id sse_start = None"
  by (simp_all add: sse_start_def)

lemma sse_field_bytes [simp]: "ss_bytes (sse_field fv st) = ss_bytes st"
  by (simp add: sse_field_def Let_def split: prod.splits)

lemma sse_line_bytes: "sse_line line st = (out, st1) \<Longrightarrow> ss_bytes st1 \<le> ss_bytes st"
  by (auto simp: sse_line_def sse_start_def split: if_splits)

lemma sse_drain_bytes:
  "sse_drain b st = (frames, Inr (st1, b1)) \<Longrightarrow> ss_bytes st1 + byteLength b1 \<le> ss_bytes st + byteLength b"
proof (induction "length b" arbitrary: b st frames rule: less_induct)
  case less
  show ?case
  proof (cases "next_line b")
    case None
    then show ?thesis using less.prems by (simp add: sse_drain_None)
  next
    case (Some lr)
    obtain raw rest where lr: "lr = (raw, rest)" by fastforce
    with Some have b: "b = raw @ newline # rest" "newline \<notin> set raw" by (simp_all add: next_line_Some)
    let ?st = "st\<lparr>ss_bytes := ss_bytes st + byteLength raw + 1\<rparr>"
    obtain out st2 where line: "sse_line (strip_cr raw) ?st = (out, st2)" by fastforce
    obtain later r where rest: "sse_drain rest st2 = (later, r)" by fastforce
    have r: "r = Inr (st1, b1)" using less.prems line rest by (auto simp: b sse_drain_next [OF b(2)] Let_def split: if_splits)
    have "ss_bytes st1 + byteLength b1 \<le> ss_bytes st2 + byteLength rest"
      by (rule less.hyps) (use b rest r in auto)
    with sse_line_bytes [OF line] show ?thesis by (simp add: b)
  qed
qed

text \<open>A text that is a sequence of whole frames of admissible size: \<open>whole t frames\<close>.\<close>

definition bounded_text :: "string \<Rightarrow> bool" where
  "bounded_text t \<longleftrightarrow> (\<forall>p s. t = p @ s \<longrightarrow> (\<forall>frames st b. sse_drain p sse_start = (frames, Inr (st, b)) \<longrightarrow>
     ss_bytes st + byteLength b \<le> MAX_STREAM_BYTES))"

lemma bounded_textD:
  "bounded_text (p @ s) \<Longrightarrow> sse_drain p sse_start = (frames, Inr (st, b)) \<Longrightarrow> ss_bytes st + byteLength b \<le> MAX_STREAM_BYTES"
  unfolding bounded_text_def by blast

definition whole :: "string \<Rightarrow> sse_frame list \<Rightarrow> bool" where
  "whole t frames \<longleftrightarrow> sse_drain t sse_start = (frames, Inr (sse_start, [])) \<and> bounded_text t"

lemma bounded_small: "byteLength t \<le> MAX_STREAM_BYTES \<Longrightarrow> bounded_text t"
  unfolding bounded_text_def
proof (intro allI impI)
  fix p s frames st b
  assume t: "byteLength t \<le> MAX_STREAM_BYTES" "t = p @ s" and "sse_drain p sse_start = (frames, Inr (st, b))"
  from sse_drain_bytes [OF this(3)] t show "ss_bytes st + byteLength b \<le> MAX_STREAM_BYTES" by (simp add: sse_start_def)
qed

lemma bounded_append:
  assumes "whole t frames" "bounded_text u"
  shows "bounded_text (t @ u)"
  unfolding bounded_text_def
proof (intro allI impI)
  fix p s fs st b
  assume tu: "t @ u = p @ s" and p: "sse_drain p sse_start = (fs, Inr (st, b))"
  from tu obtain w where "t = p @ w \<or> p = t @ w \<and> u = w @ s" by (auto simp: append_eq_append_conv2)
  then show "ss_bytes st + byteLength b \<le> MAX_STREAM_BYTES"
  proof
    assume "t = p @ w"
    then show ?thesis using assms(1) p by (auto simp: whole_def bounded_text_def)
  next
    assume w: "p = t @ w \<and> u = w @ s"
    then have "\<exists>later. sse_drain w sse_start = (later, Inr (st, b))"
      using p assms(1) sse_drain_append [of t w sse_start] by (auto simp: whole_def continue_def split: prod.splits)
    then show ?thesis using assms(2) w by (auto simp: bounded_text_def)
  qed
qed

lemma whole_append: "whole t frames \<Longrightarrow> whole u later \<Longrightarrow> whole (t @ u) (frames @ later)"
  using bounded_append [of t frames u] sse_drain_append [of t u sse_start] by (simp add: whole_def continue_def)

lemma whole_Nil: "whole [] []"
  by (simp add: whole_def bounded_small sse_drain_None next_line_def)

lemma whole_concat: "\<forall>(t, frames) \<in> set tfs. whole t frames \<Longrightarrow> whole (concat (map fst tfs)) (concat (map snd tfs))"
  by (induction tfs) (auto simp: whole_Nil whole_append)

section \<open>Chunks\<close>

lemma sse_drain_rest: "sse_drain b st = (frames, Inr (st1, b1)) \<Longrightarrow> next_line b1 = None"
proof (induction "length b" arbitrary: b st frames rule: less_induct)
  case less
  show ?case
  proof (cases "next_line b")
    case None
    then show ?thesis using less.prems by (simp add: sse_drain_None)
  next
    case (Some lr)
    obtain raw rest where lr: "lr = (raw, rest)" by fastforce
    with Some have b: "b = raw @ newline # rest" "newline \<notin> set raw" by (simp_all add: next_line_Some)
    with less.prems obtain st2 later where "sse_drain rest st2 = (later, Inr (st1, b1))"
      by (auto simp: sse_drain_next [OF b(2)] Let_def split: if_splits prod.splits)
    moreover have "length rest < length b" using b by simp
    ultimately show ?thesis using less.hyps by blast
  qed
qed

lemma sse_loop_within:
  assumes "sse_drain t sse_start = (frames, Inr (st, b))"
    and "sse_drain (b @ concat chunks) st = (later, Inr sb)" "bounded_text (t @ concat chunks)"
  shows "sse_loop (map Inr chunks) (st, b) = (later, Inr sb)"
  using assms
proof (induction chunks arbitrary: t frames st b later)
  case Nil
  then show ?case using sse_drain_rest [OF Nil.prems(1)] by (simp add: sse_drain_None)
next
  case (Cons c chunks)
  have all: "continue (sse_drain (b @ c) st) (concat chunks) = (later, Inr sb)"
    using Cons.prems(2) sse_drain_append [of "b @ c" "concat chunks" st] by simp
  then obtain f1 st1 b1 f2 where d: "sse_drain (b @ c) st = (f1, Inr (st1, b1))"
      "sse_drain (b1 @ concat chunks) st1 = (f2, Inr sb)" "later = f1 @ f2"
    by (auto simp: continue_def split: prod.splits sum.splits)
  have t: "sse_drain (t @ c) sse_start = (frames @ f1, Inr (st1, b1))"
    using Cons.prems(1) d(1) sse_drain_append [of t c sse_start] by (simp add: continue_def)
  then have "ss_bytes st1 + byteLength b1 \<le> MAX_STREAM_BYTES"
    using bounded_textD [of "t @ c" "concat chunks"] Cons.prems(3) by simp
  then have "sse_chunk c (st, b) = (f1, Inr (st1, b1))" by (simp add: sse_chunk_def d(1))
  moreover have "sse_loop (map Inr chunks) (st1, b1) = (f2, Inr sb)"
    by (rule Cons.IH [OF t d(2)]) (use Cons.prems(3) in simp)
  ultimately show ?case by (simp add: d(3))
qed

text \<open>Whole frames and the beginning of another one.\<close>

lemma read_whole:
  assumes "whole t frames" "sse_drain u sse_start = ([], Inr sb)" "bounded_text u" "concat chunks = t @ u"
  shows "sse_loop (map Inr chunks) (sse_start, []) = (frames, Inr sb)"
proof (rule sse_loop_within)
  show "sse_drain [] sse_start = ([], Inr (sse_start, []))" by (simp add: sse_drain_None next_line_def)
  show "sse_drain ([] @ concat chunks) sse_start = (frames, Inr sb)"
    using assms(1, 2) sse_drain_append [of t u sse_start] by (simp add: assms(4) continue_def whole_def)
  show "bounded_text ([] @ concat chunks)" using bounded_append [OF assms(1, 3)] by (simp add: assms(4))
qed

section \<open>The frames that are written\<close>

text \<open>A value of a field: no line feed, carriage return or NUL in it.\<close>

definition field_text :: "string \<Rightarrow> bool" where
  "field_text v \<longleftrightarrow> newline \<notin> set v \<and> carriage_return \<notin> set v \<and> CHR 0x00 \<notin> set v"

lemma field_line:
  assumes "CHR '':'' \<notin> set name" "name \<noteq> []"
  shows "field_of (name @ '': '' @ v) = (name, v)"
proof -
  have "takeWhile (\<lambda>c. c \<noteq> CHR '':'') (name @ '': '' @ v) = name" "dropWhile (\<lambda>c. c \<noteq> CHR '':'') (name @ '': '' @ v) = '': '' @ v"
    using assms by (subst takeWhile_append2 dropWhile_append2; auto)+
  then show ?thesis by (simp add: field_of_def)
qed

lemma strip_field: "carriage_return \<notin> set line \<Longrightarrow> strip_cr line = line"
  unfolding strip_cr_def by (metis last_in_set)

text \<open>One line of a field that is read within the limit.\<close>

lemma drain_field:
  assumes "name \<noteq> []" "CHR '':'' \<notin> set name" "field_text name" "field_text v"
    and "ss_bytes st + byteLength (name @ '': '' @ v) + 1 \<le> MAX_STREAM_BYTES"
  shows "sse_drain (name @ '': '' @ v @ newline # rest) st =
     sse_drain rest (sse_field (name, v) (st\<lparr>ss_bytes := ss_bytes st + byteLength (name @ '': '' @ v) + 1\<rparr>))"
proof -
  define line where "line = name @ '': '' @ v"
  have nl: "newline \<notin> set line" "carriage_return \<notin> set line"
    using assms(3, 4) by (auto simp: field_text_def newline_def carriage_return_def line_def)
  obtain c cs where name: "name = c # cs" using assms(1) by (cases name) auto
  then have "line = c # (cs @ '': '' @ v)" "c \<noteq> CHR '':''" using assms(2) by (auto simp: line_def)
  then have "line \<noteq> []" "hd line \<noteq> CHR '':''" by simp_all
  moreover have "field_of line = (name, v)" unfolding line_def by (rule field_line [OF assms(2, 1)])
  ultimately have "sse_line (strip_cr line) st' = ([], sse_field (name, v) st')" for st'
    by (simp add: sse_line_def strip_field [OF nl(2)])
  then have "sse_drain (line @ newline # rest) st =
      sse_drain rest (sse_field (name, v) (st\<lparr>ss_bytes := ss_bytes st + byteLength line + 1\<rparr>))"
    using sse_drain_next [OF nl(1), of rest st] assms(5) by (simp add: Let_def line_def split: prod.splits)
  then show ?thesis by (simp add: line_def)
qed

lemma drain_blank: "ss_bytes st + 1 \<le> MAX_STREAM_BYTES \<Longrightarrow>
    sse_drain [newline] st = (if ss_data st = [] then [] else [\<lparr>sf_event = ss_event st, sf_data = join [newline] (ss_data st), sf_id = ss_id st\<rparr>],
      Inr (sse_start, []))"
  using sse_drain_next [of "[]" "[]" st] by (simp add: sse_line_def strip_cr_def sse_drain_None next_line_def Let_def)

text \<open>A frame, and a heartbeat, as they are written.\<close>

definition sse_names :: "string \<Rightarrow> string option \<Rightarrow> bool" where
  "sse_names event i \<longleftrightarrow> field_text event \<and> (case i of None \<Rightarrow> True | Some v \<Rightarrow> field_text v)"

definition frame_of :: "string \<Rightarrow> json \<Rightarrow> string option \<Rightarrow> sse_frame" where
  "frame_of event data i = \<lparr>sf_event = event, sf_data = stringify data, sf_id = (if truthy i then i else None)\<rparr>"

lemma field_text_printable: "printable v \<Longrightarrow> field_text v"
  by (auto simp: field_text_def printable_def newline_def carriage_return_def)

lemma field_names: "field_text ''id''" "field_text ''event''" "field_text ''data''"
  by (simp_all add: field_text_def newline_def carriage_return_def)

text \<open>A line of a field as it is written.\<close>

definition sse_out :: "string \<Rightarrow> string \<Rightarrow> string" where
  "sse_out name v = name @ '': '' @ v @ [newline]"

lemma drain_out:
  assumes "name \<noteq> []" "CHR '':'' \<notin> set name" "field_text name" "field_text v"
    and "ss_bytes st + byteLength (sse_out name v) \<le> MAX_STREAM_BYTES"
  shows "sse_drain (sse_out name v @ rest) st =
     sse_drain rest (sse_field (name, v) (st\<lparr>ss_bytes := ss_bytes st + byteLength (sse_out name v)\<rparr>))"
  using drain_field [OF assms(1-4), of st rest] assms(5) by (simp add: sse_out_def add.assoc)

lemma sse_text_out:
  "sse_text event data i =
     ((if truthy i then sse_out ''id'' (the i) else []) @ sse_out ''event'' event @ sse_out ''data'' (stringify data)) @ [newline]"
  by (simp add: sse_text_def sse_out_def)

lemma frame_drained:
  assumes names: "sse_names event i" and size: "byteLength (sse_text event data i) \<le> MAX_STREAM_BYTES"
  shows "\<exists>st. sse_drain (butlast (sse_text event data i)) sse_start = ([], Inr (st, [])) \<and>
     sse_drain [newline] st = ([frame_of event data i], Inr (sse_start, []))"
proof -
  have fields: "field_text event" "field_text (stringify data)"
    using names field_text_printable [OF printable_stringify_all(1)] by (simp_all add: sse_names_def)
  have empty: "sse_drain [] st = ([], Inr (st, []))" for st by (simp add: sse_drain_None next_line_def)
  have tail: "sse_drain (sse_out ''event'' event @ sse_out ''data'' (stringify data)) st =
      ([], Inr (st\<lparr>ss_event := event, ss_data := ss_data st @ [stringify data],
        ss_bytes := ss_bytes st + byteLength (sse_out ''event'' event) + byteLength (sse_out ''data'' (stringify data))\<rparr>, []))"
    if "ss_bytes st + byteLength (sse_out ''event'' event) + byteLength (sse_out ''data'' (stringify data)) \<le> MAX_STREAM_BYTES" for st
    using that fields drain_out [of "''event''" event st "sse_out ''data'' (stringify data)"]
      drain_out [of "''data''" "stringify data" "sse_field (''event'', event) (st\<lparr>ss_bytes := ss_bytes st + byteLength (sse_out ''event'' event)\<rparr>)" "[]"]
    by (simp add: field_names empty) (simp add: sse_field_def)
  show ?thesis
  proof (cases "truthy i")
    case True
    then obtain v where v: "i = Some v" by (cases i) auto
    then have iv: "field_text v" using names by (simp add: sse_names_def)
    then have nul: "CHR 0x00 \<notin> set v" by (simp add: field_text_def)
    show ?thesis
      using size True v nul drain_out [of "''id''" v sse_start "sse_out ''event'' event @ sse_out ''data'' (stringify data)"] iv
      by (simp add: sse_text_out butlast_append field_names tail sse_field_def drain_blank frame_of_def)
  next
    case False
    then show ?thesis using size by (simp add: sse_text_out butlast_append tail drain_blank frame_of_def)
  qed
qed

lemma MAX_STREAM_BYTES_big: "13 \<le> MAX_STREAM_BYTES"
  by (simp add: MAX_STREAM_BYTES_def)

lemma whole_frame:
  assumes "sse_names event i" "encodeSse event data i = Inr t"
  shows "whole t [frame_of event data i]"
proof -
  have t: "t = sse_text event data i" and size: "byteLength t \<le> MAX_STREAM_BYTES"
    using assms(2) by (auto simp: encodeSse_def split: if_splits)
  have "t = butlast t @ [newline]" by (simp add: t sse_text_out butlast_append)
  moreover obtain st where "sse_drain (butlast t) sse_start = ([], Inr (st, []))"
      "sse_drain [newline] st = ([frame_of event data i], Inr (sse_start, []))"
    using frame_drained [OF assms(1)] size unfolding t by blast
  ultimately have "sse_drain t sse_start = ([frame_of event data i], Inr (sse_start, []))"
    using sse_drain_append [of "butlast t" "[newline]" sse_start] by (simp add: continue_def)
  with bounded_small [OF size] show ?thesis by (simp add: whole_def)
qed

lemma whole_heartbeat: "whole heartbeat_text []"
proof -
  have size: "byteLength heartbeat_text = 13" by code_simp
  have "newline \<notin> set '': heartbeat''" "strip_cr '': heartbeat'' = '': heartbeat''" by code_simp+
  then have "sse_drain ('': heartbeat'' @ newline # [newline]) sse_start = ([], Inr (sse_start, []))"
    using sse_drain_next [of "'': heartbeat''" "[newline]" sse_start] MAX_STREAM_BYTES_big size
    by (simp add: sse_line_def drain_blank heartbeat_text_def Let_def)
  then have "sse_drain heartbeat_text sse_start = ([], Inr (sse_start, []))" by (simp add: heartbeat_text_def)
  moreover have "bounded_text heartbeat_text" by (rule bounded_small) (use size MAX_STREAM_BYTES_big in simp)
  ultimately show ?thesis by (simp add: whole_def)
qed

lemma partial_frame:
  assumes "sse_names event i" "encodeSse event data i = Inr t" "t = u @ v" "v \<noteq> []"
  shows "(\<exists>sb. sse_drain u sse_start = ([], Inr sb)) \<and> bounded_text u"
proof -
  have t: "t = sse_text event data i" and size: "byteLength t \<le> MAX_STREAM_BYTES"
    using assms(2) by (auto simp: encodeSse_def split: if_splits)
  have "butlast t = u @ butlast v" using assms(3, 4) by (simp add: butlast_append)
  with frame_drained [OF assms(1), of data] size t obtain st
    where "sse_drain (u @ butlast v) sse_start = ([], Inr (st, []))" by auto
  then have "\<exists>sb. sse_drain u sse_start = ([], Inr sb)"
    using sse_drain_append [of u "butlast v" sse_start] by (auto simp: continue_def split: prod.splits sum.splits)
  moreover have "byteLength u \<le> MAX_STREAM_BYTES" using size assms(3) by simp
  ultimately show ?thesis using bounded_small by blast
qed

section \<open>The round trip\<close>

text \<open>What a response is made of: frames, each with its event, data and id, and heartbeats.\<close>

datatype sse_piece = Frame string json "string option" | Heartbeat

fun piece_text :: "sse_piece \<Rightarrow> string" where
  "piece_text (Frame event data i) = sse_text event data i"
| "piece_text Heartbeat = heartbeat_text"

fun piece_frames :: "sse_piece \<Rightarrow> sse_frame list" where
  "piece_frames (Frame event data i) = [frame_of event data i]"
| "piece_frames Heartbeat = []"

fun piece_ok :: "sse_piece \<Rightarrow> bool" where
  "piece_ok (Frame event data i) = (sse_names event i \<and> encodeSse event data i = Inr (sse_text event data i))"
| "piece_ok Heartbeat = True"

lemma whole_pieces:
  assumes "\<forall>p \<in> set pieces. piece_ok p"
  shows "whole (concat (map piece_text pieces)) (concat (map piece_frames pieces))"
  using assms
proof (induction pieces)
  case (Cons p pieces)
  then have "whole (piece_text p) (piece_frames p)" by (cases p) (auto simp: whole_heartbeat whole_frame)
  with Cons show ?case by (simp add: whole_append)
qed (simp add: whole_Nil)

text \<open>
  What the daemon writes as server-sent events the client reads back: any sequence of frames that
  \<open>encodeSse\<close> admits, with heartbeats anywhere between them, however the text is cut into chunks and
  wherever it ends, yields exactly the frames that were written completely, with their events, data
  and ids, in order; a frame that was cut off is not delivered.
\<close>

theorem sse_roundtrip:
  assumes "\<forall>p \<in> set pieces. piece_ok p" "piece_ok (Frame event data i)"
    and "sse_text event data i = begun @ missing" "missing \<noteq> []"
    and "concat chunks = concat (map piece_text pieces) @ begun"
  shows "readSse (map Inr chunks) last_decode = (concat (map piece_frames pieces), last_decode)"
proof -
  obtain sb where "sse_drain begun sse_start = ([], Inr sb)" "bounded_text begun"
    using partial_frame [of event i data, OF _ _ assms(3, 4)] assms(2) by auto
  from read_whole [OF whole_pieces [OF assms(1)] this assms(5)] show ?thesis by (simp add: readSse_def)
qed

theorem sse_roundtrip_witness:
  "readSse (map Inr [''id: e1'' @ [newline], ''event: a'' @ [newline] @ ''data: true'' @ [newline, newline] @ heartbeat_text, ''ev'']) (Inr ()) =
     ([\<lparr>sf_event = ''a'', sf_data = ''true'', sf_id = Some ''e1''\<rparr>], Inr ())"
proof -
  let ?pieces = "[Frame ''a'' (JBool True) (Some ''e1''), Heartbeat]"
  have "byteLength (sse_text ''a'' (JBool True) (Some ''e1'')) = 28" "byteLength (sse_text ''b'' JNull None) = 21"
    "sse_names ''a'' (Some ''e1'')" "sse_names ''b'' None" by code_simp+
  then have ok: "\<forall>p \<in> set ?pieces. piece_ok p" "piece_ok (Frame ''b'' JNull None)"
    by (simp_all add: encodeSse_def MAX_STREAM_BYTES_def)
  have cut: "sse_text ''b'' JNull None = ''ev'' @ (''ent: b'' @ [newline] @ ''data: null'' @ [newline, newline])" by code_simp
  have all_text: "concat [''id: e1'' @ [newline], ''event: a'' @ [newline] @ ''data: true'' @ [newline, newline] @ heartbeat_text, ''ev''] =
      concat (map piece_text ?pieces) @ ''ev''" by code_simp
  from sse_roundtrip [OF ok cut _ all_text, of "Inr ()"] show ?thesis by (simp add: frame_of_def)
qed

text \<open>
  The reader is bounded: whatever arrives, what it holds of an unfinished frame stays within the
  byte limit after every chunk; otherwise it has failed with an overflow.
\<close>

theorem sse_reader_bounded:
  "case sse_loop chunks (sse_start, []) of
     (frames, Inl e) \<Rightarrow> e = sse_overflow \<or> Inl e \<in> set chunks
   | (frames, Inr (st, b)) \<Rightarrow> ss_bytes st + byteLength b \<le> MAX_STREAM_BYTES \<and> newline \<notin> set b"
proof -
  have error: "sse_drain b st = (frames, Inl e) \<Longrightarrow> e = sse_overflow" for b st frames e
  proof (induction "length b" arbitrary: b st frames rule: less_induct)
    case less
    then show ?case
    proof (cases "next_line b")
      case (Some lr)
      obtain raw rest where lr: "lr = (raw, rest)" by fastforce
      with Some have b: "b = raw @ newline # rest" "newline \<notin> set raw" by (simp_all add: next_line_Some)
      with less.prems have "e = sse_overflow \<or> (\<exists>st2 later. sse_drain rest st2 = (later, Inl e))"
        by (auto simp: sse_drain_next [OF b(2)] Let_def split: if_splits prod.splits)
      moreover have "length rest < length b" using b by simp
      ultimately show ?thesis using less.hyps by blast
    qed (simp add: sse_drain_None)
  qed
  have "case sse_loop chunks (st, b) of
     (frames, Inl e) \<Rightarrow> e = sse_overflow \<or> Inl e \<in> set chunks
   | (frames, Inr (st, b)) \<Rightarrow> ss_bytes st + byteLength b \<le> MAX_STREAM_BYTES \<and> newline \<notin> set b"
    if "ss_bytes st + byteLength b \<le> MAX_STREAM_BYTES \<and> newline \<notin> set b" for st b
    using that
  proof (induction chunks arbitrary: st b)
    case (Cons c chunks)
    show ?case
    proof (cases c)
      case (Inr text_read)
      obtain frames r where chunk: "sse_chunk text_read (st, b) = (frames, r)" by fastforce
      show ?thesis
      proof (cases r)
        case (Inl e)
        then have "e = sse_overflow" using chunk error by (auto simp: sse_chunk_def split: prod.splits sum.splits if_splits)
        then show ?thesis by (simp add: Inr chunk Inl)
      next
        case r: (Inr sb)
        obtain st1 b1 where sb: "sb = (st1, b1)" by fastforce
        have "ss_bytes st1 + byteLength b1 \<le> MAX_STREAM_BYTES \<and> newline \<notin> set b1"
          using chunk r sb sse_drain_rest by (auto simp: sse_chunk_def next_line_None [symmetric] simp del: not_None_eq split: prod.splits sum.splits if_splits)
        from Cons.IH [OF this] show ?thesis by (auto simp: Inr chunk r sb split: prod.splits sum.splits)
      qed
    qed simp
  qed simp
  then show ?thesis by simp
qed

end
