(* ===== verification/Http_Exchange.thy ===== *)
theory Http_Exchange
  imports Http_Client Sse_Props Configuration_Props
begin

text \<open>
  The HTTP client and the HTTP server together, for the requests that are answered at once: what the
  client sends is admitted and read as it was meant, what the server answers is what the client
  returns, and a refusal arrives with its code, its message and its data.
\<close>

section \<open>Admission\<close>

lemma media_values:
  "wants_stream (Some application_json) = False" "wants_stream (Some event_stream) = True"
  "accepts (Some application_json) application_json = True" "accepts (Some event_stream) event_stream = True"
  "media_type (Some application_json) = Some application_json"
  by code_simp+

lemma formats_differ [simp]: "event_stream \<noteq> application_json" "application_json \<noteq> event_stream"
  by code_simp+

lemma admit_other:
  assumes "admit env auth q = Inr rt" "\<forall>m. rt \<noteq> Preflight m"
  shows "assertOriginAllowed (au_allowedOrigins auth) (hq_headers q ''origin'') = Inr ()"
    "assertBearerToken env auth (hq_headers q ''authorization'') = Inr ()"
    "hq_pathname q = ''/rpc'' \<and> hq_method q = ''POST'' \<and> (\<exists>b. rt = Call b) \<or>
     hq_pathname q = ''/events'' \<and> hq_method q = ''GET'' \<and> rt = Subscription"
  using assms
  by (auto simp: admit_def admit_call_def preflight_def expected_method_def Let_def split: sum.splits if_splits)

text \<open>
  C14. What the network server admits: where it listens beyond loopback, a request other than a
  preflight reaches a method or a subscription only with the configured bearer token; everywhere, its
  origin is allowed, and its path and its method are those of what it is admitted to.
\<close>

theorem network_admission_is_guarded:
  assumes "network_guard env bind tls auth = Inr ()" "admit env auth q = Inr rt" "\<forall>m. rt \<noteq> Preflight m"
  shows "(hq_headers q ''origin'' = None \<or> hq_headers q ''origin'' = Some [] \<or>
      (\<exists>o1 os. hq_headers q ''origin'' = Some o1 \<and> au_allowedOrigins auth = Some os \<and> o1 \<in> set os)) \<and>
    (hq_pathname q = ''/rpc'' \<and> hq_method q = ''POST'' \<and> (\<exists>b. rt = Call b) \<or>
     hq_pathname q = ''/events'' \<and> hq_method q = ''GET'' \<and> rt = Subscription) \<and>
    (isLoopbackHost bind \<or> (\<exists>token header. token \<noteq> [] \<and> resolveToken env auth = Some token \<and>
       hq_headers q ''authorization'' = Some header \<and> bearer_token header = Some token))"
proof (intro conjI)
  note admitted = admit_other [OF assms(2, 3)]
  show "hq_headers q ''origin'' = None \<or> hq_headers q ''origin'' = Some [] \<or>
      (\<exists>o1 os. hq_headers q ''origin'' = Some o1 \<and> au_allowedOrigins auth = Some os \<and> o1 \<in> set os)"
    using admitted(1) by (auto simp: assertOriginAllowed_def split: option.splits if_splits)
  show "hq_pathname q = ''/rpc'' \<and> hq_method q = ''POST'' \<and> (\<exists>b. rt = Call b) \<or>
     hq_pathname q = ''/events'' \<and> hq_method q = ''GET'' \<and> rt = Subscription" by (rule admitted(3))
  have "assertAuthConfiguredForBind env bind auth = Inr ()"
    using assms(1) by (auto simp: network_guard_def split: sum.splits)
  with admitted(2) show "isLoopbackHost bind \<or> (\<exists>token header. token \<noteq> [] \<and> resolveToken env auth = Some token \<and>
       hq_headers q ''authorization'' = Some header \<and> bearer_token header = Some token)"
    by (auto simp: assertAuthConfiguredForBind_def assertBearerToken_iff truthy_iff Let_def bind_eq_Some_conv split: if_splits)
qed

section \<open>Requests\<close>

text \<open>The token that the client sends is one that a header can carry, and the one the server wants.\<close>

definition sendable :: "string \<Rightarrow> bool" where
  "sendable t \<longleftrightarrow> t \<noteq> [] \<and> \<not> is_space (hd t) \<and> list_all (\<lambda>c. c \<noteq> CHR 0x0A \<and> c \<noteq> CHR 0x0D) t"

definition same_token :: "(string \<Rightarrow> string option) \<Rightarrow> auth_config \<Rightarrow> (string \<Rightarrow> string option) \<Rightarrow> client_config \<Rightarrow> bool" where
  "same_token env auth cenv c \<longleftrightarrow>
     \<not> truthy (resolveToken env auth) \<or> client_token cenv c = resolveToken env auth \<and> sendable (the (client_token cenv c))"

lemma token_admitted:
  assumes "same_token env auth cenv c"
  shows "assertBearerToken env auth (request_headers accept body (client_token cenv c) ''authorization'') = Inr ()"
proof (cases "truthy (resolveToken env auth)")
  case True
  with assms obtain t where t: "resolveToken env auth = Some t" "client_token cenv c = Some t" "sendable t"
    by (auto simp: same_token_def truthy_iff)
  then show ?thesis
    using bearer_token_sent [of t] by (simp add: assertBearerToken_iff request_headers_def sendable_def Let_def)
qed (simp add: assertBearerToken_iff)

lemma request_header_values [simp]:
  "request_headers accept body token ''origin'' = None" "request_headers accept body token ''accept'' = Some accept"
  "request_headers accept (Some b) token ''content-type'' = Some application_json"
  "request_headers accept (Some b) token ''content-length'' = Some (dec (byteLength b))"
  "request_headers accept body token ''last-event-id'' = None"
  by (simp_all add: request_headers_def application_json_def)

lemma open_request_fields:
  "open_request shut env c meth path kvs accept body = Inr q \<Longrightarrow>
     \<not> shut \<and> hq_method q = meth \<and> hq_pathname q = slash # path \<and> (kvs = [] \<longrightarrow> hq_search q = []) \<and> hq_query q = kvs \<and>
     hq_headers q = request_headers accept body (client_token env c)"
  by (auto simp: open_request_def split: if_splits)

lemma rpc_message_wire [simp]:
  "isRecord (rpc_message i meth args)" "jget (wire (rpc_message i meth args)) ''method'' = JStr meth"
  "jget (wire (rpc_message i meth args)) ''id'' = JStr i" "jget (wire (rpc_message i meth args)) ''jsonrpc'' = JStr ''2.0''"
  "isRecord args \<Longrightarrow> jget (wire (rpc_message i meth args)) ''params'' = wire args"
  by (auto simp: rpc_message_def isRecord_obj)

lemma rpc_message_request [simp]: "isJsonRpcRequest (wire (rpc_message i meth args))"
proof -
  obtain kvs where "wire (rpc_message i meth args) = JObj kvs" by (simp add: rpc_message_def)
  then show ?thesis
    using rpc_message_wire(2, 4) [of i meth args] unfolding isJsonRpcRequest_iff by simp
qed

text \<open>
  C21. A call of the client arrives as it was made: when both have the same token, the server admits
  it, in the format that the client asked for, and reads the method, the parameters and the id that
  the client wrote; the length that was announced is that of the body.
\<close>

theorem http_request_arrives:
  assumes "rpc_request shut cenv c accept i meth args = Inr q"
    and "accept = application_json \<or> accept = event_stream \<and> meth \<in> {''thread/start'', ''thread/send''}"
    and "\<not> starts_with ''subscribe/'' meth" "\<not> starts_with ''unsubscribe/'' meth" "isRecord args"
    and "same_token env auth cenv c" "reads_back json_parse (rpc_message i meth args)"
  shows "admit env auth q = Inr (Call (accept = event_stream)) \<and>
    hq_headers q ''content-length'' = Some (dec (byteLength (stringify (rpc_message i meth args)))) \<and>
    rpc_of_body json_parse (accept = event_stream) (stringify (rpc_message i meth args)) =
      Inr (wire (rpc_message i meth args), wire args) \<and>
    jget (wire (rpc_message i meth args)) ''method'' = JStr meth \<and> jget (wire (rpc_message i meth args)) ''id'' = JStr i"
proof -
  note q = open_request_fields [OF assms(1) [unfolded rpc_request_def]]
  have path: "slash # ''rpc'' = ''/rpc''" by code_simp
  have "admit env auth q = Inr (Call (accept = event_stream))"
    using q assms(2) token_admitted [OF assms(6), of accept] path
    by (auto simp: admit_def assertOriginAllowed_def expected_method_def admit_call_def media_values Let_def)
  moreover obtain kvs where args: "args = JObj kvs" using assms(5) by (auto simp: isRecord_obj)
  then have "parseJsonRpcLine json_parse (stringify (rpc_message i meth args)) = Inr (wire (rpc_message i meth args))"
    using reads_backD [OF assms(7)] unfolding parseJsonRpcLine_def by simp
  ultimately show ?thesis
    using q assms(2-4) args by (auto simp: rpc_of_body_def assertTurnMethod_def Let_def)
qed

text \<open>
  The body of a request is read completely and only up to the limit: however it is cut into
  chunks, the server gets the text of exactly the bytes that were sent, or, when they are more than
  1 MiB, refuses the request with the status 413; what comes later changes nothing.
\<close>

theorem request_body_bounded:
  "readBody decode [] (map BodyData chunks @ BodyEnd # later) =
     Some (if length (concat chunks) > MAX_REQUEST_BYTES then Inl (httpError 413 InvalidParams ''Request exceeds 1 MiB'')
           else Inr (decode (concat chunks)))"
proof -
  have "readBody decode received (map BodyData chunks @ BodyEnd # later) =
     Some (if length (received @ concat chunks) > MAX_REQUEST_BYTES then Inl (httpError 413 InvalidParams ''Request exceeds 1 MiB'')
           else Inr (decode (received @ concat chunks)))"
    if "length received \<le> MAX_REQUEST_BYTES" for received
    using that by (induction chunks arbitrary: received) auto
  from this [of "[]"] show ?thesis by simp
qed

section \<open>Answers\<close>

definition fresh_response :: "http_response \<Rightarrow> bool" where
  "fresh_response r \<longleftrightarrow> \<not> hr_destroyed r \<and> \<not> hr_ended r \<and> \<not> hr_needDrain r \<and> hr_status r = None \<and> hr_body r = []"

lemma jsonBody_reads [simp]: "reads_back json_parse v \<Longrightarrow> isRecord v \<Longrightarrow> jsonBody json_parse status (stringify v) = Inr (wire v)"
  by (simp add: jsonBody_def)

lemma answers_are_records [simp]: "isRecord (failure i e)" "isRecord (success i v)"
  by (simp_all add: failure_def success_def)

lemma read_failure:
  "reads_back json_parse (failure i e) \<Longrightarrow> read_reply json_parse s status (stringify (failure i e)) = Inl (remote_of e)"
  by (simp add: read_reply_def remoteError_wire)

lemma success_has_result: "v \<noteq> JUndefined \<Longrightarrow> has_property (wire (success i v)) ''result''"
  by (simp add: success_def has_property_def)

text \<open>
  C22. A call that is answered: the client returns what the method returned, as it is on the wire, and
  when the method failed the client fails with the code, the message and the data of the error.
\<close>

theorem http_call_roundtrip:
  assumes "fresh_response r" "reads_back json_parse (call_result (JStr i) outcome)" "outcome \<noteq> Inr JUndefined"
  shows "read_reply json_parse i (the (hr_status (answer_call (JStr i) outcome r))) (hr_body (answer_call (JStr i) outcome r)) =
     (case outcome of Inr v \<Rightarrow> Inr (wire v) | Inl e \<Rightarrow> Inl (remote_of e))"
  using assms
  by (cases outcome) (auto simp: answer_call_def fresh_response_def call_result_def read_failure read_reply_def success_has_result remoteError_wire)

text \<open>
  A refusal arrives: a request that the server does not carry out is answered once, with its
  status, and the client, whether it asked for an answer or for a stream, fails with the code, the
  message and the data of the error.
\<close>

theorem http_refusal_arrives:
  assumes "fresh_response r" "status \<noteq> 200" "reads_back json_parse (failure j e)"
    and "(waits, answered) = handle_failure (Inl (HttpError status (toDaemonError e) j)) flushed r"
  shows "hr_status answered = Some status \<and> hr_ended answered \<and>
    read_reply json_parse i (the (hr_status answered)) (hr_body answered) = Inl (remote_of e) \<and>
    assertSse json_parse (the (hr_status answered)) (map_of (hr_headers answered) ''Content-Type'') (hr_body answered) = Inl (remote_of e)"
proof -
  have same: "failure j (toDaemonError e) = failure j e" by (cases e) (simp_all add: failure_def)
  have answered: "hr_status answered = Some status" "hr_ended answered" "hr_body answered = stringify (failure j e)"
    using assms(1, 4) same by (simp_all add: handle_failure_def headers_sent_def sendError_def fresh_response_def)
  then show ?thesis
    using assms(2, 3) by (simp add: read_failure assertSse_def remoteError_wire)
qed

section \<open>Subscriptions\<close>

lemma event_names_plain: "t \<in> set DAEMON_EVENT_TYPES \<Longrightarrow> CHR '','' \<notin> set t"
proof -
  have "list_all (\<lambda>t. CHR '','' \<notin> set t) DAEMON_EVENT_TYPES" by code_simp
  then show "t \<in> set DAEMON_EVENT_TYPES \<Longrightarrow> CHR '','' \<notin> set t" by (auto simp: list_all_iff)
qed

text \<open>The text of a property in the query, and what the server makes of it.\<close>

definition query_text :: "json \<Rightarrow> string option" where
  "query_text v = (case v of JUndefined \<Rightarrow> None | JArr [] \<Rightarrow> None | JArr vs \<Rightarrow> Some (join '','' (map js_string vs)) | _ \<Rightarrow> Some (js_string v))"

definition query_value :: "string \<Rightarrow> string \<Rightarrow> json" where
  "query_value k t = (if k = ''eventTypes'' then JArr (map JStr (split_on (CHR '','') t)) else JStr t)"

lemma map_filter_keys: "fst ` set (List.map_filter (\<lambda>(k, v). map_option (Pair k) (g v)) kvs) \<subseteq> fst ` set kvs"
  by (force simp: map_filter_def)

lemma map_of_map_filter:
  "distinct (map fst kvs) \<Longrightarrow>
     map_of (map (\<lambda>(k, t). (k, h k t)) (List.map_filter (\<lambda>(k, v). map_option (Pair k) (g v)) kvs)) k =
       Option.bind (map_of kvs k) (\<lambda>v. map_option (h k) (g v))"
proof (induction kvs)
  case (Cons kv kvs)
  obtain k' v where kv: "kv = (k', v)" by fastforce
  show ?case
  proof (cases "g v")
    case None
    moreover have "map_of kvs k' = None" using Cons.prems by (auto simp: kv map_of_eq_None_iff)
    ultimately show ?thesis using Cons by (simp add: kv map_filter_simps)
  next
    case (Some t)
    with Cons show ?thesis by (simp add: kv map_filter_simps)
  qed
qed (simp add: map_filter_simps)

lemma distinct_map_filter:
  "distinct (map fst kvs) \<Longrightarrow> distinct (map fst (List.map_filter (\<lambda>(k, v). map_option (Pair k) (g v)) kvs))"
proof (induction kvs)
  case (Cons kv kvs)
  with map_filter_keys [of g kvs] show ?case by (cases kv) (auto simp: map_filter_simps split: option.splits)
qed (simp add: map_filter_simps)

lemma subscription_query_eq:
  "subscription_query (JObj kvs) = List.map_filter (\<lambda>(k, v). map_option (Pair k) (query_text v)) kvs"
  unfolding subscription_query_def
  by (auto simp: query_text_def intro!: arg_cong [where f = "\<lambda>f. List.map_filter f kvs"] split: json.splits list.splits)

lemma query_get:
  assumes "distinct (map fst kvs)"
  shows "jget (JObj (map (\<lambda>(k, t). (k, query_value k t)) (subscription_query (JObj kvs)))) k =
      (case query_text (jget (JObj kvs) k) of None \<Rightarrow> JUndefined | Some t \<Rightarrow> query_value k t)"
proof -
  have "query_text JUndefined = None" by (simp add: query_text_def)
  then show ?thesis
    using map_of_map_filter [OF assms, of query_value query_text k]
    by (auto simp: subscription_query_eq split: option.splits)
qed

lemma query_sent_text:
  "optional_nonempty_string v \<Longrightarrow> k \<noteq> ''eventTypes'' \<Longrightarrow>
     (case query_text v of None \<Rightarrow> JUndefined | Some t \<Rightarrow> query_value k t) = v"
  by (cases v) (simp_all add: query_text_def query_value_def)

lemma query_sent_types:
  assumes "valid_event_types v"
  shows "(case query_text v of None \<Rightarrow> JUndefined | Some t \<Rightarrow> query_value ''eventTypes'' t) = (if v = JArr [] then JUndefined else v)"
proof (cases v)
  case (JArr vs)
  with assms have "\<forall>v \<in> set vs. v \<in> JStr ` set DAEMON_EVENT_TYPES" by (simp add: list_all_iff)
  then have vs: "map JStr (map js_string vs) = vs" "\<forall>t \<in> set (map js_string vs). CHR '','' \<notin> set t"
    by (force intro: map_idI, auto simp: event_names_plain)
  show ?thesis
  proof (cases "vs = []")
    case False
    then have "query_text v = Some (join '','' (map js_string vs))" by (cases vs) (simp_all add: JArr query_text_def)
    moreover have "split_on (CHR '','') (join '','' (map js_string vs)) = map js_string vs"
      by (rule split_on_join) (use False vs(2) in auto)
    ultimately show ?thesis using False vs(1) by (simp add: JArr query_value_def)
  qed (simp add: JArr query_text_def)
qed (use assms in \<open>simp_all add: query_text_def\<close>)

lemma valid_filter:
  "validateEventFilter (JObj kvs) = Inr v \<longleftrightarrow> v = JObj kvs \<and> fst ` set kvs \<subseteq> set filter_keys \<and>
     (\<forall>k \<in> {''threadId'', ''turnId'', ''sinceEventId''}. optional_nonempty_string (jget (JObj kvs) k)) \<and>
     valid_event_types (jget (JObj kvs) ''eventTypes'')"
proof -
  have "List.find (\<lambda>k. k \<notin> set filter_keys) (map fst kvs) = None \<longleftrightarrow> fst ` set kvs \<subseteq> set filter_keys"
    by (auto simp: find_None_iff)
  moreover have "List.find (\<lambda>k. \<not> optional_nonempty_string (jget (JObj kvs) k)) [''threadId'', ''turnId'', ''sinceEventId''] = None \<longleftrightarrow>
      (\<forall>k \<in> {''threadId'', ''turnId'', ''sinceEventId''}. optional_nonempty_string (jget (JObj kvs) k))"
    by (simp del: jget.simps)
  ultimately show ?thesis
    unfolding validateEventFilter.simps by (auto simp del: jget.simps find.simps split: option.splits)
qed

lemma validated: "validateEventFilter f = Inr v \<Longrightarrow> v = f"
  by (cases f) (auto simp: valid_filter simp del: validateEventFilter.simps(1))

text \<open>
  A subscription arrives with its filter: the server admits the client's request, reads a filter
  that it accepts, and this filter selects the same events and starts at the same event as the one
  that the client was given.
\<close>

theorem subscription_filter_arrives:
  assumes "subscribe_request shut cenv c (JObj kvs) = Inr q" "distinct (map fst kvs)" "same_token env auth cenv c"
  shows "admit env auth q = Inr Subscription \<and>
    (\<exists>flt. open_subscription Inr q = Inr flt \<and> validateEventFilter flt = Inr flt \<and>
       (\<forall>event. matchesFilter event flt = matchesFilter event (JObj kvs)) \<and>
       jget flt ''sinceEventId'' = jget (JObj kvs) ''sinceEventId'')"
proof -
  have valid: "validateEventFilter (JObj kvs) = Inr (JObj kvs)"
      and "open_request shut cenv c ''GET'' ''events'' (subscription_query (JObj kvs)) event_stream None = Inr q"
    using assms(1) validated [of "JObj kvs"] unfolding subscribe_request_def by (auto simp del: validateEventFilter.simps split: sum.splits)
  note q = open_request_fields [OF this(2)]
  have path: "slash # ''events'' = ''/events''" by code_simp
  define flt where "flt = JObj (map (\<lambda>(k, t). (k, query_value k t)) (subscription_query (JObj kvs)))"
  have same: "jget flt k = jget (JObj kvs) k" if "k \<in> {''threadId'', ''turnId'', ''sinceEventId''}" for k
    using valid that query_sent_text [of "jget (JObj kvs) k" k] query_get [OF assms(2), of k]
    unfolding valid_filter flt_def by auto
  have types: "jget flt ''eventTypes'' = (if jget (JObj kvs) ''eventTypes'' = JArr [] then JUndefined else jget (JObj kvs) ''eventTypes'')"
    using valid query_sent_types [of "jget (JObj kvs) ''eventTypes''"] query_get [OF assms(2), of "''eventTypes''"]
    unfolding valid_filter flt_def by simp
  have keys: "fst ` set (map (\<lambda>(k, t). (k, query_value k t)) (subscription_query (JObj kvs))) \<subseteq> set filter_keys"
    using valid map_filter_keys [of query_text kvs] unfolding valid_filter subscription_query_eq by force
  have valid_flt: "validateEventFilter flt = Inr flt"
    unfolding flt_def valid_filter unfolding flt_def [symmetric]
    using valid [unfolded valid_filter] keys same types by (simp del: jget.simps)
  have "admit env auth q = Inr Subscription"
    using q token_admitted [OF assms(3)] path
    by (simp add: admit_def assertOriginAllowed_def expected_method_def media_values Let_def)
  moreover have "raw_filter q = Inr flt"
    using q distinct_map_filter [OF assms(2), of query_text]
    by (simp add: raw_filter_def duplicate_keys_def flt_def query_value_def subscription_query_eq)
  moreover have "matchesFilter event flt = matchesFilter event (JObj kvs)" for event
    using same types unfolding matchesFilter_def by simp
  ultimately show ?thesis
    using valid_flt same by (auto simp: open_subscription_def)
qed

section \<open>Instances\<close>

definition sample_client :: client_config where
  "sample_client = \<lparr>cc_endpoint = ''http://host/'', cc_authToken = Some ''s3cret'', cc_authTokenEnv = None, cc_tlsCa = None\<rparr>"

definition sample_rpc :: json where
  "sample_rpc = rpc_message ''1'' ''thread/send'' (JObj [])"

definition sample_request :: http_request where
  "sample_request = \<lparr>hq_method = ''POST'', hq_pathname = ''/rpc'', hq_search = [], hq_query = [],
     hq_headers = request_headers event_stream (Some (stringify sample_rpc)) (Some ''s3cret'')\<rparr>"

definition sample_response :: http_response where
  "sample_response = \<lparr>hr_destroyed = False, hr_ended = False, hr_needDrain = False, hr_headers = [], hr_status = None, hr_body = []\<rparr>"

lemma sample_response_fresh [simp]: "fresh_response sample_response"
  by (simp add: fresh_response_def sample_response_def)

lemma sample_token: "same_token sample_env sample_auth sample_env sample_client"
proof -
  have "sendable ''s3cret''" by code_simp
  then show ?thesis
    by (simp add: same_token_def sample_auth_def sample_env_def sample_client_def resolveToken_def client_token_def)
qed

lemma sample_request_sent: "rpc_request False sample_env sample_client event_stream ''1'' ''thread/send'' (JObj []) = Inr sample_request"
proof -
  have "slash # ''rpc'' = ''/rpc''" by code_simp
  then show ?thesis
    by (simp add: rpc_request_def open_request_def sample_request_def sample_rpc_def client_token_def sample_client_def)
qed

theorem http_request_arrives_witness: "admit sample_env sample_auth sample_request = Inr (Call True)"
proof -
  have "\<not> starts_with ''subscribe/'' ''thread/send''" "\<not> starts_with ''unsubscribe/'' ''thread/send''" by code_simp+
  from http_request_arrives [OF sample_request_sent _ this _ sample_token parse_of_first [of _ "[]"]] show ?thesis by simp
qed

theorem network_admission_is_guarded_witness:
  "\<exists>token. resolveToken sample_env sample_auth = Some token \<and> bearer_token (''Bearer '' @ ''s3cret'') = Some token"
proof -
  have guard: "network_guard sample_env ''0.0.0.0'' (Some \<lparr>tc_ca = None, tc_cert = Some ''c'', tc_key = Some ''k''\<rparr>) sample_auth = Inr ()"
    by (simp add: network_guard_def assertTlsAllowedForBind_def assertAuthConfiguredForBind_def sample_auth_def sample_env_def resolveToken_def)
  have headers: "hq_headers sample_request ''authorization'' = Some (''Bearer '' @ ''s3cret'')"
    by (simp add: sample_request_def request_headers_def)
  have "sendable ''s3cret''" by code_simp
  then have bearer: "bearer_token (''Bearer '' @ ''s3cret'') = Some ''s3cret''"
    using bearer_token_sent [of "''s3cret''"] by (simp add: sendable_def)
  have "admit sample_env sample_auth sample_request = Inr (Call True)"
  proof -
    have "assertBearerToken sample_env sample_auth (hq_headers sample_request ''authorization'') = Inr ()"
      unfolding headers using bearer
      by (simp add: assertBearerToken_iff sample_auth_def sample_env_def resolveToken_def)
    then show ?thesis
      by (simp add: sample_request_def admit_def assertOriginAllowed_def expected_method_def admit_call_def media_values)
  qed
  from network_admission_is_guarded [OF guard this] headers show ?thesis by (auto simp: isLoopbackHost_def)
qed

theorem http_call_roundtrip_witness:
  "read_reply (parse_of [success (JStr ''1'') (JBool True)]) ''1'' 200 (stringify (success (JStr ''1'') (JBool True))) = Inr (JBool True)"
  using http_call_roundtrip [OF sample_response_fresh, of "parse_of [success (JStr ''1'') (JBool True)]" "''1''" "Inr (JBool True)"]
  by (simp add: answer_call_def sample_response_def call_result_def del: stringify.simps)

theorem http_refusal_arrives_witness:
  "read_reply (parse_of [failure JNull (JsError ''no'')]) ''1'' 404 (stringify (failure JNull (JsError ''no''))) = Inl (remote_of (JsError ''no''))"
  using http_refusal_arrives [OF sample_response_fresh _ parse_of_first [of "failure JNull (JsError ''no'')" "[]"] prod.collapse, of 404]
  by (simp add: handle_failure_def headers_sent_def sendError_def sample_response_def failure_def del: stringify.simps)

theorem subscription_filter_arrives_witness:
  "\<exists>q flt. subscribe_request False sample_env sample_client (JObj [(''threadId'', JStr ''t1''), (''eventTypes'', JArr [])]) = Inr q \<and>
     open_subscription Inr q = Inr flt \<and> jget flt ''sinceEventId'' = JUndefined"
proof -
  have "\<exists>q. subscribe_request False sample_env sample_client (JObj [(''threadId'', JStr ''t1''), (''eventTypes'', JArr [])]) = Inr q"
    by (simp add: subscribe_request_def filter_keys_def open_request_def)
  then show ?thesis using subscription_filter_arrives [OF _ _ sample_token] by fastforce
qed

end
