(* ===== verification/Http_Turns.thy ===== *)
theory Http_Turns
  imports Http_Exchange Turn_Stream_Props
begin

text \<open>
  A streamed turn over HTTP: what the server writes of the frames of a turn stream and of its end, and
  what the client's reader does to its stream for it, for every way to cut the response into chunks
  and whenever the heartbeats are written.
\<close>

section \<open>Writing frames\<close>

definition response_open :: "http_response \<Rightarrow> bool" where
  "response_open r \<longleftrightarrow> \<not> hr_destroyed r \<and> \<not> hr_ended r \<and> \<not> hr_needDrain r"

text \<open>Nothing goes wrong with a write.\<close>

definition smooth :: "write_env \<Rightarrow> bool" where
  "smooth w \<longleftrightarrow> \<not> we_gone w \<and> (we_flushed w \<or> we_first w = Drained)"

lemma smooth_calm [simp]: "smooth calm"
  by (simp add: smooth_def calm_def)

abbreviation beats :: "nat \<Rightarrow> sse_piece list" where
  "beats n \<equiv> replicate n Heartbeat"

definition pieces_text :: "sse_piece list \<Rightarrow> string" where
  "pieces_text pieces = concat (map piece_text pieces)"

lemma pieces_text_simps [simp]:
  "pieces_text [] = []" "pieces_text (p # ps) = piece_text p @ pieces_text ps" "pieces_text (ps @ qs) = pieces_text ps @ pieces_text qs"
  by (simp_all add: pieces_text_def)

definition written :: "sse_piece list \<Rightarrow> http_response \<Rightarrow> http_response" where
  "written pieces r = r\<lparr>hr_body := hr_body r @ pieces_text pieces\<rparr>"

lemma written_simps [simp]:
  "written [] r = r" "written ps (written qs r) = written (qs @ ps) r" "response_open (written ps r) = response_open r"
  "hr_body (written ps r) = hr_body r @ pieces_text ps" "hr_destroyed (written ps r) = hr_destroyed r"
  "hr_ended (written ps r) = hr_ended r" "hr_needDrain (written ps r) = hr_needDrain r"
  by (simp_all add: written_def response_open_def)

lemma meanwhile_smooth: "smooth w \<Longrightarrow> response_open r \<Longrightarrow> meanwhile w r = written (beats (we_beats w)) r"
proof -
  have "response_open r \<Longrightarrow> (heartbeat ^^ n) r = written (beats n) r" for n
    by (induction n arbitrary: r)
      (auto simp: heartbeat_def response_open_def written_def funpow_swap1 simp del: funpow.simps(2) simp: funpow_Suc_right)
  then show "smooth w \<Longrightarrow> response_open r \<Longrightarrow> meanwhile w r = written (beats (we_beats w)) r"
    by (simp add: meanwhile_def smooth_def)
qed

definition sized :: "sse_piece \<Rightarrow> bool" where
  "sized p \<longleftrightarrow> byteLength (piece_text p) \<le> MAX_STREAM_BYTES"

lemma piece_ok_sized: "piece_ok (Frame event data i) \<Longrightarrow> sized (Frame event data i)"
  by (auto simp: encodeSse_def sized_def split: if_splits)

lemma writeSse_smooth:
  "smooth w \<Longrightarrow> response_open r \<Longrightarrow> sized p \<Longrightarrow>
     writeSse (piece_text p) (we_flushed w) (we_first w) (meanwhile w r) = (Inr (), written (beats (we_beats w) @ [p]) r)"
  by (cases r) (auto simp: writeSse_def write_begin_def write_settled_def meanwhile_smooth smooth_def response_open_def sized_def written_def)

text \<open>The frames with the heartbeats before each of them.\<close>

fun paced :: "sse_piece list \<Rightarrow> write_env list \<Rightarrow> sse_piece list" where
  "paced [] outs = []"
| "paced (p # ps) outs = beats (we_beats (case outs of [] \<Rightarrow> calm | w # _ \<Rightarrow> w)) @ p # paced ps (tl outs)"

lemma paced_frames [simp]: "concat (map piece_frames (paced ps outs)) = concat (map piece_frames ps)"
proof -
  have "concat (map piece_frames (beats n)) = []" for n by (induction n) simp_all
  then show ?thesis by (induction ps outs rule: paced.induct) simp_all
qed

lemma paced_ok: "\<forall>p \<in> set ps. piece_ok p \<Longrightarrow> \<forall>p \<in> set (paced ps outs). piece_ok p"
  by (induction ps outs rule: paced.induct) auto

lemma write_frames_smooth:
  assumes "\<forall>w \<in> set outs. smooth w" "response_open r"
    and "\<forall>f \<in> set fs. encode f = Inr (piece_text (pc f)) \<and> sized (pc f)"
  shows "write_frames encode fs outs r = (fs, Inr (), written (paced (map pc fs) outs) r)"
  using assms
proof (induction encode fs outs r rule: write_frames.induct)
  case (2 encode f fs outs r)
  have w: "smooth (case outs of [] \<Rightarrow> calm | w # _ \<Rightarrow> w)" "\<forall>w \<in> set (tl outs). smooth w"
    using "2.prems"(1) by (cases outs; simp)+
  show ?case
    using "2.prems" w "2.IH" [OF refl _ _ _ w(2)] writeSse_smooth [OF w(1) "2.prems"(2)]
    by (simp add: Let_def) 
qed simp

section \<open>The frames of a turn\<close>

fun turn_piece :: "json \<Rightarrow> frame \<Rightarrow> sse_piece" where
  "turn_piece i (Accepted a) = Frame ''response'' (success i (accepted_json a)) None"
| "turn_piece i (Event e) = Frame ''thread/event'' (event_message e) (Some (ev_eventId e))"

lemma encode_turn_piece: "piece_ok (turn_piece i f) \<Longrightarrow> encode_frame i f = Inr (piece_text (turn_piece i f)) \<and> sized (turn_piece i f)"
  by (cases f) (auto simp: encode_event_def sized_def encodeSse_def split: if_splits)

text \<open>A frame of the turn \<open>a\<close> that can be written and read.\<close>

fun sent_well :: "(string \<Rightarrow> string + json) \<Rightarrow> json \<Rightarrow> accepted_turn \<Rightarrow> frame \<Rightarrow> bool" where
  "sent_well json_parse i a (Accepted b) \<longleftrightarrow> b = a \<and> ac_threadId a \<noteq> [] \<and> ac_turnId a \<noteq> [] \<and> ac_status a = ''accepted'' \<and>
     piece_ok (turn_piece i (Accepted b)) \<and> reads_back json_parse (success i (accepted_json b))"
| "sent_well json_parse i a (Event e) \<longleftrightarrow> for_turn a e \<and> isRecord (ev_payload e) \<and> ev_eventId e \<noteq> [] \<and>
     piece_ok (turn_piece i (Event e)) \<and> reads_back json_parse (event_message e)"

section \<open>What the server writes\<close>

definition stream_error_message :: "thrown \<Rightarrow> json" where
  "stream_error_message e = JObj [(''jsonrpc'', JStr ''2.0''), (''method'', JStr ''stream/error''),
     (''params'', JObj [(''code'', JStr (error_code_name (thrown_code e))), (''message'', JStr (thrown_message e))])]"

text \<open>The piece that an error at the end is written as.\<close>

definition error_piece :: "bool \<Rightarrow> json \<Rightarrow> thrown \<Rightarrow> sse_piece" where
  "error_piece as_response i e =
     (if as_response then Frame ''response'' (failure i e) None else Frame ''stream/error'' (stream_error_message e) None)"

definition end_pieces :: "json \<Rightarrow> frame list \<Rightarrow> unit result \<Rightarrow> sse_piece list" where
  "end_pieces i frames ending = (case ending of Inr _ \<Rightarrow> [] | Inl e \<Rightarrow> [error_piece (\<not> list_ex is_accepted frames) i e])"

lemma error_frame_piece:
  "piece_ok (error_piece as_response i e) \<Longrightarrow>
     error_frame as_response i e = Inr (piece_text (error_piece as_response i e)) \<and> sized (error_piece as_response i e)"
  by (cases e) (auto simp: error_piece_def error_frame_def stream_error_message_def sized_def encodeSse_def split: if_splits)

lemma finishSseError_eq:
  "\<not> hr_destroyed r \<Longrightarrow> \<not> hr_ended r \<Longrightarrow> error_frame as_response i e = Inr t \<Longrightarrow>
   finishSseError as_response e i flushed first r =
     (case writeSse t flushed first r of (Inr _, r1) \<Rightarrow> r1\<lparr>hr_ended := True\<rparr> | (Inl _, r1) \<Rightarrow> r1\<lparr>hr_destroyed := True\<rparr>)"
  by (auto simp: finishSseError_def finish_begin_def finish_settled_def writeSse_def split: prod.splits option.splits)

lemma finish_error_smooth:
  assumes "smooth w" "response_open r" "piece_ok (error_piece as_response j e)"
  shows "finishSseError as_response e j (we_flushed w) (we_first w) (meanwhile w r) =
     (written (beats (we_beats w) @ [error_piece as_response j e]) r)\<lparr>hr_ended := True\<rparr>"
proof -
  note p = error_frame_piece [OF assms(3)]
  with writeSse_smooth [OF assms(1, 2)] assms show ?thesis
    by (auto simp: finishSseError_eq meanwhile_smooth response_open_def)
qed

lemma stream_error_piece: "error_piece False i e = error_piece False j e"
  by (simp add: error_piece_def)

lemma stream_turn_smooth:
  assumes "\<forall>w \<in> set (final # outs). smooth w" "response_open r" "\<forall>f \<in> set frames. piece_ok (turn_piece i f)"
    and "\<forall>p \<in> set (end_pieces i frames ending). piece_ok p"
  shows "stream_turn i frames ending outs final r =
     (written (paced (map (turn_piece i) frames) outs @ beats (we_beats final) @ end_pieces i frames ending) (beginSse r))\<lparr>hr_ended := True\<rparr>"
proof -
  have r: "response_open (beginSse r)" using assms(2) by (simp add: response_open_def beginSse_def)
  have frames: "write_frames (encode_frame i) frames outs (beginSse r) =
      (frames, Inr (), written (paced (map (turn_piece i) frames) outs) (beginSse r))"
    by (rule write_frames_smooth) (use assms(1, 3) r encode_turn_piece in auto)
  let ?r = "written (paced (map (turn_piece i) frames) outs) (beginSse r)"
  have final: "smooth final" "response_open ?r" using assms(1) r by simp_all
  show ?thesis
  proof (cases ending)
    case (Inr u)
    then show ?thesis using meanwhile_smooth [OF final] by (simp add: stream_turn_def frames end_pieces_def)
  next
    case (Inl e)
    have "piece_ok (error_piece (\<not> list_ex is_accepted frames) i e)" using assms(4) by (simp add: Inl end_pieces_def)
    moreover have "\<not> hr_destroyed (meanwhile final ?r)" "\<not> hr_ended (meanwhile final ?r)"
      using final meanwhile_smooth [OF final] by (simp_all add: response_open_def)
    ultimately show ?thesis
      using finish_error_smooth [OF final, of True i e] finish_error_smooth [OF final, of False JUndefined e]
        stream_error_piece [of JUndefined e i]
      by (cases "list_ex is_accepted frames")
        (simp_all add: stream_turn_def frames end_pieces_def Inl)
  qed
qed

section \<open>What the client reads\<close>

lemma read_pieces:
  assumes "\<forall>p \<in> set pieces. piece_ok p" "concat chunks = pieces_text pieces"
  shows "readSse (map Inr chunks) last_decode = (concat (map piece_frames pieces), last_decode)"
proof -
  have "sse_drain [] sse_start = ([], Inr (sse_start, []))" "bounded_text []"
    by (simp_all add: sse_drain_None next_line_def bounded_small)
  from read_whole [OF whole_pieces [OF assms(1)] this] show ?thesis
    using assms(2) by (simp add: readSse_def pieces_text_def)
qed

fun sse_of :: "json \<Rightarrow> frame \<Rightarrow> sse_frame" where
  "sse_of i (Accepted a) = frame_of ''response'' (success i (accepted_json a)) None"
| "sse_of i (Event e) = frame_of ''thread/event'' (event_message e) (Some (ev_eventId e))"

lemma turn_piece_frames [simp]: "concat (map (piece_frames \<circ> turn_piece i) frames) = map (sse_of i) frames"
proof (induction frames)
  case (Cons f frames)
  then show ?case by (cases f) simp_all
qed simp

text \<open>A frame as the client hands it on.\<close>

fun client_item :: "frame \<Rightarrow> client_frame" where
  "client_item (Accepted a) = ClientAccepted (wire (accepted_json a))"
| "client_item (Event e) = ClientEvent (wire (event_json e))"

lemma frame_of_fields [simp]:
  "sf_event (frame_of event data i) = event" "sf_data (frame_of event data i) = stringify data"
  "sf_id (frame_of event data i) = (if truthy i then i else None)"
  by (simp_all add: frame_of_def)

lemma parseFrame_reads:
  "reads_back json_parse v \<Longrightarrow> isRecord v \<Longrightarrow> event \<noteq> ''stream/error'' \<Longrightarrow> parseFrame json_parse (frame_of event v i) = Inr (wire v)"
  by (simp add: parseFrame_def)

lemma accepted_wire [simp]:
  "isRecord (accepted_json a)" "jget (wire (accepted_json a)) ''threadId'' = JStr (ac_threadId a)"
  "jget (wire (accepted_json a)) ''turnId'' = JStr (ac_turnId a)" "jget (wire (accepted_json a)) ''workerId'' = JStr (ac_workerId a)"
  "jget (wire (accepted_json a)) ''status'' = JStr (ac_status a)" "accepted_json a \<noteq> JUndefined"
  by (simp_all add: accepted_json_def)

lemma read_accepted:
  assumes "sent_well json_parse (JStr s) a (Accepted a)"
  shows "turn_actions json_parse s (\<lambda>_. False) ending n None (sse_of (JStr s) (Accepted a) # fs) =
     PushItem (client_item (Accepted a)) # turn_actions json_parse s (\<lambda>_. False) ending (Suc n) (Some (wire (accepted_json a))) fs"
  using assms by (simp add: parseFrame_reads parseAccepted_def nonempty_jstr_def)

lemma event_wire [simp]:
  "isRecord (event_json e)" "event_json e \<noteq> JUndefined" "jget (wire (event_json e)) ''eventId'' = JStr (ev_eventId e)"
  "jget (wire (event_json e)) ''timestamp'' = JStr (ev_timestamp e)" "jget (wire (event_json e)) ''type'' = JStr (event_type_name (ev_type e))"
  "jget (wire (event_json e)) ''turnId'' = jopt (ev_turnId e)" "jget (wire (event_json e)) ''threadId'' = jopt (ev_threadId e)"
  "isRecord (ev_payload e) \<Longrightarrow> jget (wire (event_json e)) ''payload'' = wire (ev_payload e)"
  by (cases "ev_turnId e"; cases "ev_threadId e"; cases "ev_workerId e"; force simp: event_json_def isRecord_obj)+

lemma message_wire [simp]:
  "isRecord (event_message e)" "jget (wire (event_message e)) ''params'' = wire (event_json e)"
  "jget (wire (event_message e)) ''jsonrpc'' = JStr ''2.0''" "jget (wire (event_message e)) ''method'' = JStr ''thread/event''"
  by (simp_all add: event_message_def)

lemma terminal_wire [simp]: "terminal_json (wire (event_json e)) = isTerminalEvent e"
  by (simp add: terminal_json_def isTerminalEvent_def)

lemma parseEvent_reads:
  "isRecord (ev_payload e) \<Longrightarrow> ev_eventId e \<noteq> [] \<Longrightarrow>
     parseEvent (frame_of ''thread/event'' (event_message e) (Some (ev_eventId e))) (wire (event_message e)) = Inr (wire (event_json e))"
  by (simp add: parseEvent_def)

lemma read_event:
  assumes "sent_well json_parse i a (Event e)"
  shows "turn_actions json_parse s (\<lambda>_. False) ending n (Some (wire (accepted_json a))) (sse_of i (Event e) # fs) =
     PushItem (client_item (Event e)) #
       (if isTerminalEvent e then [FinishStream]
        else turn_actions json_parse s (\<lambda>_. False) ending (Suc n) (Some (wire (accepted_json a))) fs)"
  using assms by (simp add: parseFrame_reads parseEvent_reads for_turn_def)

lemma read_events:
  assumes "\<forall>e \<in> set es. sent_well json_parse i a (Event e)"
  shows "turn_actions json_parse s (\<lambda>_. False) ending n (Some (wire (accepted_json a))) (map (sse_of i) (map Event es) @ rest) =
     map (PushItem \<circ> client_item) (map Event (through isTerminalEvent es)) @
       (if list_ex isTerminalEvent es then [FinishStream]
        else turn_actions json_parse s (\<lambda>_. False) ending (n + length es) (Some (wire (accepted_json a))) rest)"
  using assms by (induction es arbitrary: n) (simp_all add: read_event del: sse_of.simps sent_well.simps turn_actions.simps)

lemma read_frames:
  assumes "\<forall>f \<in> set (Accepted a # map Event es). sent_well json_parse (JStr s) a f"
  shows "turn_actions json_parse s (\<lambda>_. False) ending 0 None (map (sse_of (JStr s)) (Accepted a # map Event es) @ rest) =
     map (PushItem \<circ> client_item) (Accepted a # map Event (through isTerminalEvent es)) @
       (if list_ex isTerminalEvent es then [FinishStream]
        else turn_actions json_parse s (\<lambda>_. False) ending (Suc (length es)) (Some (wire (accepted_json a))) rest)"
  using assms read_accepted [of json_parse s a ending 0] read_events [of es json_parse "JStr s" a s ending 1 rest]
  by (simp del: sse_of.simps sent_well.simps turn_actions.simps)

lemma read_error_response:
  "reads_back json_parse (failure (JStr s) e) \<Longrightarrow>
     turn_actions json_parse s shut ending n None (frame_of ''response'' (failure (JStr s) e) None # fs) = [FailStream (remote_of e)]"
  by (simp add: parseFrame_reads remoteError_wire failure_def)

lemma read_stream_error:
  "reads_back json_parse (stream_error_message e) \<Longrightarrow>
     turn_actions json_parse s shut ending n acc (frame_of ''stream/error'' (stream_error_message e) None # fs) =
       [FailStream (without_data (remote_of e))]"
proof -
  have "remoteError (JObj [(''code'', JStr (error_code_name (thrown_code e))), (''message'', JStr (thrown_message e))]) =
      without_data (remote_of e)"
    by (cases e) (simp_all add: remoteError_def without_data_def remote_of_def)
  then show "reads_back json_parse (stream_error_message e) \<Longrightarrow> ?thesis"
    using reads_backD [of json_parse "stream_error_message e"]
    by (simp add: parseFrame_def del: stringify.simps) (simp add: stream_error_message_def del: stringify.simps)
qed

section \<open>A turn over HTTP\<close>

lemma through_ends:
  "\<exists>x \<in> set xs. P x \<Longrightarrow> (\<exists>x \<in> set (through P xs). P x) \<and> through P (through P xs) = through P xs"
  by (induction xs) auto

lemma fresh_open: "fresh_response r \<Longrightarrow> response_open (beginSse r) \<and> response_open r \<and> hr_body (beginSse r) = []"
  by (simp add: fresh_response_def response_open_def beginSse_def)

lemma sent_piece: "sent_well json_parse i a f \<Longrightarrow> piece_ok (turn_piece i f)"
  by (cases f) auto

lemma turn_over_http:
  assumes "fresh_response r" "\<forall>w \<in> set (final # outs). smooth w"
    and "\<forall>f \<in> set frames. piece_ok (turn_piece i f)" "\<forall>p \<in> set (end_pieces i frames ending). piece_ok p"
    and "concat chunks = hr_body (stream_turn i frames ending outs final r)"
  shows "readSse (map Inr chunks) last_decode =
     (map (sse_of i) frames @ concat (map piece_frames (end_pieces i frames ending)), last_decode)"
proof -
  let ?pieces = "paced (map (turn_piece i) frames) outs @ beats (we_beats final) @ end_pieces i frames ending"
  have r: "response_open r" "hr_body (beginSse r) = []" using fresh_open [OF assms(1)] by blast+
  have "concat chunks = pieces_text ?pieces"
    unfolding assms(5) stream_turn_smooth [OF assms(2) r(1) assms(3, 4)] by (simp add: r(2))
  moreover have "\<forall>p \<in> set ?pieces. piece_ok p"
  proof -
    have "\<forall>p \<in> set (map (turn_piece i) frames). piece_ok p" using assms(3) by simp
    from paced_ok [OF this] have "\<forall>p \<in> set (paced (map (turn_piece i) frames) outs). piece_ok p" .
    with assms(4) show ?thesis unfolding set_append ball_Un by simp
  qed
  moreover have "concat (map piece_frames (beats n)) = []" for n by (induction n) simp_all
  ultimately show ?thesis using read_pieces [of ?pieces chunks last_decode] by simp
qed

lemma turn_read_over_http:
  assumes "fresh_response r" "\<forall>w \<in> set (final # outs). smooth w"
    and "\<forall>f \<in> set (owed a heard). sent_well json_parse (JStr i) a f" "\<exists>e \<in> set heard. for_turn a e \<and> isTerminalEvent e"
    and "concat chunks = hr_body (stream_turn (JStr i) (owed a heard) (Inr ()) outs final r)"
  shows "turn_actions json_parse i (\<lambda>_. False) (snd (readSse (map Inr chunks) last_decode)) 0 None
      (fst (readSse (map Inr chunks) last_decode)) =
    map (PushItem \<circ> client_item) (owed a heard) @ [FinishStream]"
proof -
  define es where "es = through isTerminalEvent (filter (for_turn a) heard)"
  have owed: "owed a heard = Accepted a # map Event es" by (simp add: owed_def es_def)
  have es: "list_ex isTerminalEvent es" "through isTerminalEvent es = es"
    using through_ends [of "filter (for_turn a) heard" isTerminalEvent] assms(4) by (auto simp: es_def list_ex_iff)
  have pieces: "\<forall>f \<in> set (owed a heard). piece_ok (turn_piece (JStr i) f)" using assms(3) sent_piece by blast
  have "\<forall>p \<in> set (end_pieces (JStr i) (owed a heard) (Inr ())). piece_ok p" by (simp add: end_pieces_def)
  note read = turn_over_http [OF assms(1, 2) pieces this assms(5), of last_decode]
  show ?thesis
    unfolding read using read_frames [OF assms(3) [unfolded owed], of "snd (map (sse_of (JStr i)) (owed a heard), last_decode)" "[]"] es
    by (simp add: end_pieces_def owed del: sse_of.simps turn_actions.simps)
qed

text \<open>
  C10. A turn over HTTP: for every turn that ends, what the daemon owes the consumer of the turn's stream
  - the acceptance, then the turn's events up to the terminal one - is exactly what the client's
  reader puts on its own stream, which it then finishes; this holds for every way to cut the
  response into chunks, whenever the heartbeats are written and however slowly the response drains.
\<close>

theorem http_turn_roundtrip:
  assumes "fresh_response r" "\<forall>w \<in> set (final # outs). smooth w"
    and "\<forall>f \<in> set (owed a heard). sent_well json_parse (JStr i) a f" "\<exists>e \<in> set heard. for_turn a e \<and> isTerminalEvent e"
    and "concat chunks = hr_body (stream_turn (JStr i) (owed a heard) (Inr ()) outs final r)"
  shows "turn_actions json_parse i (\<lambda>_. False) (snd (readSse (map Inr chunks) last_decode)) 0 None
      (fst (readSse (map Inr chunks) last_decode)) =
    map (PushItem \<circ> client_item) (owed a heard) @ [FinishStream]"
  using turn_read_over_http [OF assms] .

text \<open>
  C16. An error of a turn over HTTP: when the turn's stream fails, the client is given every frame
  before the failure and then fails with the code and the message of the error; its data is there
  when the turn was not yet accepted.
\<close>

theorem http_turn_error_arrives:
  assumes "fresh_response r" "\<forall>w \<in> set (final # outs). smooth w"
    and "frames = [] \<or> (\<exists>es. frames = Accepted a # map Event es \<and> \<not> list_ex isTerminalEvent es)"
    and "\<forall>f \<in> set frames. sent_well json_parse (JStr i) a f"
    and "\<forall>p \<in> set (end_pieces (JStr i) frames (Inl e)). piece_ok p"
    and "reads_back json_parse (failure (JStr i) e)" "reads_back json_parse (stream_error_message e)"
    and "concat chunks = hr_body (stream_turn (JStr i) frames (Inl e) outs final r)"
  shows "turn_actions json_parse i (\<lambda>_. False) (snd (readSse (map Inr chunks) last_decode)) 0 None
      (fst (readSse (map Inr chunks) last_decode)) =
    map (PushItem \<circ> client_item) frames @ [FailStream (if frames = [] then remote_of e else without_data (remote_of e))]"
proof -
  have pieces: "\<forall>f \<in> set frames. piece_ok (turn_piece (JStr i) f)" using assms(4) sent_piece by blast
  note read = turn_over_http [OF assms(1, 2) pieces assms(5, 8), of last_decode]
  from assms(3) show ?thesis
  proof
    assume "frames = []"
    then show ?thesis
      unfolding read using read_error_response [OF assms(6)]
      by (simp add: end_pieces_def error_piece_def del: sse_of.simps turn_actions.simps)
  next
    assume "\<exists>es. frames = Accepted a # map Event es \<and> \<not> list_ex isTerminalEvent es"
    then obtain es where es: "frames = Accepted a # map Event es" "\<not> list_ex isTerminalEvent es" by blast
    then have "through isTerminalEvent es = es" by (intro through_id) (simp add: list_ex_iff)
    then show ?thesis
      unfolding read using read_frames [OF assms(4) [unfolded es(1)]] read_stream_error [OF assms(7)] es
      by (simp add: end_pieces_def error_piece_def is_accepted_def del: sse_of.simps turn_actions.simps)
  qed
qed

section \<open>Whatever the response is\<close>

text \<open>
  What may follow the acceptance \<open>a\<close>: events of this turn of which only the last is terminal, and then
  the end: finished exactly after a terminal event, failed, or left alone because the stream closed.
\<close>

definition rest_of_turn :: "(nat \<Rightarrow> bool) \<Rightarrow> nat \<Rightarrow> json \<Rightarrow> client_frame stream_action list \<Rightarrow> bool" where
  "rest_of_turn shut n a actions \<longleftrightarrow>
     (\<exists>events tail. actions = map (PushItem \<circ> ClientEvent) events @ tail \<and>
        (\<forall>e \<in> set events. jget e ''turnId'' = jget a ''turnId'' \<and> jget e ''threadId'' = jget a ''threadId'') \<and>
        (\<forall>e \<in> set (butlast events). \<not> terminal_json e) \<and>
        (if events \<noteq> [] \<and> terminal_json (last events) then tail = [FinishStream]
         else (\<exists>err. tail = [FailStream err]) \<or> tail = [] \<and> shut (n + length events)))"

lemma rest_of_turn_fail: "rest_of_turn shut n a [FailStream e]"
  unfolding rest_of_turn_def by (intro exI [of _ "[]"] exI [of _ "[FailStream e]"]) simp

lemma rest_of_turn_finish:
  "terminal_json e \<Longrightarrow> jget e ''turnId'' = jget a ''turnId'' \<Longrightarrow> jget e ''threadId'' = jget a ''threadId'' \<Longrightarrow>
     rest_of_turn shut n a [PushItem (ClientEvent e), FinishStream]"
  unfolding rest_of_turn_def by (intro exI [of _ "[e]"] exI [of _ "[FinishStream]"]) simp

lemma rest_of_turn_shut: "shut n \<Longrightarrow> rest_of_turn shut n a []"
  unfolding rest_of_turn_def by (intro exI [of _ "[]"]) simp

lemma rest_of_turn_more:
  assumes "\<not> terminal_json e" "jget e ''turnId'' = jget a ''turnId''" "jget e ''threadId'' = jget a ''threadId''"
    and "rest_of_turn shut (Suc n) a actions"
  shows "rest_of_turn shut n a (PushItem (ClientEvent e) # actions)"
proof -
  obtain events tail where t: "actions = map (PushItem \<circ> ClientEvent) events @ tail"
      "\<forall>e \<in> set events. jget e ''turnId'' = jget a ''turnId'' \<and> jget e ''threadId'' = jget a ''threadId''"
      "\<forall>e \<in> set (butlast events). \<not> terminal_json e"
      "if events \<noteq> [] \<and> terminal_json (last events) then tail = [FinishStream]
       else (\<exists>err. tail = [FailStream err]) \<or> tail = [] \<and> shut (Suc n + length events)"
    using assms(4) unfolding rest_of_turn_def by blast
  then show ?thesis
    unfolding rest_of_turn_def by (intro exI [of _ "e # events"] exI [of _ tail]) (use assms(1-3) in auto)
qed

lemma turn_actions_rest: "rest_of_turn shut n a (turn_actions json_parse i shut ending n (Some a) fs)"
proof (induction fs arbitrary: n)
  case Nil
  then show ?case by (cases ending) (simp_all add: rest_of_turn_fail)
next
  case (Cons f fs)
  then show ?case
    by (auto simp: rest_of_turn_fail rest_of_turn_finish rest_of_turn_shut rest_of_turn_more split: sum.splits)
qed

text \<open>
  C15. Whatever a response contains, wherever it ends and whenever the consumer closes the stream, the
  client's stream of a turn is nothing, or one acceptance followed by events of exactly the accepted
  turn, of which only the last can be terminal; it is finished only after a terminal event, and
  otherwise fails unless its consumer or its limit has closed it.
\<close>

theorem http_turn_is_well_formed:
  "(\<exists>e. turn_actions json_parse i shut ending 0 None fs = [FailStream e]) \<or>
   (\<exists>a rest. turn_actions json_parse i shut ending 0 None fs = PushItem (ClientAccepted a) # rest \<and>
      parseAccepted a = Inr a \<and> rest_of_turn shut 1 a rest)"
proof (cases fs)
  case (Cons f fs')
  have accepted: "parseAccepted v = Inr a \<Longrightarrow> v = a" for v a
    by (auto simp: parseAccepted_def split: if_splits)
  show ?thesis
    unfolding Cons
    by (auto simp: turn_actions_rest rest_of_turn_shut dest: accepted split: sum.splits)
qed (cases ending; simp)

section \<open>Instances\<close>

definition sample_acceptance :: accepted_turn where
  "sample_acceptance = \<lparr>ac_threadId = ''t'', ac_turnId = ''u'', ac_workerId = ''w'', ac_status = ''accepted'', ac_disposition = None\<rparr>"

definition sample_done :: daemon_event where
  "sample_done = \<lparr>ev_eventId = ''e1'', ev_type = TurnCompleted, ev_timestamp = ''now'', ev_threadId = Some ''t'',
     ev_turnId = Some ''u'', ev_workerId = None, ev_payload = JObj []\<rparr>"

definition sample_turn_parse :: "string \<Rightarrow> string + json" where
  "sample_turn_parse = parse_of [success (JStr ''1'') (accepted_json sample_acceptance), event_message sample_done,
     failure (JStr ''1'') (JsError ''no''), stream_error_message (JsError ''no'')]"

lemma sample_reads:
  "reads_back sample_turn_parse (success (JStr ''1'') (accepted_json sample_acceptance))" "reads_back sample_turn_parse (event_message sample_done)"
  "reads_back sample_turn_parse (failure (JStr ''1'') (JsError ''no''))" "reads_back sample_turn_parse (stream_error_message (JsError ''no''))"
  by code_simp+

lemma piece_sizes:
  "byteLength (piece_text (turn_piece (JStr ''1'') (Accepted sample_acceptance))) \<le> 1000"
  "byteLength (piece_text (turn_piece (JStr ''1'') (Event sample_done))) \<le> 1000"
  "byteLength (piece_text (error_piece True (JStr ''1'') (JsError ''no''))) \<le> 1000"
  "byteLength (piece_text (error_piece False (JStr ''1'') (JsError ''no''))) \<le> 1000"
  by code_simp+

lemma small_piece: "byteLength (sse_text event data i) \<le> 1000 \<Longrightarrow> sse_names event i \<Longrightarrow> piece_ok (Frame event data i)"
  by (simp add: encodeSse_def MAX_STREAM_BYTES_def)

lemma sample_pieces:
  "piece_ok (turn_piece (JStr ''1'') (Accepted sample_acceptance))" "piece_ok (turn_piece (JStr ''1'') (Event sample_done))"
  "piece_ok (error_piece True (JStr ''1'') (JsError ''no''))" "piece_ok (error_piece False (JStr ''1'') (JsError ''no''))"
proof -
  have "sse_names ''response'' None" "sse_names ''stream/error'' None" "sse_names ''thread/event'' (Some (ev_eventId sample_done))"
    by code_simp+
  then show "piece_ok (turn_piece (JStr ''1'') (Accepted sample_acceptance))" "piece_ok (turn_piece (JStr ''1'') (Event sample_done))"
    "piece_ok (error_piece True (JStr ''1'') (JsError ''no''))" "piece_ok (error_piece False (JStr ''1'') (JsError ''no''))"
    using piece_sizes by (auto simp: error_piece_def intro!: small_piece simp del: piece_ok.simps piece_text.simps) (simp_all add: piece_text.simps)
qed

lemma sample_sent:
  "sent_well sample_turn_parse (JStr ''1'') sample_acceptance (Accepted sample_acceptance)"
  "sent_well sample_turn_parse (JStr ''1'') sample_acceptance (Event sample_done)"
  using sample_reads sample_pieces
  by (simp_all add: sample_acceptance_def sample_done_def for_turn_def del: turn_piece.simps)

definition slow :: write_env where
  "slow = \<lparr>we_beats = 2, we_gone = False, we_flushed = False, we_first = Drained\<rparr>"

lemma slow_smooth: "\<forall>w \<in> set [calm, slow]. smooth w"
  by (simp add: smooth_def slow_def calm_def)

theorem http_turn_roundtrip_witness:
  "turn_actions sample_turn_parse ''1'' (\<lambda>_. False)
      (snd (readSse (map Inr [hr_body (stream_turn (JStr ''1'') [Accepted sample_acceptance, Event sample_done] (Inr ()) [slow] calm sample_response)]) (Inr ()))) 0 None
      (fst (readSse (map Inr [hr_body (stream_turn (JStr ''1'') [Accepted sample_acceptance, Event sample_done] (Inr ()) [slow] calm sample_response)]) (Inr ()))) =
    [PushItem (client_item (Accepted sample_acceptance)), PushItem (client_item (Event sample_done)), FinishStream]"
proof -
  have owed: "owed sample_acceptance [sample_done] = [Accepted sample_acceptance, Event sample_done]"
    by (simp add: owed_def sample_acceptance_def sample_done_def for_turn_def isTerminalEvent_def)
  have sent: "\<forall>f \<in> set (owed sample_acceptance [sample_done]). sent_well sample_turn_parse (JStr ''1'') sample_acceptance f"
    unfolding owed using sample_sent by (simp del: sent_well.simps)
  have terminal: "\<exists>e \<in> set [sample_done]. for_turn sample_acceptance e \<and> isTerminalEvent e"
    by (simp add: sample_acceptance_def sample_done_def for_turn_def isTerminalEvent_def isTerminalEventType_def)
  from http_turn_roundtrip [OF sample_response_fresh slow_smooth sent terminal, of "[_]" "Inr ()"]
  show ?thesis unfolding owed by (simp del: turn_actions.simps client_item.simps)
qed

theorem http_turn_error_arrives_witness:
  "turn_actions sample_turn_parse ''1'' (\<lambda>_. False)
      (snd (readSse (map Inr [hr_body (stream_turn (JStr ''1'') [Accepted sample_acceptance] (Inl (JsError ''no'')) [slow] calm sample_response)]) (Inr ()))) 0 None
      (fst (readSse (map Inr [hr_body (stream_turn (JStr ''1'') [Accepted sample_acceptance] (Inl (JsError ''no'')) [slow] calm sample_response)]) (Inr ()))) =
    [PushItem (client_item (Accepted sample_acceptance)), FailStream (without_data (remote_of (JsError ''no'')))]"
proof -
  have shape: "[Accepted sample_acceptance] = [] \<or> (\<exists>es. [Accepted sample_acceptance] = Accepted sample_acceptance # map Event es \<and> \<not> list_ex isTerminalEvent es)"
    by (intro disjI2 exI [of _ "[]"]) simp
  have sent: "\<forall>f \<in> set [Accepted sample_acceptance]. sent_well sample_turn_parse (JStr ''1'') sample_acceptance f"
    using sample_sent by (simp del: sent_well.simps)
  have ends: "\<forall>p \<in> set (end_pieces (JStr ''1'') [Accepted sample_acceptance] (Inl (JsError ''no''))). piece_ok p"
    using sample_pieces(4) by (simp add: end_pieces_def is_accepted_def)
  from http_turn_error_arrives [OF sample_response_fresh slow_smooth shape sent ends sample_reads(3, 4), of "[_]" "Inr ()"]
  show ?thesis by (simp del: turn_actions.simps client_item.simps)
qed

end
