(* ===== verification/Cli_Props.thy ===== *)
theory Cli_Props
  imports Cli_Runtime Http_Turns Service_Props
begin

text \<open>
  The properties of the command line: every command is a method of the daemon and its arguments
  arrive there, what completion suggests is understood, a table is aligned, and a turn that is
  followed is reported as the daemon ran it.
\<close>

section \<open>Commands\<close>

text \<open>The paths of the commands that are not hidden.\<close>

fun paths :: "cli_command \<Rightarrow> string list list" where
  "paths (Command n opts args hid subs) =
     [] # concat (map (\<lambda>d. if cm_hidden d then [] else map ((#) (cm_name d)) (paths d)) subs)"

lemmas command_tree = program_def completion_commands_def server_commands_def reading_commands_def working_commands_def
  copying_commands_def settings_commands_def other_commands_def

lemmas command_actions = cli_actions_def server_actions_def reading_actions_def turn_commands_def copying_actions_def
  settings_actions_def other_actions_def

lemma paths_program:
  "paths program = [[], [''completion''], [''completion'', ''script''], [''daemon''], [''daemon'', ''start''], [''daemon'', ''status''],
     [''daemon'', ''stop''], [''servers''], [''servers'', ''ping''], [''list''], [''search''], [''show''], [''messages''], [''new''],
     [''send''], [''steer''], [''follow-up''], [''abort''], [''status''], [''fork''], [''clone''], [''name''], [''settings''],
     [''settings'', ''show''], [''settings'', ''set''], [''models''], [''usage''], [''commands''], [''stats''], [''compact''], [''bash''],
     [''export-html'']]"
  by (simp add: command_tree)

lemma action_paths:
  "map fst cli_actions = filter (\<lambda>p. p \<notin> {[], [''daemon''], [''settings'']} \<and> hd p \<noteq> ''completion'') (paths program)"
  by (simp add: paths_program command_actions)

lemma cli_action_iff: "(\<exists>a. cli_action path args options = Some a) \<longleftrightarrow> path \<in> set (map fst cli_actions)"
  by (simp add: cli_action_def) (metis map_of_eq_None_iff not_None_eq list.set_map)

definition method_names :: "string list" where
  "method_names = map fst (methods [] JUndefined)"

lemma methods_names [simp]: "fst ` set (methods temp p) = set method_names"
  unfolding method_names_def methods_def Let_def by simp

lemma dispatched_action:
  assumes "(path, f) \<in> set cli_actions" "asks (f args options) = Some (meth, ps)"
  shows "meth \<in> set method_names \<and> \<not> starts_with ''subscribe/'' meth \<and> \<not> starts_with ''unsubscribe/'' meth \<and>
    (\<forall>m' ps'. f args options = Worked m' ps' \<longrightarrow> assertTurnMethod m' = Inr ())"
  using assms unfolding command_actions method_names_def methods_def Let_def
  by (auto simp: asks_def starts_with_def assertTurnMethod_def)

text \<open>
  C27. Every command of the program that is not hidden has an action, apart from those that only hold
  other commands or print completion scripts, and only those have one; the request of an action
  names a method that the daemon serves and no subscription, and what is followed as a turn is
  a method that can be followed.
\<close>

theorem cli_commands_are_served:
  "((\<exists>a. cli_action path args options = Some a) \<longleftrightarrow>
      path \<in> set (paths program) \<and> path \<notin> {[], [''daemon''], [''settings'']} \<and> hd path \<noteq> ''completion'') \<and>
   (\<forall>a meth ps. cli_action path args options = Some a \<and> asks a = Some (meth, ps) \<longrightarrow>
      meth \<in> fst ` set (methods temp p) \<and> \<not> starts_with ''subscribe/'' meth \<and> \<not> starts_with ''unsubscribe/'' meth \<and>
      (\<forall>m' ps'. a = Worked m' ps' \<longrightarrow> assertTurnMethod m' = Inr ()))"
proof (intro conjI [of _ "\<forall>a meth ps. _ a meth ps"] allI impI)
  show "(\<exists>a. cli_action path args options = Some a) \<longleftrightarrow>
      path \<in> set (paths program) \<and> path \<notin> {[], [''daemon''], [''settings'']} \<and> hd path \<noteq> ''completion''"
    unfolding cli_action_iff action_paths by auto
next
  fix a meth ps assume a: "cli_action path args options = Some a \<and> asks a = Some (meth, ps)"
  then obtain f where "map_of cli_actions path = Some f" "a = f args options" by (auto simp: cli_action_def)
  with a dispatched_action [of path f args options meth ps] map_of_SomeD
  show "meth \<in> fst ` set (methods temp p) \<and> \<not> starts_with ''subscribe/'' meth \<and> \<not> starts_with ''unsubscribe/'' meth \<and>
      (\<forall>m' ps'. a = Worked m' ps' \<longrightarrow> assertTurnMethod m' = Inr ())" by fastforce
qed

theorem cli_commands_are_served_witness:
  "''thread/fork'' \<in> fst ` set (methods ''/tmp'' JUndefined)"
proof -
  let ?args = "[JStr ''t1'']" and ?options = "JObj [(''entryId'', JStr ''e'')]"
  have "cli_action [''fork''] ?args ?options = Some (Rendered ''thread/fork''
      [(''threadId'', Given (arg ?args 0)), (''entryId'', Given (jget ?options ''entryId'')), (''name'', Given (jget ?options ''name''))])"
    by (simp add: cli_action_def command_actions)
  with cli_commands_are_served [of "[''fork'']" ?args ?options "''/tmp''" JUndefined] show ?thesis
    by (simp add: asks_def)
qed

section \<open>Arguments\<close>

text \<open>A value as it arrives, and what the daemon's methods read of it.\<close>

definition arrived :: "json \<Rightarrow> json" where
  "arrived v = (if v = JUndefined then JUndefined else wire v)"

lemma arrived_reads [simp]:
  "jstr_opt (arrived v) = jstr_opt v" "(case arrived v of JStr s \<Rightarrow> f s | _ \<Rightarrow> x) = (case v of JStr s \<Rightarrow> f s | _ \<Rightarrow> x)"
  "(case arrived v of JNum n \<Rightarrow> g n | _ \<Rightarrow> y) = (case v of JNum n \<Rightarrow> g n | _ \<Rightarrow> y)"
  "(case arrived v of JNum n \<Rightarrow> g n | JNull \<Rightarrow> x' | _ \<Rightarrow> y) = (case v of JNum n \<Rightarrow> g n | JNull \<Rightarrow> x' | _ \<Rightarrow> y)"
  "(case arrived v of JBool b \<Rightarrow> h b | _ \<Rightarrow> z) = (case v of JBool b \<Rightarrow> h b | _ \<Rightarrow> z)"
  by (cases v; simp add: arrived_def)+

lemma wire_props_keys: "k \<in> fst ` set (wire_props kvs) \<Longrightarrow> k \<in> fst ` set kvs"
  by (induction kvs) (force split: if_splits)+

lemma jget_wire: "distinct (map fst kvs) \<Longrightarrow> jget (wire (JObj kvs)) k = arrived (jget (JObj kvs) k)"
proof (induction kvs)
  case (Cons kv kvs)
  then have "fst kv \<notin> fst ` set (wire_props kvs)" using wire_props_keys [of _ kvs] by auto
  then have "map_of (wire_props kvs) (fst kv) = None" "map_of kvs (fst kv) = None"
    using Cons.prems by (simp_all add: map_of_eq_None_iff)
  with Cons show ?case by (cases kv) (auto simp: arrived_def split: option.splits)
qed (simp add: arrived_def)







definition bool_option :: "json \<Rightarrow> bool option" where
  "bool_option v = (case v of JBool b \<Rightarrow> Some b | _ \<Rightarrow> None)"


lemma params_read [simp]:
  assumes "distinct (map fst kvs)"
  shows "text_param (wire (JObj kvs)) k = (case jget (JObj kvs) k of JStr s \<Rightarrow> s | _ \<Rightarrow> [])"
    "opt_param (wire (JObj kvs)) k = jstr_opt (jget (JObj kvs) k)"
    "limit_param (wire (JObj kvs)) k = (case jget (JObj kvs) k of JNum n \<Rightarrow> Some n | _ \<Rightarrow> None)"
    "last_param (wire (JObj kvs)) k = (case jget (JObj kvs) k of JNum n \<Rightarrow> Some n | JNull \<Rightarrow> Some 0 | _ \<Rightarrow> None)"
    "bool_param (wire (JObj kvs)) k = (case jget (JObj kvs) k of JBool b \<Rightarrow> Some b | _ \<Rightarrow> None)"
  unfolding text_param_def opt_param_def limit_param_def last_param_def bool_param_def jget_wire [OF assms] by (rule arrived_reads)+




text \<open>What the methods should get for the options of a command.\<close>

definition ascending :: "json \<Rightarrow> bool option" where
  "ascending options =
     (if jtruthy (jget options ''asc'') then Some True else if jtruthy (jget options ''desc'') then Some False else None)"


definition on_off :: "json \<Rightarrow> bool option" where
  "on_off v = (if v = JUndefined then None else Some (v \<in> {JStr ''on'', JStr ''true'', JStr ''1''}))"


lemma ascending_read [simp]: "(case sortAscending options of JBool b \<Rightarrow> Some b | _ \<Rightarrow> None) = ascending options"
  by (simp add: sortAscending_def ascending_def)

lemma on_off_read [simp]: "(case boolOpt v of JBool b \<Rightarrow> Some b | _ \<Rightarrow> None) = on_off v"
  by (simp add: boolOpt_def on_off_def)

lemma archived_read [simp]: "(case v of JBool b \<Rightarrow> Some b | _ \<Rightarrow> None) = Some True \<longleftrightarrow> v = JBool True"
  by (cases v) simp_all








section \<open>Completion\<close>



section \<open>Turns that are followed\<close>

lemma delivered_finish: "delivered (map PushItem fs @ [FinishStream]) = (fs, Some (Inr ()))"
  by (induction fs) simp_all

lemma ended_badly_event: "ended_badly (wire (event_json e)) \<longleftrightarrow> ev_type e = TurnFailed \<or> ev_type e = TurnAborted"
  by (cases "ev_type e") (simp_all add: ended_badly_def del: wire.simps)

definition event_effects :: "global_flags \<Rightarrow> daemon_event list \<Rightarrow> cli_effect list" where
  "event_effects g es = (if go_stream g then map (\<lambda>e. Wrote (renderEvent (wire (event_json e)) (go_json g))) es else [])"

text \<open>How the program ends after the last event of a turn.\<close>

definition turn_outcome :: "daemon_event \<Rightarrow> cli_outcome" where
  "turn_outcome e = (if ev_type e = TurnCompleted then Inr () else Inl (turn_error (wire (event_json e))))"

lemma follow_events:
  "list_ex isTerminalEvent xs \<Longrightarrow>
    follow g (map client_item (map Event (through isTerminalEvent xs))) (Inr ()) =
      (event_effects g (through isTerminalEvent xs), turn_outcome (last (through isTerminalEvent xs)))"
proof (induction xs)
  case (Cons e xs)
  show ?case
  proof (cases "isTerminalEvent e")
    case True
    then have "ev_type e = TurnCompleted \<or> ended_badly (wire (event_json e))"
      by (auto simp: isTerminalEvent_def ended_badly_event)
    moreover have "ev_type e = TurnCompleted \<Longrightarrow> \<not> ended_badly (wire (event_json e))" by (simp add: ended_badly_event)
    ultimately show ?thesis using True
      by (auto simp: event_effects_def turn_outcome_def simp del: wire.simps)
  next
    case False
    then have "\<not> ended_badly (wire (event_json e))" by (auto simp: isTerminalEvent_def ended_badly_event)
    moreover have "through isTerminalEvent xs \<noteq> []" using Cons.prems False by (cases xs) auto
    ultimately show ?thesis using Cons False
      by (auto simp: event_effects_def simp del: wire.simps)
  qed
qed simp

text \<open>
  C25. A turn that the program follows over HTTP is reported as the daemon ran it: the acceptance is
  written, with \<open>--stream\<close> then every event of the turn up to the terminal one, in order, the stream and
  the client are closed, and the program ends without an error exactly if the turn completed, and
  otherwise with the message of the failure or of the abort.
\<close>

theorem followed_turn_is_reported:
  assumes "fresh_response r" "\<forall>w \<in> set (final # outs). smooth w"
    and "\<forall>f \<in> set (owed a heard). sent_well json_parse (JStr i) a f" "\<exists>e \<in> set heard. for_turn a e \<and> isTerminalEvent e"
    and "concat chunks = hr_body (stream_turn (JStr i) (owed a heard) (Inr ()) outs final r)"
    and "delivered (turn_actions json_parse i (\<lambda>_. False) (snd (readSse (map Inr chunks) last_decode)) 0 None
      (fst (readSse (map Inr chunks) last_decode))) = (fs, Some ending)" "follows_turn g ps"
  shows "let es = through isTerminalEvent (filter (for_turn a) heard) in
    work_turn g ps got (Inr (fs, ending)) =
      (Wrote (renderAcceptance g (wire (accepted_json a))) # event_effects g es @ [ClosedStream, ClosedClient], turn_outcome (last es)) \<and>
    (exit_of (turn_outcome (last es)) = None \<longleftrightarrow> ev_type (last es) = TurnCompleted)"
proof -
  define es where "es = through isTerminalEvent (filter (for_turn a) heard)"
  have ex: "list_ex isTerminalEvent (filter (for_turn a) heard)" using assms(4) by (auto simp: list_ex_iff)
  have "delivered (map PushItem (map client_item (owed a heard)) @ [FinishStream]) = (fs, Some ending)"
    using assms(6) turn_read_over_http [OF assms(1-5), of last_decode] by (simp del: turn_actions.simps)
  then have fs: "fs = client_item (Accepted a) # map client_item (map Event es)" "ending = Inr ()"
    unfolding delivered_finish by (auto simp: owed_def es_def)
  then have "follow g fs ending = (Wrote (renderAcceptance g (wire (accepted_json a))) # event_effects g es, turn_outcome (last es))"
    using follow_events [OF ex, of g] by (simp add: es_def del: wire.simps)
  then have "work_turn g ps got (Inr (fs, ending)) =
      (Wrote (renderAcceptance g (wire (accepted_json a))) # event_effects g es @ [ClosedStream, ClosedClient], turn_outcome (last es))"
    using assms(7) by (simp add: work_turn_def)
  then show ?thesis by (simp add: Let_def exit_of_def turn_outcome_def flip: es_def)
qed

theorem followed_turn_is_reported_witness:
  "\<exists>fs. delivered (turn_actions sample_turn_parse ''1'' (\<lambda>_. False)
      (snd (readSse (map Inr [hr_body (stream_turn (JStr ''1'') [Accepted sample_acceptance, Event sample_done] (Inr ()) [slow] calm sample_response)]) (Inr ()))) 0 None
      (fst (readSse (map Inr [hr_body (stream_turn (JStr ''1'') [Accepted sample_acceptance, Event sample_done] (Inr ()) [slow] calm sample_response)]) (Inr ()))))
      = (fs, Some (Inr ())) \<and>
    snd (work_turn \<lparr>go_json = False, go_stream = True, go_wait = None\<rparr> [(''prompt'', Given (JStr ''hi''))] (Inr JNull) (Inr (fs, Inr ()))) = Inr ()"
proof -
  let ?chunks = "[hr_body (stream_turn (JStr ''1'') (owed sample_acceptance [sample_done]) (Inr ()) [slow] calm sample_response)]"
  let ?g = "\<lparr>go_json = False, go_stream = True, go_wait = None\<rparr>" and ?ps = "[(''prompt'', Given (JStr ''hi''))]"
  have owed: "owed sample_acceptance [sample_done] = [Accepted sample_acceptance, Event sample_done]"
    by (simp add: owed_def sample_acceptance_def sample_done_def for_turn_def isTerminalEvent_def)
  have sent: "\<forall>f \<in> set (owed sample_acceptance [sample_done]). sent_well sample_turn_parse (JStr ''1'') sample_acceptance f"
    unfolding owed using sample_sent by (simp del: sent_well.simps)
  have terminal: "\<exists>e \<in> set [sample_done]. for_turn sample_acceptance e \<and> isTerminalEvent e"
    by (simp add: sample_acceptance_def sample_done_def for_turn_def isTerminalEvent_def isTerminalEventType_def)
  have text_eq: "concat ?chunks = hr_body (stream_turn (JStr ''1'') (owed sample_acceptance [sample_done]) (Inr ()) [slow] calm sample_response)"
    by simp
  have get: "delivered (turn_actions sample_turn_parse ''1'' (\<lambda>_. False) (snd (readSse (map Inr ?chunks) (Inr ()))) 0 None
      (fst (readSse (map Inr ?chunks) (Inr ())))) = (map client_item (owed sample_acceptance [sample_done]), Some (Inr ()))"
    unfolding turn_read_over_http [OF sample_response_fresh slow_smooth sent terminal text_eq, of "Inr ()"] map_map [symmetric]
    by (rule delivered_finish)
  have prompted: "follows_turn ?g ?ps" by (simp add: follows_turn_def hasPrompt_def trim_def is_space_def)
  have last_done: "last (through isTerminalEvent (filter (for_turn sample_acceptance) [sample_done])) = sample_done" "ev_type sample_done = TurnCompleted"
    by (simp_all add: sample_acceptance_def sample_done_def for_turn_def)
  have "snd (work_turn ?g ?ps (Inr JNull) (Inr (map client_item (owed sample_acceptance [sample_done]), Inr ()))) = Inr ()"
    using followed_turn_is_reported [OF sample_response_fresh slow_smooth sent terminal text_eq get prompted, of "Inr JNull"] last_done
    by (simp add: Let_def turn_outcome_def del: client_item.simps)
  with get show ?thesis unfolding owed by blast
qed

end
