(* ===== verification/Cli_Tables.thy ===== *)
theory Cli_Tables
  imports Cli_Render
begin

text \<open>
  The lines of a table (\<open>printTable\<close> of \<open>src/cli/render.ts\<close>): one for each row, with aligned columns.
\<close>

section \<open>Cells and widths\<close>

lemma is_space_blank [simp]: "is_space CHR '' ''" "is_space newline"
  by (simp_all add: is_space_def newline_def)

lemma collapse_no_newline: "newline \<notin> set (collapse s)"
  by (induction s rule: collapse.induct) (auto simp: newline_def is_space_def)

lemma trim_subset: "set (trim s) \<subseteq> set s"
  unfolding trim_def by (auto dest!: set_dropWhileD)

lemma sanitized_no_newline [simp]: "newline \<notin> set (sanitizeCell v)"
  using trim_subset [of "collapse (js_string v)"] collapse_no_newline [of "js_string v"] by (auto simp: sanitizeCell_def)

lemma length_widen: "length ws \<le> length (widen ws row)"
  by (induction ws row rule: widen.induct) simp_all

lemma widen_grows: "i < length ws \<Longrightarrow> ws ! i \<le> widen ws row ! i"
  by (induction ws row arbitrary: i rule: widen.induct) (auto simp: nth_Cons split: nat.splits)

lemma widen_covers: "length row \<le> length (widen ws row) \<and> (\<forall>i < length row. length (row ! i) \<le> widen ws row ! i)"
  by (induction ws row rule: widen.induct) (auto simp: nth_Cons split: nat.splits)

definition widens :: "nat list \<Rightarrow> nat list \<Rightarrow> bool" where
  "widens ws vs \<longleftrightarrow> length ws \<le> length vs \<and> (\<forall>i < length ws. ws ! i \<le> vs ! i)"

lemma widens_fold: "widens ws (fold (\<lambda>row ws. widen ws row) rows ws)"
proof (induction rows arbitrary: ws)
  case (Cons row rows)
  have "widens ws (widen ws row)" by (simp add: widens_def length_widen widen_grows)
  with Cons [of "widen ws row"] show ?case
    unfolding widens_def by (simp, meson le_trans less_le_trans)
qed (simp add: widens_def)

lemma column_widths_cover:
  assumes "row = headers \<or> row \<in> set rows"
  shows "i < length row \<Longrightarrow> i < length (column_widths headers rows) \<and> length (row ! i) \<le> column_widths headers rows ! i"
  using assms
proof
  assume i: "i < length row" and "row = headers"
  then show ?thesis using widens_fold [of "map length headers" rows] by (auto simp: widens_def column_widths_def)
next
  assume i: "i < length row" and "row \<in> set rows"
  then obtain before after where rows: "rows = before @ row # after" by (meson split_list)
  let ?ws = "widen (fold (\<lambda>row ws. widen ws row) before (map length headers)) row"
  have "widens ?ws (column_widths headers rows)" by (simp add: column_widths_def rows widens_fold)
  with widen_covers [of row "fold (\<lambda>row ws. widen ws row) before (map length headers)"] i show ?thesis
    unfolding widens_def by (meson le_trans less_le_trans)
qed

text \<open>The start of a column in every line, and the cells of a joined line.\<close>

definition offset :: "nat list \<Rightarrow> nat \<Rightarrow> nat" where
  "offset widths i = sum_list (map (\<lambda>w. w + 2) (take i widths))"

lemma drop_join:
  "i < length cs \<Longrightarrow> (\<forall>j < i. length (cs ! j) = ws ! j) \<Longrightarrow> i \<le> length ws \<Longrightarrow>
    drop (offset ws i) (join ''  '' cs) = join ''  '' (drop i cs)"
proof (induction i arbitrary: cs ws)
  case (Suc i)
  then obtain c d cs' w ws' where shape: "cs = c # d # cs'" "ws = w # ws'"
    by (cases cs; cases "tl cs"; cases ws) auto
  with Suc.prems(2) have "length c = w" by force
  moreover have "\<forall>j < i. length ((d # cs') ! j) = ws' ! j" using Suc.prems(2) shape by force
  ultimately show ?case using Suc.IH [of "d # cs'" ws'] Suc.prems shape by (simp add: offset_def)
qed (simp add: offset_def)

lemma join_head: "cs \<noteq> [] \<Longrightarrow> \<exists>rest. join sep cs = hd cs @ rest \<and> (tl cs \<noteq> [] \<longrightarrow> (\<exists>more. rest = sep @ more))"
  by (cases cs; cases "tl cs") auto

lemma table_row_cell:
  assumes "i < length widths" "\<And>j. j < length widths \<Longrightarrow> length (cell_at row j) \<le> widths ! j"
  shows "\<exists>rest. drop (offset widths i) (table_row widths row) =
    (if Suc i < length widths then padEnd (cell_at row i) (widths ! i) @ ''  '' @ rest else cell_at row i)"
proof -
  define cs where
    "cs = map (\<lambda>i. if i + 1 = length widths then cell_at row i else padEnd (cell_at row i) (widths ! i)) [0..<length widths]"
  have nth: "cs ! j = (if j + 1 = length widths then cell_at row j else padEnd (cell_at row j) (widths ! j))" if "j < length widths" for j
    using that by (simp add: cs_def)
  have len: "length cs = length widths" by (simp add: cs_def)
  have "drop (offset widths i) (table_row widths row) = join ''  '' (drop i cs)"
    unfolding table_row_def cs_def [symmetric] using assms len by (intro drop_join) (auto simp: padEnd_def nth)
  moreover have "drop i cs = cs ! i # drop (Suc i) cs" using assms(1) len by (metis Cons_nth_drop_Suc)
  moreover have "Suc i < length widths \<Longrightarrow> drop (Suc i) cs = cs ! Suc i # drop (Suc (Suc i)) cs" using len by (metis Cons_nth_drop_Suc)
  ultimately show ?thesis using assms(1) len by (cases "Suc i < length widths") (auto simp: nth)
qed

lemma join_set: "set (join sep cs) \<subseteq> set sep \<union> \<Union> (set ` set cs)"
  by (induction sep cs rule: join.induct) auto

lemma row_no_newline:
  "newline \<notin> set (table_row widths (map sanitizeCell cells))"
proof -
  have "newline \<notin> set (cell_at (map sanitizeCell cells) i)" for i by (simp add: cell_at_def)
  then have "newline \<notin> \<Union> (set ` set (map (\<lambda>i. if i + 1 = length widths then cell_at (map sanitizeCell cells) i
      else padEnd (cell_at (map sanitizeCell cells) i) (widths ! i)) [0..<length widths]))"
    by (auto simp: padEnd_def newline_def)
  then show ?thesis unfolding table_row_def using join_set by (fastforce simp: newline_def)
qed

text \<open>The cells of a table with its headers, and the widths of its columns.\<close>

definition table_cells :: "string list \<Rightarrow> json list list \<Rightarrow> string list list" where
  "table_cells headers rows = headers # map (map sanitizeCell) rows"

definition table_widths :: "string list \<Rightarrow> json list list \<Rightarrow> nat list" where
  "table_widths headers rows = column_widths headers (map (map sanitizeCell) rows)"

text \<open>
  A table of records is one line for the headers and one for each record, whatever the cells hold,
  and its columns are aligned: in every line each cell stands whole at the start of its column,
  and all but the last are filled up with blanks to the width of their column and two more.
\<close>

theorem table_is_aligned:
  assumes "rows \<noteq> []"
  shows "let rendered = table_cells headers rows; widths = table_widths headers rows in
    \<exists>ls. printTable headers rows = concat (map (\<lambda>l. l @ [newline]) ls) \<and> length ls = Suc (length rows) \<and>
    (\<forall>r < length ls. r \<noteq> 0 \<longrightarrow> newline \<notin> set (ls ! r)) \<and>
    (\<forall>r < length ls. \<forall>i < length widths.
       length (cell_at (rendered ! r) i) \<le> widths ! i \<and>
       (\<exists>rest. drop (offset widths i) (ls ! r) =
          (if Suc i < length widths then padEnd (cell_at (rendered ! r) i) (widths ! i) @ ''  '' @ rest else cell_at (rendered ! r) i)))"
  unfolding Let_def
proof (rule exI [of _ "map (table_row (table_widths headers rows)) (table_cells headers rows)"], intro conjI allI impI)
  let ?cells = "table_cells headers rows" and ?widths = "table_widths headers rows"
  let ?ls = "map (table_row ?widths) ?cells"
  show "printTable headers rows = concat (map (\<lambda>l. l @ [newline]) ?ls)"
    using assms(1) by (simp add: printTable_def table_cells_def table_widths_def Let_def printTableRow_def comp_def)
  show "length ?ls = Suc (length rows)" by (simp add: table_cells_def)
  have fits: "length (cell_at row j) \<le> ?widths ! j" if "row \<in> set ?cells" "j < length ?widths" for row j
    using column_widths_cover [of row headers "map (map sanitizeCell) rows" j] that
    by (auto simp: table_cells_def table_widths_def cell_at_def)
  fix r assume r: "r < length ?ls"
  then have row: "?ls ! r = table_row ?widths (?cells ! r)" "?cells ! r \<in> set ?cells" by simp_all
  show "newline \<notin> set (?ls ! r)" if "r \<noteq> 0"
    unfolding row(1) using r that row_no_newline by (auto simp: table_cells_def nth_Cons split: nat.splits)
  fix i assume i: "i < length ?widths"
  show "length (cell_at (?cells ! r) i) \<le> ?widths ! i" by (rule fits [OF row(2) i])
  show "\<exists>rest. drop (offset ?widths i) (?ls ! r) =
      (if Suc i < length ?widths then padEnd (cell_at (?cells ! r) i) (?widths ! i) @ ''  '' @ rest else cell_at (?cells ! r) i)"
    unfolding row(1) by (rule table_row_cell [OF i fits [OF row(2)]])
qed

theorem table_is_aligned_witness:
  "\<exists>ls. printTable [''A'', ''B''] [[JStr ''long cell'', JNum 1]] = concat (map (\<lambda>l. l @ [newline]) ls) \<and> length ls = 2"
  using table_is_aligned [of "[[JStr ''long cell'', JNum 1]]" "[''A'', ''B'']"] by (auto simp: Let_def)

end
