(* ===== verification/Socket_Client.thy ===== *)
theory Socket_Client
  imports Wire
begin

text \<open>
  The socket client (\<open>src/client/socket-client.ts\<close>): connecting once for all callers, the pending
  requests, the answers and events that arrive, and the end of the connection; and the two transports
  that cut what arrives into lines.

  The asynchronous methods are run by their inputs: a call of \<open>request\<close>, the continuation of one after
  its \<open>await this.connect()\<close>, the end of \<open>connectTransport\<close>, a line of the transport and the close of
  either side. A call is known by its number; \<open>sc_calls\<close> records all of them.
\<close>

section \<open>State\<close>

text \<open>The promise of \<open>openTransport\<close>, and how far a call has come.\<close>

datatype attempt = Opening | Opened | OpenFailed client_error

datatype call_state =
    Connecting nat                    \<comment> \<open>awaits the promise with this number\<close>
  | Connected                         \<comment> \<open>there was a transport\<close>
  | Pending string
  | Settled "client_error + json"

record client_call =
  cl_method :: string
  cl_params :: json
  cl_state :: call_state

record socket_client =
  sc_nextId :: nat
  sc_transport :: bool
  sc_openings :: "attempt list"
  sc_connecting :: "nat option"
  sc_closed :: bool
  sc_pending :: "(string \<times> nat) list"
  sc_calls :: "client_call list"
  sc_sent :: "string list"
  sc_events :: "json list"
  sc_closes :: nat
  sc_transport_closes :: nat

definition new_client :: socket_client where
  "new_client = \<lparr>sc_nextId = 1, sc_transport = False, sc_openings = [], sc_connecting = None, sc_closed = False,
     sc_pending = [], sc_calls = [], sc_sent = [], sc_events = [], sc_closes = 0, sc_transport_closes = 0\<rparr>"

definition connection_closed :: client_error where
  "connection_closed = Local (DaemonError WorkerCrashed ''Daemon connection closed'' None)"

section \<open>Connecting\<close>

text \<open>
  \<open>connect\<close> up to its \<open>await\<close>: refused, done, or waiting for the promise that is shared by all callers,
  which is started when there is none.
\<close>

definition connect :: "socket_client \<Rightarrow> (client_error + call_state) \<times> socket_client" where
  "connect s =
     (if sc_closed s then (Inl connection_closed, s)
      else if sc_transport s then (Inr Connected, s)
      else case sc_connecting s of
        Some p \<Rightarrow> (Inr (Connecting p), s)
      | None \<Rightarrow> (Inr (Connecting (length (sc_openings s))),
                 s\<lparr>sc_connecting := Some (length (sc_openings s)), sc_openings := sc_openings s @ [Opening]\<rparr>))"

text \<open>\<open>openTransport\<close> after \<open>connectTransport\<close> has settled.\<close>

definition transport_opened :: "nat \<Rightarrow> client_error + unit \<Rightarrow> socket_client \<Rightarrow> socket_client" where
  "transport_opened p outcome s =
     (case outcome of
        Inl e \<Rightarrow> s\<lparr>sc_openings := (sc_openings s)[p := OpenFailed e]\<rparr>
      | Inr _ \<Rightarrow>
          if sc_closed s
          then s\<lparr>sc_transport_closes := sc_transport_closes s + 1, sc_openings := (sc_openings s)[p := OpenFailed connection_closed]\<rparr>
          else s\<lparr>sc_transport := True, sc_openings := (sc_openings s)[p := Opened]\<rparr>)"

section \<open>Requests\<close>

definition set_call :: "nat \<Rightarrow> call_state \<Rightarrow> socket_client \<Rightarrow> socket_client" where
  "set_call n st s = s\<lparr>sc_calls := (sc_calls s)[n := (sc_calls s ! n)\<lparr>cl_state := st\<rparr>]\<rparr>"

definition request_json :: "string \<Rightarrow> string \<Rightarrow> json \<Rightarrow> json" where
  "request_json i meth args =
     JObj [(''jsonrpc'', JStr ''2.0''), (''id'', JStr i), (''method'', JStr meth), (''params'', if nullish args then JObj [] else args)]"

text \<open>\<open>request\<close> up to the end of \<open>connect\<close>.\<close>

definition request_begin :: "string \<Rightarrow> json \<Rightarrow> socket_client \<Rightarrow> socket_client" where
  "request_begin meth args s =
     (case connect s of
        (Inl e, s1) \<Rightarrow> s1\<lparr>sc_calls := sc_calls s1 @ [\<lparr>cl_method = meth, cl_params = args, cl_state = Settled (Inl e)\<rparr>]\<rparr>
      | (Inr st, s1) \<Rightarrow> s1\<lparr>sc_calls := sc_calls s1 @ [\<lparr>cl_method = meth, cl_params = args, cl_state = st\<rparr>]\<rparr>)"

text \<open>\<open>request\<close> after \<open>connect\<close>: \<open>sending\<close> is the outcome of \<open>transport.send\<close>.\<close>

definition send_request :: "nat \<Rightarrow> client_error + unit \<Rightarrow> socket_client \<Rightarrow> socket_client" where
  "send_request n sending s =
     (if sc_closed s then set_call n (Settled (Inl connection_closed)) s
      else
        let i = dec (sc_nextId s); c = sc_calls s ! n; s1 = s\<lparr>sc_nextId := sc_nextId s + 1\<rparr> in
        case sending of
          Inl e \<Rightarrow> set_call n (Settled (Inl e)) s1
        | Inr _ \<Rightarrow> set_call n (Pending i)
            (s1\<lparr>sc_pending := sc_pending s1 @ [(i, n)],
               sc_sent := sc_sent s1 @ [encodeJsonLine (request_json i (cl_method c) (cl_params c))]\<rparr>))"

definition request_resume :: "nat \<Rightarrow> client_error + unit \<Rightarrow> socket_client \<Rightarrow> socket_client" where
  "request_resume n sending s =
     (if n \<ge> length (sc_calls s) then s
      else case cl_state (sc_calls s ! n) of
        Connected \<Rightarrow> send_request n sending s
      | Connecting p \<Rightarrow>
          (let s1 = s\<lparr>sc_connecting := None\<rparr> in
           if p \<ge> length (sc_openings s) then s
           else case sc_openings s ! p of
             Opening \<Rightarrow> s
           | Opened \<Rightarrow> send_request n sending s1
           | OpenFailed e \<Rightarrow> set_call n (Settled (Inl e)) s1)
      | _ \<Rightarrow> s)"

section \<open>The end\<close>

definition handleClose :: "socket_client \<Rightarrow> socket_client" where
  "handleClose s =
     (if sc_closed s then s
      else (fold (\<lambda>(i, n). set_call n (Settled (Inl connection_closed))) (sc_pending s) (s\<lparr>sc_closed := True\<rparr>))
        \<lparr>sc_pending := [], sc_closes := sc_closes s + 1\<rparr>)"

definition close_client :: "socket_client \<Rightarrow> socket_client" where
  "close_client s =
     (let s1 = handleClose s in if sc_transport s1 then s1\<lparr>sc_transport_closes := sc_transport_closes s1 + 1\<rparr> else s1)"

section \<open>What arrives\<close>

definition safeParseDaemonLine :: "(string \<Rightarrow> string + json) \<Rightarrow> string \<Rightarrow> json option" where
  "safeParseDaemonLine json_parse line =
     (case json_parse line of Inr (JObj kvs) \<Rightarrow> Some (JObj kvs) | _ \<Rightarrow> None)"

definition settle_request :: "string \<Rightarrow> client_error + json \<Rightarrow> socket_client \<Rightarrow> socket_client" where
  "settle_request i outcome s =
     (case map_of (sc_pending s) i of
        None \<Rightarrow> s
      | Some n \<Rightarrow> set_call n (Settled outcome) (s\<lparr>sc_pending := filter (\<lambda>(j, _). j \<noteq> i) (sc_pending s)\<rparr>))"

definition handleLine :: "(string \<Rightarrow> string + json) \<Rightarrow> string \<Rightarrow> socket_client \<Rightarrow> socket_client" where
  "handleLine json_parse line s =
     (case safeParseDaemonLine json_parse line of
        None \<Rightarrow> s
      | Some payload \<Rightarrow>
          if jget payload ''method'' = JStr ''thread/event''
          then s\<lparr>sc_events := sc_events s @ [jget payload ''params'']\<rparr>
          else settle_request (js_string (jget payload ''id''))
            (if isRecord (jget payload ''error'') then Inl (remoteError (jget payload ''error'')) else Inr (jget payload ''result'')) s)"

text \<open>\<open>consume\<close> of the line transport, over its buffer and the client, and the messages of a WebSocket.\<close>

definition consume_line :: "(string \<Rightarrow> string + json) \<Rightarrow> string \<Rightarrow> string \<times> socket_client \<Rightarrow> string \<times> socket_client" where
  "consume_line json_parse chunk c = (case c of (buffer, s) \<Rightarrow> drain_lines (\<lambda>_. False) (handleLine json_parse) (buffer @ chunk) s)"

definition consume_message :: "(string \<Rightarrow> string + json) \<Rightarrow> string \<Rightarrow> socket_client \<Rightarrow> socket_client" where
  "consume_message json_parse message s = fold (handleLine json_parse) (filter (\<lambda>l. l \<noteq> []) (split_on newline message)) s"

section \<open>Inputs\<close>

datatype client_input =
    Request string json
  | Resume nat "client_error + unit"
  | TransportOpened nat "client_error + unit"
  | Line string
  | TransportClosed
  | Close

fun client_step :: "(string \<Rightarrow> string + json) \<Rightarrow> client_input \<Rightarrow> socket_client \<Rightarrow> socket_client" where
  "client_step json_parse (Request meth args) s = request_begin meth args s"
| "client_step json_parse (Resume n sending) s = request_resume n sending s"
| "client_step json_parse (TransportOpened p outcome) s =
     (if p < length (sc_openings s) \<and> sc_openings s ! p = Opening then transport_opened p outcome s else s)"
| "client_step json_parse (Line l) s = (if sc_transport s then handleLine json_parse l s else s)"
| "client_step json_parse TransportClosed s = (if sc_transport s then handleClose s else s)"
| "client_step json_parse Close s = close_client s"

definition client_run :: "(string \<Rightarrow> string + json) \<Rightarrow> client_input list \<Rightarrow> socket_client \<Rightarrow> socket_client" where
  "client_run json_parse ins s = fold (client_step json_parse) ins s"

section \<open>The endpoint\<close>

text \<open>Which transport an endpoint selects, with what it connects to.\<close>

datatype endpoint_kind = UnixEndpoint string | WebSocketEndpoint string | UnsupportedEndpoint thrown

definition connectTransport :: "string \<Rightarrow> endpoint_kind" where
  "connectTransport endpoint =
     (if starts_with ''unix://'' endpoint then UnixEndpoint (drop (length ''unix://'') endpoint)
      else if starts_with ''ws://'' endpoint \<or> starts_with ''wss://'' endpoint then WebSocketEndpoint endpoint
      else UnsupportedEndpoint (DaemonError InvalidParams ''Unsupported endpoint'' (Some [(''endpoint'', JStr endpoint)])))"

end
