(* ===== verification/Json_Rpc_Connection.thy ===== *)
theory Json_Rpc_Connection
  imports Line_Framing Event_Bus
begin

text \<open>
  The JSON-RPC connection (\<open>src/transport/json-rpc-router.ts\<close>) that the Unix socket, the WebSocket
  and the standard streams share, as a state machine over its inputs: a chunk of text, the end of a
  call, an event that is emitted elsewhere in the daemon, the completion of a write, and the end of
  the stream. The bus is the service's own (\<open>Event_Bus\<close>); \<open>service.dispatch\<close> is asynchronous, so its
  outcome is an input. The connection's listener calls nothing of the bus and does not throw.
\<close>

section \<open>State\<close>

text \<open>A call is an execution of \<open>handleLine\<close> that awaits its result; the result may be known already.\<close>

record rpc_call =
  ca_id :: json
  ca_method :: string
  ca_outcome :: "json result option"

datatype conn_out = Reply nat json | Notice daemon_event

record router =
  rt_closed :: bool
  rt_destroyed :: bool
  rt_subscriptions :: "string list"
  rt_created :: "string list"
  rt_calls :: "rpc_call list"
  rt_running :: "nat list"
  rt_dispatched :: "(string \<times> json) list"
  rt_written :: "conn_out list"
  rt_callbacks :: nat
  rt_shutdowns :: nat
  rt_bus :: bus

text \<open>
  The buffer and the rest. \<open>rt_calls\<close>, \<open>rt_created\<close>, \<open>rt_dispatched\<close> and \<open>rt_written\<close> record what has
  happened; a call is known by its position in \<open>rt_calls\<close>, and \<open>rt_running\<close> are those not answered.
\<close>

type_synonym connection = "string \<times> router"

definition new_connection :: "bus \<Rightarrow> connection" where
  "new_connection b = ([], \<lparr>rt_closed = False, rt_destroyed = False, rt_subscriptions = [], rt_created = [], rt_calls = [],
     rt_running = [], rt_dispatched = [], rt_written = [], rt_callbacks = 0, rt_shutdowns = 0, rt_bus = b\<rparr>)"

section \<open>Writing\<close>

definition out_json :: "conn_out \<Rightarrow> json" where
  "out_json out = (case out of Reply _ v \<Rightarrow> v
     | Notice e \<Rightarrow> JObj [(''jsonrpc'', JStr ''2.0''), (''method'', JStr ''thread/event''), (''params'', event_json e)])"

definition out_text :: "conn_out \<Rightarrow> string" where
  "out_text out = encodeJsonLine (out_json out)"

text \<open>\<open>write\<close>; \<open>stops\<close> says that the callback shuts the daemon down.\<close>

definition write_out :: "conn_out \<Rightarrow> bool \<Rightarrow> router \<Rightarrow> router" where
  "write_out out stops s =
     (if rt_closed s \<or> rt_destroyed s then (if stops then s\<lparr>rt_shutdowns := rt_shutdowns s + 1\<rparr> else s)
      else s\<lparr>rt_written := rt_written s @ [out], rt_callbacks := rt_callbacks s + (if stops then 1 else 0)\<rparr>)"

definition write_event :: "daemon_event \<Rightarrow> router \<Rightarrow> router" where
  "write_event e = write_out (Notice e) False"

section \<open>Requests\<close>

definition quiet_listener :: listener where
  "quiet_listener = (\<lambda>_. ([], False))"

definition subscribe_methods :: "string list" where
  "subscribe_methods = [''subscribe/all'', ''subscribe/thread'', ''subscribe/workers'']"

definition worker_event_types :: json where
  "worker_event_types = JArr [JStr ''worker.started'', JStr ''worker.idle'', JStr ''worker.crashed'']"

definition subscription_filter :: "string \<Rightarrow> (string \<times> json) list \<Rightarrow> json" where
  "subscription_filter meth args =
     (if meth = ''subscribe/workers''
      then JObj (jset ''eventTypes'' (if nullish (jget (JObj args) ''eventTypes'') then worker_event_types
                                      else jget (JObj args) ''eventTypes'') args)
      else JObj args)"

text \<open>
  The call of \<open>service.subscribe\<close>: what the listener is called with at once, the events that are
  replayed, is written at once. The fuel covers the whole replay, so that the bus always returns.
\<close>

definition quiet_fuel :: "bus \<Rightarrow> nat" where
  "quiet_fuel b = length (bu_replay b) + 4"

definition open_subscription_of :: "json \<Rightarrow> router \<Rightarrow> string result \<times> router" where
  "open_subscription_of flt s =
     (case subscribe (quiet_fuel (rt_bus s)) flt quiet_listener (rt_bus s) of
        None \<Rightarrow> (Inl (JsError []), s)
      | Some (Inl e, b) \<Rightarrow> (Inl e, s\<lparr>rt_bus := b\<rparr>)
      | Some (Inr sid, b) \<Rightarrow>
          (let s1 = fold write_event (su_seen (bu_objects b sid)) (s\<lparr>rt_bus := b\<rparr>) in
           (Inr sid, s1\<lparr>rt_subscriptions := rt_subscriptions s1 @ [sid], rt_created := rt_created s1 @ [sid]\<rparr>)))"

definition drop_subscription :: "string \<Rightarrow> router \<Rightarrow> bool \<times> router" where
  "drop_subscription sid s =
     (if sid \<in> set (rt_subscriptions s)
      then case unsubscribe sid (rt_bus s) of
        (ok, b) \<Rightarrow> (ok, s\<lparr>rt_subscriptions := removeAll sid (rt_subscriptions s), rt_bus := b\<rparr>)
      else (False, s))"

text \<open>\<open>dispatch\<close>: what is known of its outcome when it is called.\<close>

definition dispatch_request :: "json \<Rightarrow> router \<Rightarrow> json result option \<times> router" where
  "dispatch_request rpc s =
     (let meth = js_string (jget rpc ''method'') in
      case normalizeParams (jget rpc ''params'') of
        Inl e \<Rightarrow> (Some (Inl e), s)
      | Inr args \<Rightarrow>
          if meth \<in> set subscribe_methods then
            (case open_subscription_of (subscription_filter meth (case args of JObj kvs \<Rightarrow> kvs | _ \<Rightarrow> [])) s of
               (Inl e, s1) \<Rightarrow> (Some (Inl e), s1)
             | (Inr sid, s1) \<Rightarrow> (Some (Inr (JObj [(''subscriptionId'', JStr sid)])), s1))
          else if starts_with ''unsubscribe/'' meth then
            (let sid = string_or (jget args ''subscriptionId'') [] in
             if sid = [] then (Some (Inl (DaemonError InvalidParams ''subscriptionId is required'' None)), s)
             else case drop_subscription sid s of (ok, s1) \<Rightarrow> (Some (Inr (JObj [(''ok'', JBool ok)])), s1))
          else (None, s\<lparr>rt_dispatched := rt_dispatched s @ [(meth, args)]\<rparr>))"

text \<open>\<open>handleLine\<close> up to its \<open>await\<close>; a text that is no request is answered at once.\<close>

definition handle_line :: "(string \<Rightarrow> string + json) \<Rightarrow> string \<Rightarrow> router \<Rightarrow> router" where
  "handle_line json_parse line s =
     (let n = length (rt_calls s) in
      case parseJsonRpcLine json_parse line of
        Inl e \<Rightarrow> write_out (Reply n (failure JUndefined e)) False
                  (s\<lparr>rt_calls := rt_calls s @ [\<lparr>ca_id = JUndefined, ca_method = [], ca_outcome = Some (Inl e)\<rparr>]\<rparr>)
      | Inr rpc \<Rightarrow>
          (case dispatch_request rpc s of
             (outcome, s1) \<Rightarrow>
               s1\<lparr>rt_calls := rt_calls s1 @ [\<lparr>ca_id = jget rpc ''id'', ca_method = js_string (jget rpc ''method''), ca_outcome = outcome\<rparr>],
                  rt_running := rt_running s1 @ [n]\<rparr>))"

text \<open>The rest of \<open>handleLine\<close>, once the result of the call \<open>n\<close> is there.\<close>

definition answer_line :: "nat \<Rightarrow> json result \<Rightarrow> router \<Rightarrow> router" where
  "answer_line n outcome s =
     (let c = rt_calls s ! n; s1 = s\<lparr>rt_running := removeAll n (rt_running s)\<rparr> in
      case outcome of
        Inr v \<Rightarrow> write_out (Reply n (success (ca_id c) v)) (ca_method c = ''server/shutdown'') s1
      | Inl e \<Rightarrow> write_out (Reply n (failure (ca_id c) e)) False s1)"

section \<open>Chunks and the end\<close>

text \<open>\<open>handleChunk\<close>.\<close>

definition handle_chunk :: "(string \<Rightarrow> string + json) \<Rightarrow> string \<Rightarrow> connection \<Rightarrow> connection" where
  "handle_chunk json_parse chunk c =
     (case c of (buffer, s) \<Rightarrow>
        if rt_closed s then c else drain_lines rt_closed (handle_line json_parse) (buffer @ chunk) s)"

text \<open>\<open>close\<close>.\<close>

definition close_connection :: "router \<Rightarrow> router" where
  "close_connection s =
     s\<lparr>rt_closed := True, rt_subscriptions := [],
       rt_bus := fold (\<lambda>sid b. snd (unsubscribe sid b)) (rt_subscriptions s) (rt_bus s)\<rparr>"

section \<open>Events of the daemon\<close>

text \<open>
  The bus is used elsewhere: it may call the listeners of the connection, for each event in the order
  of the subscribers, and each of these calls is a write.
\<close>

definition newly_seen :: "bus \<Rightarrow> bus \<Rightarrow> string \<Rightarrow> daemon_event list" where
  "newly_seen b b' sid = drop (length (su_seen (bu_objects b sid))) (su_seen (bu_objects b' sid))"

definition heard_events :: "bus \<Rightarrow> bus \<Rightarrow> string list \<Rightarrow> daemon_event list" where
  "heard_events b b' sids = sort_key event_seq (concat (map (newly_seen b b') sids))"

definition bus_moved :: "bus \<Rightarrow> router \<Rightarrow> router" where
  "bus_moved b' s =
     fold write_event (heard_events (rt_bus s) b' [sid \<leftarrow> bu_subscribers (rt_bus s). sid \<in> set (rt_created s)]) (s\<lparr>rt_bus := b'\<rparr>)"

section \<open>Inputs\<close>

text \<open>\<open>fuel\<close> is that of the calls that others make to the bus; a call that does not return changes nothing here.\<close>

datatype conn_input =
    Chunk string
  | Resumed nat                  \<comment> \<open>a call whose outcome was known goes on\<close>
  | Dispatched nat "json result" \<comment> \<open>\<open>service.dispatch\<close> settles\<close>
  | EmittedElsewhere draft
  | SubscribedElsewhere json listener
  | Flushed                      \<comment> \<open>the callback of a write that shuts the daemon down\<close>
  | StreamDestroyed
  | StreamEnded                  \<comment> \<open>\<open>close\<close>, \<open>end\<close> or \<open>error\<close>\<close>

definition on_router :: "(router \<Rightarrow> router) \<Rightarrow> connection \<Rightarrow> connection" where
  "on_router f c = (fst c, f (snd c))"

fun conn_step :: "(string \<Rightarrow> string + json) \<Rightarrow> nat \<Rightarrow> conn_input \<Rightarrow> connection \<Rightarrow> connection" where
  "conn_step json_parse fuel (Chunk t) c = handle_chunk json_parse t c"
| "conn_step json_parse fuel (Resumed n) c = on_router (\<lambda>s.
     if n \<in> set (rt_running s) then (case ca_outcome (rt_calls s ! n) of Some r \<Rightarrow> answer_line n r s | None \<Rightarrow> s) else s) c"
| "conn_step json_parse fuel (Dispatched n r) c = on_router (\<lambda>s.
     if n \<in> set (rt_running s) \<and> ca_outcome (rt_calls s ! n) = None then answer_line n r s else s) c"
| "conn_step json_parse fuel (EmittedElsewhere d) c = on_router (\<lambda>s.
     case emit fuel d (rt_bus s) of None \<Rightarrow> s | Some (_, b) \<Rightarrow> bus_moved b s) c"
| "conn_step json_parse fuel (SubscribedElsewhere flt l) c = on_router (\<lambda>s.
     case subscribe fuel flt l (rt_bus s) of None \<Rightarrow> s | Some (_, b) \<Rightarrow> bus_moved b s) c"
| "conn_step json_parse fuel Flushed c = on_router (\<lambda>s.
     if 0 < rt_callbacks s then s\<lparr>rt_callbacks := rt_callbacks s - 1, rt_shutdowns := rt_shutdowns s + 1\<rparr> else s) c"
| "conn_step json_parse fuel StreamDestroyed c = on_router (\<lambda>s. s\<lparr>rt_destroyed := True\<rparr>) c"
| "conn_step json_parse fuel StreamEnded c = on_router close_connection c"

definition conn_run :: "(string \<Rightarrow> string + json) \<Rightarrow> nat \<Rightarrow> conn_input list \<Rightarrow> connection \<Rightarrow> connection" where
  "conn_run json_parse fuel ins c = fold (conn_step json_parse fuel) ins c"

section \<open>The transports\<close>

text \<open>\<open>WebSocketDuplex\<close>: a message is a chunk that ends with a line feed.\<close>

definition complete_message :: "string \<Rightarrow> string" where
  "complete_message message = (if message \<noteq> [] \<and> last message = newline then message else message @ [newline])"

end
