(* ===== verification/Json_Rpc_Props.thy ===== *)
theory Json_Rpc_Props
  imports Json_Rpc_Connection Event_Bus_Props Wire "HOL-Library.Multiset"
begin

text \<open>
  The JSON-RPC connection: every line is answered once and with its own id, the subscriptions that are
  alive are those it holds and none outlives it, and it writes what its subscriptions are called with.
\<close>

section \<open>The bus\<close>

text \<open>A subscription with a listener that only looks on is given its queue at once.\<close>

definition taken :: "string \<Rightarrow> bus \<Rightarrow> bus" where
  "taken sid = sub_update sid (\<lambda>u. u\<lparr>su_queue := [], su_seen := su_seen u @ su_queue u\<rparr>)"

lemma quiet_loop:
  assumes "su_listener (bu_objects b sid) = quiet_listener" "sid \<in> set (bu_subscribers b)"
    and "length (su_queue (bu_objects b sid)) + 2 \<le> k"
  shows "exec k (TLoop sid) b = Some (Inr [], taken sid b)"
  using assms
proof (induction "su_queue (bu_objects b sid)" arbitrary: b k)
  case Nil
  then have "(bu_objects b sid)\<lparr>su_queue := [], su_seen := su_seen (bu_objects b sid) @ su_queue (bu_objects b sid)\<rparr> = bu_objects b sid"
    by (cases "bu_objects b sid") simp
  then have "taken sid b = b" by (simp add: taken_def sub_update_def fun_upd_idem)
  moreover obtain k' where "k = Suc k'" using Nil.prems(3) by (cases k) auto
  ultimately show ?case using Nil by (simp add: loop_with_def void_def)
next
  case (Cons e q)
  let ?d = "dequeue sid b"
  obtain k' where k: "k = Suc (Suc k')" using Cons.prems(3) by (metis add_2_eq_Suc' le_Suc_ex plus_nat.simps(2) add.commute)
  have q: "su_queue (bu_objects b sid) = e # q" using Cons.hyps(2) by simp
  have "exec (Suc k') (TLoop sid) ?d = Some (Inr [], taken sid ?d)"
    by (rule Cons.hyps(1)) (use Cons.prems q k in \<open>simp_all add: dequeue_def\<close>)
  moreover have "taken sid ?d = taken sid b" by (simp add: taken_def dequeue_def sub_update_def q)
  moreover have "su_listener (bu_objects ?d sid) es = ([], False)" for es
    using Cons.prems(1) by (simp add: dequeue_def quiet_listener_def)
  moreover have "exec (Suc k') (TCalls [] False) ?d = Some (Inr [], ?d)" by (simp add: calls_with_def)
  ultimately show ?case using Cons.prems(2) q unfolding k by (simp add: loop_with_def Let_def del: exec.simps(2) add: exec.simps(2) [of "Suc k'"])
qed

lemma register_queue:
  "register flt l b = Inr (sid, b1) \<Longrightarrow> sid \<in> set (bu_subscribers b1) \<and> su_listener (bu_objects b1 sid) = l \<and>
     \<not> su_delivering (bu_objects b1 sid) \<and> su_seen (bu_objects b1 sid) = [] \<and>
     length (su_queue (bu_objects b1 sid)) \<le> length (bu_replay b) \<and> sid = ''sub_'' @ dec (bu_fresh b) \<and>
     bu_subscribers b1 = bu_subscribers b @ [sid] \<and> bu_fresh b1 = bu_fresh b + 1 \<and>
     (\<forall>i. i \<noteq> sid \<longrightarrow> bu_objects b1 i = bu_objects b i)"
  by (auto simp: register_def eventsSince_def Let_def split: sum.splits if_splits)

lemma quiet_fuel_Suc: "quiet_fuel b = Suc (Suc (Suc (Suc (length (bu_replay b)))))"
  by (simp add: quiet_fuel_def)

lemma subscribe_quiet:
  "subscribe (quiet_fuel b) flt quiet_listener b =
     (case register flt quiet_listener b of
        Inl e \<Rightarrow> Some (Inl e, b)
      | Inr (sid, b1) \<Rightarrow> Some (Inr sid, set_delivering sid False (taken sid (set_delivering sid True b1))))"
proof (cases "register flt quiet_listener b")
  case (Inl e)
  then show ?thesis by (simp add: subscribe_def quiet_fuel_Suc subscribe_with_def)
next
  case (Inr x)
  obtain sid b1 where r: "register flt quiet_listener b = Inr (sid, b1)" using Inr by (cases x) auto
  have q: "sid \<in> set (bu_subscribers b1)" "su_listener (bu_objects b1 sid) = quiet_listener" "\<not> su_delivering (bu_objects b1 sid)"
      "length (su_queue (bu_objects b1 sid)) \<le> length (bu_replay b)"
    using register_queue [OF r] by blast+
  have "exec (Suc (Suc (length (bu_replay b)))) (TLoop sid) (set_delivering sid True b1) =
      Some (Inr [], taken sid (set_delivering sid True b1))"
    by (rule quiet_loop) (use q in \<open>simp_all add: set_delivering_def\<close>)
  then have "exec (Suc (Suc (Suc (length (bu_replay b))))) (TDeliver sid) b1 =
      Some (Inr [], set_delivering sid False (taken sid (set_delivering sid True b1)))"
    using q by (simp add: deliver_with_def after_def void_def del: exec.simps(2) add: exec.simps(2) [of "Suc (Suc (length (bu_replay b)))"])
  then show ?thesis
    by (simp add: subscribe_def quiet_fuel_Suc subscribe_with_def r after_def del: exec.simps(2)
        add: exec.simps(2) [of "Suc (Suc (Suc (length (bu_replay b))))"])
qed

text \<open>No task takes back what a subscription has been called with.\<close>

definition hears_more :: "bus \<Rightarrow> bus \<Rightarrow> bool" where
  "hears_more b b' \<longleftrightarrow> bu_fresh b \<le> bu_fresh b' \<and>
     (\<forall>sid. known b sid \<longrightarrow> prefix (su_seen (bu_objects b sid)) (su_seen (bu_objects b' sid)))"

lemma hears_more_refl [simp]: "hears_more b b"
  by (simp add: hears_more_def)

lemma hears_more_trans: "hears_more a b \<Longrightarrow> hears_more b c \<Longrightarrow> hears_more a c"
  unfolding hears_more_def using known_mono [of a b] by (meson order_trans prefix_order.trans)

lemma hears_more_update:
  "\<forall>u. prefix (su_seen u) (su_seen (f u)) \<Longrightarrow> hears_more b (sub_update sid f b)"
  by (simp add: hears_more_def sub_update_def)

lemma hears_more_simps [simp]:
  "hears_more b (publish d b)" "hears_more b (b\<lparr>bu_delivering := x\<rparr>)" "hears_more b (b\<lparr>bu_pending := p\<rparr>)"
  "hears_more b (enqueue sid e b)" "hears_more b (set_delivering sid x b)" "hears_more b (dequeue sid b)"
  "hears_more b (snd (unsubscribe sid b))" "hears_more b (detach sid b)"
  by (simp_all add: hears_more_def publish_def enqueue_def set_delivering_def dequeue_def detach_def unsubscribe_def sub_update_def Let_def)

lemma hears_more_register: "register flt l b = Inr (sid, b1) \<Longrightarrow> hears_more b b1"
proof -
  assume "register flt l b = Inr (sid, b1)"
  note q = register_queue [OF this]
  have "\<not> known b sid" using q by (auto simp: known_def)
  then have "i \<noteq> sid" if "known b i" for i using that by blast
  then show ?thesis using q unfolding hears_more_def by (metis le_add1 prefix_order.refl)
qed

lemma after_hears: "after r f = Some (x, b') \<Longrightarrow> (\<And>y b1. r = Some (y, b1) \<Longrightarrow> hears_more b b1) \<Longrightarrow>
    (\<And>y b1. r = Some (y, b1) \<Longrightarrow> f b1 = Some (x, b') \<Longrightarrow> hears_more b1 b') \<Longrightarrow> hears_more b b'"
  using hears_more_trans by (fastforce dest: after_Some)

lemma hears_more_flag: "hears_more b b1 \<Longrightarrow> hears_more b (b1\<lparr>bu_delivering := x\<rparr>)"
  by (simp add: hears_more_def)

lemma hears_more_started: "hears_more b ((publish d b)\<lparr>bu_delivering := True\<rparr>)"
  by (rule hears_more_flag) simp

lemma exec_hears: "exec k t b = Some (r, b') \<Longrightarrow> hears_more b b'"
proof (induction k arbitrary: t b r b')
  case (Suc k)
  note IH = Suc.IH
  have via: "hears_more b b1 \<Longrightarrow> exec k u b1 = Some (x, b2) \<Longrightarrow> hears_more b b2" for u b b1 b2 x
    using IH hears_more_trans by blast
  show ?case
  proof (cases t)
    case (TEmit d)
    then show ?thesis
      using Suc.prems by (auto simp: emit_with_def Let_def void_def split: if_splits dest!: after_Some
          intro: hears_more_flag via [OF hears_more_started])
  next
    case TDrain
    then show ?thesis
      using Suc.prems by (auto simp: drain_with_def void_def split: list.splits dest!: after_Some
          intro: via [OF via [OF hears_more_simps(3)]])
  next
    case (TFan ids n e)
    then show ?thesis
      using Suc.prems IH by (auto simp: fan_with_def void_def split: list.splits if_splits dest!: after_Some
          intro: via [OF via [OF hears_more_simps(4)]])
  next
    case (TDeliver sid)
    then show ?thesis
      using Suc.prems by (auto simp: deliver_with_def void_def split: if_splits dest!: after_Some
          intro: hears_more_trans [OF via [OF hears_more_simps(5)] hears_more_simps(5)])
  next
    case (TLoop sid)
    then show ?thesis
      using Suc.prems by (auto simp: loop_with_def void_def Let_def split: if_splits option.splits sum.splits prod.splits
          intro: hears_more_trans [OF via [OF hears_more_simps(6)] hears_more_simps(8)] via [OF via [OF hears_more_simps(6)]])
  next
    case (TCalls cs v)
    then show ?thesis
      using Suc.prems by (auto simp: calls_with_def split: list.splits bus_call.splits option.splits sum.splits dest!: after_Some
          intro: IH via [OF IH] via [OF hears_more_simps(7)])
  next
    case (TSubscribe flt l)
    then show ?thesis
      using Suc.prems by (auto simp: subscribe_with_def split: sum.splits dest!: after_Some intro: via hears_more_register)
  qed
qed simp

section \<open>What is written\<close>

fun replies_of :: "conn_out list \<Rightarrow> (nat \<times> json) list" where
  "replies_of [] = []"
| "replies_of (Reply n v # outs) = (n, v) # replies_of outs"
| "replies_of (Notice e # outs) = replies_of outs"

fun notices_of :: "conn_out list \<Rightarrow> daemon_event list" where
  "notices_of [] = []"
| "notices_of (Reply n v # outs) = notices_of outs"
| "notices_of (Notice e # outs) = e # notices_of outs"

lemma outs_append [simp]:
  "replies_of (a @ b) = replies_of a @ replies_of b" "notices_of (a @ b) = notices_of a @ notices_of b"
proof -
  show "replies_of (a @ b) = replies_of a @ replies_of b" by (induction a rule: replies_of.induct) simp_all
  show "notices_of (a @ b) = notices_of a @ notices_of b" by (induction a rule: notices_of.induct) simp_all
qed

definition writing :: "router \<Rightarrow> bool" where
  "writing s \<longleftrightarrow> \<not> rt_closed s \<and> \<not> rt_destroyed s"

lemma write_out_simps [simp]:
  "rt_closed (write_out out x s) = rt_closed s" "rt_destroyed (write_out out x s) = rt_destroyed s"
  "rt_subscriptions (write_out out x s) = rt_subscriptions s" "rt_created (write_out out x s) = rt_created s"
  "rt_calls (write_out out x s) = rt_calls s" "rt_running (write_out out x s) = rt_running s"
  "rt_bus (write_out out x s) = rt_bus s" "rt_dispatched (write_out out x s) = rt_dispatched s"
  "rt_written (write_out out x s) = (if writing s then rt_written s @ [out] else rt_written s)"
  "writing (write_out out x s) = writing s"
  by (auto simp: write_out_def writing_def)

lemma write_events_simps [simp]:
  "rt_closed (fold write_event es s) = rt_closed s" "rt_destroyed (fold write_event es s) = rt_destroyed s"
  "rt_subscriptions (fold write_event es s) = rt_subscriptions s" "rt_created (fold write_event es s) = rt_created s"
  "rt_calls (fold write_event es s) = rt_calls s" "rt_running (fold write_event es s) = rt_running s"
  "rt_bus (fold write_event es s) = rt_bus s" "rt_dispatched (fold write_event es s) = rt_dispatched s"
  "rt_written (fold write_event es s) = rt_written s @ (if writing s then map Notice es else [])"
  "writing (fold write_event es s) = writing s" "rt_shutdowns (fold write_event es s) = rt_shutdowns s"
  "rt_callbacks (fold write_event es s) = rt_callbacks s"
  by (induction es arbitrary: s) (auto simp: write_event_def write_out_def writing_def)

lemma notices_only [simp]: "notices_of (map Notice es) = es" "replies_of (map Notice es) = []"
  by (induction es) simp_all

section \<open>Calls\<close>

text \<open>
  The calls, those that run and the replies: every call has at most one reply, with its own id, and none
  while it runs; on an open stream every call runs or has its reply.
\<close>

definition answered :: "rpc_call list \<Rightarrow> nat list \<Rightarrow> (nat \<times> json) list \<Rightarrow> bool \<Rightarrow> bool" where
  "answered calls running replies open_stream \<longleftrightarrow>
     distinct (running @ map fst replies) \<and> (\<forall>n \<in> set running. n < length calls) \<and>
     (\<forall>(n, v) \<in> set replies. n < length calls \<and> jget v ''id'' = request_id (ca_id (calls ! n))) \<and>
     (open_stream \<longrightarrow> (\<forall>n < length calls. n \<in> set running \<or> n \<in> fst ` set replies))"

lemma answered_start: "answered calls running replies x \<Longrightarrow> answered (calls @ [c]) (running @ [length calls]) replies x"
  unfolding answered_def by (force simp: nth_append less_Suc_eq)

lemma answered_refused:
  "answered calls running replies x \<Longrightarrow> jget v ''id'' = request_id (ca_id c) \<Longrightarrow>
     answered (calls @ [c]) running (if x then replies @ [(length calls, v)] else replies) x"
  unfolding answered_def by (cases x) (force simp: nth_append less_Suc_eq)+

lemma answered_reply:
  "answered calls running replies x \<Longrightarrow> n \<in> set running \<Longrightarrow> jget v ''id'' = request_id (ca_id (calls ! n)) \<Longrightarrow>
     answered calls (removeAll n running) (if x then replies @ [(n, v)] else replies) x"
  unfolding answered_def by (cases x) (auto simp: distinct_removeAll split: prod.splits)

lemma answered_weaken: "answered calls running replies x \<Longrightarrow> (y \<longrightarrow> x) \<Longrightarrow> answered calls running replies y"
  by (auto simp: answered_def)

definition calls_answered :: "router \<Rightarrow> bool" where
  "calls_answered s \<longleftrightarrow> answered (rt_calls s) (rt_running s) (replies_of (rt_written s)) (writing s)"

text \<open>What a step leaves alone that has nothing to do with calls.\<close>

definition same_calls :: "router \<Rightarrow> router \<Rightarrow> bool" where
  "same_calls s s' \<longleftrightarrow> rt_calls s' = rt_calls s \<and> rt_running s' = rt_running s \<and>
     replies_of (rt_written s') = replies_of (rt_written s) \<and> (writing s' \<longrightarrow> writing s)"

lemma calls_answered_same: "calls_answered s \<Longrightarrow> same_calls s s' \<Longrightarrow> calls_answered s'"
  unfolding calls_answered_def same_calls_def by (metis answered_weaken)

lemma same_calls_open: "open_subscription_of flt s = (r, s1) \<Longrightarrow> same_calls s s1"
  by (auto simp: open_subscription_of_def same_calls_def writing_def split: option.splits sum.splits if_splits)

lemma same_calls_drop: "drop_subscription sid s = (r, s1) \<Longrightarrow> same_calls s s1"
  by (auto simp: drop_subscription_def same_calls_def writing_def split: prod.splits if_splits)

lemma same_calls_dispatch: "dispatch_request rpc s = (r, s1) \<Longrightarrow> same_calls s s1"
  unfolding dispatch_request_def Let_def
  by (auto simp: same_calls_open same_calls_drop split: sum.splits if_splits prod.splits)
    (auto simp: same_calls_def writing_def)

lemma same_calls_moved: "same_calls s (bus_moved b s)"
  by (auto simp: same_calls_def bus_moved_def writing_def)

lemma answer_ids:
  "jget (failure i e) ''id'' = request_id i" "jget (success i v) ''id'' = request_id i"
  by (simp_all add: failure_def success_def)

lemma writing_more [simp]:
  "writing (s\<lparr>rt_calls := cs\<rparr>) = writing s" "writing (s\<lparr>rt_running := ns\<rparr>) = writing s"
  "writing (s\<lparr>rt_dispatched := ds\<rparr>) = writing s" "writing (s\<lparr>rt_bus := b\<rparr>) = writing s"
  "writing (s\<lparr>rt_subscriptions := ss\<rparr>) = writing s" "writing (s\<lparr>rt_created := ss\<rparr>) = writing s"
  by (simp_all add: writing_def)

lemma calls_answered_line:
  assumes "calls_answered s"
  shows "calls_answered (handle_line json_parse line s)"
proof (cases "parseJsonRpcLine json_parse line")
  case (Inl e)
  let ?c = "\<lparr>ca_id = JUndefined, ca_method = [], ca_outcome = Some (Inl e)\<rparr>"
  from assms answered_refused [of "rt_calls s" "rt_running s" "replies_of (rt_written s)" "writing s" "failure JUndefined e" ?c]
  show ?thesis by (simp add: handle_line_def Inl calls_answered_def answer_ids if_distrib cong: if_cong)
next
  case (Inr rpc)
  obtain outcome s1 where d: "dispatch_request rpc s = (outcome, s1)" by fastforce
  note same = same_calls_dispatch [OF d]
  from calls_answered_same [OF assms same] same show ?thesis
    by (simp add: handle_line_def Inr d calls_answered_def same_calls_def answered_start)
qed

lemma calls_answered_answer:
  assumes "calls_answered s" "n \<in> set (rt_running s)"
  shows "calls_answered (answer_line n r s)"
proof -
  have "answered (rt_calls s) (removeAll n (rt_running s)) (if writing s then replies_of (rt_written s) @ [(n, v)] else replies_of (rt_written s)) (writing s)"
    if "jget v ''id'' = request_id (ca_id (rt_calls s ! n))" for v
    by (rule answered_reply) (use assms that in \<open>simp_all add: calls_answered_def\<close>)
  then show ?thesis
    by (cases r) (simp_all add: answer_line_def calls_answered_def answer_ids if_distrib Let_def cong: if_cong)
qed

section \<open>Subscriptions\<close>

text \<open>
  The subscriptions of the connection: those of its own that are alive in the bus are those it holds,
  a closed connection holds none, and each of them has the connection's own listener.
\<close>

definition subs_held :: "router \<Rightarrow> bool" where
  "subs_held s \<longleftrightarrow>
     bus_reach (rt_bus s) \<and> distinct (rt_subscriptions s) \<and> distinct (rt_created s) \<and>
     set (rt_subscriptions s) \<subseteq> set (rt_created s) \<and> (\<forall>sid \<in> set (rt_created s). known (rt_bus s) sid) \<and>
     set (rt_created s) \<inter> set (bu_subscribers (rt_bus s)) \<subseteq> set (rt_subscriptions s) \<and>
     (rt_closed s \<longrightarrow> rt_subscriptions s = [])"

text \<open>While it writes, the connection has written what its subscriptions were called with, each in order.\<close>

definition events_written :: "router \<Rightarrow> bool" where
  "events_written s \<longleftrightarrow>
     (writing s \<longrightarrow>
        mset (notices_of (rt_written s)) = sum_list (map (\<lambda>sid. mset (su_seen (bu_objects (rt_bus s) sid))) (rt_created s)) \<and>
        (\<forall>sid \<in> set (rt_created s). subseq (su_seen (bu_objects (rt_bus s) sid)) (notices_of (rt_written s))))"

lemma bus_grows:
  assumes "bus_reach b" "(\<exists>d. t = TEmit d) \<or> (\<exists>f l. t = TSubscribe f l)" "exec k t b = Some (r, b')"
  shows "grows b b'" "hears_more b b'" "bus_reach b'"
proof -
  show "grows b b'" by (rule at_rest_task(2) [OF bus_reach_at_rest [OF assms(1)] assms(3, 2)])
  show "hears_more b b'" by (rule exec_hears [OF assms(3)])
  show "bus_reach b'"
    using assms(2, 3) bus_reach.emitted [OF assms(1)] bus_reach.subscribed [OF assms(1)]
    by (auto simp: emit_def subscribe_def)
qed

lemma heard_mset:
  assumes "distinct sids" "hears_more b b'" "\<forall>sid \<in> set sids. known b sid"
    and "\<forall>sid \<in> set sids. \<not> P sid \<longrightarrow> su_seen (bu_objects b' sid) = su_seen (bu_objects b sid)"
  shows "sum_list (map (\<lambda>sid. mset (su_seen (bu_objects b' sid))) sids) =
     sum_list (map (\<lambda>sid. mset (su_seen (bu_objects b sid))) sids) + mset (concat (map (newly_seen b b') (filter P sids)))"
  using assms
proof (induction sids)
  case (Cons sid sids)
  have "prefix (su_seen (bu_objects b sid)) (su_seen (bu_objects b' sid))"
    using Cons.prems(2, 3) by (simp add: hears_more_def)
  then have "su_seen (bu_objects b' sid) = su_seen (bu_objects b sid) @ newly_seen b b' sid"
    by (auto simp: newly_seen_def prefix_def)
  with Cons show ?case by (cases "P sid") (auto simp: ac_simps)
qed simp

lemma subseq_insort_key: "subseq xs (insort_key f z xs)"
  by (induction xs) auto

lemma subseq_insort_first:
  "subseq xs S \<Longrightarrow> \<forall>x \<in> set xs. f z \<le> f x \<Longrightarrow> sorted (map f S) \<Longrightarrow> subseq (z # xs) (insort_key f z S)"
proof (induction S)
  case (Cons y S)
  show ?case
  proof (cases "f z \<le> f y")
    case False
    then have "xs = [] \<or> hd xs \<noteq> y" using Cons.prems(2) by (cases xs) auto
    then have "subseq xs S" using Cons.prems(1) by (cases xs) (auto elim: list_emb.cases)
    then have "subseq (z # xs) (insort_key f z S)" using Cons by simp
    then have "subseq (z # xs) (y # insort_key f z S)" by (rule list_emb_Cons)
    with False show ?thesis by simp
  qed (use Cons.prems in simp)
qed simp

lemma subseq_sort_key: "subseq xs zs \<Longrightarrow> sorted (map f xs) \<Longrightarrow> subseq xs (sort_key f zs)"
proof (induction xs zs rule: list_emb.induct)
  case (list_emb_Cons xs ys y)
  then show ?case using subseq_insort_key [of "sort_key f ys" f y] by (metis sort_key_simps(2) subseq_order.trans)
next
  case (list_emb_Cons2 x y xs ys)
  then show ?case using subseq_insort_first [of xs "sort_key f ys" f x] by auto
qed simp

lemma subseq_concat: "x \<in> set xs \<Longrightarrow> subseq (f x) (concat (map f xs))"
  by (induction xs) (auto intro: subseq_order.trans list_emb_append2 list_emb_prefix)

lemma mset_concat_map: "mset xs = mset ys \<Longrightarrow> mset (concat (map f xs)) = mset (concat (map f ys))"
  by (simp add: mset_concat sum_mset_sum_list [symmetric] multiset.map_comp)

lemma newly_sorted: "bus_reach b' \<Longrightarrow> sorted (map event_seq (newly_seen b b' sid))"
proof -
  assume "bus_reach b'"
  from bus_invD(5) [OF bus_reach_inv [OF this], of sid]
  have "sorted_wrt (<) (map event_seq (su_seen (bu_objects b' sid)))"
    by (auto simp: sub_ok_def log_of_def sorted_wrt_append)
  then have "sorted (map event_seq (su_seen (bu_objects b' sid)))" by (rule strict_sorted_imp_sorted)
  then show ?thesis unfolding newly_seen_def drop_map [symmetric] by (rule sorted_wrt_drop)
qed

lemma bus_moved_keeps:
  assumes "subs_held s" "events_written s" "grows (rt_bus s) b'" "hears_more (rt_bus s) b'" "bus_reach b'"
  shows "subs_held (bus_moved b' s)" "events_written (bus_moved b' s)"
proof -
  let ?b = "rt_bus s" and ?own = "[sid \<leftarrow> bu_subscribers (rt_bus s). sid \<in> set (rt_created s)]"
  have known: "\<forall>sid \<in> set (rt_created s). known ?b sid" and created: "distinct (rt_created s)"
    using assms(1) by (simp_all add: subs_held_def)
  then have known': "\<forall>sid \<in> set (rt_created s). known b' sid" using grows_known [OF assms(3)] by blast
  have "set (rt_created s) \<inter> set (bu_subscribers b') \<subseteq> set (rt_created s) \<inter> set (bu_subscribers ?b)"
    using known assms(3) by (auto simp: grows_def)
  then show "subs_held (bus_moved b' s)"
    using assms(1, 5) known' by (auto simp: subs_held_def bus_moved_def)
  have silent: "su_seen (bu_objects b' sid) = su_seen (bu_objects ?b sid)" if "sid \<in> set (rt_created s)" "sid \<notin> set (bu_subscribers ?b)" for sid
    using that known assms(3) by (auto simp: grows_def)
  have "distinct (bu_subscribers ?b)" using assms(1) bus_reach_inv [of ?b] by (auto simp: subs_held_def bus_inv_def)
  with created have "mset [sid \<leftarrow> rt_created s. sid \<in> set (bu_subscribers ?b)] = mset ?own"
    by (subst set_eq_iff_mset_eq_distinct [symmetric]) auto
  then have heard: "sum_list (map (\<lambda>sid. mset (su_seen (bu_objects b' sid))) (rt_created s)) =
      sum_list (map (\<lambda>sid. mset (su_seen (bu_objects ?b sid))) (rt_created s)) + mset (heard_events ?b b' ?own)"
    using heard_mset [OF created assms(4) known, of "\<lambda>sid. sid \<in> set (bu_subscribers ?b)"] silent
    by (simp add: heard_events_def mset_concat_map [where f = "newly_seen ?b b'"])
  have order: "subseq (newly_seen ?b b' sid) (heard_events ?b b' ?own)" if "sid \<in> set (rt_created s)" for sid
  proof (cases "sid \<in> set (bu_subscribers ?b)")
    case True
    then have "sid \<in> set ?own" using that by simp
    from subseq_sort_key [OF subseq_concat [OF this, of "newly_seen ?b b'"] newly_sorted [OF assms(5)]]
    show ?thesis by (simp add: heard_events_def)
  next
    case False
    then show ?thesis using silent that by (simp add: newly_seen_def)
  qed
  have "su_seen (bu_objects b' sid) = su_seen (bu_objects ?b sid) @ newly_seen ?b b' sid" if "sid \<in> set (rt_created s)" for sid
    using that known assms(4) by (auto simp: hears_more_def newly_seen_def prefix_def)
  with heard order assms(2) show "events_written (bus_moved b' s)"
    by (auto simp: events_written_def bus_moved_def intro!: list_emb_append_mono)
qed

text \<open>A subscription of the connection itself.\<close>

lemma quiet_subscription:
  assumes "subscribe (quiet_fuel b) flt quiet_listener b = Some (Inr sid, b')" "bus_reach b"
  shows "\<not> known b sid" "known b' sid" "bus_reach b'" "\<forall>i. i \<noteq> sid \<longrightarrow> su_seen (bu_objects b' i) = su_seen (bu_objects b i)"
    "set (bu_subscribers b') \<subseteq> insert sid (set (bu_subscribers b))" "\<forall>i. known b i \<longrightarrow> known b' i"
proof -
  obtain b1 where r: "register flt quiet_listener b = Inr (sid, b1)"
      and b': "b' = set_delivering sid False (taken sid (set_delivering sid True b1))"
    using assms(1) by (auto simp: subscribe_quiet split: sum.splits)
  have q: "sid = ''sub_'' @ dec (bu_fresh b)" "bu_subscribers b1 = bu_subscribers b @ [sid]" "bu_fresh b1 = bu_fresh b + 1"
      "\<forall>i. i \<noteq> sid \<longrightarrow> bu_objects b1 i = bu_objects b i"
    using register_queue [OF r] by blast+
  have simps: "bu_fresh b' = bu_fresh b1" "bu_subscribers b' = bu_subscribers b1" "\<forall>i. i \<noteq> sid \<longrightarrow> bu_objects b' i = bu_objects b1 i"
    by (simp_all add: b' taken_def set_delivering_def)
  show "\<not> known b sid" "known b' sid" "\<forall>i. known b i \<longrightarrow> known b' i" using q(1, 3) simps(1) by (auto simp: known_def)
  show "bus_reach b'" by (rule bus_reach.subscribed [OF assms(2, 1)])
  show "\<forall>i. i \<noteq> sid \<longrightarrow> su_seen (bu_objects b' i) = su_seen (bu_objects b i)" using q(4) simps(3) by auto
  show "set (bu_subscribers b') \<subseteq> insert sid (set (bu_subscribers b))" using q(2) simps(2) by auto
qed

lemma quiet_refused: "subscribe (quiet_fuel b) flt quiet_listener b = Some (Inl e, b') \<Longrightarrow> b' = b"
  by (auto simp: subscribe_quiet split: sum.splits prod.splits)

lemma open_keeps:
  assumes "subs_held s" "events_written s" "\<not> rt_closed s" "open_subscription_of flt s = (r, s1)"
  shows "subs_held s1 \<and> events_written s1"
proof (cases "subscribe (quiet_fuel (rt_bus s)) flt quiet_listener (rt_bus s)")
  case None
  with assms show ?thesis by (simp add: open_subscription_of_def)
next
  case (Some x)
  obtain y b where x: "x = (y, b)" by fastforce
  show ?thesis
  proof (cases y)
    case (Inl e)
    then have "b = rt_bus s" using Some x quiet_refused by simp
    with assms show ?thesis by (auto simp: open_subscription_of_def Some x Inl)
  next
    case (Inr sid)
    have held: "bus_reach (rt_bus s)" "\<forall>i \<in> set (rt_created s). known (rt_bus s) i" using assms(1) by (simp_all add: subs_held_def)
    note q = quiet_subscription [OF Some [unfolded x Inr] held(1)]
    have other: "sid \<notin> set (rt_created s)" using held(2) q(1) by blast
    then have "\<forall>i \<in> set (rt_created s). su_seen (bu_objects b i) = su_seen (bu_objects (rt_bus s) i)" using q(4) by metis
    then have seen: "\<forall>i \<in> set (rt_created s). su_seen (bu_objects b i) = su_seen (bu_objects (rt_bus s) i)"
        "sum_list (map (\<lambda>i. mset (su_seen (bu_objects b i))) (rt_created s)) =
         sum_list (map (\<lambda>i. mset (su_seen (bu_objects (rt_bus s) i))) (rt_created s))"
      by (auto intro!: arg_cong [where f = sum_list])
    have s1: "s1 = (let s2 = fold write_event (su_seen (bu_objects b sid)) (s\<lparr>rt_bus := b\<rparr>) in
        s2\<lparr>rt_subscriptions := rt_subscriptions s2 @ [sid], rt_created := rt_created s2 @ [sid]\<rparr>)"
      using assms(4) by (simp add: open_subscription_of_def Some x Inr Let_def)
    have "subs_held s1"
      using assms(1, 3) q other held unfolding s1 by (auto simp: subs_held_def Let_def)
    moreover have "events_written s1"
      using assms(2, 3) seen unfolding s1
      by (auto simp: events_written_def Let_def writing_def intro: list_emb_append2 subseq_order.trans)
    ultimately show ?thesis by blast
  qed
qed

lemma unsubscribe_facts:
  assumes "bus_reach b"
  shows "bus_reach (snd (unsubscribe sid b))" "bu_objects (snd (unsubscribe sid b)) = bu_objects b"
    "bu_subscribers (snd (unsubscribe sid b)) = removeAll sid (bu_subscribers b)" "known (snd (unsubscribe sid b)) i = known b i"
  using bus_reach.unsubscribed [OF assms, of sid] by (simp_all add: unsubscribe_def known_def)

lemma drop_keeps:
  assumes "subs_held s" "events_written s" "drop_subscription sid s = (ok, s1)"
  shows "subs_held s1 \<and> events_written s1"
proof (cases "sid \<in> set (rt_subscriptions s)")
  case True
  then have s1: "s1 = s\<lparr>rt_subscriptions := removeAll sid (rt_subscriptions s), rt_bus := snd (unsubscribe sid (rt_bus s))\<rparr>"
    using assms(3) by (simp add: drop_subscription_def split: prod.splits)
  have b: "bus_reach (rt_bus s)" using assms(1) by (simp add: subs_held_def)
  have "distinct (removeAll sid (rt_subscriptions s))" using assms(1) by (auto simp: subs_held_def distinct_removeAll)
  moreover have "writing s1 = writing s" by (simp add: s1 writing_def)
  ultimately show ?thesis
    using assms(1, 2) unsubscribe_facts [OF b, of sid] by (auto simp: s1 subs_held_def events_written_def)
next
  case False
  with assms show ?thesis by (auto simp: drop_subscription_def)
qed

lemma close_keeps:
  assumes "subs_held s"
  shows "subs_held (close_connection s)" "events_written (close_connection s)"
proof -
  have unsubscribes: "bus_reach b \<Longrightarrow> bus_reach (fold (\<lambda>sid b. snd (unsubscribe sid b)) sids b) \<and>
      bu_fresh (fold (\<lambda>sid b. snd (unsubscribe sid b)) sids b) = bu_fresh b \<and>
      bu_subscribers (fold (\<lambda>sid b. snd (unsubscribe sid b)) sids b) = filter (\<lambda>sid. sid \<notin> set sids) (bu_subscribers b)" for sids b
  proof (induction sids arbitrary: b)
    case (Cons sid sids)
    have "bus_reach (snd (unsubscribe sid b))" by (rule bus_reach.unsubscribed [OF Cons.prems]) (simp add: prod_eq_iff)
    from Cons.IH [OF this] show ?case by (auto simp: unsubscribe_def removeAll_filter_not_eq intro: filter_cong)
  qed simp
  show "subs_held (close_connection s)"
    using assms unsubscribes [of "rt_bus s" "rt_subscriptions s"] by (auto simp: close_connection_def subs_held_def known_def)
  show "events_written (close_connection s)" by (simp add: close_connection_def events_written_def writing_def)
qed

definition conn_inv :: "router \<Rightarrow> bool" where
  "conn_inv s \<longleftrightarrow> calls_answered s \<and> subs_held s \<and> events_written s"

lemma held_more [simp]:
  "subs_held (s\<lparr>rt_calls := cs, rt_running := ns\<rparr>) = subs_held s" "events_written (s\<lparr>rt_calls := cs, rt_running := ns\<rparr>) = events_written s"
  "subs_held (s\<lparr>rt_calls := cs\<rparr>) = subs_held s" "events_written (s\<lparr>rt_calls := cs\<rparr>) = events_written s"
  "subs_held (s\<lparr>rt_running := ns\<rparr>) = subs_held s" "events_written (s\<lparr>rt_running := ns\<rparr>) = events_written s"
  "subs_held (s\<lparr>rt_dispatched := ds\<rparr>) = subs_held s" "events_written (s\<lparr>rt_dispatched := ds\<rparr>) = events_written s"
  "subs_held (write_out (Reply n v) x s) = subs_held s" "events_written s \<Longrightarrow> events_written (write_out (Reply n v) x s)"
  by (auto simp: subs_held_def events_written_def writing_def)

lemma dispatch_keeps:
  assumes "subs_held s" "events_written s" "\<not> rt_closed s" "dispatch_request rpc s = (r, s1)"
  shows "subs_held s1 \<and> events_written s1"
  using assms open_keeps [OF assms(1-3)] drop_keeps [OF assms(1, 2)]
  by (auto simp: dispatch_request_def Let_def split: sum.splits if_splits prod.splits)

lemma handle_line_keeps:
  assumes "conn_inv s" "\<not> rt_closed s"
  shows "conn_inv (handle_line json_parse line s)"
  using assms calls_answered_line [of s json_parse line] dispatch_keeps [of s]
  by (auto simp: conn_inv_def handle_line_def Let_def split: sum.splits prod.splits)

lemma handle_line_open [simp]: "rt_closed (handle_line json_parse line s) = rt_closed s"
proof -
  have "open_subscription_of flt s = (r, s1) \<Longrightarrow> rt_closed s1 = rt_closed s" for flt r s1
    by (auto simp: open_subscription_of_def Let_def split: option.splits sum.splits)
  moreover have "drop_subscription sid s = (ok, s1) \<Longrightarrow> rt_closed s1 = rt_closed s" for sid ok s1
    by (auto simp: drop_subscription_def split: if_splits prod.splits)
  ultimately have "dispatch_request rpc s = (r, s1) \<Longrightarrow> rt_closed s1 = rt_closed s" for rpc r s1
    by (auto simp: dispatch_request_def Let_def split: sum.splits if_splits prod.splits)
  then show ?thesis by (auto simp: handle_line_def Let_def split: sum.splits prod.splits)
qed

lemma answer_line_keeps: "conn_inv s \<Longrightarrow> n \<in> set (rt_running s) \<Longrightarrow> conn_inv (answer_line n r s)"
  using calls_answered_answer [of s n r] by (cases r) (auto simp: conn_inv_def answer_line_def Let_def)

section \<open>Every input\<close>

lemma drain_lines_invariant:
  assumes "\<And>l s. P s \<Longrightarrow> \<not> stop s \<Longrightarrow> P (handle l s)" "P s"
  shows "P (snd (drain_lines stop handle b s))"
  using assms(2)
proof (induction "length b" arbitrary: b s rule: less_induct)
  case less
  show ?case
  proof (cases "stop s \<or> next_line b = None")
    case True
    then show ?thesis using less.prems by (subst drain_lines.simps) auto
  next
    case False
    then obtain line rest where next_b: "next_line b = Some (line, rest)" by auto
    then have "length rest < length b" by (simp add: next_line_Some)
    then have "P (snd (drain_lines stop handle rest (if strip_cr line = [] then s else handle (strip_cr line) s)))"
      by (rule less.hyps) (use less.prems assms(1) False in simp)
    with False show ?thesis by (subst drain_lines.simps) (simp add: next_b)
  qed
qed

lemma drain_lines_live:
  assumes "\<And>l s. stop (handle l s) = stop s" "\<not> stop s"
  shows "drain_lines stop handle b s = drain_lines (\<lambda>_. False) handle b s"
  using assms(2)
proof (induction "length b" arbitrary: b s rule: less_induct)
  case less
  show ?case
  proof (cases "next_line b")
    case (Some lr)
    obtain line rest where lr: "lr = (line, rest)" by fastforce
    then have "length rest < length b" using Some by (simp add: next_line_Some)
    then have "drain_lines stop handle rest (if strip_cr line = [] then s else handle (strip_cr line) s) =
        drain_lines (\<lambda>_. False) handle rest (if strip_cr line = [] then s else handle (strip_cr line) s)"
      by (rule less.hyps) (simp add: assms(1) less.prems)
    then show ?thesis using less.prems by (simp add: drain_lines.simps [of _ _ b] Some lr)
  qed (simp add: drain_lines.simps [of _ _ b] less.prems)
qed

interpretation connection_lines: line_reader "handle_chunk json_parse" fst "\<lambda>c. \<not> rt_closed (snd c)" snd "handle_line json_parse"
proof
  fix c :: connection and chunk
  assume live: "\<not> rt_closed (snd c)"
  obtain b s where c: "c = (b, s)" by fastforce
  have "handle_chunk json_parse chunk c = (rest_of (b @ chunk), fold (handle_line json_parse) (lines_of (b @ chunk)) s)"
    using live by (simp add: c handle_chunk_def drain_lines_live drain_lines_eq)
  moreover have "rt_closed (fold (handle_line json_parse) ls s) = rt_closed s" for ls
    by (induction ls arbitrary: s) simp_all
  ultimately show "fst (handle_chunk json_parse chunk c) = rest_of (fst c @ chunk)"
    and "snd (handle_chunk json_parse chunk c) = fold (handle_line json_parse) (lines_of (fst c @ chunk)) (snd c)"
    and "\<not> rt_closed (snd (handle_chunk json_parse chunk c))"
    using live by (simp_all add: c)
qed

lemma conn_inv_chunk: "conn_inv (snd c) \<Longrightarrow> conn_inv (snd (handle_chunk json_parse chunk c))"
  using drain_lines_invariant [of conn_inv rt_closed "handle_line json_parse" "snd c" "fst c @ chunk"] handle_line_keeps
  by (cases c) (auto simp: handle_chunk_def)

lemma conn_inv_moved:
  assumes "conn_inv s" "grows (rt_bus s) b" "hears_more (rt_bus s) b" "bus_reach b"
  shows "conn_inv (bus_moved b s)"
  using assms bus_moved_keeps calls_answered_same [OF _ same_calls_moved] by (auto simp: conn_inv_def)

lemma conn_inv_bus: "conn_inv s \<Longrightarrow> bus_reach (rt_bus s)"
  by (simp add: conn_inv_def subs_held_def)

lemma conn_inv_step:
  assumes "conn_inv (snd c)"
  shows "conn_inv (snd (conn_step json_parse fuel i c))"
proof (cases i)
  case (Chunk t)
  then show ?thesis using conn_inv_chunk [OF assms] by simp
next
  case (Resumed n)
  then show ?thesis using answer_line_keeps [OF assms] by (auto simp: on_router_def assms split: option.splits)
next
  case (Dispatched n r)
  then show ?thesis using answer_line_keeps [OF assms] by (auto simp: on_router_def assms)
next
  case (EmittedElsewhere d)
  have "conn_inv (bus_moved b (snd c))" if "emit fuel d (rt_bus (snd c)) = Some (e, b)" for e b
    using that bus_grows [OF conn_inv_bus [OF assms], of "TEmit d" fuel _ b] by (auto simp: emit_def intro!: conn_inv_moved [OF assms])
  then show ?thesis by (auto simp: EmittedElsewhere on_router_def assms split: option.splits)
next
  case (SubscribedElsewhere flt l)
  have "conn_inv (bus_moved b (snd c))" if "subscribe fuel flt l (rt_bus (snd c)) = Some (e, b)" for e b
    using that bus_grows [OF conn_inv_bus [OF assms], of "TSubscribe flt l" fuel _ b] by (auto simp: subscribe_def intro!: conn_inv_moved [OF assms])
  then show ?thesis by (auto simp: SubscribedElsewhere on_router_def assms split: option.splits)
next
  case Flushed
  then show ?thesis using assms
    by (auto simp: on_router_def conn_inv_def calls_answered_def subs_held_def events_written_def writing_def)
next
  case StreamDestroyed
  then show ?thesis using assms
    by (auto simp: on_router_def conn_inv_def calls_answered_def subs_held_def events_written_def writing_def elim: answered_weaken)
next
  case StreamEnded
  have "calls_answered (close_connection (snd c))"
    using assms by (auto simp: conn_inv_def calls_answered_def close_connection_def writing_def elim: answered_weaken)
  with StreamEnded assms close_keeps [of "snd c"] show ?thesis by (simp add: on_router_def conn_inv_def)
qed

lemma conn_inv_run:
  assumes "bus_reach b"
  shows "conn_inv (snd (conn_run json_parse fuel ins (new_connection b)))"
proof -
  have "conn_inv (snd (new_connection b))"
    using assms by (simp add: new_connection_def conn_inv_def calls_answered_def answered_def subs_held_def events_written_def)
  then show ?thesis
    unfolding conn_run_def by (induction ins rule: rev_induct) (simp_all add: conn_inv_step)
qed

text \<open>A closed connection is silent.\<close>

lemma closed_answer:
  "rt_closed s \<Longrightarrow> rt_closed (answer_line n r s) \<and> rt_written (answer_line n r s) = rt_written s \<and> rt_created (answer_line n r s) = rt_created s"
  by (cases r) (simp_all add: answer_line_def writing_def Let_def)

lemma closed_moved:
  "rt_closed s \<Longrightarrow> rt_closed (bus_moved b s) \<and> rt_written (bus_moved b s) = rt_written s \<and> rt_created (bus_moved b s) = rt_created s"
  by (simp add: bus_moved_def writing_def)

lemma closed_step:
  assumes "rt_closed (snd c)"
  shows "rt_closed (snd (conn_step json_parse fuel i c))" "rt_written (snd (conn_step json_parse fuel i c)) = rt_written (snd c)"
    "rt_created (snd (conn_step json_parse fuel i c)) = rt_created (snd c)"
proof -
  obtain b s where c: "c = (b, s)" by fastforce
  have s: "rt_closed s" using assms by (simp add: c)
  have "rt_closed (snd (conn_step json_parse fuel i c)) \<and> rt_written (snd (conn_step json_parse fuel i c)) = rt_written s \<and>
      rt_created (snd (conn_step json_parse fuel i c)) = rt_created s"
    using closed_answer [OF s] closed_moved [OF s] s
    by (cases i) (simp_all add: c handle_chunk_def on_router_def close_connection_def split: option.splits prod.splits)
  then show "rt_closed (snd (conn_step json_parse fuel i c))" "rt_written (snd (conn_step json_parse fuel i c)) = rt_written (snd c)"
    "rt_created (snd (conn_step json_parse fuel i c)) = rt_created (snd c)" by (simp_all add: c)
qed

section \<open>Properties\<close>

text \<open>The text that arrives before the stream ends, and the call that a line of it becomes.\<close>

fun chunk_text :: "conn_input \<Rightarrow> string" where
  "chunk_text (Chunk t) = t"
| "chunk_text _ = []"

definition read_text :: "conn_input list \<Rightarrow> string" where
  "read_text ins = concat (map chunk_text (takeWhile (\<lambda>i. i \<noteq> StreamEnded) ins))"

definition line_call :: "(string \<Rightarrow> string + json) \<Rightarrow> string \<Rightarrow> json \<times> string" where
  "line_call json_parse line =
     (case parseJsonRpcLine json_parse line of
        Inl e \<Rightarrow> (JUndefined, [])
      | Inr rpc \<Rightarrow> (jget rpc ''id'', js_string (jget rpc ''method'')))"

definition call_key :: "rpc_call \<Rightarrow> json \<times> string" where
  "call_key c = (ca_id c, ca_method c)"

lemma read_text_snoc:
  "read_text (ins @ [i]) = read_text ins @ (if StreamEnded \<in> set ins then [] else chunk_text i)"
proof (cases "StreamEnded \<in> set ins")
  case True
  then show ?thesis by (simp add: read_text_def takeWhile_append1 [of StreamEnded])
next
  case False
  have "takeWhile (\<lambda>i. i \<noteq> StreamEnded) (ins @ xs) = ins @ takeWhile (\<lambda>i. i \<noteq> StreamEnded) xs" for xs
    by (rule takeWhile_append2) (use False in auto)
  from this [of "[i]"] this [of "[]"]
  have one: "takeWhile (\<lambda>i. i \<noteq> StreamEnded) (ins @ [i]) = ins @ takeWhile (\<lambda>i. i \<noteq> StreamEnded) [i]"
    and all: "takeWhile (\<lambda>i. i \<noteq> StreamEnded) ins = ins" by simp_all
  from False show ?thesis unfolding read_text_def one all by simp
qed

lemma handle_line_calls:
  "map call_key (rt_calls (handle_line json_parse line s)) = map call_key (rt_calls s) @ [line_call json_parse line]"
proof (cases "parseJsonRpcLine json_parse line")
  case (Inr rpc)
  obtain outcome s1 where d: "dispatch_request rpc s = (outcome, s1)" by fastforce
  with same_calls_dispatch [OF d] Inr show ?thesis
    by (simp add: handle_line_def line_call_def call_key_def same_calls_def Let_def)
qed (simp add: handle_line_def line_call_def call_key_def)

lemma handle_lines_calls:
  "map call_key (rt_calls (fold (handle_line json_parse) ls s)) = map call_key (rt_calls s) @ map (line_call json_parse) ls"
  by (induction ls arbitrary: s) (simp_all add: handle_line_calls)

text \<open>The lines read so far are the calls, and the buffer is what is left of the text.\<close>

definition lines_called :: "(string \<Rightarrow> string + json) \<Rightarrow> conn_input list \<Rightarrow> connection \<Rightarrow> bool" where
  "lines_called json_parse ins c \<longleftrightarrow>
     map call_key (rt_calls (snd c)) = map (line_call json_parse) (lines_of (read_text ins)) \<and>
     (rt_closed (snd c) \<longleftrightarrow> StreamEnded \<in> set ins) \<and> (\<not> rt_closed (snd c) \<longrightarrow> fst c = rest_of (read_text ins))"

lemma same_calls_step:
  assumes "\<And>t. i \<noteq> Chunk t" "i \<noteq> StreamEnded"
  shows "rt_calls (snd (conn_step json_parse fuel i c)) = rt_calls (snd c)"
    "rt_closed (snd (conn_step json_parse fuel i c)) = rt_closed (snd c)" "fst (conn_step json_parse fuel i c) = fst c"
proof -
  have "rt_calls (answer_line n r s) = rt_calls s \<and> rt_closed (answer_line n r s) = rt_closed s" for n r s
    by (cases r) (simp_all add: answer_line_def Let_def)
  then show "rt_calls (snd (conn_step json_parse fuel i c)) = rt_calls (snd c)"
    "rt_closed (snd (conn_step json_parse fuel i c)) = rt_closed (snd c)" "fst (conn_step json_parse fuel i c) = fst c"
    using assms by (cases i; auto simp: on_router_def bus_moved_def split: option.splits)+
qed

lemma lines_called_step:
  assumes "lines_called json_parse ins c"
  shows "lines_called json_parse (ins @ [i]) (conn_step json_parse fuel i c)"
proof -
  consider t where "i = Chunk t" | "i = StreamEnded" | "\<And>t. i \<noteq> Chunk t" "i \<noteq> StreamEnded" by blast
  then show ?thesis
  proof cases
    case (1 t)
    show ?thesis
    proof (cases "rt_closed (snd c)")
      case True
      then show ?thesis using assms 1 by (cases c) (simp add: lines_called_def handle_chunk_def read_text_snoc)
    next
      case False
      then have text_read: "read_text (ins @ [i]) = read_text ins @ t" and buffer: "fst c = rest_of (read_text ins)"
        using assms 1 by (simp_all add: lines_called_def read_text_snoc)
      from False assms 1 connection_lines.buffer_consume [OF False, of json_parse t] connection_lines.obs_consume [OF False, of json_parse t]
        connection_lines.live_consume [OF False, of json_parse t] lines_of_append [of "read_text ins" t] rest_of_append [of "read_text ins" t]
      show ?thesis unfolding lines_called_def text_read by (simp add: buffer handle_lines_calls)
    qed
  next
    case 2
    then show ?thesis using assms by (auto simp: lines_called_def read_text_snoc on_router_def close_connection_def)
  next
    case 3
    then have "chunk_text i = []" by (cases i) auto
    with same_calls_step [OF 3] assms 3(2) show ?thesis by (simp add: lines_called_def read_text_snoc)
  qed
qed

lemma lines_called_run: "lines_called json_parse ins (conn_run json_parse fuel ins (new_connection b))"
proof (induction ins rule: rev_induct)
  case Nil
  then show ?case
    by (simp add: lines_called_def conn_run_def new_connection_def read_text_def lines_of_none)
next
  case (snoc i ins)
  then show ?case using lines_called_step [of json_parse ins] by (simp add: conn_run_def)
qed

text \<open>
  C13. Every line that a connection reads before its stream ends becomes one call, in order, with the id
  and the method of the request (none when the text is no request), and nothing else does; every call has
  at most one reply, with the id of its request (or null when the text was no request), and none while it
  runs; as long as the stream is open, each call either still runs or has been replied to.
\<close>

theorem connection_replies_once:
  assumes "bus_reach b" "s = snd (conn_run json_parse fuel ins (new_connection b))"
  shows "map (\<lambda>c. (ca_id c, ca_method c)) (rt_calls s) = map (line_call json_parse) (lines_of (read_text ins)) \<and>
    distinct (map fst (replies_of (rt_written s))) \<and>
    (\<forall>(n, v) \<in> set (replies_of (rt_written s)). n < length (rt_calls s) \<and> n \<notin> set (rt_running s) \<and>
       jget v ''id'' = request_id (ca_id (rt_calls s ! n))) \<and>
    (\<not> rt_closed s \<and> \<not> rt_destroyed s \<longrightarrow>
       (\<forall>n < length (rt_calls s). n \<in> set (rt_running s) \<or> (\<exists>v. (n, v) \<in> set (replies_of (rt_written s)))))"
proof -
  have a: "answered (rt_calls s) (rt_running s) (replies_of (rt_written s)) (writing s)"
    using conn_inv_run [OF assms(1), of json_parse fuel ins] unfolding assms(2) by (simp add: conn_inv_def calls_answered_def)
  have "n \<notin> set (rt_running s)" if "(n, v) \<in> set (replies_of (rt_written s))" for n v
    using a imageI [OF that, of fst] by (auto simp: answered_def)
  moreover have "n \<in> fst ` set (replies_of (rt_written s)) \<longleftrightarrow> (\<exists>v. (n, v) \<in> set (replies_of (rt_written s)))" for n
    by force
  moreover have "map (\<lambda>c. (ca_id c, ca_method c)) (rt_calls s) = map (line_call json_parse) (lines_of (read_text ins))"
    using lines_called_run [of json_parse ins fuel b] by (simp add: lines_called_def call_key_def [abs_def] assms(2))
  ultimately show ?thesis using a by (simp add: answered_def writing_def) blast
qed

text \<open>
  C12. The subscriptions of a connection are its own: of the subscriptions it has ever opened, only those
  it still holds are alive in the bus, so that none outlives the connection; and a connection that has
  ended writes nothing and opens nothing, whatever still happens to it.
\<close>

theorem connection_leaves_nothing:
  assumes "bus_reach b" "c = conn_run json_parse fuel ins (new_connection b)"
  shows "set (rt_created (snd c)) \<inter> set (bu_subscribers (rt_bus (snd c))) \<subseteq> set (rt_subscriptions (snd c)) \<and>
    (rt_closed (snd c) \<longrightarrow> set (rt_created (snd c)) \<inter> set (bu_subscribers (rt_bus (snd c))) = {} \<and>
       rt_written (snd (conn_run json_parse fuel later c)) = rt_written (snd c) \<and>
       rt_created (snd (conn_run json_parse fuel later c)) = rt_created (snd c))"
proof -
  have held: "subs_held (snd c)" using conn_inv_run [OF assms(1)] by (simp add: assms(2) conn_inv_def)
  have "rt_closed (snd c) \<Longrightarrow> rt_closed (snd (conn_run json_parse fuel later c)) \<and>
      rt_written (snd (conn_run json_parse fuel later c)) = rt_written (snd c) \<and>
      rt_created (snd (conn_run json_parse fuel later c)) = rt_created (snd c)"
    unfolding conn_run_def by (induction later rule: rev_induct) (simp_all add: closed_step)
  with held show ?thesis by (auto simp: subs_held_def)
qed

text \<open>
  A connection passes on its subscriptions: as long as its stream is open, the events it has written
  are, with their multiplicities, exactly those that its subscriptions were called with - the replay when
  they were opened included - and the events of each subscription are written in their order.
\<close>

theorem connection_writes_its_events:
  assumes "bus_reach b" "s = snd (conn_run json_parse fuel ins (new_connection b))" "\<not> rt_closed s" "\<not> rt_destroyed s"
  shows "mset (notices_of (rt_written s)) = sum_list (map (\<lambda>sid. mset (su_seen (bu_objects (rt_bus s) sid))) (rt_created s)) \<and>
    (\<forall>sid \<in> set (rt_created s). subseq (su_seen (bu_objects (rt_bus s) sid)) (notices_of (rt_written s)))"
  using conn_inv_run [OF assms(1), of json_parse fuel ins] assms(3, 4)
  unfolding assms(2) [symmetric] by (simp add: conn_inv_def events_written_def writing_def)

section \<open>Instances\<close>

text \<open>A client subscribes from the beginning of a bus that has emitted one event.\<close>

definition sample_filter :: json where
  "sample_filter = JObj [(''sinceEventId'', JStr (event_id sample_epoch 0))]"

definition sample_subscribe_rpc :: json where
  "sample_subscribe_rpc = JObj [(''jsonrpc'', JStr ''2.0''), (''id'', JStr ''7''), (''method'', JStr ''subscribe/all''), (''params'', sample_filter)]"

definition sample_conn_inputs :: "conn_input list" where
  "sample_conn_inputs = [Chunk (encodeJsonLine sample_subscribe_rpc), Resumed 0]"

definition sample_connection :: router where
  "sample_connection = snd (conn_run (parse_of [sample_subscribe_rpc]) 0 sample_conn_inputs (new_connection sample_one))"

lemma sample_since: "eventsSince sample_one sample_filter = Inr [sample_event 1 TurnStarted]"
proof -
  have "sequence sample_one (event_id sample_epoch 0) = Inr 0"
    using sample_uuid by (simp add: sequence_event_id sample_one_def sample_bus_def MAX_SAFE_INTEGER_def)
  moreover have "bu_replay sample_one = [sample_event 1 TurnStarted]" by (simp add: sample_one_def sample_bus_def)
  ultimately show ?thesis by (simp add: sample_filter_def eventsSince_cursor sample_simps)
qed

lemma sample_opened:
  "\<exists>b. subscribe (quiet_fuel sample_one) sample_filter quiet_listener sample_one = Some (Inr ''sub_2'', b) \<and>
     su_seen (bu_objects b ''sub_2'') = [sample_event 1 TurnStarted]"
proof -
  have "validateEventFilter sample_filter = Inr sample_filter" by (simp add: sample_filter_def filter_keys_def event_id_not_empty)
  moreover have "jget sample_filter ''sinceEventId'' \<noteq> JUndefined" by (simp add: sample_filter_def)
  moreover have "''sub_'' @ dec (bu_fresh sample_one) = ''sub_2''" by (simp add: sample_one_def sample_bus_def) code_simp
  ultimately show ?thesis
    unfolding subscribe_quiet register_def
    by (simp add: sample_since Let_def taken_def set_delivering_def)
qed

lemma sample_fields:
  "rt_written sample_connection = [Notice (sample_event 1 TurnStarted),
     Reply 0 (success (JStr ''7'') (JObj [(''subscriptionId'', JStr ''sub_2'')]))]"
  "rt_created sample_connection = [''sub_2'']" "\<not> rt_closed sample_connection" "\<not> rt_destroyed sample_connection"
proof -
  let ?jp = "parse_of [sample_subscribe_rpc]" and ?s = "snd (new_connection sample_one)"
  obtain b where b: "subscribe (quiet_fuel sample_one) sample_filter quiet_listener sample_one = Some (Inr ''sub_2'', b)"
      "su_seen (bu_objects b ''sub_2'') = [sample_event 1 TurnStarted]" using sample_opened by blast
  have s: "rt_bus ?s = sample_one" "rt_closed ?s = False" "rt_destroyed ?s = False" "rt_written ?s = []" "rt_created ?s = []"
      "rt_calls ?s = []" "rt_running ?s = []" "rt_subscriptions ?s = []" "writing ?s"
    by (simp_all add: new_connection_def writing_def)
  have "wire sample_subscribe_rpc = sample_subscribe_rpc" by (simp add: sample_subscribe_rpc_def sample_filter_def)
  then have read: "parseJsonRpcLine ?jp (stringify sample_subscribe_rpc) = Inr sample_subscribe_rpc"
    using reads_backD [OF parse_of_first [of sample_subscribe_rpc "[]"]]
    by (simp add: parseJsonRpcLine_def isJsonRpcRequest_iff) (simp add: sample_subscribe_rpc_def)
  have dispatch: "dispatch_request sample_subscribe_rpc ?s = (case open_subscription_of sample_filter ?s of
      (Inl e, s1) \<Rightarrow> (Some (Inl e), s1) | (Inr sid, s1) \<Rightarrow> (Some (Inr (JObj [(''subscriptionId'', JStr sid)])), s1))"
    by (simp add: dispatch_request_def sample_subscribe_rpc_def sample_filter_def subscribe_methods_def subscription_filter_def)
  have rpc: "jget sample_subscribe_rpc ''id'' = JStr ''7''" "jget sample_subscribe_rpc ''method'' = JStr ''subscribe/all''"
    by (simp_all add: sample_subscribe_rpc_def)
  have line: "snd (handle_chunk ?jp (encodeJsonLine sample_subscribe_rpc) (new_connection sample_one)) =
      handle_line ?jp (stringify sample_subscribe_rpc) ?s"
    using connection_lines.messages [of "new_connection sample_one" "[encodeJsonLine sample_subscribe_rpc]" "[sample_subscribe_rpc]" "[]" ?jp]
    by (simp add: new_connection_def)
  show "rt_written sample_connection = [Notice (sample_event 1 TurnStarted),
      Reply 0 (success (JStr ''7'') (JObj [(''subscriptionId'', JStr ''sub_2'')]))]"
    "rt_created sample_connection = [''sub_2'']" "\<not> rt_closed sample_connection" "\<not> rt_destroyed sample_connection"
    using s b line rpc
    by (simp_all add: sample_connection_def sample_conn_inputs_def conn_run_def on_router_def handle_line_def read dispatch
        open_subscription_of_def Let_def answer_line_def write_event_def)
qed

theorem connection_replies_once_witness:
  "map (\<lambda>c. (ca_id c, ca_method c)) (rt_calls sample_connection) = [(JStr ''7'', ''subscribe/all'')] \<and>
   distinct (map fst (replies_of (rt_written sample_connection))) \<and> rt_written sample_connection \<noteq> []"
proof -
  have read: "parseJsonRpcLine (parse_of [sample_subscribe_rpc]) (stringify sample_subscribe_rpc) = Inr sample_subscribe_rpc"
    using reads_backD [OF parse_of_first [of sample_subscribe_rpc "[]"]]
    by (simp add: parseJsonRpcLine_def isJsonRpcRequest_iff) (simp add: sample_subscribe_rpc_def sample_filter_def)
  have "lines_of (read_text sample_conn_inputs) = [stringify sample_subscribe_rpc]"
    using lines_of_messages [of "[sample_subscribe_rpc]" "[]"]
    by (simp add: read_text_def sample_conn_inputs_def lines_of_none del: stringify.simps)
  then have "map (line_call (parse_of [sample_subscribe_rpc])) (lines_of (read_text sample_conn_inputs)) = [(JStr ''7'', ''subscribe/all'')]"
    by (simp add: line_call_def read) (simp add: sample_subscribe_rpc_def)
  with connection_replies_once [OF sample_one_reach sample_connection_def] sample_fields(1) show ?thesis by simp
qed

theorem connection_leaves_nothing_witness:
  "set [''sub_2''] \<inter> set (bu_subscribers (rt_bus sample_connection)) \<subseteq> set (rt_subscriptions sample_connection)"
  using connection_leaves_nothing [OF sample_one_reach refl, of "parse_of [sample_subscribe_rpc]" 0 sample_conn_inputs "[]"] sample_fields(2)
  unfolding sample_connection_def by simp

theorem connection_writes_its_events_witness:
  "mset [sample_event 1 TurnStarted] = mset (su_seen (bu_objects (rt_bus sample_connection) ''sub_2''))"
  using connection_writes_its_events [OF sample_one_reach sample_connection_def sample_fields(3, 4)] sample_fields(1, 2) by simp

end
