(* ===== verification/Socket_Props.thy ===== *)
theory Socket_Props
  imports Socket_Client Json_Rpc_Props
begin

text \<open>
  The socket client, alone - every answer settles the call that it belongs to and only that, no call
  is left pending when the connection ends - and together with the server's connection.
\<close>

section \<open>The pending calls\<close>

lemma distinct_map_filter_fst: "distinct (map fst xs) \<Longrightarrow> distinct (map fst (filter P xs))"
  by (induction xs) auto

lemma distinct_map_filter_snd: "distinct (map snd xs) \<Longrightarrow> distinct (map snd (filter P xs))"
  by (induction xs) auto

lemma distinct_keys:
  "distinct (map fst xs) \<Longrightarrow> distinct (map snd xs) \<Longrightarrow> (i, n) \<in> set xs \<Longrightarrow> (j, m) \<in> set xs \<Longrightarrow> m = n \<longleftrightarrow> j = i"
  by (induction xs) force+

definition numbered :: "nat \<Rightarrow> string \<Rightarrow> bool" where
  "numbered k i \<longleftrightarrow> (\<exists>j < k. i = dec j)"

definition client_inv :: "socket_client \<Rightarrow> bool" where
  "client_inv s \<longleftrightarrow>
     distinct (map fst (sc_pending s)) \<and> distinct (map snd (sc_pending s)) \<and>
     (\<forall>(i, n) \<in> set (sc_pending s). numbered (sc_nextId s) i) \<and>
     (\<forall>n i. (i, n) \<in> set (sc_pending s) \<longleftrightarrow> n < length (sc_calls s) \<and> cl_state (sc_calls s ! n) = Pending i) \<and>
     (sc_closed s \<longrightarrow> sc_pending s = [])"

definition state_at :: "socket_client \<Rightarrow> nat \<Rightarrow> call_state" where
  "state_at s n = cl_state (sc_calls s ! n)"

lemma set_call_simps [simp]:
  "sc_pending (set_call n st s) = sc_pending s" "sc_nextId (set_call n st s) = sc_nextId s" "sc_closed (set_call n st s) = sc_closed s"
  "length (sc_calls (set_call n st s)) = length (sc_calls s)" "sc_transport (set_call n st s) = sc_transport s"
  "sc_openings (set_call n st s) = sc_openings s" "sc_connecting (set_call n st s) = sc_connecting s"
  "sc_sent (set_call n st s) = sc_sent s" "sc_events (set_call n st s) = sc_events s"
  "m < length (sc_calls s) \<Longrightarrow> state_at (set_call n st s) m = (if m = n then st else state_at s m)"
  by (auto simp: set_call_def state_at_def nth_list_update)

lemma client_inv_pending: "client_inv s \<Longrightarrow> (i, n) \<in> set (sc_pending s) \<longleftrightarrow> n < length (sc_calls s) \<and> state_at s n = Pending i"
  by (simp add: client_inv_def state_at_def)

lemma client_invI:
  assumes "distinct (map fst (sc_pending s))" "distinct (map snd (sc_pending s))"
    and "\<And>i n. (i, n) \<in> set (sc_pending s) \<Longrightarrow> numbered (sc_nextId s) i"
    and "\<And>i n. (i, n) \<in> set (sc_pending s) \<longleftrightarrow> n < length (sc_calls s) \<and> state_at s n = Pending i"
    and "sc_closed s \<Longrightarrow> sc_pending s = []"
  shows "client_inv s"
  using assms by (auto simp: client_inv_def state_at_def)

lemma client_invD:
  assumes "client_inv s"
  shows "distinct (map fst (sc_pending s))" "distinct (map snd (sc_pending s))"
    "(i, n) \<in> set (sc_pending s) \<Longrightarrow> numbered (sc_nextId s) i" "sc_closed s \<Longrightarrow> sc_pending s = []"
  using assms by (auto simp: client_inv_def)

text \<open>A call that is not pending changes its state to another that is not.\<close>

definition not_pending :: "call_state \<Rightarrow> bool" where
  "not_pending st \<longleftrightarrow> (\<forall>i. st \<noteq> Pending i)"

lemma client_inv_set_call:
  assumes "client_inv s" "n < length (sc_calls s) \<Longrightarrow> not_pending (state_at s n)" "not_pending st"
  shows "client_inv (set_call n st s)"
proof (rule client_invI)
  fix i m
  show "(i, m) \<in> set (sc_pending (set_call n st s)) \<longleftrightarrow>
      m < length (sc_calls (set_call n st s)) \<and> state_at (set_call n st s) m = Pending i"
    using client_inv_pending [OF assms(1), of i m] assms(2, 3) by (auto simp: not_pending_def split: if_splits)
qed (use client_invD [OF assms(1)] in auto)

text \<open>What does not concern the calls.\<close>

lemma client_inv_cong:
  "client_inv s \<Longrightarrow> sc_pending s' = sc_pending s \<Longrightarrow> sc_calls s' = sc_calls s \<Longrightarrow> sc_nextId s \<le> sc_nextId s' \<Longrightarrow>
     sc_closed s' = sc_closed s \<Longrightarrow> client_inv s'"
  by (fastforce simp: client_inv_def numbered_def)

lemma client_inv_new_call:
  assumes "client_inv s" "not_pending (cl_state c)"
  shows "client_inv (s\<lparr>sc_calls := sc_calls s @ [c]\<rparr>)"
proof (rule client_invI)
  fix i n
  show "(i, n) \<in> set (sc_pending (s\<lparr>sc_calls := sc_calls s @ [c]\<rparr>)) \<longleftrightarrow>
      n < length (sc_calls (s\<lparr>sc_calls := sc_calls s @ [c]\<rparr>)) \<and> state_at (s\<lparr>sc_calls := sc_calls s @ [c]\<rparr>) n = Pending i"
    using client_inv_pending [OF assms(1), of i n] assms(2) by (auto simp: not_pending_def state_at_def nth_append less_Suc_eq)
qed (use client_invD [OF assms(1)] in auto)

lemma client_inv_begin:
  assumes "client_inv s"
  shows "client_inv (request_begin meth args s)"
proof -
  obtain r s1 where c: "connect s = (r, s1)" by fastforce
  then have s1: "client_inv s1" by (auto simp: connect_def intro: client_inv_cong [OF assms] split: if_splits option.splits)
  have "r = Inr st \<Longrightarrow> not_pending st" for st
    using c by (auto simp: connect_def not_pending_def split: if_splits option.splits)
  then show ?thesis
    using client_inv_new_call [OF s1] by (cases r) (auto simp: request_begin_def c not_pending_def)
qed

lemma numbered_fresh: "numbered (k + 1) (dec k)" "\<not> numbered k (dec k)" "numbered k i \<Longrightarrow> numbered (k + 1) i"
  by (auto simp: numbered_def intro: less_SucI)

lemma client_inv_send:
  assumes "client_inv s" "n < length (sc_calls s)" "not_pending (state_at s n)"
  shows "client_inv (send_request n sending s)"
proof (cases "sc_closed s \<or> (\<exists>e. sending = Inl e)")
  case True
  moreover have "client_inv (s\<lparr>sc_nextId := sc_nextId s + 1\<rparr>)" by (rule client_inv_cong [OF assms(1)]) simp_all
  moreover have "state_at (s\<lparr>sc_nextId := sc_nextId s + 1\<rparr>) n = state_at s n" by (simp add: state_at_def)
  ultimately show ?thesis
    using assms by (auto simp: send_request_def Let_def not_pending_def intro!: client_inv_set_call)
next
  case False
  let ?i = "dec (sc_nextId s)"
  have fresh: "(?i, m) \<notin> set (sc_pending s)" for m
    using client_invD(3) [OF assms(1)] numbered_fresh(2) by blast
  have unused: "(j, n) \<notin> set (sc_pending s)" for j
    using client_inv_pending [OF assms(1), of j n] assms(3) by (auto simp: not_pending_def)
  define s1 where "s1 = s\<lparr>sc_nextId := sc_nextId s + 1, sc_pending := sc_pending s @ [(?i, n)],
      sc_sent := sc_sent s @ [encodeJsonLine (request_json ?i (cl_method (sc_calls s ! n)) (cl_params (sc_calls s ! n)))]\<rparr>"
  have "send_request n sending s = set_call n (Pending ?i) s1"
    using False by (cases sending) (auto simp: send_request_def s1_def Let_def)
  moreover have "client_inv (set_call n (Pending ?i) s1)"
  proof (rule client_invI)
    fix i m
    show "(i, m) \<in> set (sc_pending (set_call n (Pending ?i) s1)) \<longleftrightarrow>
        m < length (sc_calls (set_call n (Pending ?i) s1)) \<and> state_at (set_call n (Pending ?i) s1) m = Pending i"
      using client_inv_pending [OF assms(1), of i m] unused assms(2)
      by (auto simp: s1_def set_call_def state_at_def nth_list_update)
  next
    show "distinct (map fst (sc_pending (set_call n (Pending ?i) s1)))" "distinct (map snd (sc_pending (set_call n (Pending ?i) s1)))"
      using client_invD(1, 2) [OF assms(1)] fresh unused by (auto simp: s1_def)
  next
    fix i m
    assume "(i, m) \<in> set (sc_pending (set_call n (Pending ?i) s1))"
    then show "numbered (sc_nextId (set_call n (Pending ?i) s1)) i"
      using client_invD(3) [OF assms(1)] numbered_fresh by (auto simp: s1_def)
  qed (use False in \<open>auto simp: s1_def\<close>)
  ultimately show ?thesis by simp
qed

lemma client_inv_resume:
  assumes "client_inv s"
  shows "client_inv (request_resume n sending s)"
proof (cases "n < length (sc_calls s)")
  case True
  let ?s = "s\<lparr>sc_connecting := None\<rparr>"
  have "client_inv ?s" by (rule client_inv_cong [OF assms]) simp_all
  moreover have "state_at ?s n = state_at s n" by (simp add: state_at_def)
  ultimately show ?thesis
    using True assms client_inv_send [OF assms True] client_inv_send [of ?s n]
    by (auto simp: request_resume_def Let_def not_pending_def state_at_def intro!: client_inv_set_call
        split: call_state.splits attempt.splits)
qed (use assms in \<open>simp add: request_resume_def\<close>)

lemma client_inv_settle:
  assumes "client_inv s"
  shows "client_inv (settle_request i outcome s)"
proof (cases "map_of (sc_pending s) i")
  case (Some n)
  then have p: "(i, n) \<in> set (sc_pending s)" by (rule map_of_SomeD)
  let ?s = "set_call n (Settled outcome) (s\<lparr>sc_pending := filter (\<lambda>(j, _). j \<noteq> i) (sc_pending s)\<rparr>)"
  note d = client_invD [OF assms]
  have "client_inv ?s"
  proof (rule client_invI)
    show "distinct (map fst (sc_pending ?s))" "distinct (map snd (sc_pending ?s))"
      using d(1, 2) by (simp_all add: distinct_map_filter_fst distinct_map_filter_snd)
  next
    fix j m
    have "(j, m) \<in> set (sc_pending s) \<Longrightarrow> m = n \<longleftrightarrow> j = i" by (rule distinct_keys [OF d(1, 2) p])
    then show "(j, m) \<in> set (sc_pending ?s) \<longleftrightarrow> m < length (sc_calls ?s) \<and> state_at ?s m = Pending j"
      using client_inv_pending [OF assms, of j m] client_inv_pending [OF assms, of i n] p
      by (auto simp: set_call_def state_at_def nth_list_update split: if_splits)
  qed (use d in auto)
  then show ?thesis by (simp add: settle_request_def Some)
qed (use assms in \<open>simp add: settle_request_def\<close>)

lemma client_inv_line: "client_inv s \<Longrightarrow> client_inv (handleLine json_parse line s)"
  by (auto simp: handleLine_def client_inv_settle split: option.splits intro: client_inv_cong)

text \<open>What the end of the connection does to the calls.\<close>

lemma close_calls:
  "distinct (map snd ps) \<Longrightarrow> \<forall>(i, n) \<in> set ps. n < length (sc_calls s) \<Longrightarrow>
     (let t = fold (\<lambda>(i, n). set_call n (Settled (Inl connection_closed))) ps s in
      length (sc_calls t) = length (sc_calls s) \<and>
      (\<forall>m < length (sc_calls s). state_at t m = (if m \<in> snd ` set ps then Settled (Inl connection_closed) else state_at s m)))"
proof (induction ps arbitrary: s)
  case (Cons p ps)
  obtain i n where p: "p = (i, n)" by fastforce
  let ?s = "set_call n (Settled (Inl connection_closed)) s"
  have "distinct (map snd ps)" "\<forall>(i, n) \<in> set ps. n < length (sc_calls ?s)" "n < length (sc_calls s)"
    using Cons.prems by (auto simp: p)
  with Cons.IH [of ?s] show ?case by (simp add: p Let_def)
qed simp

text \<open>Everything that a closing client changes: its calls, its pending map and that it is closed.\<close>

lemma close_fold_simps [simp]:
  "sc_nextId (fold (\<lambda>(i, n). set_call n st) ps s) = sc_nextId s" "sc_closed (fold (\<lambda>(i, n). set_call n st) ps s) = sc_closed s"
  "sc_transport (fold (\<lambda>(i, n). set_call n st) ps s) = sc_transport s"
  by (induction ps arbitrary: s) auto

lemma handleClose_calls:
  assumes "client_inv s" "\<not> sc_closed s"
  shows "length (sc_calls (handleClose s)) = length (sc_calls s)"
    "m < length (sc_calls s) \<Longrightarrow> state_at (handleClose s) m =
       (if not_pending (state_at s m) then state_at s m else Settled (Inl connection_closed))"
    "sc_pending (handleClose s) = []" "sc_closed (handleClose s)"
proof -
  have "\<forall>(i, n) \<in> set (sc_pending s). n < length (sc_calls (s\<lparr>sc_closed := True\<rparr>))"
    using client_inv_pending [OF assms(1)] by auto
  from close_calls [OF client_invD(2) [OF assms(1)] this]
  have calls: "length (sc_calls (handleClose s)) = length (sc_calls s)"
      "m < length (sc_calls s) \<Longrightarrow> state_at (handleClose s) m =
         (if m \<in> snd ` set (sc_pending s) then Settled (Inl connection_closed) else state_at s m)" for m
    using assms(2) by (auto simp: handleClose_def state_at_def Let_def)
  show "length (sc_calls (handleClose s)) = length (sc_calls s)" by (rule calls(1))
  show "m < length (sc_calls s) \<Longrightarrow> state_at (handleClose s) m =
       (if not_pending (state_at s m) then state_at s m else Settled (Inl connection_closed))"
  proof -
    assume m: "m < length (sc_calls s)"
    have "m \<in> snd ` set (sc_pending s) \<longleftrightarrow> (\<exists>i. (i, m) \<in> set (sc_pending s))" by force
    then have "m \<in> snd ` set (sc_pending s) \<longleftrightarrow> \<not> not_pending (state_at s m)"
      using client_inv_pending [OF assms(1)] m by (simp add: not_pending_def)
    with calls(2) [OF m] show ?thesis by simp
  qed
  show "sc_pending (handleClose s) = []" "sc_closed (handleClose s)" using assms(2) by (simp_all add: handleClose_def)
qed

lemma client_inv_close: "client_inv s \<Longrightarrow> client_inv (handleClose s)"
proof (cases "sc_closed s")
  case False
  assume inv: "client_inv s"
  note c = handleClose_calls [OF inv False]
  show ?thesis
    by (rule client_invI) (auto simp: c not_pending_def split: if_splits)
qed (simp add: handleClose_def)

lemma client_inv_step: "client_inv s \<Longrightarrow> client_inv (client_step json_parse i s)"
proof (cases i)
  case (TransportOpened p outcome)
  assume "client_inv s"
  then show ?thesis
    by (auto simp: TransportOpened transport_opened_def intro: client_inv_cong split: sum.splits)
next
  case Close
  assume "client_inv s"
  then have "client_inv (handleClose s)" by (rule client_inv_close)
  then show ?thesis by (auto simp: Close close_client_def Let_def intro: client_inv_cong)
qed (simp_all add: client_inv_begin client_inv_resume client_inv_line client_inv_close)

lemma client_inv_run: "client_inv (client_run json_parse ins new_client)"
proof -
  have "client_inv new_client" by (simp add: client_inv_def new_client_def)
  then show ?thesis unfolding client_run_def by (induction ins rule: rev_induct) (simp_all add: client_inv_step)
qed

text \<open>A call that is settled stays as it is.\<close>

definition settled_stay :: "socket_client \<Rightarrow> socket_client \<Rightarrow> bool" where
  "settled_stay s s' \<longleftrightarrow> length (sc_calls s) \<le> length (sc_calls s') \<and>
     (\<forall>n < length (sc_calls s). \<forall>r. state_at s n = Settled r \<longrightarrow> state_at s' n = Settled r)"

lemma settled_stay_refl [simp]: "settled_stay s s"
  by (simp add: settled_stay_def)

lemma settled_stay_cong: "sc_calls s' = sc_calls s \<Longrightarrow> settled_stay s s'"
  by (simp add: settled_stay_def state_at_def)

lemma settled_stay_set_call:
  assumes "sc_calls t = sc_calls s" "\<And>r. state_at s n \<noteq> Settled r"
  shows "settled_stay s (set_call n st t)"
  unfolding settled_stay_def
proof (intro conjI allI impI)
  fix m r
  assume m: "m < length (sc_calls s)" "state_at s m = Settled r"
  then have "m \<noteq> n" using assms(2) by blast
  then show "state_at (set_call n st t) m = Settled r" using m assms(1) by (simp add: set_call_def state_at_def)
qed (simp add: assms(1))

lemma settled_stay_begin: "settled_stay s (request_begin meth args s)"
proof -
  obtain r s1 where c: "connect s = (r, s1)" by fastforce
  then have "sc_calls s1 = sc_calls s" by (auto simp: connect_def split: if_splits option.splits)
  then show ?thesis by (cases r) (auto simp: request_begin_def c settled_stay_def state_at_def nth_append)
qed

lemma settled_stay_send: "(\<And>r. state_at s n \<noteq> Settled r) \<Longrightarrow> sc_calls t = sc_calls s \<Longrightarrow> settled_stay s (send_request n sending t)"
  by (auto simp: send_request_def Let_def intro!: settled_stay_set_call split: sum.splits)

lemma settled_stay_resume: "settled_stay s (request_resume n sending s)"
  by (auto simp: request_resume_def Let_def state_at_def intro!: settled_stay_send settled_stay_set_call split: call_state.splits attempt.splits)

lemma settled_stay_settle:
  assumes "client_inv s"
  shows "settled_stay s (settle_request i outcome s)"
proof (cases "map_of (sc_pending s) i")
  case (Some n)
  then have "state_at s n = Pending i" using client_inv_pending [OF assms, of i n] by (auto dest: map_of_SomeD)
  then show ?thesis unfolding settle_request_def Some by (auto intro!: settled_stay_set_call)
qed (simp add: settle_request_def)

lemma settled_stay_close: "client_inv s \<Longrightarrow> settled_stay s (handleClose s)"
  using handleClose_calls [of s] by (cases "sc_closed s") (auto simp: settled_stay_def not_pending_def handleClose_def)

lemma settled_stay_step:
  assumes "client_inv s"
  shows "settled_stay s (client_step json_parse i s)"
proof (cases i)
  case (Line l)
  then show ?thesis
    using settled_stay_settle [OF assms] by (auto simp: handleLine_def settled_stay_cong split: option.splits)
next
  case (TransportOpened p outcome)
  then show ?thesis by (auto simp: transport_opened_def settled_stay_cong split: sum.splits)
next
  case Close
  then show ?thesis
    using settled_stay_close [OF assms] by (auto simp: close_client_def Let_def settled_stay_def state_at_def)
qed (simp_all add: settled_stay_begin settled_stay_resume settled_stay_close assms)

lemma settled_stay_run:
  assumes "client_inv s"
  shows "settled_stay s (client_run json_parse later s)"
proof -
  have "client_inv (client_run json_parse later s) \<and> settled_stay s (client_run json_parse later s)"
    unfolding client_run_def
  proof (induction later rule: rev_induct)
    case (snoc i later)
    then show ?case
      using settled_stay_step [of "fold (client_step json_parse) later s" json_parse i] client_inv_step
      by (auto simp: settled_stay_def)
  qed (simp add: assms)
  then show ?thesis by blast
qed

lemma closed_step_client: "sc_closed s \<Longrightarrow> sc_closed (client_step json_parse i s)"
  by (cases i) (auto simp: request_begin_def connect_def request_resume_def send_request_def transport_opened_def handleLine_def
      settle_request_def handleClose_def close_client_def Let_def split: option.splits call_state.splits attempt.splits sum.splits)

lemma closed_run:
  assumes "client_inv s" "sc_closed s"
  shows "client_inv (client_run json_parse later s) \<and> sc_closed (client_run json_parse later s)"
  unfolding client_run_def using assms
  by (induction later rule: rev_induct) (simp_all add: client_inv_step closed_step_client)

section \<open>Properties of the client\<close>

text \<open>
  An answer settles the call it belongs to: when an answer with the id of a pending request
  arrives, that call is settled with its result or with its error, every other call is left as it
  is, and no later input changes the outcome.
\<close>

theorem answer_settles_its_call:
  assumes "s = client_run json_parse ins new_client" "n < length (sc_calls s)" "cl_state (sc_calls s ! n) = Pending i"
    and "json_parse line = Inr (JObj kvs)" "jget (JObj kvs) ''id'' = JStr i" "jget (JObj kvs) ''method'' \<noteq> JStr ''thread/event''"
    and "outcome = (if isRecord (jget (JObj kvs) ''error'') then Inl (remoteError (jget (JObj kvs) ''error'')) else Inr (jget (JObj kvs) ''result''))"
  shows "cl_state (sc_calls (client_run json_parse later (handleLine json_parse line s)) ! n) = Settled outcome \<and>
    (\<forall>m < length (sc_calls s). m \<noteq> n \<longrightarrow> cl_state (sc_calls (handleLine json_parse line s) ! m) = cl_state (sc_calls s ! m))"
proof -
  have inv: "client_inv s" unfolding assms(1) by (rule client_inv_run)
  have "(i, n) \<in> set (sc_pending s)" using client_inv_pending [OF inv, of i n] assms(2, 3) by (simp add: state_at_def)
  then have "map_of (sc_pending s) i = Some n" using client_invD(1) [OF inv] by simp
  then have line: "handleLine json_parse line s = set_call n (Settled outcome) (s\<lparr>sc_pending := filter (\<lambda>(j, _). j \<noteq> i) (sc_pending s)\<rparr>)"
    using assms(4-7) by (simp add: handleLine_def safeParseDaemonLine_def settle_request_def del: jget.simps)
  have "state_at (handleLine json_parse line s) n = Settled outcome" "length (sc_calls (handleLine json_parse line s)) = length (sc_calls s)"
    unfolding line using assms(2) by (simp_all add: state_at_def set_call_def)
  moreover have "settled_stay (handleLine json_parse line s) (client_run json_parse later (handleLine json_parse line s))"
    by (rule settled_stay_run) (rule client_inv_line [OF inv])
  ultimately show ?thesis
    using assms(2) unfolding settled_stay_def state_at_def by (auto simp: line set_call_def nth_list_update)
qed

text \<open>
  C23. The end of a connection leaves no call pending: whether the client or the daemon closes it,
  every pending call is rejected, at once and for good, a call that was settled keeps its outcome,
  and no request is ever pending afterwards.
\<close>

theorem closing_settles_all:
  assumes "s = client_run json_parse ins new_client" "end_of = Close \<or> end_of = TransportClosed \<and> sc_transport s" "\<not> sc_closed s"
    and "n < length (sc_calls s)" "t = client_run json_parse later (client_step json_parse end_of s)"
  shows "(\<forall>i. cl_state (sc_calls s ! n) = Pending i \<longrightarrow> cl_state (sc_calls t ! n) = Settled (Inl connection_closed)) \<and>
    (\<forall>r. cl_state (sc_calls s ! n) = Settled r \<longrightarrow> cl_state (sc_calls t ! n) = Settled r) \<and> sc_pending t = []"
proof -
  have inv: "client_inv s" unfolding assms(1) by (rule client_inv_run)
  define u where "u = client_step json_parse end_of s"
  have u: "sc_calls u = sc_calls (handleClose s)" "sc_closed u"
    using assms(2) handleClose_calls(4) [OF inv assms(3)] by (auto simp: u_def close_client_def Let_def)
  have "client_inv u" unfolding u_def by (rule client_inv_step [OF inv])
  then have t: "settled_stay u t" "client_inv t" "sc_closed t"
    using settled_stay_run [of u json_parse later] closed_run [OF _ u(2), of json_parse later] assms(5) by (simp_all add: u_def)
  have "state_at u n = (if not_pending (state_at s n) then state_at s n else Settled (Inl connection_closed))" "n < length (sc_calls u)"
    using handleClose_calls(1, 2) [OF inv assms(3)] assms(4) u(1) by (simp_all add: state_at_def)
  with t show ?thesis using client_invD(4) unfolding settled_stay_def by (auto simp: state_at_def not_pending_def split: if_splits)
qed

section \<open>The two ends of a connection\<close>

interpretation client_lines: line_reader "consume_line json_parse" fst "\<lambda>_. True" snd "handleLine json_parse"
  by unfold_locales (auto simp: consume_line_def drain_lines_eq split: prod.splits)

text \<open>What a client hears of what the connection writes: each message once, over either transport.\<close>

definition hears :: "(string \<Rightarrow> string + json) \<Rightarrow> conn_out list \<Rightarrow> socket_client \<Rightarrow> socket_client" where
  "hears json_parse outs s = fold (\<lambda>out. handleLine json_parse (stringify (out_json out))) outs s"

lemma socket_hears:
  assumes "concat chunks = concat (map out_text outs)"
  shows "snd (fold (consume_line json_parse) chunks ([], s)) = hears json_parse outs s"
proof -
  have "map out_text outs = map encodeJsonLine (map out_json outs)" by (simp add: out_text_def)
  with client_lines.messages [of "([], s)" chunks "map out_json outs" "[]" json_parse] assms show ?thesis
    by (simp add: hears_def comp_def fold_map)
qed

lemma websocket_hears: "consume_message json_parse (out_text out) s = hears json_parse [out] s"
proof -
  have "newline \<notin> set (stringify (out_json out))"
    using printable_line [OF printable_stringify_all(1), of "out_json out"] by blast
  then have "split_on newline (stringify (out_json out) @ [newline]) = [stringify (out_json out), []]"
    using split_on_append [of newline "stringify (out_json out)" "[]"] by simp
  then show ?thesis
    by (simp add: consume_message_def out_text_def encodeJsonLine_def hears_def stringify_not_Nil newline_def [symmetric])
qed

lemma handle_reads:
  "reads_back json_parse v \<Longrightarrow> isRecord v \<Longrightarrow> handleLine json_parse (stringify v) s =
     (if jget (wire v) ''method'' = JStr ''thread/event'' then s\<lparr>sc_events := sc_events s @ [jget (wire v) ''params'']\<rparr>
      else settle_request (js_string (jget (wire v) ''id''))
        (if isRecord (jget (wire v) ''error'') then Inl (remoteError (jget (wire v) ''error'')) else Inr (jget (wire v) ''result'')) s)"
proof -
  assume v: "reads_back json_parse v" "isRecord v"
  obtain kvs where "wire v = JObj kvs" using v(2) by (auto simp: isRecord_obj)
  with v(1) show ?thesis by (simp add: handleLine_def safeParseDaemonLine_def del: jget.simps)
qed

text \<open>What the connection replies, and the outcome that the client makes of it.\<close>

definition reply_json :: "string \<Rightarrow> json result \<Rightarrow> json" where
  "reply_json i r = (case r of Inr v \<Rightarrow> success (JStr i) v | Inl e \<Rightarrow> failure (JStr i) e)"

definition client_outcome :: "json result \<Rightarrow> client_error + json" where
  "client_outcome r = (case r of Inr v \<Rightarrow> Inr (if v = JUndefined then JUndefined else wire v) | Inl e \<Rightarrow> Inl (remote_of e))"

lemma request_is_read:
  assumes "reads_back json_parse (request_json i meth args)"
  shows "\<exists>rpc. parseJsonRpcLine json_parse (stringify (request_json i meth args)) = Inr rpc \<and>
    jget rpc ''id'' = JStr i \<and> jget rpc ''method'' = JStr meth"
proof -
  let ?rpc = "wire (request_json i meth args)"
  have rpc: "is_jobj ?rpc" "jget ?rpc ''jsonrpc'' = JStr ''2.0''" "jget ?rpc ''id'' = JStr i" "jget ?rpc ''method'' = JStr meth"
    by (simp_all add: request_json_def)
  moreover have "jtruthy ?rpc" by (simp add: request_json_def)
  ultimately have "isJsonRpcRequest ?rpc" unfolding isJsonRpcRequest_iff by simp
  with rpc reads_backD [OF assms] show ?thesis unfolding parseJsonRpcLine_def by simp
qed

lemma line_becomes_call:
  assumes "parseJsonRpcLine json_parse line = Inr rpc"
  shows "\<exists>outcome. rt_calls (handle_line json_parse line rt) =
    rt_calls rt @ [\<lparr>ca_id = jget rpc ''id'', ca_method = js_string (jget rpc ''method''), ca_outcome = outcome\<rparr>]"
proof -
  obtain outcome s1 where d: "dispatch_request rpc rt = (outcome, s1)" by fastforce
  with same_calls_dispatch [OF d] show ?thesis by (simp add: handle_line_def assms Let_def same_calls_def)
qed

lemma reply_settles:
  assumes "client_inv s" "n < length (sc_calls s)" "state_at s n = Pending i" "reads_back json_parse (reply_json i r)"
  shows "state_at (hears json_parse [Reply k (reply_json i r)] s) n = Settled (client_outcome r)"
    "m \<noteq> n \<Longrightarrow> state_at (hears json_parse [Reply k (reply_json i r)] s) m = state_at s m"
proof -
  have "(i, n) \<in> set (sc_pending s)" using client_inv_pending [OF assms(1)] assms(2, 3) by simp
  then have "map_of (sc_pending s) i = Some n" using client_invD(1) [OF assms(1)] by simp
  moreover have "handleLine json_parse (stringify (reply_json i r)) s = settle_request i (client_outcome r) s"
    using assms(4) handle_reads [of json_parse "reply_json i r" s] remoteError_wire
    by (cases r) (auto simp: reply_json_def client_outcome_def failure_def [of _ _] success_def [of _ _] simp del: stringify.simps)
  ultimately have "hears json_parse [Reply k (reply_json i r)] s =
      set_call n (Settled (client_outcome r)) (s\<lparr>sc_pending := filter (\<lambda>(j, _). j \<noteq> i) (sc_pending s)\<rparr>)"
    by (simp add: hears_def out_json_def settle_request_def)
  then show "state_at (hears json_parse [Reply k (reply_json i r)] s) n = Settled (client_outcome r)"
    "m \<noteq> n \<Longrightarrow> state_at (hears json_parse [Reply k (reply_json i r)] s) m = state_at s m"
    using assms(2) by (simp_all add: set_call_def state_at_def)
qed

text \<open>The parameters as they are sent, and what a client's step sends.\<close>

definition sent_value :: "json \<Rightarrow> json" where
  "sent_value args = (if nullish args then JObj [] else args)"

definition newly_sent :: "socket_client \<Rightarrow> socket_client \<Rightarrow> string" where
  "newly_sent s s' = concat (drop (length (sc_sent s)) (sc_sent s'))"

lemma resume_sends:
  assumes "n < length (sc_calls s)" "not_pending (state_at s n)" "state_at (request_resume n sending s) n = Pending i"
  shows "newly_sent s (request_resume n sending s) =
    encodeJsonLine (request_json i (cl_method (sc_calls s ! n)) (cl_params (sc_calls s ! n)))"
proof -
  let ?line = "\<lambda>i. encodeJsonLine (request_json i (cl_method (sc_calls s ! n)) (cl_params (sc_calls s ! n)))"
  have sends: "newly_sent s (send_request n sending t) = ?line i"
    if "state_at (send_request n sending t) n = Pending i" "sc_calls t = sc_calls s" "sc_sent t = sc_sent s" for t
    using that assms(1, 2)
    by (auto simp: send_request_def newly_sent_def Let_def state_at_def set_call_def not_pending_def split: if_splits sum.splits)
  show ?thesis
    using assms sends [of s] sends [of "s\<lparr>sc_connecting := None\<rparr>"]
    by (auto simp: request_resume_def Let_def not_pending_def state_at_def set_call_def split: call_state.splits attempt.splits if_splits)
qed

lemma request_is_dispatched:
  assumes "parseJsonRpcLine json_parse line = Inr rpc" "jget rpc ''method'' = JStr meth" "jget rpc ''params'' = args" "isRecord args"
    and "meth \<notin> set subscribe_methods" "\<not> starts_with ''unsubscribe/'' meth"
  shows "rt_dispatched (handle_line json_parse line rt) = rt_dispatched rt @ [(meth, args)]"
proof -
  obtain kvs where "args = JObj kvs" using assms(4) by (auto simp: isRecord_obj)
  then show ?thesis using assms by (simp add: handle_line_def dispatch_request_def Let_def)
qed

text \<open>
  C11. A call over a socket. What the client sends when a call goes on becomes, however it is cut into
  chunks, exactly one call of the connection, with the method of the client's call and the id under which
  the client waits, and, unless it opens or ends a subscription, the service is called with this method
  and the parameters of the call; and when the connection later replies to it, the client's call, if
  it still waits, is settled with the result as it is on the wire or with the code, the message and the
  data of the error, and no other call of the client changes: over the Unix socket, however the text is
  cut, and over a WebSocket.
\<close>

theorem socket_call_roundtrip:
  assumes "s = client_run json_parse ins new_client" "n < length (sc_calls s)" "\<forall>j. cl_state (sc_calls s ! n) \<noteq> Pending j"
    and "s' = client_step json_parse (Resume n sending) s" "cl_state (sc_calls s' ! n) = Pending i"
    and "meth = cl_method (sc_calls s ! n)" "args = sent_value (cl_params (sc_calls s ! n))"
    and "reads_back json_parse (request_json i meth args)" "concat chunks = newly_sent s s'" "\<not> rt_closed rt"
    and "served = snd (fold (handle_chunk json_parse) chunks ([], rt))" "k = length (rt_calls rt)"
    and "t = client_run json_parse later s'" "cl_state (sc_calls t ! n) = Pending i"
    and "rt_calls rt' ! k = rt_calls served ! k" "\<not> rt_closed rt'" "\<not> rt_destroyed rt'"
    and "out = last (rt_written (answer_line k r rt'))" "reads_back json_parse (reply_json i r)" "concat pieces = out_text out"
    and "t' \<in> {snd (fold (consume_line json_parse) pieces ([], t)), consume_message json_parse (out_text out) t}"
  shows "length (rt_calls served) = Suc k \<and> ca_id (rt_calls served ! k) = JStr i \<and> ca_method (rt_calls served ! k) = meth \<and>
    (isRecord args \<and> meth \<notin> set subscribe_methods \<and> \<not> starts_with ''unsubscribe/'' meth \<longrightarrow>
       rt_dispatched served = rt_dispatched rt @ [(meth, wire args)]) \<and>
    cl_state (sc_calls t' ! n) = Settled (client_outcome r) \<and>
    (\<forall>m. m \<noteq> n \<longrightarrow> cl_state (sc_calls t' ! m) = cl_state (sc_calls t ! m))"
proof -
  have inv: "client_inv s" unfolding assms(1) by (rule client_inv_run)
  have request: "request_json i meth (cl_params (sc_calls s ! n)) = request_json i meth args"
    by (simp add: request_json_def assms(7) sent_value_def)
  have "newly_sent s s' = encodeJsonLine (request_json i meth (cl_params (sc_calls s ! n)))"
    using resume_sends [OF assms(2), of sending i] assms(3-6) by (simp add: not_pending_def state_at_def)
  with assms(9) have line: "concat chunks = encodeJsonLine (request_json i meth args)" by (simp only: request)
  obtain rpc where rpc: "parseJsonRpcLine json_parse (stringify (request_json i meth args)) = Inr rpc"
      "jget rpc ''id'' = JStr i" "jget rpc ''method'' = JStr meth"
    using request_is_read [OF assms(8)] by blast
  have served: "served = handle_line json_parse (stringify (request_json i meth args)) rt"
    using connection_lines.messages [of "([], rt)" chunks "[request_json i meth args]" "[]" json_parse] line assms(10, 11) by simp
  with line_becomes_call [OF rpc(1), of rt] rpc(2, 3) obtain outcome
    where calls: "rt_calls served = rt_calls rt @ [\<lparr>ca_id = JStr i, ca_method = meth, ca_outcome = outcome\<rparr>]" by auto
  have dispatched: "rt_dispatched served = rt_dispatched rt @ [(meth, wire args)]"
    if "isRecord args" "meth \<notin> set subscribe_methods" "\<not> starts_with ''unsubscribe/'' meth"
  proof -
    have "rpc = wire (request_json i meth args)"
      using rpc(1) reads_backD [OF assms(8)] by (simp add: parseJsonRpcLine_def split: if_splits)
    moreover have "\<not> nullish args" using that(1) by (cases args) (auto simp: isRecord_def)
    ultimately have "jget rpc ''params'' = wire args"
      using that(1) by (cases args) (simp_all add: request_json_def isRecord_def)
    from request_is_dispatched [OF rpc(1,3) this] that show ?thesis by (simp add: served)
  qed
  have "ca_id (rt_calls rt' ! k) = JStr i" using calls assms(12, 15) by simp
  then have out: "out = Reply k (reply_json i r)"
    using assms(16-18) by (cases r) (simp_all add: answer_line_def reply_json_def writing_def Let_def)
  have inv': "client_inv s'" unfolding assms(4) by (rule client_inv_step [OF inv])
  have "t = client_run json_parse (ins @ Resume n sending # later) new_client"
    by (simp add: assms(1, 4, 13) client_run_def)
  then have inv_t: "client_inv t" by (simp only: client_inv_run)
  have size: "n < length (sc_calls t)"
    using settled_stay_step [OF inv, of json_parse "Resume n sending"] settled_stay_run [OF inv', of json_parse later] assms(2, 4, 13)
    by (simp add: settled_stay_def)
  have "t' = hears json_parse [out] t"
    using assms(20, 21) socket_hears [of pieces "[out]" json_parse t] websocket_hears [of json_parse out t] by auto
  with reply_settles [OF inv_t size _ assms(19)] assms(14)
  have "state_at t' n = Settled (client_outcome r)" "\<And>m. m \<noteq> n \<Longrightarrow> state_at t' m = state_at t m" by (simp_all add: out state_at_def)
  with calls assms(12) dispatched show ?thesis by (simp add: state_at_def)
qed

section \<open>Instances\<close>

definition sample_client_inputs :: "client_input list" where
  "sample_client_inputs = [Request ''worker/list'' (JObj []), Request ''thread/list'' (JObj []), TransportOpened 0 (Inr ()),
     Resume 1 (Inr ()), Resume 0 (Inr ())]"

definition sample_socket_parse :: "string \<Rightarrow> string + json" where
  "sample_socket_parse = parse_of [reply_json ''2'' (Inr (JBool True)), request_json ''2'' ''worker/list'' (JObj [])]"

definition sample_socket :: socket_client where
  "sample_socket = client_run sample_socket_parse sample_client_inputs new_client"

lemma sample_calls: "map cl_state (sc_calls sample_socket) = [Pending ''2'', Pending ''1'']" "sc_closed sample_socket = False" "sc_transport sample_socket"
  by code_simp+

lemma sample_state: "0 < length (sc_calls sample_socket)" "cl_state (sc_calls sample_socket ! 0) = Pending ''2''"
proof -
  show size: "0 < length (sc_calls sample_socket)" using arg_cong [OF sample_calls(1), of length] by simp
  have "cl_state (sc_calls sample_socket ! 0) = map cl_state (sc_calls sample_socket) ! 0" using size by simp
  then show "cl_state (sc_calls sample_socket ! 0) = Pending ''2''" unfolding sample_calls(1) by simp
qed

lemma sample_socket_reads:
  "reads_back sample_socket_parse (reply_json ''2'' (Inr (JBool True)))" "reads_back sample_socket_parse (request_json ''2'' ''worker/list'' (JObj []))"
  by code_simp+

theorem answer_settles_its_call_witness:
  "cl_state (sc_calls (client_run sample_socket_parse [] (handleLine sample_socket_parse (stringify (reply_json ''2'' (Inr (JBool True)))) sample_socket)) ! 0) =
     Settled (Inr (JBool True))"
proof -
  have "sample_socket_parse (stringify (reply_json ''2'' (Inr (JBool True)))) =
      Inr (JObj [(''jsonrpc'', JStr ''2.0''), (''id'', JStr ''2''), (''result'', JBool True)])" by code_simp
  from answer_settles_its_call [OF sample_socket_def sample_state this _ _ refl, of "[]"] show ?thesis by simp
qed

theorem closing_settles_all_witness:
  "cl_state (sc_calls (client_run sample_socket_parse [] (client_step sample_socket_parse Close sample_socket)) ! 0) = Settled (Inl connection_closed)"
  using closing_settles_all [OF sample_socket_def _ _ sample_state(1) refl, of Close "[]"] sample_calls sample_state(2) by simp

definition sample_connecting :: socket_client where
  "sample_connecting = client_run sample_socket_parse (butlast sample_client_inputs) new_client"

theorem socket_call_roundtrip_witness:
  "cl_state (sc_calls (consume_message sample_socket_parse (out_text (Reply 0 (reply_json ''2'' (Inr (JBool True))))) sample_socket) ! 0) =
     Settled (Inr (JBool True))"
proof -
  let ?line = "encodeJsonLine (request_json ''2'' ''worker/list'' (JObj []))" and ?rt = "snd (new_connection sample_one)"
  define served where "served = snd (fold (handle_chunk sample_socket_parse) [?line] ([], ?rt))"
  have rt: "\<not> rt_closed ?rt" "rt_calls ?rt = []" "\<not> rt_destroyed ?rt" by (simp_all add: new_connection_def)
  define rt' where "rt' = ?rt\<lparr>rt_calls := rt_calls served\<rparr>"
  have more: "rt_calls rt' ! 0 = rt_calls served ! 0" "\<not> rt_closed rt'" "\<not> rt_destroyed rt'" using rt by (simp_all add: rt'_def)
  have before: "0 < length (sc_calls sample_connecting)" "cl_state (sc_calls sample_connecting ! 0) = Connecting 0"
    "cl_method (sc_calls sample_connecting ! 0) = ''worker/list''" "cl_params (sc_calls sample_connecting ! 0) = JObj []"
    by code_simp+
  have step: "sample_socket = client_step sample_socket_parse (Resume 0 (Inr ())) sample_connecting"
    "sample_socket = client_run sample_socket_parse [] sample_socket"
    by (simp_all add: sample_socket_def sample_connecting_def sample_client_inputs_def client_run_def)
  have sent: "concat [?line] = newly_sent sample_connecting sample_socket"
    using resume_sends [OF before(1), of "Inr ()" "''2''"] before sample_state(2) step(1)
    by (simp add: not_pending_def state_at_def)
  let ?out = "last (rt_written (answer_line 0 (Inr (JBool True)) rt'))"
  have args: "JObj [] = sent_value (cl_params (sc_calls sample_connecting ! 0))" by (simp add: before(4) sent_value_def)
  note trip = socket_call_roundtrip [OF sample_connecting_def before(1) _ step(1) sample_state(2) before(3) [symmetric] args
      sample_socket_reads(2) sent rt(1) served_def _ step(2) sample_state(2) more refl sample_socket_reads(1),
      where pieces = "[out_text ?out]" and t' = "consume_message sample_socket_parse (out_text ?out) sample_socket"]
  have "rt_calls served = [\<lparr>ca_id = JStr ''2'', ca_method = ''worker/list'', ca_outcome = None\<rparr>]"
    unfolding served_def by code_simp
  then have "?out = Reply 0 (reply_json ''2'' (Inr (JBool True)))"
    using more rt by (simp add: answer_line_def writing_def rt'_def reply_json_def Let_def)
  with trip rt(2) before(2) show ?thesis by (simp add: client_outcome_def)
qed

end
