(* ===== verification/Daemon_Client.thy ===== *)
theory Daemon_Client
  imports Socket_Props Http_Server
begin

text \<open>
  \<open>src/client/daemon-client.ts\<close>: the client of the daemon over either kind of endpoint, and which socket
  connections it owns. One connection is shared by all requests; every subscription and every turn
  has one of its own, which is released when its stream ends. The connections are clients of
  \<open>Socket_Client\<close>, known by the order in which they were opened; what an HTTP client does with a call is
  in \<open>Http_Client\<close>.
\<close>

section \<open>State\<close>

record daemon_client =
  dc_closed :: bool
  dc_http :: bool
  dc_http_closed :: bool
  dc_shared :: "nat option"
  dc_sockets :: "nat list"
  dc_objects :: "nat \<Rightarrow> socket_client"
  dc_opened :: nat
  dc_streams :: "nat list"
  dc_done :: bool

text \<open>\<open>/^https?:\/\//.test(endpoint)\<close>.\<close>

definition http_endpoint :: "string \<Rightarrow> bool" where
  "http_endpoint endpoint \<longleftrightarrow> starts_with ''http://'' endpoint \<or> starts_with ''https://'' endpoint"

definition new_daemon_client :: "string \<Rightarrow> daemon_client" where
  "new_daemon_client endpoint = \<lparr>dc_closed = False, dc_http = http_endpoint endpoint, dc_http_closed = False, dc_shared = None,
     dc_sockets = [], dc_objects = (\<lambda>_. new_client), dc_opened = 0, dc_streams = [], dc_done = False\<rparr>"

definition assertOpen :: "daemon_client \<Rightarrow> unit result" where
  "assertOpen s = (if dc_closed s then Inl (DaemonError StreamInterrupted ''Daemon client closed'' None) else Inr ())"

section \<open>Connections\<close>

definition openSocket :: "daemon_client \<Rightarrow> nat result \<times> daemon_client" where
  "openSocket s =
     (case assertOpen s of
        Inl e \<Rightarrow> (Inl e, s)
      | Inr _ \<Rightarrow> (Inr (dc_opened s), s\<lparr>dc_sockets := dc_sockets s @ [dc_opened s], dc_opened := dc_opened s + 1,
          dc_objects := (dc_objects s)(dc_opened s := new_client)\<rparr>))"

definition on_socket :: "nat \<Rightarrow> (socket_client \<Rightarrow> socket_client) \<Rightarrow> daemon_client \<Rightarrow> daemon_client" where
  "on_socket n f s = s\<lparr>dc_objects := (dc_objects s)(n := f (dc_objects s n))\<rparr>"

definition release_socket :: "nat \<Rightarrow> daemon_client \<Rightarrow> daemon_client" where
  "release_socket n s = on_socket n close_client (s\<lparr>dc_sockets := removeAll n (dc_sockets s)\<rparr>)"

section \<open>Operations\<close>

text \<open>
  Each operation up to its first \<open>await\<close>. The result is the connection that the request went to,
  \<open>None\<close> when the HTTP client has it.
\<close>

definition dc_request :: "string \<Rightarrow> json \<Rightarrow> daemon_client \<Rightarrow> nat option result \<times> daemon_client" where
  "dc_request meth args s =
     (case assertOpen s of
        Inl e \<Rightarrow> (Inl e, s)
      | Inr _ \<Rightarrow>
          if starts_with ''subscribe/'' meth \<or> starts_with ''unsubscribe/'' meth
          then (Inl (DaemonError InvalidParams ''Use subscribe() to own an event stream'' None), s)
          else if dc_http s then (Inr None, s)
          else case dc_shared s of
            Some n \<Rightarrow> (Inr (Some n), on_socket n (request_begin meth args) s)
          | None \<Rightarrow>
              (case openSocket s of
                 (Inl e, s1) \<Rightarrow> (Inl e, s1)
               | (Inr n, s1) \<Rightarrow> (Inr (Some n), on_socket n (request_begin meth args) (s1\<lparr>dc_shared := Some n\<rparr>))))"

text \<open>A connection of its own for a stream, and the request that subscribes it.\<close>

definition own_socket :: "json \<Rightarrow> daemon_client \<Rightarrow> nat option result \<times> daemon_client" where
  "own_socket flt s =
     (case openSocket s of
        (Inl e, s1) \<Rightarrow> (Inl e, s1)
      | (Inr n, s1) \<Rightarrow> (Inr (Some n), on_socket n (request_begin ''subscribe/all'' flt) (s1\<lparr>dc_streams := dc_streams s1 @ [n]\<rparr>)))"

definition dc_subscribe :: "json \<Rightarrow> daemon_client \<Rightarrow> nat option result \<times> daemon_client" where
  "dc_subscribe flt s =
     (case assertOpen s of
        Inl e \<Rightarrow> (Inl e, s)
      | Inr _ \<Rightarrow>
          (case validateEventFilter flt of
             Inl e \<Rightarrow> (Inl e, s)
           | Inr checked \<Rightarrow> if dc_http s then (Inr None, s) else own_socket checked s))"

text \<open>\<open>streamTurn\<close> up to the stream it returns, and the subscription of its source when the turn asks for it.\<close>

definition dc_streamTurn :: "string \<Rightarrow> daemon_client \<Rightarrow> unit result" where
  "dc_streamTurn meth s = (case assertOpen s of Inl e \<Rightarrow> Inl e | Inr _ \<Rightarrow> assertTurnMethod meth)"

definition turn_subscribe :: "json \<Rightarrow> daemon_client \<Rightarrow> nat option result \<times> daemon_client" where
  "turn_subscribe flt s = (case assertOpen s of Inl e \<Rightarrow> (Inl e, s) | Inr _ \<Rightarrow> own_socket flt s)"

text \<open>
  \<open>close\<close>: until the \<open>await\<close> of the HTTP client, then the connections it finds, then it resolves.
\<close>

definition close_begin :: "daemon_client \<Rightarrow> daemon_client" where
  "close_begin s = (if dc_closed s then s else s\<lparr>dc_closed := True, dc_http_closed := dc_http s\<rparr>)"

definition close_sockets :: "daemon_client \<Rightarrow> daemon_client" where
  "close_sockets s = (fold (\<lambda>n. on_socket n close_client) (dc_sockets s) s)\<lparr>dc_sockets := [], dc_done := True\<rparr>"

section \<open>Steps\<close>

text \<open>
  What can happen to a client: a call of one of its methods, an input of one of its connections, the end of
  a stream (its consumer or its limit closes it, its connection is lost or its subscription is refused) or
  of a turn (the same, or its signal), and the continuation of \<open>close\<close>.
\<close>

datatype daemon_client_step =
    DRequest string json
  | DSubscribe json
  | DTurnSubscribe json
  | DSocket nat client_input
  | DRelease nat
  | DClose
  | DCloseSockets

fun dc_step :: "(string \<Rightarrow> string + json) \<Rightarrow> daemon_client_step \<Rightarrow> daemon_client \<Rightarrow> daemon_client" where
  "dc_step json_parse (DRequest meth args) s = snd (dc_request meth args s)"
| "dc_step json_parse (DSubscribe flt) s = snd (dc_subscribe flt s)"
| "dc_step json_parse (DTurnSubscribe flt) s = snd (turn_subscribe flt s)"
| "dc_step json_parse (DSocket n i) s = (if n < dc_opened s then on_socket n (client_step json_parse i) s else s)"
| "dc_step json_parse (DRelease n) s = (if n \<in> set (dc_streams s) then release_socket n s else s)"
| "dc_step json_parse DClose s = close_begin s"
| "dc_step json_parse DCloseSockets s = (if dc_closed s \<and> \<not> dc_done s then close_sockets s else s)"

definition dc_run :: "(string \<Rightarrow> string + json) \<Rightarrow> daemon_client_step list \<Rightarrow> daemon_client \<Rightarrow> daemon_client" where
  "dc_run json_parse ops s = fold (dc_step json_parse) ops s"

section \<open>What the client owns\<close>

text \<open>
  Every connection that was opened is either owned or closed; the shared one and those of streams
  are different ones; once \<open>close\<close> has resolved none is owned.
\<close>

definition dc_inv :: "daemon_client \<Rightarrow> bool" where
  "dc_inv s \<longleftrightarrow>
     (\<forall>n. client_inv (dc_objects s n)) \<and>
     (\<forall>n < dc_opened s. n \<in> set (dc_sockets s) \<or> sc_closed (dc_objects s n)) \<and>
     set (dc_streams s) \<subseteq> {..<dc_opened s} \<and>
     (\<forall>n. dc_shared s = Some n \<longrightarrow> n < dc_opened s \<and> n \<notin> set (dc_streams s)) \<and>
     (dc_done s \<longrightarrow> dc_closed s \<and> dc_sockets s = [])"

lemma dc_invI:
  assumes "\<And>n. client_inv (dc_objects s n)" "\<And>n. n < dc_opened s \<Longrightarrow> n \<in> set (dc_sockets s) \<or> sc_closed (dc_objects s n)"
    and "\<And>n. n \<in> set (dc_streams s) \<Longrightarrow> n < dc_opened s" "\<And>n. dc_shared s = Some n \<Longrightarrow> n < dc_opened s \<and> n \<notin> set (dc_streams s)"
    and "dc_done s \<Longrightarrow> dc_closed s \<and> dc_sockets s = []"
  shows "dc_inv s"
  using assms by (auto simp: dc_inv_def)

lemma dc_invD:
  assumes "dc_inv s"
  shows "client_inv (dc_objects s n)" "n < dc_opened s \<Longrightarrow> n \<in> set (dc_sockets s) \<or> sc_closed (dc_objects s n)"
    "n \<in> set (dc_streams s) \<Longrightarrow> n < dc_opened s" "dc_shared s = Some n \<Longrightarrow> n < dc_opened s \<and> n \<notin> set (dc_streams s)"
    "dc_done s \<Longrightarrow> dc_closed s \<and> dc_sockets s = []"
  using assms by (auto simp: dc_inv_def)

lemma on_socket_fields [simp]:
  "dc_closed (on_socket n f s) = dc_closed s" "dc_http (on_socket n f s) = dc_http s" "dc_shared (on_socket n f s) = dc_shared s"
  "dc_sockets (on_socket n f s) = dc_sockets s" "dc_opened (on_socket n f s) = dc_opened s" "dc_streams (on_socket n f s) = dc_streams s"
  "dc_done (on_socket n f s) = dc_done s"
  "dc_objects (on_socket n f s) m = (if m = n then f (dc_objects s n) else dc_objects s m)"
  by (simp_all add: on_socket_def)

lemma client_inv_new: "client_inv new_client"
  using client_inv_run [of _ "[]"] by (simp add: client_run_def)

lemma close_client_inv: "client_inv s \<Longrightarrow> client_inv (close_client s)" "sc_closed (close_client s)"
  using client_inv_step [of s undefined client_input.Close] by (auto simp: close_client_def handleClose_def Let_def)

lemma dc_inv_on_socket:
  assumes "dc_inv s" "\<And>c. client_inv c \<Longrightarrow> client_inv (f c)" "\<And>c. sc_closed c \<Longrightarrow> sc_closed (f c)"
  shows "dc_inv (on_socket n f s)"
  using assms unfolding dc_inv_def by (simp, meson)

lemma request_step: "request_begin meth args = client_step json_parse (Request meth args)"
  by (simp add: fun_eq_iff)

lemma dc_inv_request:
  "dc_inv s \<Longrightarrow> dc_inv (on_socket n (request_begin meth args) s)"
  unfolding request_step [of meth args undefined] by (rule dc_inv_on_socket) (simp_all add: client_inv_step closed_step_client del: client_step.simps)

lemma dc_inv_open:
  assumes "dc_inv s" "openSocket s = (Inr n, s1)"
  shows "dc_inv s1" "n = dc_opened s" "dc_opened s1 = Suc n" "dc_streams s1 = dc_streams s" "dc_shared s1 = dc_shared s" "\<not> dc_closed s"
proof -
  have closed: "\<not> dc_closed s" "\<not> dc_done s"
    using assms dc_invD(5) by (auto simp: openSocket_def assertOpen_def split: if_splits)
  then have s1: "s1 = s\<lparr>dc_sockets := dc_sockets s @ [dc_opened s], dc_opened := dc_opened s + 1,
      dc_objects := (dc_objects s)(dc_opened s := new_client)\<rparr>"
    using assms(2) by (auto simp: openSocket_def assertOpen_def)
  show "dc_inv s1"
    by (rule dc_invI; use dc_invD [OF assms(1)] client_inv_new closed in \<open>simp add: s1 less_Suc_eq split: if_splits\<close>; blast?)
  show "n = dc_opened s" "dc_opened s1 = Suc n" "dc_streams s1 = dc_streams s" "dc_shared s1 = dc_shared s" "\<not> dc_closed s"
    using assms(2) closed by (auto simp: openSocket_def assertOpen_def)
qed

lemma dc_inv_own:
  assumes "dc_inv s"
  shows "dc_inv (snd (own_socket flt s))"
proof (cases "openSocket s")
  case (Pair r s1)
  show ?thesis
  proof (cases r)
    case (Inl e)
    with Pair assms show ?thesis by (auto simp: own_socket_def openSocket_def split: sum.splits)
  next
    case (Inr n)
    note open_facts = dc_inv_open [OF assms Pair [unfolded Inr]]
    then have "dc_inv (s1\<lparr>dc_streams := dc_streams s1 @ [n]\<rparr>)"
      using assms unfolding dc_inv_def by auto
    then show ?thesis using dc_inv_request by (simp add: own_socket_def Pair Inr)
  qed
qed

lemma dc_inv_ask:
  assumes "dc_inv s"
  shows "dc_inv (snd (dc_request meth args s))"
proof (cases "openSocket s")
  case (Pair r s1)
  show ?thesis
  proof (cases r)
    case (Inl e)
    with Pair assms show ?thesis
      by (auto simp: dc_request_def openSocket_def dc_inv_request split: sum.splits option.splits)
  next
    case (Inr n)
    note open_facts = dc_inv_open [OF assms Pair [unfolded Inr]]
    then have "dc_inv (s1\<lparr>dc_shared := Some n\<rparr>)"
      using assms unfolding dc_inv_def by auto
    with assms show ?thesis
      by (auto simp: dc_request_def Pair Inr dc_inv_request split: sum.splits option.splits)
  qed
qed

lemma dc_inv_release:
  assumes "dc_inv s"
  shows "dc_inv (release_socket n s)"
  using assms close_client_inv unfolding dc_inv_def release_socket_def by auto

lemma close_fold_fields [simp]:
  "dc_closed (fold (\<lambda>n. on_socket n f) ns s) = dc_closed s" "dc_opened (fold (\<lambda>n. on_socket n f) ns s) = dc_opened s"
  "dc_streams (fold (\<lambda>n. on_socket n f) ns s) = dc_streams s" "dc_shared (fold (\<lambda>n. on_socket n f) ns s) = dc_shared s"
  by (induction ns arbitrary: s) simp_all

lemma closed_fold:
  "(\<forall>n. client_inv (dc_objects s n)) \<Longrightarrow>
    client_inv (dc_objects (fold (\<lambda>n. on_socket n close_client) ns s) m) \<and>
    (m \<in> set ns \<or> sc_closed (dc_objects s m) \<longrightarrow> sc_closed (dc_objects (fold (\<lambda>n. on_socket n close_client) ns s) m))"
proof (induction ns arbitrary: s)
  case (Cons n ns)
  have "\<forall>k. client_inv (dc_objects (on_socket n close_client s) k)" using Cons.prems close_client_inv(1) by simp
  from Cons.IH [OF this] show ?case using close_client_inv(2) by auto
qed simp

lemma dc_inv_close_sockets: "dc_inv s \<Longrightarrow> dc_closed s \<Longrightarrow> dc_inv (close_sockets s)"
  using closed_fold [of s "dc_sockets s"] unfolding dc_inv_def close_sockets_def by (simp, blast)

lemma dc_inv_step: "dc_inv s \<Longrightarrow> dc_inv (dc_step json_parse op s)"
proof (cases op)
  case (DSubscribe flt)
  assume "dc_inv s"
  then show ?thesis using dc_inv_own
    by (auto simp: DSubscribe dc_subscribe_def split: sum.splits)
next
  case (DTurnSubscribe flt)
  assume "dc_inv s"
  then show ?thesis using dc_inv_own by (auto simp: DTurnSubscribe turn_subscribe_def split: sum.splits)
next
  case (DSocket n i)
  assume "dc_inv s"
  then show ?thesis by (simp add: DSocket dc_inv_on_socket client_inv_step closed_step_client del: client_step.simps)
next
  case DClose
  assume "dc_inv s"
  then show ?thesis by (auto simp: DClose close_begin_def dc_inv_def)
qed (simp_all add: dc_inv_ask dc_inv_release dc_inv_close_sockets)

lemma dc_inv_run: "dc_inv s \<Longrightarrow> dc_inv (dc_run json_parse ops s)"
  unfolding dc_run_def by (induction ops rule: rev_induct) (simp_all add: dc_inv_step)

lemma dc_inv_new: "dc_inv (new_daemon_client endpoint)"
  by (simp add: dc_inv_def new_daemon_client_def client_inv_new)

text \<open>A client that has been closed opens nothing.\<close>

lemma closed_refuses:
  assumes "dc_closed s"
  shows "dc_request meth args s = (Inl (DaemonError StreamInterrupted ''Daemon client closed'' None), s)"
    "dc_subscribe flt s = (Inl (DaemonError StreamInterrupted ''Daemon client closed'' None), s)"
    "turn_subscribe flt s = (Inl (DaemonError StreamInterrupted ''Daemon client closed'' None), s)"
    "dc_streamTurn meth s = Inl (DaemonError StreamInterrupted ''Daemon client closed'' None)"
  using assms by (simp_all add: dc_request_def dc_subscribe_def turn_subscribe_def dc_streamTurn_def assertOpen_def)

lemma closed_stays:
  "dc_closed s \<Longrightarrow> dc_closed (dc_step json_parse op s) \<and> dc_opened (dc_step json_parse op s) = dc_opened s \<and>
     (dc_done s \<longrightarrow> dc_done (dc_step json_parse op s))"
  by (cases op) (simp_all add: closed_refuses release_socket_def close_begin_def close_sockets_def)

lemma closed_stays_run:
  "dc_closed s \<Longrightarrow> dc_closed (dc_run json_parse ops s) \<and> dc_opened (dc_run json_parse ops s) = dc_opened s \<and>
     (dc_done s \<longrightarrow> dc_done (dc_run json_parse ops s))"
  unfolding dc_run_def by (induction ops rule: rev_induct) (simp_all add: closed_stays)

text \<open>
  C18. Once \<open>close\<close> of a daemon client has resolved, nothing of it is left, whatever was going on: every
  connection it ever opened - the shared one, those of subscriptions and of turns, also those whose
  opening was under way - is closed and no call on them is pending, and later steps open no other
  and refuse every request; before that, a connection that is not owned any more has been closed.
\<close>

theorem daemon_client_leaves_nothing:
  assumes "s = dc_run json_parse ops (new_daemon_client endpoint)" "t = dc_run json_parse later s"
  shows "(\<forall>n < dc_opened s. n \<in> set (dc_sockets s) \<or> sc_closed (dc_objects s n)) \<and>
    (dc_done s \<longrightarrow> dc_opened t = dc_opened s \<and>
       (\<forall>n < dc_opened t. sc_closed (dc_objects t n) \<and>
          (\<forall>k < length (sc_calls (dc_objects t n)). \<forall>i. cl_state (sc_calls (dc_objects t n) ! k) \<noteq> Pending i)) \<and>
       fst (dc_request meth args t) = Inl (DaemonError StreamInterrupted ''Daemon client closed'' None))"
proof -
  have s: "dc_inv s" unfolding assms(1) by (rule dc_inv_run [OF dc_inv_new])
  then have t: "dc_inv t" unfolding assms(2) by (rule dc_inv_run)
  have "dc_opened t = dc_opened s" "dc_closed t" "dc_sockets t = []" if "dc_done s"
  proof -
    have "dc_closed s" using s that by (simp add: dc_inv_def)
    from closed_stays_run [OF this, of json_parse later] that t
    show "dc_opened t = dc_opened s" "dc_closed t" "dc_sockets t = []" by (simp_all add: assms(2) dc_inv_def)
  qed
  moreover have "cl_state (sc_calls c ! k) \<noteq> Pending i" if "client_inv c" "sc_closed c" "k < length (sc_calls c)" for c k i
    using client_inv_pending [OF that(1), of i k] client_invD(4) [OF that(1,2)] that(3) by (simp add: state_at_def)
  ultimately show ?thesis using s t unfolding dc_inv_def by (auto simp: closed_refuses)
qed

definition sample_client_ops :: "daemon_client_step list" where
  "sample_client_ops = [DRequest ''worker/list'' (JObj []), DSubscribe (JObj []), DSocket 0 (TransportOpened 0 (Inr ())),
     DSocket 0 (Resume 0 (Inr ())), DClose, DCloseSockets]"

theorem daemon_client_leaves_nothing_witness:
  "let s = dc_run (\<lambda>_. Inl ''SyntaxError'') sample_client_ops (new_daemon_client ''unix:///run/p.sock'') in
     dc_opened s = 2 \<and> sc_closed (dc_objects s 0) \<and> sc_closed (dc_objects s 1)"
proof -
  let ?s = "dc_run (\<lambda>_. Inl ''SyntaxError'') sample_client_ops (new_daemon_client ''unix:///run/p.sock'')"
  have "dc_opened ?s = 2" "dc_done ?s" by code_simp+
  with daemon_client_leaves_nothing [OF refl refl, of "\<lambda>_. Inl ''SyntaxError''" sample_client_ops "''unix:///run/p.sock''" "[]"]
  show ?thesis by (simp add: dc_run_def Let_def del: dc_step.simps)
qed

end
