(* ===== verification/Daemon.thy ===== *)
theory Daemon
  imports Async Json_Rpc_Connection Http_Server
begin

text \<open>
  The start and the stop of the daemon (\<open>src/daemon.ts\<close>) and of its transports: the Unix socket with the
  recovery of a stale one (\<open>src/transport/unix.ts\<close>), standard input and output (\<open>src/transport/stdio.ts\<close>)
  and the admission of a WebSocket (\<open>src/transport/websocket.ts\<close>). The connections themselves are those of
  \<open>Json_Rpc_Connection\<close>.
\<close>

section \<open>src/transport/unix.ts\<close>

text \<open>
  What is at the path of the socket: its device and inode as one number, whether it is a socket, and
  whether a process listens on it. Other processes may remove it, create another one with any number, also
  one that has been there before, or end; a socket that nobody listens on stays that way. They run between any two
  system calls of the daemon. For the proofs an entry has a birth, which is never used twice, \<open>us_reused\<close> says that
  some number has been, and \<open>us_log\<close> records what the daemon's system calls met at the path.
\<close>

record path_entry =
  pe_born :: nat
  pe_number :: nat
  pe_socket :: bool
  pe_live :: bool

datatype path_event = Found path_entry | Refused path_entry | Removed path_entry

record unix_state =
  us_entry :: "path_entry option"
  us_fresh :: nat
  us_used :: "nat set"
  us_reused :: bool
  us_listening :: bool
  us_log :: "path_event list"

definition create_entry :: "nat \<Rightarrow> bool \<Rightarrow> bool \<Rightarrow> unix_state \<Rightarrow> unix_state" where
  "create_entry number is_socket is_live s =
     s\<lparr>us_entry := Some \<lparr>pe_born = us_fresh s, pe_number = number, pe_socket = is_socket, pe_live = (is_socket \<and> is_live)\<rparr>,
       us_fresh := us_fresh s + 1, us_used := insert number (us_used s), us_reused := (us_reused s \<or> number \<in> us_used s)\<rparr>"

datatype fs_step = FsRemove | FsCreate nat bool bool | FsExit

fun run_fs :: "fs_step \<Rightarrow> unix_state \<Rightarrow> unix_state" where
  "run_fs FsRemove s = s\<lparr>us_entry := None\<rparr>"
| "run_fs (FsCreate number is_socket is_live) s = (if us_entry s = None then create_entry number is_socket is_live s else s)"
| "run_fs FsExit s = s\<lparr>us_entry := map_option (\<lambda>e. e\<lparr>pe_live := False\<rparr>) (us_entry s)\<rparr>"

text \<open>
  How a system call settles, apart from what the path decides; the number is that of a socket that it binds. Each
  system call has an entry in the schedule, with the steps of other processes before it, and so has the wait for
  the event of the probe.
\<close>

datatype unix_reply = Settles nat | SystemError string | ProbeTimeout

type_synonym 'a uop = "(unix_state, fs_step, unix_reply, 'a) proc"

definition system_call :: "(unix_reply \<Rightarrow> unix_state \<Rightarrow> 'a result \<times> unix_state) \<Rightarrow> 'a uop" where
  "system_call f = seq (await run_fs) (\<lambda>r s sch. case f r s of (x, s1) \<Rightarrow> Finished x s1 sch)"

definition log_event :: "path_event \<Rightarrow> unix_state \<Rightarrow> unix_state" where
  "log_event e s = s\<lparr>us_log := us_log s @ [e]\<rparr>"

definition in_use :: thrown where
  "in_use = JsError ''EADDRINUSE''"

definition listen :: "unit uop" where
  "listen = system_call (\<lambda>r s.
     case r of
       SystemError code \<Rightarrow> (Inl (JsError code), s)
     | ProbeTimeout \<Rightarrow> (Inl (JsError ''ETIMEDOUT''), s)
     | Settles number \<Rightarrow>
         if us_entry s \<noteq> None then (Inl in_use, s)
         else (Inr (), (create_entry number True True s)\<lparr>us_listening := True\<rparr>))"

text \<open>\<open>lstatSync\<close> and \<open>unlinkSync\<close>.\<close>

definition lstat :: "path_entry uop" where
  "lstat = system_call (\<lambda>r s.
     case (r, us_entry s) of
       (SystemError code, _) \<Rightarrow> (Inl (JsError code), s)
     | (_, None) \<Rightarrow> (Inl (JsError ''ENOENT''), s)
     | (_, Some e) \<Rightarrow> (Inr e, log_event (Found e) s))"

definition unlink :: "unit uop" where
  "unlink = system_call (\<lambda>r s.
     case (r, us_entry s) of
       (SystemError code, _) \<Rightarrow> (Inl (JsError code), s)
     | (_, None) \<Rightarrow> (Inl (JsError ''ENOENT''), s)
     | (_, Some e) \<Rightarrow> (Inr (), log_event (Removed e) (s\<lparr>us_entry := None\<rparr>)))"

text \<open>
  A connection is refused by what is no socket or has no listener; the system decides it when it is asked, the
  event comes later, and the timeout may come first.
\<close>

definition probe_socket :: "bool uop" where
  "probe_socket = system_call (\<lambda>r s.
     case (r, us_entry s) of
       (Settles _, Some e) \<Rightarrow>
         if pe_socket e \<and> pe_live e then (Inr False, s) else (Inr True, log_event (Refused e) s)
     | _ \<Rightarrow> (Inr False, s))"

definition isStaleSocket :: "bool uop" where
  "isStaleSocket = seq probe_socket (\<lambda>refused. seq (await run_fs) (\<lambda>r. ret (refused \<and> r \<noteq> ProbeTimeout)))"

definition recover :: "thrown \<Rightarrow> unit uop" where
  "recover e =
     (if e \<noteq> in_use then raise e
      else seq lstat (\<lambda>existing.
        seq (if pe_socket existing then isStaleSocket else ret False) (\<lambda>stale.
          if \<not> stale then raise e
          else seq lstat (\<lambda>current.
            if pe_number current \<noteq> pe_number existing then raise e
            else seq unlink (\<lambda>_. listen)))))"

text \<open>\<open>directory\<close> is the outcome of \<open>mkdirSync\<close>.\<close>

definition startUnixSocketServer :: "unit result \<Rightarrow> unit uop" where
  "startUnixSocketServer directory =
     (case directory of Inl e \<Rightarrow> raise e | Inr _ \<Rightarrow> try_catch listen recover)"

text \<open>The connections of a running server and its \<open>close\<close>.\<close>

record running_transport =
  rn_sockets :: "nat list"
  rn_ended :: "nat set"
  rn_destroyed :: "nat set"
  rn_closing :: bool
  rn_timer :: bool
  rn_resolved :: bool

definition new_transport :: running_transport where
  "new_transport = \<lparr>rn_sockets = [], rn_ended = {}, rn_destroyed = {}, rn_closing = False, rn_timer = False, rn_resolved = False\<rparr>"

text \<open>\<open>server.close\<close> calls back when the last connection has closed.\<close>

definition server_closed :: "running_transport \<Rightarrow> running_transport" where
  "server_closed r = (if rn_closing r \<and> rn_sockets r = [] then r\<lparr>rn_timer := False, rn_resolved := True\<rparr> else r)"

datatype transport_step = Accept nat | SocketClosed nat | CloseTransport | TimerFired

fun transport_run1 :: "transport_step \<Rightarrow> running_transport \<Rightarrow> running_transport" where
  "transport_run1 (Accept n) r = (if rn_closing r \<or> n \<in> set (rn_sockets r) then r else r\<lparr>rn_sockets := rn_sockets r @ [n]\<rparr>)"
| "transport_run1 (SocketClosed n) r = server_closed (r\<lparr>rn_sockets := removeAll n (rn_sockets r)\<rparr>)"
| "transport_run1 CloseTransport r =
     (if rn_closing r then r
      else server_closed (r\<lparr>rn_closing := True, rn_timer := True, rn_ended := set (rn_sockets r)\<rparr>))"
| "transport_run1 TimerFired r = (if rn_timer r then r\<lparr>rn_timer := False, rn_destroyed := set (rn_sockets r)\<rparr> else r)"

section \<open>src/transport/stdio.ts\<close>

record stdio =
  st_pushed :: "string list"
  st_ended :: bool
  st_listening :: bool
  st_paused :: bool
  st_written :: "string list"

definition new_stdio :: stdio where
  "new_stdio = \<lparr>st_pushed = [], st_ended = False, st_listening = True, st_paused = False, st_written = []\<rparr>"

definition stdin_data :: "string \<Rightarrow> stdio \<Rightarrow> stdio" where
  "stdin_data chunk s = (if st_listening s then s\<lparr>st_pushed := st_pushed s @ [chunk]\<rparr> else s)"

definition stdin_end :: "stdio \<Rightarrow> stdio" where
  "stdin_end s = (if st_listening s then s\<lparr>st_ended := True\<rparr> else s)"

definition stdio_write :: "string \<Rightarrow> stdio \<Rightarrow> stdio" where
  "stdio_write chunk s = s\<lparr>st_written := st_written s @ [chunk]\<rparr>"

definition stdio_destroy :: "stdio \<Rightarrow> stdio" where
  "stdio_destroy s = s\<lparr>st_listening := False, st_paused := True\<rparr>"

text \<open>\<open>close\<close> of the transport, over its connection and its stream.\<close>

definition close_stdio :: "router \<times> stdio \<Rightarrow> router \<times> stdio" where
  "close_stdio c = (case c of (rt, s) \<Rightarrow> ((close_connection rt)\<lparr>rt_destroyed := True\<rparr>, stdio_destroy s))"

section \<open>src/transport/websocket.ts\<close>

definition verifyClient :: "(string \<Rightarrow> string option) \<Rightarrow> auth_config \<Rightarrow> string option \<Rightarrow> string option \<Rightarrow> bool" where
  "verifyClient env auth authorization origin =
     (case assertBearerToken env auth authorization of
        Inl _ \<Rightarrow> False
      | Inr _ \<Rightarrow> (case assertOriginAllowed (au_allowedOrigins auth) origin of Inl _ \<Rightarrow> False | Inr _ \<Rightarrow> True))"

section \<open>src/daemon.ts\<close>

text \<open>
  The daemon: its transports in the order of \<open>transports.push\<close>, those whose \<open>close\<close> has been called, and how
  far \<open>stop\<close> has come: whether it has been called, whether it has called the shutdown of the service and
  whether that has settled. The other code that runs at an \<open>await\<close> is a call of \<open>stop\<close> by a transport that
  is already there (its \<open>onShutdown\<close>) and what follows in it when the transports have closed and when the
  shutdown has settled.
\<close>

datatype transport = StdioTransport | UnixTransport string | NetworkTransport "string list"

definition transport_names :: "transport \<Rightarrow> string list" where
  "transport_names t = (case t of StdioTransport \<Rightarrow> [''stdio''] | UnixTransport path \<Rightarrow> [''unix://'' @ path] | NetworkTransport names \<Rightarrow> names)"

record daemon =
  dn_transports :: "transport list"
  dn_closed :: "transport list"
  dn_stopping :: bool
  dn_shutdown :: bool
  dn_settled :: bool
  dn_names :: "string list option"

definition new_daemon :: daemon where
  "new_daemon = \<lparr>dn_transports = [], dn_closed = [], dn_stopping = False, dn_shutdown = False, dn_settled = False, dn_names = None\<rparr>"

text \<open>\<open>stop\<close> up to \<open>allSettled\<close>, after it, and after the shutdown of the service.\<close>

definition stop_daemon :: "daemon \<Rightarrow> daemon" where
  "stop_daemon d = (if dn_stopping d then d else d\<lparr>dn_stopping := True, dn_closed := dn_transports d\<rparr>)"

definition stop_service :: "daemon \<Rightarrow> daemon" where
  "stop_service d = (if dn_stopping d then d\<lparr>dn_shutdown := True\<rparr> else d)"

definition service_stopped :: "daemon \<Rightarrow> daemon" where
  "service_stopped d = (if dn_shutdown d then d\<lparr>dn_settled := True\<rparr> else d)"

datatype daemon_step = ShutdownAsked | TransportsClosed | ShutdownSettled

fun run_daemon_step :: "daemon_step \<Rightarrow> daemon \<Rightarrow> daemon" where
  "run_daemon_step ShutdownAsked d = (if dn_transports d = [] then d else stop_daemon d)"
| "run_daemon_step TransportsClosed d = stop_service d"
| "run_daemon_step ShutdownSettled d = service_stopped d"

type_synonym 'a dop = "(daemon, daemon_step, string list result, 'a) proc"

text \<open>An awaited call that may reject.\<close>

definition awaited :: "string list dop" where
  "awaited = seq (await run_daemon_step) (\<lambda>r. case r of Inl e \<Rightarrow> raise e | Inr v \<Rightarrow> ret v)"

text \<open>
  \<open>await stop()\<close>: the transports have closed, with the first rejection if there was one, the service shuts
  down, which may reject, and then that first rejection is thrown. A \<open>stop\<close> that another caller has
  begun passes the same points.
\<close>

definition stop_and_wait :: "unit dop" where
  "stop_and_wait =
     seq (update stop_daemon) (\<lambda>_.
     seq (await run_daemon_step) (\<lambda>closings.
     seq (update stop_service) (\<lambda>_.
     seq (await run_daemon_step) (\<lambda>r.
     seq (update service_stopped) (\<lambda>_.
       case r of
         Inl e \<Rightarrow> raise e
       | Inr _ \<Rightarrow> (case closings of Inl e \<Rightarrow> raise e | Inr _ \<Rightarrow> ret ()))))))"

definition push_transport :: "transport \<Rightarrow> unit dop" where
  "push_transport t = update (\<lambda>d. d\<lparr>dn_transports := dn_transports d @ [t]\<rparr>)"

definition start_transports :: "bool \<Rightarrow> string \<Rightarrow> bool \<Rightarrow> unit dop" where
  "start_transports use_stdio path tcp =
     seq awaited (\<lambda>_.
     seq (if use_stdio then push_transport StdioTransport
          else seq awaited (\<lambda>_. push_transport (UnixTransport path))) (\<lambda>_.
       if tcp then seq awaited (\<lambda>names. push_transport (NetworkTransport names)) else ret ()))"

definition startDaemon :: "bool \<Rightarrow> string \<Rightarrow> bool \<Rightarrow> unit dop" where
  "startDaemon use_stdio path tcp =
     seq (try_catch (start_transports use_stdio path tcp) (\<lambda>e. seq stop_and_wait (\<lambda>_. raise e))) (\<lambda>_.
       update (\<lambda>d. d\<lparr>dn_names := Some (concat (map transport_names (dn_transports d)))\<rparr>))"

end
