(* ===== verification/Network.thy ===== *)
theory Network
  imports Daemon
begin

text \<open>
  The life of the network server (\<open>startNetworkServer\<close> of \<open>src/transport/http.ts\<close>): the guards and the bind,
  the handler that every request goes to, and \<open>close\<close>; and the stream over a WebSocket
  (\<open>WebSocketDuplex\<close> of \<open>src/transport/websocket.ts\<close>). What the handler writes to a response is what
  \<open>Http_Server\<close> and \<open>Sse\<close> say, each write and each continuation after one a step of its own; sockets and
  responses are numbered.
\<close>

section \<open>Starting\<close>

text \<open>
  \<open>read\<close> is \<open>readFileSync\<close> and \<open>bound\<close> the outcome of \<open>listen\<close>: the error, or the port of \<open>server.address()\<close>.
  The second component says that the WebSocket server has been closed again.
\<close>

definition startNetworkServer :: "(string \<Rightarrow> string option) \<Rightarrow> (string \<Rightarrow> string result) \<Rightarrow> string \<Rightarrow>
    tls_config option \<Rightarrow> auth_config \<Rightarrow> nat result \<Rightarrow> string list result \<times> bool" where
  "startNetworkServer env read bind tls auth bound =
     (case network_guard env bind tls auth of
        Inl e \<Rightarrow> (Inl e, False)
      | Inr _ \<Rightarrow>
          (case loadTlsOptions read tls of
             Inl e \<Rightarrow> (Inl e, False)
           | Inr certificates \<Rightarrow>
               (case bound of
                  Inl e \<Rightarrow> (Inl e, True)
                | Inr port \<Rightarrow> (Inr (network_names bind port (certificates \<noteq> None)), False))))"

section \<open>Writing to a response\<close>

definition new_response :: http_response where
  "new_response = \<lparr>hr_destroyed = False, hr_ended = False, hr_needDrain = False, hr_headers = [], hr_status = None, hr_body = []\<rparr>"

datatype response_write =
    BeginSse
  | WriteFrame string bool
  | Drains
  | Heartbeat
  | EndStream
  | AnswerPreflight "(string \<times> string) list"
  | AnswerCall json "json result"
  | ResponseFails

text \<open>The handler begins an answer only when nothing has been sent and the response is open.\<close>

definition unanswered :: "http_response \<Rightarrow> bool" where
  "unanswered r \<longleftrightarrow> \<not> hr_destroyed r \<and> \<not> hr_ended r \<and> hr_status r = None"

fun write_response :: "response_write \<Rightarrow> http_response \<Rightarrow> http_response" where
  "write_response BeginSse r = (if unanswered r then beginSse r else r)"
| "write_response (WriteFrame frame flushed) r = snd (write_begin frame flushed r)"
| "write_response Drains r = r\<lparr>hr_needDrain := False\<rparr>"
| "write_response Heartbeat r = heartbeat r"
| "write_response EndStream r = (if hr_destroyed r then r else r\<lparr>hr_ended := True\<rparr>)"
| "write_response (AnswerPreflight headers) r =
     (if unanswered r then r\<lparr>hr_status := Some 204, hr_headers := hr_headers r @ headers, hr_ended := True\<rparr> else r)"
| "write_response (AnswerCall i outcome) r = answer_call i outcome r"
| "write_response ResponseFails r = r\<lparr>hr_destroyed := True\<rparr>"

section \<open>The running server\<close>

text \<open>
  \<open>nw_clients\<close> are the sockets that were upgraded. \<open>stopping\<close> and \<open>closing\<close> of the source are set together.
  \<open>nw_finishing\<close> are the calls of \<open>finishSseError\<close> that wait for the write of their frame, with its outcome if
  it is known. \<open>nw_handled\<close> records the requests given to \<open>handleRequest\<close>, \<open>nw_close_frames\<close> the WebSockets
  that were sent a close frame.
\<close>

record network =
  nw_sockets :: "nat list"
  nw_clients :: "nat list"
  nw_responses :: "(nat \<times> http_response) list"
  nw_finishing :: "(nat \<times> unit result option) list"
  nw_stopping :: bool
  nw_timer :: bool
  nw_resolved :: bool
  nw_destroyed :: "nat set"
  nw_handled :: "nat list"
  nw_close_frames :: "nat list"

definition new_network :: network where
  "new_network = \<lparr>nw_sockets = [], nw_clients = [], nw_responses = [], nw_finishing = [], nw_stopping = False, nw_timer = False, nw_resolved = False,
     nw_destroyed = {}, nw_handled = [], nw_close_frames = []\<rparr>"

text \<open>The handler: a response is registered; when the daemon is stopping it is refused at once.\<close>

definition handle_arrival :: "nat \<Rightarrow> network \<Rightarrow> network" where
  "handle_arrival m s =
     (if nw_stopping s
      then s\<lparr>nw_responses := nw_responses s @ [(m, sendError 503 stopping_error JNull new_response)]\<rparr>
      else s\<lparr>nw_responses := nw_responses s @ [(m, new_response)], nw_handled := nw_handled s @ [m]\<rparr>)"

definition on_responses :: "(nat \<Rightarrow> http_response \<Rightarrow> http_response) \<Rightarrow> network \<Rightarrow> network" where
  "on_responses f s = s\<lparr>nw_responses := map (\<lambda>(m, r). (m, f m r)) (nw_responses s)\<rparr>"

text \<open>Both servers have called back when no connection is left; then the timer is cleared.\<close>

definition network_closed :: "network \<Rightarrow> network" where
  "network_closed s =
     (if nw_stopping s \<and> nw_sockets s = [] \<and> nw_clients s = [] then s\<lparr>nw_timer := False, nw_resolved := True\<rparr> else s)"

text \<open>A synchronous step of a response, after which a call of \<open>finishSseError\<close> may be waiting.\<close>

definition pending_finish :: "nat \<Rightarrow> unit result option option \<Rightarrow> (nat \<times> unit result option) list" where
  "pending_finish m waits = (case waits of None \<Rightarrow> [] | Some known \<Rightarrow> [(m, known)])"

definition with_failure :: "(nat \<Rightarrow> http_response \<Rightarrow> unit result option option \<times> http_response) \<Rightarrow> network \<Rightarrow> network" where
  "with_failure f s = (on_responses (\<lambda>m r. snd (f m r)) s)
     \<lparr>nw_finishing := nw_finishing s @ concat (map (\<lambda>(m, r). pending_finish m (fst (f m r))) (nw_responses s))\<rparr>"

definition at_response :: "nat \<Rightarrow> (http_response \<Rightarrow> unit result option option \<times> http_response) \<Rightarrow> network \<Rightarrow> network" where
  "at_response m f = with_failure (\<lambda>m' r. if m' = m then f r else (None, r))"

text \<open>The rest of the first call of \<open>finishSseError\<close> for a response.\<close>

definition finish_settles :: "nat \<Rightarrow> drain_event \<Rightarrow> network \<Rightarrow> network" where
  "finish_settles m first s =
     (case find (\<lambda>(m', _). m' = m) (nw_finishing s) of
        None \<Rightarrow> s
      | Some (_, known) \<Rightarrow>
          (on_responses (\<lambda>m'. if m' = m then finish_settled known first else id) s)\<lparr>nw_finishing := remove1 (m, known) (nw_finishing s)\<rparr>)"

text \<open>\<open>close\<close>; \<open>flushed m\<close> is what the write of the error to response \<open>m\<close> answers.\<close>

definition close_network :: "(nat \<Rightarrow> bool) \<Rightarrow> network \<Rightarrow> network" where
  "close_network flushed s =
     (if nw_stopping s then s
      else
        let s1 = s\<lparr>nw_stopping := True, nw_timer := True\<rparr>;
            s2 = with_failure (\<lambda>m. stop_response (flushed m)) s1 in
        network_closed (s2\<lparr>nw_close_frames := nw_clients s2\<rparr>))"

definition network_timeout :: "network \<Rightarrow> network" where
  "network_timeout s =
     (if nw_timer s then s\<lparr>nw_timer := False, nw_destroyed := set (nw_clients s) \<union> set (nw_sockets s)\<rparr> else s)"

datatype network_step =
    SocketOpened nat
  | SocketUpgraded nat
  | RequestArrived nat nat
  | ResponseWritten nat response_write
  | StreamFails nat bool thrown json bool   \<comment> \<open>\<open>finishSseError\<close> of the handler of a stream\<close>
  | HandlerThrows nat "http_error + thrown" bool
  | FinishSettles nat drain_event
  | ResponseGone nat
  | SocketGone nat
  | CloseNetwork "nat \<Rightarrow> bool"
  | NetworkTimeout

text \<open>A server that has been closed takes no connection and upgrades none; a request comes on an open connection.\<close>

fun step_network :: "network_step \<Rightarrow> network \<Rightarrow> network" where
  "step_network (SocketOpened n) s =
     (if nw_stopping s \<or> n \<in> set (nw_sockets s) then s else s\<lparr>nw_sockets := nw_sockets s @ [n]\<rparr>)"
| "step_network (SocketUpgraded n) s =
     (if nw_stopping s \<or> n \<notin> set (nw_sockets s) \<or> n \<in> set (nw_clients s) then s else s\<lparr>nw_clients := nw_clients s @ [n]\<rparr>)"
| "step_network (RequestArrived n m) s =
     (if n \<notin> set (nw_sockets s) \<or> n \<in> set (nw_clients s) \<or> m \<in> set (map fst (nw_responses s)) then s else handle_arrival m s)"
| "step_network (ResponseWritten m w) s = on_responses (\<lambda>m'. if m' = m then write_response w else id) s"
| "step_network (StreamFails m as_response e i flushed) s = at_response m (finish_begin as_response e i flushed) s"
| "step_network (HandlerThrows m failed flushed) s = at_response m (handle_failure failed flushed) s"
| "step_network (FinishSettles m first) s = finish_settles m first s"
| "step_network (ResponseGone m) s =
     s\<lparr>nw_responses := filter (\<lambda>(m', _). m' \<noteq> m) (nw_responses s), nw_finishing := filter (\<lambda>(m', _). m' \<noteq> m) (nw_finishing s)\<rparr>"
| "step_network (SocketGone n) s =
     network_closed (s\<lparr>nw_sockets := removeAll n (nw_sockets s), nw_clients := removeAll n (nw_clients s)\<rparr>)"
| "step_network (CloseNetwork flushed) s = close_network flushed s"
| "step_network NetworkTimeout s = network_timeout s"

definition network_run :: "network_step list \<Rightarrow> network \<Rightarrow> network" where
  "network_run steps s = fold step_network steps s"

section \<open>src/transport/websocket.ts\<close>

record web_socket =
  wb_pushed :: "string list"
  wb_sent :: "string list"
  wb_closed :: bool
  wb_terminated :: bool
  wb_destroyed :: bool

definition new_web_socket :: web_socket where
  "new_web_socket = \<lparr>wb_pushed = [], wb_sent = [], wb_closed = False, wb_terminated = False, wb_destroyed = False\<rparr>"

definition web_socket_message :: "string \<Rightarrow> web_socket \<Rightarrow> web_socket" where
  "web_socket_message message s =
     (if wb_destroyed s then s else s\<lparr>wb_pushed := wb_pushed s @ [complete_message message]\<rparr>)"

definition web_socket_write :: "string \<Rightarrow> web_socket \<Rightarrow> web_socket" where
  "web_socket_write chunk s = s\<lparr>wb_sent := wb_sent s @ [chunk]\<rparr>"

definition web_socket_final :: "web_socket \<Rightarrow> web_socket" where
  "web_socket_final s = s\<lparr>wb_closed := True\<rparr>"

text \<open>\<open>destroy\<close>, which \<open>Duplex\<close> runs once, also when the socket closes or fails.\<close>

definition web_socket_destroy :: "web_socket \<Rightarrow> web_socket" where
  "web_socket_destroy s = (if wb_destroyed s then s else s\<lparr>wb_destroyed := True, wb_terminated := True\<rparr>)"

end
