(* ===== verification/Daemon_Props.thy ===== *)
theory Daemon_Props
  imports Daemon Configuration_Props
begin

text \<open>
  The properties of the start of the daemon: the recovery of a stale socket never removes anything else,
  and a start that fails leaves no transport open.
\<close>

section \<open>The path of the socket\<close>

text \<open>
  What has been removed came after the whole recovery: a socket was found, a connection was refused, what was
  found then has the same number; and if no number has been used twice and it is what was found last,
  then it is a socket that nobody listens on.
\<close>

definition removal_checked :: "path_event list \<Rightarrow> bool \<Rightarrow> path_entry \<Rightarrow> bool" where
  "removal_checked evs reused e \<longleftrightarrow>
     (\<exists>a b c. evs = [Found a, Refused b, Found c, Removed e] \<and> pe_socket a \<and> \<not> (pe_socket b \<and> pe_live b) \<and>
        pe_number c = pe_number a \<and> (\<not> reused \<and> pe_born e = pe_born c \<longrightarrow> pe_socket e \<and> \<not> pe_live e))"

definition us_inv :: "unix_state \<Rightarrow> bool" where
  "us_inv s \<longleftrightarrow> (\<forall>e. us_entry s = Some e \<longrightarrow> pe_born e < us_fresh s \<and> pe_number e \<in> us_used s) \<and>
     (\<forall>e. Removed e \<in> set (us_log s) \<longrightarrow> removal_checked (us_log s) (us_reused s) e)"

lemma run_fs_fields [simp]:
  "us_listening (run_fs i s) = us_listening s" "us_log (run_fs i s) = us_log s" "us_reused s \<Longrightarrow> us_reused (run_fs i s)"
  by (cases i; simp add: create_entry_def)+

lemma removal_checked_mono: "removal_checked evs x e \<Longrightarrow> (x \<Longrightarrow> y) \<Longrightarrow> removal_checked evs y e"
  unfolding removal_checked_def by blast

lemma run_fs_inv: "us_inv s \<Longrightarrow> us_inv (run_fs i s)"
proof -
  assume inv: "us_inv s"
  have "\<forall>e. Removed e \<in> set (us_log s) \<longrightarrow> removal_checked (us_log s) (us_reused (run_fs i s)) e"
    using inv removal_checked_mono run_fs_fields(3) unfolding us_inv_def by blast
  then show ?thesis using inv by (cases i) (auto simp: us_inv_def create_entry_def)
qed

text \<open>What is at the path with the birth of a socket that was found there, and, once a connection has been refused, how.\<close>

definition tracked :: "path_entry \<Rightarrow> unix_state \<Rightarrow> bool" where
  "tracked a s \<longleftrightarrow> pe_born a < us_fresh s \<and> pe_number a \<in> us_used s \<and>
     (\<forall>e. us_entry s = Some e \<longrightarrow> (pe_born e = pe_born a \<longrightarrow> pe_socket e) \<and>
        (\<not> us_reused s \<and> pe_number e = pe_number a \<longrightarrow> pe_born e = pe_born a))"

definition dead :: "path_entry \<Rightarrow> unix_state \<Rightarrow> bool" where
  "dead a s \<longleftrightarrow> (\<forall>e. us_entry s = Some e \<and> pe_born e = pe_born a \<longrightarrow> \<not> pe_live e)"

lemma tracked_step: "tracked a s \<Longrightarrow> tracked a (run_fs i s)"
  unfolding tracked_def by (cases i; cases "us_entry s") (auto simp: create_entry_def)

lemma dead_step: "tracked a s \<Longrightarrow> dead a s \<Longrightarrow> dead a (run_fs i s)"
  unfolding tracked_def dead_def by (cases i; cases "us_entry s") (auto simp: create_entry_def)

lemma tracked_found:
  assumes "us_inv s" "us_entry s = Some a" "pe_socket a"
  shows "tracked a s"
  using assms by (auto simp: us_inv_def tracked_def)

lemma tracked_log [simp]: "tracked a (log_event x s) = tracked a s"
  by (simp add: tracked_def log_event_def)

text \<open>The stages of the recovery.\<close>

definition stage :: "path_event list \<Rightarrow> unix_state \<Rightarrow> bool" where
  "stage evs s \<longleftrightarrow> \<not> us_listening s \<and> us_log s = evs"

definition connection_refused :: "path_entry \<Rightarrow> path_entry \<Rightarrow> unix_state \<Rightarrow> bool" where
  "connection_refused a b s \<longleftrightarrow> stage [Found a, Refused b] s \<and> pe_socket a \<and> \<not> (pe_socket b \<and> pe_live b) \<and> tracked a s \<and> dead a s"

definition checked :: "path_entry \<Rightarrow> path_entry \<Rightarrow> path_entry \<Rightarrow> unix_state \<Rightarrow> bool" where
  "checked a b c s \<longleftrightarrow> stage [Found a, Refused b, Found c] s \<and> pe_socket a \<and> \<not> (pe_socket b \<and> pe_live b) \<and>
     tracked a s \<and> dead a s \<and> pe_number c = pe_number a \<and> (\<not> us_reused s \<longrightarrow> pe_born c = pe_born a)"

lemma keeps_stages:
  "keeps run_fs (\<lambda>_. True) us_inv (\<lambda>s. \<not> us_listening s)"
  "keeps run_fs (\<lambda>_. True) us_inv (stage evs)"
  "keeps run_fs (\<lambda>_. True) us_inv (\<lambda>s. stage evs s \<and> tracked a s)"
  "keeps run_fs (\<lambda>_. True) us_inv (connection_refused a b)"
  "keeps run_fs (\<lambda>_. True) us_inv (checked a b c)"
  "keeps run_fs (\<lambda>_. True) us_inv (\<lambda>s. \<not> us_listening s \<and> (flag \<longrightarrow> connection_refused a b s))"
proof -
  show "keeps run_fs (\<lambda>_. True) us_inv (checked a b c)"
    by (rule keepsI) (use run_fs_fields(3) in \<open>auto simp: checked_def stage_def tracked_step dead_step\<close>)
qed (rule keepsI; simp add: stage_def tracked_step dead_step connection_refused_def)+

interpretation fs: interference run_fs "\<lambda>_. True" us_inv
  by unfold_locales (rule run_fs_inv)

lemma system_call_ok:
  assumes "keeps run_fs (\<lambda>_. True) us_inv R" "us_inv s" "R s"
    and "\<And>r s x s1. us_inv s \<Longrightarrow> R s \<Longrightarrow> f r s = (x, s1) \<Longrightarrow> us_inv s1 \<and> Q x s1"
  shows "run_ok (\<lambda>_. True) us_inv Q (system_call f s sch)"
  unfolding system_call_def
  by (rule fs.await_seq [OF assms(1-3) sch_ok_True]) (auto split: prod.split dest: assms(4))

text \<open>Listening: it holds afterwards exactly if the call returned.\<close>

definition listens :: "unit result \<Rightarrow> unix_state \<Rightarrow> bool" where
  "listens r s \<longleftrightarrow> (us_listening s \<longleftrightarrow> r = Inr ())"

lemma listen_ok:
  assumes "us_inv s" "stage evs s"
  shows "run_ok (\<lambda>_. True) us_inv (\<lambda>r s. listens r s \<and> (r \<noteq> Inr () \<longrightarrow> stage evs s)) (listen s sch)"
  unfolding listen_def
  by (rule system_call_ok [OF keeps_stages(2) assms])
    (auto simp: listens_def stage_def us_inv_def create_entry_def intro: removal_checked_mono split: unix_reply.splits if_splits)

lemma not_listening: "\<not> us_listening s \<Longrightarrow> us_inv s \<Longrightarrow> run_ok (\<lambda>_. True) us_inv listens (raise e s sch)"
  by (simp add: raise_def listens_def)

lemma us_inv_log: "us_inv s \<Longrightarrow> us_log s = evs \<Longrightarrow> (\<And>e. Removed e \<notin> set (evs @ [x])) \<Longrightarrow> us_inv (log_event x s)"
  by (auto simp: us_inv_def log_event_def)

lemma first_lstat:
  assumes "us_inv s" "stage [] s"
  shows "run_ok (\<lambda>_. True) us_inv (\<lambda>r s. \<not> us_listening s \<and>
    (\<forall>a. r = Inr a \<longrightarrow> stage [Found a] s \<and> (pe_socket a \<longrightarrow> tracked a s))) (lstat s sch)"
  unfolding lstat_def
proof (rule system_call_ok [OF keeps_stages(2) assms])
  fix r s x s1
  assume "us_inv s" "stage [] s" and call: "(case (r, us_entry s) of (SystemError code, _) \<Rightarrow> (Inl (JsError code), s)
     | (_, None) \<Rightarrow> (Inl (JsError ''ENOENT''), s) | (_, Some e) \<Rightarrow> (Inr e, log_event (Found e) s)) = (x, s1)"
  moreover have "us_inv (log_event (Found e) s)" for e using calculation by (intro us_inv_log) (auto simp: stage_def)
  moreover have "tracked e (log_event (Found e) s)" if "us_entry s = Some e" "pe_socket e" for e
    using tracked_found [OF \<open>us_inv s\<close> that] by simp
  ultimately show "us_inv s1 \<and> \<not> us_listening s1 \<and> (\<forall>a. x = Inr a \<longrightarrow> stage [Found a] s1 \<and> (pe_socket a \<longrightarrow> tracked a s1))"
    by (auto simp: stage_def log_event_def split: unix_reply.splits option.splits)
qed

lemma probe_ok:
  assumes "us_inv s" "stage [Found a] s" "tracked a s" "pe_socket a"
  shows "run_ok (\<lambda>_. True) us_inv (\<lambda>r s. \<not> us_listening s \<and> (r = Inr True \<longrightarrow> (\<exists>b. connection_refused a b s))) (isStaleSocket s sch)"
  unfolding isStaleSocket_def
proof (rule run_ok_seq)
  show "run_ok (\<lambda>_. True) us_inv (\<lambda>r s. \<not> us_listening s \<and> (r = Inr True \<longrightarrow> (\<exists>b. connection_refused a b s))) (probe_socket s sch)"
    unfolding probe_socket_def
  proof (rule system_call_ok [OF keeps_stages(3) assms(1) conjI [OF assms(2,3)]])
    fix r s x s1
    assume inv: "us_inv s" and at: "stage [Found a] s \<and> tracked a s"
      and call: "(case (r, us_entry s) of (Settles _, Some e) \<Rightarrow>
         if pe_socket e \<and> pe_live e then (Inr False, s) else (Inr True, log_event (Refused e) s) | _ \<Rightarrow> (Inr False, s)) = (x, s1)"
    show "us_inv s1 \<and> \<not> us_listening s1 \<and> (x = Inr True \<longrightarrow> (\<exists>b. connection_refused a b s1))"
    proof (cases "x = Inr True")
      case True
      then obtain e where e: "us_entry s = Some e" "\<not> (pe_socket e \<and> pe_live e)" "s1 = log_event (Refused e) s"
        using call by (auto split: unix_reply.splits option.splits if_splits)
      have "us_inv s1" unfolding e(3) using inv at by (intro us_inv_log) (auto simp: stage_def)
      moreover have "connection_refused a e s1"
        using e at assms(4) by (auto simp: connection_refused_def stage_def tracked_def dead_def log_event_def)
      ultimately show ?thesis using at e(3) by (auto simp: stage_def log_event_def)
    qed (use call inv at in \<open>auto simp: stage_def split: unix_reply.splits option.splits if_splits\<close>)
  qed
next
  fix x s sch
  assume inv: "us_inv s" and after: "\<not> us_listening s \<and> (Inr x = Inr True \<longrightarrow> (\<exists>b. connection_refused a b s))"
  then obtain b where "\<not> us_listening s \<and> (x \<longrightarrow> connection_refused a b s)" by auto
  then show "run_ok (\<lambda>_. True) us_inv (\<lambda>r s. \<not> us_listening s \<and> (r = Inr True \<longrightarrow> (\<exists>b. connection_refused a b s)))
      (seq (await run_fs) (\<lambda>r. ret (x \<and> r \<noteq> ProbeTimeout)) s sch)"
    by (intro fs.await_seq [OF keeps_stages(6) inv _ sch_ok_True]) (auto simp: ret_def)
qed auto

lemma second_lstat:
  assumes "us_inv s" "connection_refused a b s"
  shows "run_ok (\<lambda>_. True) us_inv (\<lambda>r s. \<not> us_listening s \<and>
    (\<forall>c. r = Inr c \<and> pe_number c = pe_number a \<longrightarrow> checked a b c s)) (lstat s sch)"
  unfolding lstat_def
proof (rule system_call_ok [OF keeps_stages(4) assms])
  fix r s x s1
  assume inv: "us_inv s" and at: "connection_refused a b s"
    and call: "(case (r, us_entry s) of (SystemError code, _) \<Rightarrow> (Inl (JsError code), s)
     | (_, None) \<Rightarrow> (Inl (JsError ''ENOENT''), s) | (_, Some e) \<Rightarrow> (Inr e, log_event (Found e) s)) = (x, s1)"
  have "us_inv (log_event (Found e) s)" for e using inv at by (intro us_inv_log) (auto simp: stage_def connection_refused_def)
  moreover have "checked a b e (log_event (Found e) s)" if "us_entry s = Some e" "pe_number e = pe_number a" for e
    using at that by (auto simp: connection_refused_def checked_def stage_def tracked_def dead_def log_event_def)
  moreover have "\<not> us_listening s" using at by (simp add: connection_refused_def stage_def)
  ultimately show "us_inv s1 \<and> \<not> us_listening s1 \<and> (\<forall>c. x = Inr c \<and> pe_number c = pe_number a \<longrightarrow> checked a b c s1)"
    using call inv by (auto simp: log_event_def split: unix_reply.splits option.splits)
qed

lemma unlink_ok:
  assumes "us_inv s" "checked a b c s"
  shows "run_ok (\<lambda>_. True) us_inv (\<lambda>r s. \<not> us_listening s) (unlink s sch)"
  unfolding unlink_def
proof (rule system_call_ok [OF keeps_stages(5) assms])
  fix r s x s1
  assume inv: "us_inv s" and at: "checked a b c s"
    and call: "(case (r, us_entry s) of (SystemError code, _) \<Rightarrow> (Inl (JsError code), s)
     | (_, None) \<Rightarrow> (Inl (JsError ''ENOENT''), s) | (_, Some e) \<Rightarrow> (Inr (), log_event (Removed e) (s\<lparr>us_entry := None\<rparr>))) = (x, s1)"
  have "removal_checked [Found a, Refused b, Found c, Removed e] (us_reused s) e" if "us_entry s = Some e" for e
    using at that by (auto simp: removal_checked_def checked_def tracked_def dead_def)
  then have "us_inv (log_event (Removed e) (s\<lparr>us_entry := None\<rparr>))" if "us_entry s = Some e" for e
    using at that by (auto simp: us_inv_def log_event_def checked_def stage_def)
  moreover have "\<not> us_listening s" using at by (simp add: checked_def stage_def)
  ultimately show "us_inv s1 \<and> \<not> us_listening s1"
    using call inv by (auto simp: log_event_def split: unix_reply.splits option.splits)
qed

lemma recover_ok:
  assumes "us_inv s" "stage [] s"
  shows "run_ok (\<lambda>_. True) us_inv listens (recover err s sch)"
proof (cases "err = in_use")
  case False
  then show ?thesis using assms by (simp add: recover_def not_listening stage_def)
next
  case True
  have relisten: "run_ok (\<lambda>_. True) us_inv listens (listen s sch)" if "us_inv s" "\<not> us_listening s" for s sch
    by (rule run_ok_mono [OF listen_ok [OF that(1)]]) (use that(2) in \<open>auto simp: stage_def\<close>)
  have remove: "run_ok (\<lambda>_. True) us_inv listens (seq unlink (\<lambda>_. listen) s sch)" if "us_inv s" "checked a b c s" for a b c s sch
    by (rule run_ok_seq, rule unlink_ok [OF that]) (auto simp: listens_def intro: relisten)
  have again: "run_ok (\<lambda>_. True) us_inv listens
      (seq lstat (\<lambda>current. if pe_number current \<noteq> pe_number a then raise err else seq unlink (\<lambda>_. listen)) s sch)"
    if "us_inv s" "connection_refused a b s" for a b s sch
    by (rule run_ok_seq, rule second_lstat [OF that]) (auto simp: listens_def intro: not_listening remove)
  have stale: "run_ok (\<lambda>_. True) us_inv (\<lambda>r s. \<not> us_listening s \<and> (r = Inr True \<longrightarrow> (\<exists>b. connection_refused a b s)))
      ((if pe_socket a then isStaleSocket else ret False) s sch)"
    if "us_inv s" "stage [Found a] s" "pe_socket a \<longrightarrow> tracked a s" for a s sch
    using that probe_ok [of s a] by (cases "pe_socket a") (auto simp: ret_def stage_def)
  show ?thesis
    unfolding recover_def if_not_P [OF not_not [THEN iffD2, OF True]]
  proof (rule run_ok_seq, rule first_lstat [OF assms])
    fix a s sch
    assume "us_inv s" "\<not> us_listening s \<and> (\<forall>a'. Inr a = Inr a' \<longrightarrow> stage [Found a'] s \<and> (pe_socket a' \<longrightarrow> tracked a' s))"
    then have found: "us_inv s" "stage [Found a] s" "pe_socket a \<longrightarrow> tracked a s" by auto
    show "run_ok (\<lambda>_. True) us_inv listens (seq (if pe_socket a then isStaleSocket else ret False)
        (\<lambda>stale. if \<not> stale then raise err else seq lstat (\<lambda>current.
          if pe_number current \<noteq> pe_number a then raise err else seq unlink (\<lambda>_. listen))) s sch)"
      by (rule run_ok_seq, rule stale [OF found]) (auto simp: listens_def intro: not_listening again)
  qed (auto simp: listens_def)
qed

text \<open>
  C20. Starting on the path of a Unix socket removes only what it has checked. Other processes may do
  anything at the path between any two system calls. What is removed, if anything, came after these: a socket
  was found, a connection to the path was refused, and what was found then has the number of that socket. If
  what is removed is still what was found last and no number has been used twice at the path, it is a
  socket that no process listens on. And the server listens exactly if the start returned.
\<close>

theorem only_stale_sockets_removed:
  assumes "\<forall>e. us_entry s = Some e \<longrightarrow> pe_born e < us_fresh s \<and> pe_number e \<in> us_used s" "us_log s = []" "\<not> us_listening s"
    and "outcome = startUnixSocketServer directory s sch"
    and "outcome = Waiting s' \<or> outcome = Finished r s' sch'"
  shows "(Removed e \<in> set (us_log s') \<longrightarrow> (\<exists>a b c. us_log s' = [Found a, Refused b, Found c, Removed e] \<and> pe_socket a \<and> \<not> (pe_socket b \<and> pe_live b) \<and>
      pe_number c = pe_number a \<and> (\<not> us_reused s' \<and> pe_born e = pe_born c \<longrightarrow> pe_socket e \<and> \<not> pe_live e))) \<and>
    (outcome = Finished r s' sch' \<longrightarrow> (us_listening s' \<longleftrightarrow> r = Inr ()))"
proof -
  have s: "us_inv s" "stage [] s" using assms(1-3) by (simp_all add: us_inv_def stage_def)
  have "run_ok (\<lambda>_. True) us_inv listens outcome"
  proof (cases directory)
    case (Inl err)
    then show ?thesis using s by (simp add: assms(4) startUnixSocketServer_def not_listening stage_def)
  next
    case (Inr u)
    have "run_ok (\<lambda>_. True) us_inv listens (try_catch listen recover s sch)"
      by (rule run_ok_try, rule listen_ok [OF s]) (auto intro!: recover_ok)
    with Inr show ?thesis by (simp add: assms(4) startUnixSocketServer_def)
  qed
  then have "us_inv s'" "outcome = Finished r s' sch' \<longrightarrow> listens r s'" using assms(5) by auto
  then show ?thesis by (auto simp: us_inv_def removal_checked_def listens_def)
qed

text \<open>A socket that nobody listens on is at the path.\<close>

definition abandoned_socket :: path_entry where
  "abandoned_socket = \<lparr>pe_born = 0, pe_number = 7, pe_socket = True, pe_live = False\<rparr>"

definition abandoned_path :: unix_state where
  "abandoned_path = \<lparr>us_entry = Some abandoned_socket, us_fresh = 1, us_used = {7}, us_reused = False, us_listening = False, us_log = []\<rparr>"

theorem only_stale_sockets_removed_witness:
  "\<exists>s'. startUnixSocketServer (Inr ()) abandoned_path (replicate 7 ([], Some (Settles 9))) = Finished (Inr ()) s' [] \<and>
     us_listening s' \<and> us_log s' = [Found abandoned_socket, Refused abandoned_socket, Found abandoned_socket, Removed abandoned_socket]"
proof -
  let ?sch = "replicate 7 ([] :: fs_step list, Some (Settles 9))"
  have run: "case startUnixSocketServer (Inr ()) abandoned_path ?sch of Waiting s' \<Rightarrow> False
    | Finished r s' sch' \<Rightarrow> r = Inr () \<and> sch' = [] \<and>
        us_log s' = [Found abandoned_socket, Refused abandoned_socket, Found abandoned_socket, Removed abandoned_socket]"
    by code_simp
  then obtain s' where out: "startUnixSocketServer (Inr ()) abandoned_path ?sch = Finished (Inr ()) s' []"
    and met: "us_log s' = [Found abandoned_socket, Refused abandoned_socket, Found abandoned_socket, Removed abandoned_socket]"
    by (auto split: run.splits)
  have "us_listening s'"
    using only_stale_sockets_removed [OF _ _ _ out [symmetric], of s' "Inr ()" "[]" abandoned_socket]
    by (simp add: abandoned_path_def abandoned_socket_def)
  with out met show ?thesis by blast
qed

section \<open>Starting and stopping the daemon\<close>

text \<open>Once \<open>stop\<close> has begun, what it found has been closed; the service is not shut down before.\<close>

definition dn_inv :: "daemon \<Rightarrow> bool" where
  "dn_inv d \<longleftrightarrow> (dn_settled d \<longrightarrow> dn_shutdown d) \<and> (dn_shutdown d \<longrightarrow> dn_stopping d) \<and> (\<not> dn_stopping d \<longrightarrow> dn_closed d = [])"

lemma daemon_step_inv: "dn_inv d \<Longrightarrow> dn_inv (run_daemon_step i d)"
  by (cases i) (auto simp: dn_inv_def stop_daemon_def stop_service_def service_stopped_def)

interpretation daemon: interference run_daemon_step "\<lambda>_. True" dn_inv
  by unfold_locales (rule daemon_step_inv)

lemma daemon_step_transports [simp]: "dn_transports (run_daemon_step i d) = dn_transports d"
  by (cases i) (simp_all add: stop_daemon_def stop_service_def service_stopped_def)

text \<open>No transport yet, so nobody has stopped the daemon; later, every transport is closed once it is stopped.\<close>

definition quiet_start :: "daemon \<Rightarrow> bool" where
  "quiet_start d \<longleftrightarrow> dn_transports d = [] \<and> \<not> dn_stopping d"

definition covered :: "daemon \<Rightarrow> bool" where
  "covered d \<longleftrightarrow> (dn_stopping d \<longrightarrow> set (dn_transports d) \<subseteq> set (dn_closed d))"

lemma daemon_keeps_quiet: "keeps run_daemon_step (\<lambda>_. True) dn_inv quiet_start"
proof (rule keepsI)
  fix i d assume "quiet_start d"
  then show "quiet_start (run_daemon_step i d)" by (cases i) (auto simp: quiet_start_def stop_service_def service_stopped_def)
qed

lemma keeps_covered: "keeps run_daemon_step (\<lambda>_. True) dn_inv covered"
proof (rule keepsI)
  fix i d assume "covered d"
  then show "covered (run_daemon_step i d)" by (cases i) (auto simp: covered_def stop_daemon_def stop_service_def service_stopped_def)
qed

text \<open>How a start that may have failed leaves the daemon before \<open>stop\<close>.\<close>

definition start_failed :: "unit result \<Rightarrow> daemon \<Rightarrow> bool" where
  "start_failed r d \<longleftrightarrow> (case r of Inl _ \<Rightarrow> covered d | Inr _ \<Rightarrow> True)"

definition stopped_whole :: "unit result \<Rightarrow> daemon \<Rightarrow> bool" where
  "stopped_whole r d \<longleftrightarrow> (case r of Inl _ \<Rightarrow> dn_stopping d \<and> set (dn_transports d) \<subseteq> set (dn_closed d) | Inr _ \<Rightarrow> True)"

lemma quiet_covered: "quiet_start d \<Longrightarrow> covered d"
  by (simp add: quiet_start_def covered_def)

lemma awaited_ok:
  assumes "keeps run_daemon_step (\<lambda>_. True) dn_inv R" "dn_inv d" "R d"
  shows "run_ok (\<lambda>_. True) dn_inv (\<lambda>_. R) (awaited d sch)"
  unfolding awaited_def
  by (rule daemon.await_seq [OF assms sch_ok_True]) (auto simp: ret_def raise_def split: sum.split)

lemma pushed:
  assumes "dn_inv d" "quiet_start d"
  shows "dn_inv (d\<lparr>dn_transports := dn_transports d @ [t]\<rparr>) \<and> covered (d\<lparr>dn_transports := dn_transports d @ [t]\<rparr>)"
  using assms by (auto simp: dn_inv_def quiet_start_def covered_def)

lemma start_transports_ok:
  assumes "dn_inv d" "quiet_start d"
  shows "run_ok (\<lambda>_. True) dn_inv start_failed (start_transports use_stdio path tcp d sch)"
proof -
  have network: "run_ok (\<lambda>_. True) dn_inv start_failed
      ((if tcp then seq awaited (\<lambda>names. push_transport (NetworkTransport names)) else ret ()) d sch)"
    if "dn_inv d" "covered d" for d sch
  proof (cases tcp)
    case True
    have "run_ok (\<lambda>_. True) dn_inv start_failed (seq awaited (\<lambda>names. push_transport (NetworkTransport names)) d sch)"
      by (rule run_ok_seq, rule awaited_ok [OF keeps_covered that])
        (auto simp: start_failed_def push_transport_def update_def dn_inv_def)
    with True show ?thesis by simp
  qed (use that in \<open>simp add: ret_def start_failed_def\<close>)
  have local: "run_ok (\<lambda>_. True) dn_inv (\<lambda>_. covered)
      ((if use_stdio then push_transport StdioTransport else seq awaited (\<lambda>_. push_transport (UnixTransport path))) d sch)"
    if "dn_inv d" "quiet_start d" for d sch
  proof (cases use_stdio)
    case False
    have "run_ok (\<lambda>_. True) dn_inv (\<lambda>_. covered) (seq awaited (\<lambda>_. push_transport (UnixTransport path)) d sch)"
      by (rule run_ok_seq, rule awaited_ok [OF daemon_keeps_quiet that])
        (auto simp: push_transport_def update_def pushed quiet_covered)
    with False show ?thesis by simp
  qed (use that in \<open>simp add: push_transport_def update_def pushed\<close>)
  show ?thesis
    unfolding start_transports_def
  proof (rule run_ok_seq, rule awaited_ok [OF daemon_keeps_quiet assms])
    fix x d sch assume "dn_inv d" "quiet_start d"
    then show "run_ok (\<lambda>_. True) dn_inv start_failed
        (seq (if use_stdio then push_transport StdioTransport else seq awaited (\<lambda>_. push_transport (UnixTransport path)))
          (\<lambda>_. if tcp then seq awaited (\<lambda>names. push_transport (NetworkTransport names)) else ret ()) d sch)"
      by (intro run_ok_seq, rule local) (simp add: start_failed_def, rule network)
  qed (simp add: start_failed_def quiet_covered)
qed

definition stopped :: "daemon \<Rightarrow> bool" where
  "stopped d \<longleftrightarrow> dn_stopping d \<and> set (dn_transports d) \<subseteq> set (dn_closed d)"

lemma keeps_stopped:
  "keeps run_daemon_step (\<lambda>_. True) dn_inv stopped"
  "keeps run_daemon_step (\<lambda>_. True) dn_inv (\<lambda>d. stopped d \<and> dn_shutdown d)"
proof -
  have "stopped d \<Longrightarrow> stopped (run_daemon_step i d)" for i d
    by (cases i) (auto simp: stopped_def stop_daemon_def stop_service_def service_stopped_def)
  moreover have "dn_shutdown d \<Longrightarrow> dn_shutdown (run_daemon_step i d)" for i d
    by (cases i) (auto simp: stop_daemon_def stop_service_def service_stopped_def)
  ultimately show "keeps run_daemon_step (\<lambda>_. True) dn_inv stopped"
    "keeps run_daemon_step (\<lambda>_. True) dn_inv (\<lambda>d. stopped d \<and> dn_shutdown d)"
    by (auto intro: keepsI)
qed

lemma service_stop_ok:
  assumes "dn_inv d" "stopped d"
  shows "run_ok (\<lambda>_. True) dn_inv (\<lambda>_ d. stopped d \<and> dn_shutdown d \<and> dn_settled d)
    (seq (await run_daemon_step) (\<lambda>r. seq (update service_stopped) (\<lambda>_.
       case r of Inl e \<Rightarrow> raise e | Inr _ \<Rightarrow> (case closings of Inl e \<Rightarrow> raise e | Inr _ \<Rightarrow> ret ()))) (stop_service d) sch)"
proof (rule daemon.await_seq [OF keeps_stopped(2) _ _ sch_ok_True])
  show "dn_inv (stop_service d)" "stopped (stop_service d) \<and> dn_shutdown (stop_service d)"
    using assms by (auto simp: stop_service_def dn_inv_def stopped_def)
qed (auto simp: seq_sync ret_def raise_def service_stopped_def stopped_def dn_inv_def split: sum.split)

lemma stop_ok:
  assumes "dn_inv d" "covered d"
  shows "run_ok (\<lambda>_. True) dn_inv (\<lambda>_ d. stopped d \<and> dn_shutdown d \<and> dn_settled d) (stop_and_wait d sch)"
  unfolding stop_and_wait_def seq_sync
proof (rule daemon.await_seq [OF keeps_stopped(1) _ _ sch_ok_True])
  show "dn_inv (stop_daemon d)" "stopped (stop_daemon d)"
    using assms by (auto simp: stop_daemon_def dn_inv_def stopped_def covered_def)
qed (rule service_stop_ok [unfolded seq_sync])

text \<open>
  C19. A start of the daemon that fails leaves nothing behind, wherever it fails and whatever a transport
  that was already there asked meanwhile: before an error is thrown, every transport that was started has
  been told to close, and after that the shutdown of the service has been called and has settled.
\<close>

theorem failed_start_leaves_nothing:
  "case startDaemon use_stdio path tcp new_daemon sch of
      Finished (Inl e) d sch' \<Rightarrow> dn_stopping d \<and> dn_shutdown d \<and> dn_settled d \<and> set (dn_transports d) \<subseteq> set (dn_closed d)
    | Finished (Inr _) d sch' \<Rightarrow> dn_names d = Some (concat (map transport_names (dn_transports d)))
    | Waiting d \<Rightarrow> (dn_settled d \<longrightarrow> dn_shutdown d) \<and> (dn_shutdown d \<longrightarrow> dn_stopping d)"
proof -
  define Q where "Q r d \<longleftrightarrow> (case r of
      Inl _ \<Rightarrow> dn_stopping d \<and> dn_shutdown d \<and> dn_settled d \<and> set (dn_transports d) \<subseteq> set (dn_closed d)
    | Inr _ \<Rightarrow> dn_names d = Some (concat (map transport_names (dn_transports d))))" for r :: "unit result" and d :: daemon
  let ?start = "start_transports use_stdio path tcp"
  have new: "dn_inv new_daemon" "quiet_start new_daemon" by (simp_all add: dn_inv_def quiet_start_def new_daemon_def)
  have caught: "run_ok (\<lambda>_. True) dn_inv (\<lambda>r d. case r of Inl e \<Rightarrow> Q (Inl e) d | Inr _ \<Rightarrow> True)
      (try_catch ?start (\<lambda>e. seq stop_and_wait (\<lambda>_. raise e)) new_daemon sch)"
  proof (rule run_ok_try, rule start_transports_ok [OF new])
    fix e d sch assume "dn_inv d" "start_failed (Inl e) d"
    then have stopped: "run_ok (\<lambda>_. True) dn_inv (\<lambda>_ d. dn_stopping d \<and> dn_shutdown d \<and> dn_settled d \<and> set (dn_transports d) \<subseteq> set (dn_closed d))
        (stop_and_wait d sch)" for sch
      using stop_ok [of d sch] by (simp add: start_failed_def stopped_def conj_ac)
    show "run_ok (\<lambda>_. True) dn_inv (\<lambda>r d. case r of Inl e \<Rightarrow> Q (Inl e) d | Inr _ \<Rightarrow> True) (seq stop_and_wait (\<lambda>_. raise e) d sch)"
      by (rule run_ok_seq, rule stopped) (auto simp: Q_def raise_def)
  qed simp
  have "run_ok (\<lambda>_. True) dn_inv Q (startDaemon use_stdio path tcp new_daemon sch)"
    unfolding startDaemon_def
    by (rule run_ok_seq, rule caught) (auto simp: Q_def update_def dn_inv_def)
  then show ?thesis
    by (cases "startDaemon use_stdio path tcp new_daemon sch") (auto simp: Q_def dn_inv_def split: sum.splits)
qed

text \<open>
  The start does not look whether \<open>stop\<close> has been called by the time a transport is up: when it is asked to
  stop while the network server binds, that server is left open.
\<close>

theorem late_network_stays_open:
  "startDaemon True path True new_daemon
     [([], Some (Inr [])), ([ShutdownAsked, TransportsClosed, ShutdownSettled], Some (Inr [''http://127.0.0.1:1'']))] =
   Finished (Inr ()) \<lparr>dn_transports = [StdioTransport, NetworkTransport [''http://127.0.0.1:1'']], dn_closed = [StdioTransport],
     dn_stopping = True, dn_shutdown = True, dn_settled = True, dn_names = Some [''stdio'', ''http://127.0.0.1:1'']\<rparr> []"
  by code_simp

theorem failed_start_leaves_nothing_witness:
  "case startDaemon False ''/run/p.sock'' True new_daemon
      [([], Some (Inr [])), ([], Some (Inr [])), ([], Some (Inl (JsError ''EACCES''))), ([], Some (Inr [])), ([], Some (Inr []))] of
     Finished (Inl e) d sch' \<Rightarrow> e = JsError ''EACCES'' \<and> dn_closed d = [UnixTransport ''/run/p.sock''] \<and> dn_shutdown d
   | _ \<Rightarrow> False"
proof -
  let ?sch = "[([], Some (Inr [])), ([], Some (Inr [])), ([], Some (Inl (JsError ''EACCES''))), ([], Some (Inr [])), ([], Some (Inr []))]"
  have run: "startDaemon False ''/run/p.sock'' True new_daemon ?sch = Finished (Inl (JsError ''EACCES''))
      \<lparr>dn_transports = [UnixTransport ''/run/p.sock''], dn_closed = [UnixTransport ''/run/p.sock''], dn_stopping = True,
       dn_shutdown = True, dn_settled = True, dn_names = None\<rparr> []"
    by code_simp
  show ?thesis using failed_start_leaves_nothing [of False "''/run/p.sock''" True ?sch] unfolding run by simp
qed

section \<open>WebSockets\<close>

text \<open>A WebSocket is accepted under the same conditions as a request: the token, if one is configured, and the origin.\<close>

lemma websocket_admission:
  assumes "verifyClient env auth authorization origin"
  shows "assertBearerToken env auth authorization = Inr ()" "assertOriginAllowed (au_allowedOrigins auth) origin = Inr ()"
  using assms by (auto simp: verifyClient_def split: sum.splits)

end
