(* ===== verification/Network_Props.thy ===== *)
theory Network_Props
  imports Network Daemon_Props
begin

text \<open>
  The end of a server: the contract \<open>closing_server\<close> that the Unix socket server and the network server
  both meet, and what the network server does to the responses that are open when it is closed.
\<close>

section \<open>The contract of a server that is closed\<close>

text \<open>
  \<open>good\<close> is an invariant of the server. After \<open>close\<close> no connection is accepted, the timeout destroys the
  connections that are left, and the promise of \<open>close\<close> has resolved exactly when none is.
\<close>

locale closing_server =
  fixes step :: "'i \<Rightarrow> 's \<Rightarrow> 's" and good :: "'s \<Rightarrow> bool" and sockets :: "'s \<Rightarrow> nat list"
    and destroyed :: "'s \<Rightarrow> nat set" and shutting resolved :: "'s \<Rightarrow> bool"
    and arrives gone :: "nat \<Rightarrow> 'i" and closes timeout :: 'i
  assumes good_step: "good s \<Longrightarrow> good (step i s)"
    and close_begins: "good s \<Longrightarrow> shutting (step closes s)"
    and shutting_stays: "shutting s \<Longrightarrow> shutting (step i s)"
    and arrival_refused: "shutting s \<Longrightarrow> step (arrives n) s = s"
    and socket_gone: "sockets (step (gone n) s) = removeAll n (sockets s)"
    and timeout_destroys: "good s \<Longrightarrow> shutting s \<Longrightarrow> set (sockets (step timeout s)) \<subseteq> destroyed (step timeout s)"
    and resolves: "good s \<Longrightarrow> shutting s \<Longrightarrow> resolved s = (sockets s = [])"
begin

lemma good_run: "good s \<Longrightarrow> good (fold step is s)"
  by (induction "is" arbitrary: s) (simp_all add: good_step)

lemma gone_resolves:
  "good s \<Longrightarrow> shutting s \<Longrightarrow> set (sockets s) \<subseteq> set ns \<Longrightarrow> resolved (fold step (map gone ns) s)"
proof (induction ns arbitrary: s)
  case (Cons n ns)
  have "set (sockets (step (gone n) s)) \<subseteq> set ns" using Cons.prems(3) by (auto simp: socket_gone)
  with Cons.IH [OF good_step [OF Cons.prems(1)] shutting_stays [OF Cons.prems(2)]] show ?case by simp
qed (simp add: resolves)

lemma close_ends:
  assumes "good s"
  shows "let c = step closes s; t = step timeout c in
    step (arrives n) c = c \<and> set (sockets t) \<subseteq> destroyed t \<and> resolved (fold step (map gone (sockets t)) t)"
proof -
  have c: "good (step closes s)" "shutting (step closes s)" by (intro good_step close_begins assms)+
  then have "good (step timeout (step closes s))" "shutting (step timeout (step closes s))"
    by (auto intro: good_step shutting_stays)
  from gone_resolves [OF this order_refl] show ?thesis
    by (simp add: Let_def arrival_refused [OF c(2)] timeout_destroys [OF c])
qed

end

section \<open>The Unix socket server\<close>

definition rn_inv :: "running_transport \<Rightarrow> bool" where
  "rn_inv r \<longleftrightarrow> rn_resolved r = (rn_closing r \<and> rn_sockets r = []) \<and>
     (rn_closing r \<and> \<not> rn_timer r \<longrightarrow> set (rn_sockets r) \<subseteq> rn_destroyed r) \<and> (rn_timer r \<longrightarrow> rn_closing r)"

lemma rn_inv_step: "rn_inv r \<Longrightarrow> rn_inv (transport_run1 st r)"
  by (cases st) (auto simp: rn_inv_def server_closed_def)

lemma transport_facts:
  "rn_closing (transport_run1 CloseTransport r)"
  "rn_closing r \<Longrightarrow> rn_closing (transport_run1 st r)"
  "rn_sockets (transport_run1 (SocketClosed n) r) = removeAll n (rn_sockets r)"
  by (simp add: server_closed_def, cases st, simp_all add: server_closed_def)

interpretation unix_server: closing_server transport_run1 rn_inv rn_sockets rn_destroyed rn_closing rn_resolved
  Accept SocketClosed CloseTransport TimerFired
proof
  fix s assume "rn_inv s" "rn_closing s"
  then show "set (rn_sockets (transport_run1 TimerFired s)) \<subseteq> rn_destroyed (transport_run1 TimerFired s)"
    "rn_resolved s = (rn_sockets s = [])"
    by (auto simp: rn_inv_def)
qed (simp_all add: rn_inv_step transport_facts server_closed_def)

lemma rn_inv_new: "rn_inv new_transport"
  by (simp add: rn_inv_def new_transport_def)

text \<open>
  Closing a server ends: after \<open>close\<close> no connection is accepted, after its second every connection that
  is still there has been destroyed, and once the connections have closed the promise has resolved.
\<close>

lemma server_close_ends:
  "let c = transport_run1 CloseTransport (fold transport_run1 steps new_transport); t = transport_run1 TimerFired c in
    transport_run1 (Accept n) c = c \<and> set (rn_sockets t) \<subseteq> rn_destroyed t \<and>
    rn_resolved (fold transport_run1 (map SocketClosed (rn_sockets t)) t)"
  by (rule unix_server.close_ends [OF unix_server.good_run [OF rn_inv_new]])

section \<open>The network server\<close>

text \<open>
  Once it stops, every response is over, or its last error frame has been written and only the flush of it
  is awaited; before, its timer does not run and nothing is resolved.
\<close>

definition over :: "http_response \<Rightarrow> bool" where
  "over r \<longleftrightarrow> hr_ended r \<or> hr_destroyed r"

definition ending :: "network \<Rightarrow> bool" where
  "ending s \<longleftrightarrow> (\<forall>(m, r) \<in> set (nw_responses s). over r \<or> m \<in> fst ` set (nw_finishing s))"

definition nw_inv :: "network \<Rightarrow> bool" where
  "nw_inv s \<longleftrightarrow> set (nw_clients s) \<subseteq> set (nw_sockets s) \<and>
     nw_resolved s = (nw_stopping s \<and> nw_sockets s = []) \<and>
     (nw_stopping s \<and> \<not> nw_timer s \<longrightarrow> set (nw_sockets s) \<subseteq> nw_destroyed s) \<and> (nw_timer s \<longrightarrow> nw_stopping s) \<and>
     (nw_stopping s \<longrightarrow> ending s)"

lemma over_write: "over r \<Longrightarrow> over (write_response w r)"
  by (cases w) (auto simp: over_def unanswered_def write_begin_def heartbeat_def answer_call_def)

lemma over_begin: "over r \<Longrightarrow> over (snd (finish_begin as_response e i flushed r))"
  by (auto simp: over_def finish_begin_def)

lemma over_failure: "over r \<Longrightarrow> over (snd (handle_failure failed flushed r))"
  by (auto simp: handle_failure_def sendStreamError_def over_begin split: sum.splits http_error.splits)
    (auto simp: over_def sendError_def)

lemma over_settled: "over (finish_settled known first r)"
  by (cases known; cases first) (auto simp: over_def finish_settled_def write_settled_def split: sum.splits)

text \<open>The frame of the error that ends a stream is short, so it is always written.\<close>

lemma stopping_frame: "\<exists>t. error_frame False i stopping_error = Inr t"
proof -
  have "byteLength (sse_text ''stream/error'' (JObj [(''jsonrpc'', JStr ''2.0''), (''method'', JStr ''stream/error''),
      (''params'', JObj [(''code'', JStr ''streamInterrupted''), (''message'', JStr ''Daemon is stopping'')])]) None) \<le> 1000"
    by code_simp
  then show ?thesis by (simp add: error_frame_def stopping_error_def encodeSse_def MAX_STREAM_BYTES_def)
qed

lemma over_stop: "over (snd (stop_response flushed r)) \<or> fst (stop_response flushed r) \<noteq> None"
proof -
  obtain t where t: "error_frame False JUndefined stopping_error = Inr t" using stopping_frame by blast
  show ?thesis
    by (auto simp: over_def stop_response_def sendStreamError_def finish_begin_def t sendError_def split: prod.splits)
qed

lemma over_refused: "over (sendError 503 stopping_error JNull new_response)"
  by (simp add: over_def sendError_def new_response_def)


lemma on_responses_fields [simp]:
  "nw_sockets (on_responses f s) = nw_sockets s" "nw_clients (on_responses f s) = nw_clients s"
  "nw_stopping (on_responses f s) = nw_stopping s" "nw_timer (on_responses f s) = nw_timer s"
  "nw_resolved (on_responses f s) = nw_resolved s" "nw_destroyed (on_responses f s) = nw_destroyed s"
  "nw_handled (on_responses f s) = nw_handled s" "map fst (nw_responses (on_responses f s)) = map fst (nw_responses s)"
  "map_of (nw_responses (on_responses f s)) m = map_option (f m) (map_of (nw_responses s) m)"
proof -
  show "map_of (nw_responses (on_responses f s)) m = map_option (f m) (map_of (nw_responses s) m)"
  proof -
    have "map_of (map (\<lambda>(m, r). (m, f m r)) rs) m = map_option (f m) (map_of rs m)" for rs by (induction rs) auto
    then show ?thesis by (simp add: on_responses_def)
  qed
qed (simp_all add: on_responses_def comp_def case_prod_beta)

lemma network_closed_fields [simp]:
  "nw_sockets (network_closed s) = nw_sockets s" "nw_clients (network_closed s) = nw_clients s"
  "nw_stopping (network_closed s) = nw_stopping s" "nw_responses (network_closed s) = nw_responses s"
  "nw_destroyed (network_closed s) = nw_destroyed s" "nw_handled (network_closed s) = nw_handled s"
  "nw_timer (network_closed s) = (nw_timer s \<and> \<not> (nw_stopping s \<and> nw_sockets s = [] \<and> nw_clients s = []))"
  "nw_resolved (network_closed s) = (nw_resolved s \<or> nw_stopping s \<and> nw_sockets s = [] \<and> nw_clients s = [])"
  by (auto simp: network_closed_def)

lemma on_responses_finishing [simp]: "nw_finishing (on_responses f s) = nw_finishing s"
  by (simp add: on_responses_def)

lemma network_closed_finishing [simp]: "nw_finishing (network_closed s) = nw_finishing s"
  by (simp add: network_closed_def)

lemma ending_cong: "ending s \<Longrightarrow> nw_responses s' = nw_responses s \<Longrightarrow> nw_finishing s' = nw_finishing s \<Longrightarrow> ending s'"
  by (simp add: ending_def)

lemma with_failure_fields [simp]:
  "nw_sockets (with_failure f s) = nw_sockets s" "nw_clients (with_failure f s) = nw_clients s"
  "nw_stopping (with_failure f s) = nw_stopping s" "nw_timer (with_failure f s) = nw_timer s"
  "nw_resolved (with_failure f s) = nw_resolved s" "nw_destroyed (with_failure f s) = nw_destroyed s"
  "nw_handled (with_failure f s) = nw_handled s" "map fst (nw_responses (with_failure f s)) = map fst (nw_responses s)"
  "map_of (nw_responses (with_failure f s)) m = map_option (\<lambda>r. snd (f m r)) (map_of (nw_responses s) m)"
proof -
  show "map_of (nw_responses (with_failure f s)) m = map_option (\<lambda>r. snd (f m r)) (map_of (nw_responses s) m)"
    using on_responses_fields(9) [of "\<lambda>m r. snd (f m r)" s m] by (simp add: with_failure_def)
qed (simp_all add: with_failure_def)

lemma ending_on_responses:
  assumes "ending s" "\<And>m r. (m, r) \<in> set (nw_responses s) \<Longrightarrow> over r \<Longrightarrow> over (f m r)"
  shows "ending (on_responses f s)"
  using assms by (fastforce simp: ending_def on_responses_def)

lemma ending_with_failure:
  assumes "\<And>m r. (m, r) \<in> set (nw_responses s) \<Longrightarrow>
    over (snd (f m r)) \<or> fst (f m r) \<noteq> None \<or> m \<in> fst ` set (nw_finishing s)"
  shows "ending (with_failure f s)"
  unfolding ending_def
proof (intro ballI, clarify)
  fix m x
  assume "(m, x) \<in> set (nw_responses (with_failure f s))" and not: "m \<notin> fst ` set (nw_finishing (with_failure f s))"
  then obtain r where r: "(m, r) \<in> set (nw_responses s)" "x = snd (f m r)" by (auto simp: with_failure_def on_responses_def)
  have "m \<notin> fst ` set (nw_finishing s)" using not by (auto simp: with_failure_def)
  moreover have "fst (f m r) = None"
  proof (rule ccontr)
    assume "fst (f m r) \<noteq> None"
    then obtain known where "pending_finish m (fst (f m r)) = [(m, known)]" by (auto simp: pending_finish_def)
    then have "(m, known) \<in> set (nw_finishing (with_failure f s))"
      using r(1) by (auto simp: with_failure_def intro!: bexI [of _ "(m, r)"])
    with not show False by force
  qed
  ultimately show "over x" using assms [OF r(1)] r(2) by blast
qed

lemma ending_at_response: "ending s \<Longrightarrow> (\<And>r. over r \<Longrightarrow> over (snd (f r))) \<Longrightarrow> ending (at_response m f s)"
  unfolding at_response_def by (rule ending_with_failure) (auto simp: ending_def)

lemma finish_settles_fields [simp]:
  "nw_sockets (finish_settles m first s) = nw_sockets s" "nw_clients (finish_settles m first s) = nw_clients s"
  "nw_stopping (finish_settles m first s) = nw_stopping s" "nw_timer (finish_settles m first s) = nw_timer s"
  "nw_resolved (finish_settles m first s) = nw_resolved s" "nw_destroyed (finish_settles m first s) = nw_destroyed s"
  "nw_handled (finish_settles m first s) = nw_handled s"
  by (auto simp: finish_settles_def split: option.splits)

lemma finishing_found: "find (\<lambda>(m', _). m' = m) xs \<noteq> None \<longleftrightarrow> m \<in> fst ` set xs"
  by (induction xs) auto

lemma finishing_entry: "find (\<lambda>(m', _). m' = m) xs = Some (k, known) \<Longrightarrow> k = m \<and> (m, known) \<in> set xs"
  by (induction xs) (auto split: if_splits)

text \<open>When the awaited write settles, the response is over.\<close>

lemma finish_settles_over:
  assumes "m \<in> fst ` set (nw_finishing s)" "(m, x) \<in> set (nw_responses (finish_settles m first s))"
  shows "over x"
proof -
  have "find (\<lambda>(m', _). m' = m) (nw_finishing s) \<noteq> None" using assms(1) finishing_found by metis
  then obtain m' known where "find (\<lambda>(m', _). m' = m) (nw_finishing s) = Some (m', known)" by auto
  with assms(2) show ?thesis by (auto simp: finish_settles_def on_responses_def over_settled)
qed

lemma ending_finish:
  assumes "ending s"
  shows "ending (finish_settles m first s)"
proof (cases "find (\<lambda>(m', _). m' = m) (nw_finishing s)")
  case (Some e)
  then obtain known where e: "e = (m, known)" by (cases e) (auto dest: finishing_entry)
  have "over x \<or> k \<in> fst ` set (remove1 (m, known) (nw_finishing s))"
    if kx: "(k, x) \<in> set (nw_responses (finish_settles m first s))" for k x
  proof (cases "k = m")
    case True
    have "m \<in> fst ` set (nw_finishing s)" using Some finishing_found by (metis option.distinct(1))
    then show ?thesis using finish_settles_over kx True by blast
  next
    case False
    then have "(k, x) \<in> set (nw_responses s)" using kx by (auto simp: finish_settles_def Some e on_responses_def)
    then have "over x \<or> k \<in> fst ` set (nw_finishing s)" using assms by (auto simp: ending_def)
    moreover have "(k, y) \<in> set (nw_finishing s) \<Longrightarrow> (k, y) \<in> set (remove1 (m, known) (nw_finishing s))" for y
      using False by (simp add: in_set_remove1)
    ultimately show ?thesis by force
  qed
  then show ?thesis by (auto simp: ending_def finish_settles_def Some e)
qed (simp add: finish_settles_def assms)

lemma nw_inv_same:
  "nw_inv s \<Longrightarrow> nw_sockets s' = nw_sockets s \<Longrightarrow> nw_clients s' = nw_clients s \<Longrightarrow> nw_resolved s' = nw_resolved s \<Longrightarrow>
   nw_stopping s' = nw_stopping s \<Longrightarrow> nw_timer s' = nw_timer s \<Longrightarrow> nw_destroyed s' = nw_destroyed s \<Longrightarrow>
   (ending s \<Longrightarrow> ending s') \<Longrightarrow> nw_inv s'"
  by (auto simp: nw_inv_def)

lemma nw_inv_step: "nw_inv s \<Longrightarrow> nw_inv (step_network st s)"
proof (cases st)
  case (ResponseWritten m w)
  assume "nw_inv s"
  then show ?thesis
    by (rule nw_inv_same) (auto simp: ResponseWritten over_write intro!: ending_on_responses)
next
  case (StreamFails m as_response e i flushed)
  assume "nw_inv s"
  then show ?thesis
    by (rule nw_inv_same) (auto simp: StreamFails at_response_def over_begin intro!: ending_at_response [unfolded at_response_def])
next
  case (HandlerThrows m failed flushed)
  assume "nw_inv s"
  then show ?thesis
    by (rule nw_inv_same) (auto simp: HandlerThrows at_response_def over_failure intro!: ending_at_response [unfolded at_response_def])
next
  case (FinishSettles m first)
  assume "nw_inv s"
  then show ?thesis by (rule nw_inv_same) (simp_all add: FinishSettles ending_finish)
next
  case (CloseNetwork flushed)
  assume inv: "nw_inv s"
  show ?thesis
  proof (cases "nw_stopping s")
    case False
    have "ending (with_failure (\<lambda>m. stop_response (flushed m)) (s\<lparr>nw_stopping := True, nw_timer := True\<rparr>))"
      by (rule ending_with_failure) (use over_stop in blast)
    then have "ending (close_network flushed s)"
      using False by (auto simp: close_network_def Let_def network_closed_def elim!: ending_cong)
    moreover have "nw_sockets s = [] \<longrightarrow> nw_clients s = []" using inv by (auto simp: nw_inv_def)
    ultimately show ?thesis using inv False by (auto simp: nw_inv_def CloseNetwork close_network_def Let_def)
  qed (use inv in \<open>simp add: CloseNetwork close_network_def\<close>)
next
  case (SocketGone n)
  assume inv: "nw_inv s"
  then have "set (removeAll n (nw_clients s)) \<subseteq> set (removeAll n (nw_sockets s))" by (auto simp: nw_inv_def)
  moreover from this have "removeAll n (nw_sockets s) = [] \<longrightarrow> removeAll n (nw_clients s) = []"
    by (metis set_empty subset_empty)
  moreover have "set (removeAll n (nw_sockets s)) \<subseteq> set (nw_sockets s)" by auto
  moreover have "nw_sockets s = [] \<longrightarrow> removeAll n (nw_sockets s) = []" by simp
  moreover have "ending s \<Longrightarrow> ending (step_network st s)" by (rule ending_cong) (simp_all add: SocketGone)
  ultimately show ?thesis using inv unfolding SocketGone step_network.simps nw_inv_def
    by (auto simp del: set_removeAll removeAll.simps dest: subsetD)
next
  case (ResponseGone m)
  assume "nw_inv s"
  then show ?thesis by (rule nw_inv_same) (auto simp: ResponseGone ending_def image_iff)
next
  case (RequestArrived n m)
  assume inv: "nw_inv s"
  then show ?thesis
    by (auto simp: RequestArrived nw_inv_def ending_def handle_arrival_def over_refused)
qed (auto simp: nw_inv_def network_timeout_def ending_def)

lemma nw_inv_new: "nw_inv new_network"
  by (simp add: nw_inv_def new_network_def ending_def)

lemma stopping_stays: "nw_stopping s \<Longrightarrow> nw_stopping (step_network st s) \<and> nw_handled (step_network st s) = nw_handled s"
  by (cases st) (simp_all add: handle_arrival_def network_timeout_def close_network_def at_response_def)

lemma close_network_stops: "nw_stopping (close_network flushed s)"
  by (simp add: close_network_def Let_def)

interpretation network_server: closing_server step_network nw_inv nw_sockets nw_destroyed nw_stopping nw_resolved
  SocketOpened SocketGone "CloseNetwork flushed" NetworkTimeout for flushed
proof
  fix s assume "nw_inv s" "nw_stopping s"
  then show "set (nw_sockets (step_network NetworkTimeout s)) \<subseteq> nw_destroyed (step_network NetworkTimeout s)"
    "nw_resolved s = (nw_sockets s = [])"
    by (auto simp: nw_inv_def network_timeout_def)
qed (simp_all add: nw_inv_step stopping_stays close_network_stops)

lemma network_close_ends:
  "let c = step_network (CloseNetwork flushed) (network_run steps new_network); t = step_network NetworkTimeout c in
    step_network (SocketOpened n) c = c \<and> set (nw_sockets t) \<subseteq> nw_destroyed t \<and>
    nw_resolved (network_run (map SocketGone (nw_sockets t)) t)"
  unfolding network_run_def by (rule network_server.close_ends [OF network_server.good_run [OF nw_inv_new]])

section \<open>What a closed server answers\<close>

lemma stopping_run:
  "nw_stopping s \<Longrightarrow> nw_stopping (network_run steps s) \<and> nw_handled (network_run steps s) = nw_handled s"
  unfolding network_run_def by (induction steps arbitrary: s) (simp_all add: stopping_stays)

lemma stop_unsent:
  assumes "\<not> over r" "hr_status r = None"
  shows "hr_status (snd (stop_response flushed r)) = Some 503" "hr_ended (snd (stop_response flushed r))"
    "hr_body (snd (stop_response flushed r)) = hr_body r @ stringify (failure JNull stopping_error)"
  using assms by (simp_all add: stop_response_def headers_sent_def sendError_def over_def)

lemma stop_stream:
  assumes "\<not> over r" "hr_status r \<noteq> None"
  shows "hr_status (snd (stop_response flushed r)) = hr_status r \<and> fst (stop_response flushed r) \<noteq> None \<and>
    (\<exists>frame. error_frame False JUndefined stopping_error = Inr frame \<and> hr_body (snd (stop_response flushed r)) = hr_body r @ frame)"
proof -
  obtain t where t: "error_frame False JUndefined stopping_error = Inr t" using stopping_frame by blast
  then have "byteLength t \<le> MAX_STREAM_BYTES"
    by (auto simp: error_frame_def stopping_error_def encodeSse_def split: if_splits)
  with t assms show ?thesis
    by (auto simp: stop_response_def headers_sent_def sendStreamError_def finish_begin_def over_def write_begin_def)
qed

lemma finishing_member:
  "map_of (nw_responses s) m = Some r \<Longrightarrow> fst (f m r) \<noteq> None \<Longrightarrow> m \<in> fst ` set (nw_finishing (with_failure f s))"
proof -
  assume r: "map_of (nw_responses s) m = Some r" and "fst (f m r) \<noteq> None"
  then obtain known where "pending_finish m (fst (f m r)) = [(m, known)]" by (auto simp: pending_finish_def)
  then have "(m, known) \<in> set (nw_finishing (with_failure f s))"
    using map_of_SomeD [OF r] by (auto simp: with_failure_def intro!: bexI [of _ "(m, r)"])
  then show ?thesis by force
qed

text \<open>
  C17. Closing the network server leaves no request without an answer. No request is handled any more. A
  response of which nothing had been sent is refused with 503 and ended; to a stream the frame of the error
  is written at once, and it is ended or destroyed when this write settles. From then on, whatever the
  handlers still do, every response is over or only waits for such a write, which ends it, and a request that
  still comes on an open connection is refused with 503.
\<close>

theorem network_close_answers_all:
  assumes "s = network_run steps new_network" "\<not> nw_stopping s" "c = step_network (CloseNetwork flushed) s"
    and "map_of (nw_responses s) m = Some r" "\<not> hr_ended r" "\<not> hr_destroyed r"
    and "n \<in> set (nw_sockets s)" "n \<notin> set (nw_clients s)" "k \<notin> set (map fst (nw_responses s))"
    and "t = network_run later c"
  shows "nw_handled t = nw_handled s \<and>
    (\<forall>(i, x) \<in> set (nw_responses t). hr_ended x \<or> hr_destroyed x \<or> i \<in> fst ` set (nw_finishing t)) \<and>
    (\<forall>i \<in> fst ` set (nw_finishing t). \<forall>first. \<forall>(j, x) \<in> set (nw_responses (step_network (FinishSettles i first) t)).
       j = i \<longrightarrow> hr_ended x \<or> hr_destroyed x) \<and>
    (\<exists>x. map_of (nw_responses c) m = Some x \<and>
      (if hr_status r = None
       then hr_status x = Some 503 \<and> hr_ended x \<and> hr_body x = hr_body r @ stringify (failure JNull stopping_error)
       else hr_status x = hr_status r \<and> m \<in> fst ` set (nw_finishing c) \<and>
         (\<exists>frame. error_frame False JUndefined stopping_error = Inr frame \<and> hr_body x = hr_body r @ frame))) \<and>
    (\<exists>x. map_of (nw_responses (step_network (RequestArrived n k) c)) k = Some x \<and>
      hr_status x = Some 503 \<and> hr_ended x \<and> hr_body x = stringify (failure JNull stopping_error))"
proof -
  let ?s1 = "s\<lparr>nw_stopping := True, nw_timer := True\<rparr>" and ?f = "\<lambda>m. stop_response (flushed m)"
  have "nw_inv t"
    unfolding assms(1,3,10) network_run_def by (intro network_server.good_run nw_inv_step nw_inv_new)
  moreover have c: "nw_stopping c" "nw_handled c = nw_handled s" "nw_sockets c = nw_sockets s" "nw_clients c = nw_clients s"
    and keys: "map fst (nw_responses c) = map fst (nw_responses s)"
    and found: "map_of (nw_responses c) m = Some (snd (?f m r))"
    and waiting: "nw_finishing c = nw_finishing (with_failure ?f ?s1)"
    using assms(2,4) by (simp_all add: assms(3) close_network_def Let_def)
  ultimately have ending: "ending t" "nw_handled t = nw_handled s"
    using stopping_run [OF c(1), of later] by (auto simp: nw_inv_def assms(10))
  have "\<not> over r" using assms(5,6) by (simp add: over_def)
  note ended = stop_unsent [OF this, of "flushed m"] stop_stream [OF this, of "flushed m"]
  have response: "\<exists>x. map_of (nw_responses c) m = Some x \<and>
      (if hr_status r = None
       then hr_status x = Some 503 \<and> hr_ended x \<and> hr_body x = hr_body r @ stringify (failure JNull stopping_error)
       else hr_status x = hr_status r \<and> m \<in> fst ` set (nw_finishing c) \<and>
         (\<exists>frame. error_frame False JUndefined stopping_error = Inr frame \<and> hr_body x = hr_body r @ frame))"
    using found ended finishing_member [of ?s1 m r ?f] assms(4) unfolding waiting by auto
  have "map_of (nw_responses c) k = None" using assms(9) unfolding map_of_eq_None_iff keys [symmetric] by simp
  then have refused: "\<exists>x. map_of (nw_responses (step_network (RequestArrived n k) c)) k = Some x \<and>
      hr_status x = Some 503 \<and> hr_ended x \<and> hr_body x = stringify (failure JNull stopping_error)"
    using assms(7-9) c by (auto simp: handle_arrival_def map_add_def sendError_def new_response_def simp flip: keys)
  from ending response refused show ?thesis
    using finish_settles_over by (fastforce simp: ending_def over_def)
qed

theorem network_close_answers_all_witness:
  "let s = network_run [SocketOpened 1, SocketOpened 2, SocketOpened 3, SocketUpgraded 2, RequestArrived 1 7, RequestArrived 3 8,
          ResponseWritten 8 BeginSse] new_network;
       c = step_network (CloseNetwork (\<lambda>_. False)) s in
     map fst (nw_responses s) = [7, 8] \<and> nw_close_frames c = [2] \<and>
     nw_handled (network_run [RequestArrived 1 9, ResponseWritten 8 (WriteFrame ''x'' True)] c) = nw_handled s \<and>
     hr_status (the (map_of (nw_responses c) 7)) = Some 503"
proof -
  let ?s = "network_run [SocketOpened 1, SocketOpened 2, SocketOpened 3, SocketUpgraded 2, RequestArrived 1 7, RequestArrived 3 8,
          ResponseWritten 8 BeginSse] new_network"
  let ?c = "step_network (CloseNetwork (\<lambda>_. False)) ?s"
  have run: "map fst (nw_responses ?s) = [7, 8]" "\<not> nw_stopping ?s" "map_of (nw_responses ?s) 7 = Some new_response"
    "1 \<in> set (nw_sockets ?s)" "1 \<notin> set (nw_clients ?s)" "nw_clients ?s = [2]"
    by (simp_all add: network_run_def new_network_def handle_arrival_def on_responses_def)
  then have frames: "nw_close_frames ?c = [2]" by (simp add: close_network_def network_closed_def Let_def)
  have unsent: "\<not> hr_ended new_response" "\<not> hr_destroyed new_response" "hr_status new_response = None"
    by (simp_all add: new_response_def)
  have "(9::nat) \<notin> set (map fst (nw_responses ?s))" unfolding run(1) by simp
  from network_close_answers_all [OF refl run(2) refl run(3) unsent(1,2) run(4,5) this refl,
      of "[RequestArrived 1 9, ResponseWritten 8 (WriteFrame ''x'' True)]" "\<lambda>_. False"]
  show ?thesis using run(1) frames unsent(3) by (auto simp: Let_def simp del: step_network.simps)
qed

end
