(* ===== verification/Socket_Opening.thy ===== *)
theory Socket_Opening
  imports Socket_Client
begin

text \<open>
  Opening the connection of a socket client (\<open>connectTransport\<close>, \<open>waitForOpen\<close> and the two transports of
  \<open>src/client/socket-client.ts\<close>): the promise that the first event settles, and what it leaves behind.
\<close>

section \<open>waitForOpen\<close>

text \<open>The events a listener is registered for; \<open>AbortEvent\<close> is the close of the client.\<close>

datatype open_event = ReadyEvent | ErrorEvent thrown | CloseEvent | AbortEvent

record opening_socket =
  og_listens :: bool
  og_outcome :: "(client_error + unit) option"
  og_closes :: nat
  og_ignores_errors :: bool

definition new_opening :: opening_socket where
  "new_opening = \<lparr>og_listens = True, og_outcome = None, og_closes = 0, og_ignores_errors = False\<rparr>"

definition opening_ready :: "opening_socket \<Rightarrow> opening_socket" where
  "opening_ready s = s\<lparr>og_listens := False, og_outcome := Some (Inr ())\<rparr>"

definition opening_error :: "client_error \<Rightarrow> opening_socket \<Rightarrow> opening_socket" where
  "opening_error e s =
     s\<lparr>og_listens := False, og_ignores_errors := True, og_closes := og_closes s + 1, og_outcome := Some (Inl e)\<rparr>"

fun opening_event :: "open_event \<Rightarrow> opening_socket \<Rightarrow> opening_socket" where
  "opening_event ReadyEvent s = (if og_listens s then opening_ready s else s)"
| "opening_event (ErrorEvent e) s = (if og_listens s then opening_error (Local e) s else s)"
| "opening_event CloseEvent s = (if og_listens s then opening_error connection_closed s else s)"
| "opening_event AbortEvent s = (if og_listens s then opening_error connection_closed s else s)"

text \<open>\<open>aborted\<close>: the client was closed before; the listeners are there when that is looked at.\<close>

definition waitForOpen :: "bool \<Rightarrow> open_event list \<Rightarrow> opening_socket" where
  "waitForOpen aborted events =
     fold opening_event events (if aborted then opening_error connection_closed new_opening else new_opening)"

section \<open>connectTransport\<close>

text \<open>
  \<open>connectUnix\<close> and \<open>connectWebSocket\<close>: the outcome of the attempt, \<open>None\<close> while it waits, with the kind of
  transport. \<open>agent\<close> is the outcome of reading \<open>tlsCa\<close>.
\<close>

definition websocket_token :: "(string \<Rightarrow> string option) \<Rightarrow> string option \<Rightarrow> string option \<Rightarrow> string option" where
  "websocket_token env token token_env =
     (case token of
        Some t \<Rightarrow> Some t
      | None \<Rightarrow> (case token_env of None \<Rightarrow> None | Some name \<Rightarrow> if name = [] then None else env name))"

definition websocket_headers :: "string option \<Rightarrow> (string \<times> string) list" where
  "websocket_headers token = (if truthy token then [(''Authorization'', ''Bearer '' @ the token)] else [])"

definition open_transport :: "string \<Rightarrow> unit result \<Rightarrow> bool \<Rightarrow> open_event list \<Rightarrow> (client_error + endpoint_kind) option" where
  "open_transport endpoint agent aborted events =
     (let opened = map_option (map_sum id (\<lambda>_. connectTransport endpoint)) (og_outcome (waitForOpen aborted events)) in
      case connectTransport endpoint of
        UnixEndpoint path \<Rightarrow> opened
      | WebSocketEndpoint url \<Rightarrow> (case agent of Inl e \<Rightarrow> Some (Inl (Local e)) | Inr _ \<Rightarrow> opened)
      | UnsupportedEndpoint e \<Rightarrow> Some (Inl (Local e)))"

section \<open>What an attempt leaves\<close>

definition opening_inv :: "opening_socket \<Rightarrow> bool" where
  "opening_inv s \<longleftrightarrow> og_listens s = (og_outcome s = None) \<and>
     og_closes s = (case og_outcome s of Some (Inl _) \<Rightarrow> 1 | _ \<Rightarrow> 0) \<and>
     og_ignores_errors s = (case og_outcome s of Some (Inl _) \<Rightarrow> True | _ \<Rightarrow> False)"

lemma opening_inv_event: "opening_inv s \<Longrightarrow> opening_inv (opening_event ev s)"
  by (cases ev) (auto simp: opening_inv_def opening_ready_def opening_error_def)

lemma opening_inv_wait: "opening_inv (waitForOpen aborted events)"
proof -
  have "opening_inv (fold opening_event events s)" if "opening_inv s" for s
    using that by (induction events arbitrary: s) (simp_all add: opening_inv_event)
  moreover have "opening_inv (if aborted then opening_error connection_closed new_opening else new_opening)"
    by (simp add: opening_inv_def opening_error_def new_opening_def)
  ultimately show ?thesis unfolding waitForOpen_def .
qed

lemma opening_settled: "\<not> og_listens s \<Longrightarrow> fold opening_event events s = s"
proof (induction events)
  case (Cons ev events)
  then have "opening_event ev s = s" by (cases ev) simp_all
  with Cons show ?case by simp
qed simp

text \<open>
  The first event settles the attempt; the socket is closed, once, exactly if the attempt failed, and a
  client that is closed before the connection is open never gets it.
\<close>

lemma opening_settles_once:
  shows "og_outcome (waitForOpen aborted events) = None \<longleftrightarrow> \<not> aborted \<and> events = []"
    and "og_closes (waitForOpen aborted events) = (case og_outcome (waitForOpen aborted events) of Some (Inl _) \<Rightarrow> 1 | _ \<Rightarrow> 0)"
    and "og_outcome (waitForOpen aborted events) = Some (Inr ()) \<longleftrightarrow> \<not> aborted \<and> events \<noteq> [] \<and> hd events = ReadyEvent"
proof -
  have settled: "og_outcome (opening_event ev s) \<noteq> None \<and> \<not> og_listens (opening_event ev s)" if "og_listens s" for ev s
    using that by (cases ev) (simp_all add: opening_ready_def opening_error_def)
  have first: "fold opening_event (ev # evs) new_opening = opening_event ev new_opening" for ev evs
    using settled [of new_opening ev] by (simp add: opening_settled new_opening_def)
  show "og_outcome (waitForOpen aborted events) = None \<longleftrightarrow> \<not> aborted \<and> events = []"
    using settled [of new_opening] first
    by (cases events) (auto simp: waitForOpen_def opening_error_def opening_settled new_opening_def simp del: fold.simps(2))
  show "og_closes (waitForOpen aborted events) = (case og_outcome (waitForOpen aborted events) of Some (Inl _) \<Rightarrow> 1 | _ \<Rightarrow> 0)"
    using opening_inv_wait [of aborted events] by (simp add: opening_inv_def)
  have "og_outcome (opening_event ev new_opening) = Some (Inr ()) \<longleftrightarrow> ev = ReadyEvent" for ev
    by (cases ev) (simp_all add: opening_ready_def opening_error_def new_opening_def)
  with first show "og_outcome (waitForOpen aborted events) = Some (Inr ()) \<longleftrightarrow> \<not> aborted \<and> events \<noteq> [] \<and> hd events = ReadyEvent"
    by (cases events) (auto simp: waitForOpen_def opening_error_def opening_settled new_opening_def simp del: fold.simps(2))
qed

section \<open>The transports\<close>

text \<open>
  \<open>LineTransport\<close> and \<open>WebSocketTransport\<close> over the socket they own: what is sent, and whether it was
  destroyed or terminated. What arrives is \<open>consume_line\<close> and \<open>consume_message\<close>.
\<close>

record client_transport =
  ct_sent :: "string list"
  ct_ended :: bool

definition transport_send :: "string \<Rightarrow> client_transport \<Rightarrow> client_transport" where
  "transport_send line t = t\<lparr>ct_sent := ct_sent t @ [line]\<rparr>"

definition transport_close :: "client_transport \<Rightarrow> client_transport" where
  "transport_close t = t\<lparr>ct_ended := True\<rparr>"

end
