(* ===== verification/Spec2Isabelle.thy ===== *)
theory Spec2Isabelle
  imports Event_Bus_Props Turn_Stream_Props Worker_Pool_Theorems Thread_Queries_Props Configuration_Props Pi_Worker_Theorems Catalog_Props
    Service_Theorems Cli_Props Cli_Tables Daemon_Client Network_Props Socket_Opening
begin

text \<open>
  A verification development for pi-threads, a daemon that runs Pi coding agents as worker processes and
  serves their threads to clients, and the command line \<open>pi-threads\<close> that is its main client. File
  names are those under \<open>src/\<close> of the repository; names of functions, fields and messages are kept.

  \<^bold>\<open>The program.\<close> A request of a client (\<open>client/\<close>, \<open>cli/\<close>) comes over HTTP (\<open>transport/http.ts\<close>), a WebSocket,
  a Unix socket or standard input (\<open>transport/websocket.ts\<close>, \<open>unix.ts\<close>, \<open>stdio.ts\<close>, which share
  \<open>json-rpc-router.ts\<close>) to \<open>PiThreadsService.dispatch\<close> (\<open>service/pi-threads-service.ts\<close>). The service finds the
  session of the thread in the catalog of session files (\<open>session/catalog.ts\<close>), takes a worker from the pool
  (\<open>worker/worker-pool.ts\<close>), which runs one Pi process each (\<open>worker/pi-rpc-worker.ts\<close>), and sends it commands. What
  Pi reports becomes events of the bus (\<open>service/event-bus.ts\<close>), which the service hears to end turns, and which
  subscriptions and the stream of a turn (\<open>protocol/turn-stream.ts\<close>, \<open>stream.ts\<close>) carry back to the clients, over
  HTTP as server-sent events (\<open>transport/sse.ts\<close>, \<open>client/sse-reader.ts\<close>). \<open>daemon.ts\<close> starts and stops all of it.

  \<^bold>\<open>How it is modelled.\<close> Pure functions are functions. A component that is driven by callbacks is a record of
  its fields with one function per event, and a step function over a datatype of its inputs; its properties are about
  all runs. Fields that only record what has happened (calls, writes, deliveries) are named in each theory. An \<open>async\<close>
  method is a \<open>proc\<close> of theory Async: it runs over a schedule that says, for each of its awaits, which steps of the
  rest of the program happen meanwhile and how the promise settles, or that it never does. A property of such a
  method is about all schedules, at every await and at its end. Errors are values: a method gives \<open>Inl\<close> of what it throws.
  What other code decides is an argument: \<open>JSON.parse\<close>, \<open>Date.parse\<close> and \<open>Date.now\<close>, environment variables, the
  file system, the outcome of \<open>listen\<close>, the answers and the output of Pi, the chunks in which data arrives and the
  events of Node's sockets. \<open>JSON.stringify\<close> is defined (theory Protocol); where something that was written is
  read back, the hypothesis \<open>reads_back\<close> says of \<open>JSON.parse\<close> that it reads what \<open>JSON.stringify\<close> writes of that value.

  \<^bold>\<open>Theories.\<close>
  \<^item> Prelude: JavaScript values, thrown errors (\<open>errors.ts\<close>), decimal texts, lists. Protocol: events, JSON-RPC
    messages and their text (\<open>protocol/events.ts\<close>, \<open>json-rpc.ts\<close>, \<open>types.ts\<close>). Paths: \<open>node:path\<close>. Line_Framing: the loop that cuts
    what arrives into lines, with the locale \<open>line_reader\<close> that the worker, the connection and the socket client
    instantiate. Async: asynchronous operations and the locale \<open>interference\<close>, the rely condition that other code keeps.
  \<^item> Event_Bus; Event_Delivery and Event_Bus_Props: delivery in order and complete, with listeners that call back
    into the bus and throw; replay from a cursor is exact.
  \<^item> Buffered_Stream, with the locale \<open>sink\<close> of what a producer may rely on; Turn_Stream and Turn_Stream_Props, with
    the locale \<open>relay\<close>: the frames of a turn are its acceptance and its events, complete and each once.
  \<^item> Versions: \<open>version.ts\<close>. Worker_Pool, Worker_Pool_Props, Worker_Pool_Held, Worker_Pool_Theorems: capacity, failed
    switches, idle workers, and the exclusive use of a worker from its acquisition to its release. Pi_Worker,
    Pi_Worker_Props, Pi_Worker_Theorems: commands are serialised, answered and always return; every run of a process is one of
    the pool's start of its worker, await by await.
  \<^item> Catalog, Catalog_Props: session files, their summaries, other writers. Configuration, Configuration_Props:
    \<open>config.ts\<close>, \<open>security/\<close>, \<open>worker/input-disposition.ts\<close>.
  \<^item> Thread_Queries: the pure functions behind the reading methods. Service_State: the maps of active turns, mutations
    and cleanups with the worker calls they make. Service and Service_Dispatch: the methods, each in the order of its
    statements, and \<open>dispatch\<close>. Service_Props and Service_Contract: reasoning under interference and the locale
    \<open>session_contract\<close>, in which every method is shown once to keep a predicate on the maps. Service_Theorems: its
    two instances (turns and mutations exclude each other; what is mutated is released), sending, starting and ending turns,
    and the refusal of a session that another program has written.
  \<^item> Sse, Http_Server, Http_Client, Wire: both ends of HTTP. Http_Exchange: requests that are answered at once,
    from the client's arguments to its result. Http_Turns: streamed turns, from the frames of the daemon to those of the client.
  \<^item> Json_Rpc_Connection, Json_Rpc_Props: replies, subscriptions and the end of a connection. Socket_Client,
    Socket_Opening, Socket_Props: the client of such a connection, alone and against the server's side.
    Daemon_Client: the sockets that a client of the daemon owns.
  \<^item> Daemon, Daemon_Props: start, failed start and stop; the Unix socket and its path. Network, Network_Props: the
    life of the network server, whose responses end when the write of their error frame settles, and the locale \<open>closing_server\<close> that both servers meet.
  \<^item> Cli_Completion, Cli_Commands, Cli_Render, Cli_Tables, Cli_Runtime, Cli_Props: what can be typed, what is suggested,
    what is asked of the daemon and what is written, up to the exit status.

  \<^bold>\<open>What is proved across components.\<close> The arguments of a command of the command line are those the service's method is
  called with (Cli_Props); a call over HTTP or a socket is the call of that method and returns its result or its error
  (Http_Exchange, Socket_Props); a turn that is followed shows the events that the bus emitted for it, once, in
  order, up to the one that ends it (Event_Bus_Props, Turn_Stream_Props, Http_Turns, Cli_Props); the states of the pool's
  workers are those of the processes (Pi_Worker_Theorems); a turn that ends gives its worker back (Service_Theorems); a connection, a
  client, a failed start and a closed server leave nothing behind (Json_Rpc_Props, Daemon_Client, Daemon_Props, Network_Props).

  \<^bold>\<open>Bounds and fuel.\<close> The listeners of the bus are programs that may emit, subscribe and unsubscribe again, so that
  a call may never return; \<open>exec\<close> takes a fuel and gives \<open>None\<close> when it does not suffice. The properties of the bus are
  about every call that returns; \<open>emit_returns\<close> gives a fuel that suffices for listeners that do not call back, and a connection, whose
  listener does not, computes its own (\<open>quiet_fuel\<close>, the length of the replay and a constant). All other loops
  are total functions. Numbers are exact: integers where the program counts or measures time, rationals where a text is read by
  \<open>Number\<close>; values beyond \<open>2 ^ 53\<close>, where JavaScript would round, are not distinguished. Strings are lists
  of characters, whose length in bytes is \<open>byteLength\<close>.

  \<^bold>\<open>Simplifications.\<close> A timer is an input that may come at any time after it was set and before it was cleared. A
  write to a slow reader is the text and, later, the outcome of the wait (\<open>write_begin\<close>, \<open>write_settled\<close>), which are apart in the network
  server and one after the other where a single exchange is followed (Http_Turns). The path of the Unix socket is changed
  by other processes between any two system calls of the daemon. \<open>timingSafeEqual\<close> is equality. Promise jobs of
  one turn of the event loop may be interleaved more freely than the engine does, which only adds runs; the await of
  a helper that returns at once (a worker that is retained, no settings to apply) is no suspension. A missing
  text among the parameters of a method is read as the empty text, where the program would fail with a \<open>TypeError\<close>.

  \<^bold>\<open>Not modelled.\<close> The spawning of processes, Node's sockets, requests and servers, the packages \<open>ws\<close> and
  \<open>commander\<close> (whose parsed options are arguments) and the reading and writing of files, beyond what their events and
  outcomes say; the opening of a request in \<open>client/http-client.ts\<close>, with its agent; the constant texts of help and of the shell
  scripts of \<open>cli/completion.ts\<close>; the signal handlers of \<open>cli/runtime.ts\<close>. \<open>scripts/\<close> builds and publishes
  releases and \<open>smoke/\<close> and \<open>test/\<close> hold tests; neither is part of the program.

  \<^bold>\<open>What modelling showed.\<close> A failed switch retires its worker, where \<open>DESIGN.md\<close> says that the association rolls back
  (Worker_Pool_Theorems). A model id may have slashes of its own, where \<open>DESIGN.md\<close> allows one (Service_Theorems). The
  descending order of entries is lost when only the last are asked for (\<open>entries_are_last_messages\<close>). A daemon that is
  told to stop while its network server binds leaves that server open (\<open>late_network_stays_open\<close>). A number option that
  is no number is sent as null, which asks for no messages at all (Cli_Props). Completion suggests flags after
  \<open>--\<close>, where they are operands (Cli_Completion). Another process's socket may be removed when it takes the path between the
  daemon's last look at it and the removal (Daemon_Props).
\<close>

end
